(* ===== verification/Prelude.thy ===== *)
theory Prelude
  imports Complex_Main "HOL-Library.Word" "HOL-Library.Multiset"
begin

text \<open>
  What every component of the development shares: the Go vocabulary the source is written in
  (times and durations as nanosecond counts, decimal and quoted rendering of \<^verbatim>\<open>fmt\<close>, results
  with an error), the list idioms its loops translate to (first match, last match, in-place
  update of the last match), and the collections of facts the component proofs pass to the
  simplifier.

  A \<^verbatim>\<open>time.Time\<close> is an integer number of nanoseconds since the Unix epoch and a
  \<^verbatim>\<open>time.Duration\<close> an integer number of nanoseconds. A \<^verbatim>\<open>float64\<close> is a real: rounding of the
  arithmetic is not modelled, comparisons against authored thresholds are exact. A pointer is
  an \<^verbatim>\<open>option\<close>, \<^verbatim>\<open>nil\<close> being \<^verbatim>\<open>None\<close>; a pair of a value and an \<^verbatim>\<open>ok\<close> flag is an \<^verbatim>\<open>option\<close>
  too; a pair of a value and an \<^verbatim>\<open>error\<close> is a sum with the error on the left.
\<close>

named_theorems record_defs \<open>definitions that build boundary records field by field\<close>
named_theorems inv_intros \<open>introduction rules for component invariants\<close>

subsection \<open>Time\<close>

type_synonym time = int
type_synonym duration = int

abbreviation second :: duration where
  "second \<equiv> 1000000000"

abbreviation minute :: duration where
  "minute \<equiv> 60000000000"

abbreviation hour :: duration where
  "hour \<equiv> 3600000000000"

text \<open>The zero \<^verbatim>\<open>time.Time\<close> is the first instant of year one, not the epoch.\<close>

definition zero_time :: time where
  "zero_time = - 62135596800 * 1000000000"

definition is_zero_time :: "time \<Rightarrow> bool" where
  "is_zero_time t \<longleftrightarrow> t = zero_time"

text \<open>\<^verbatim>\<open>Time.Unix\<close> counts whole seconds and rounds towards the past.\<close>

definition unix_seconds :: "time \<Rightarrow> int" where
  "unix_seconds t = t div 1000000000"

text \<open>\<^verbatim>\<open>Time.Sub\<close> saturates at the bounds of a 64 bit duration.\<close>

definition max_duration :: duration where
  "max_duration = 2 ^ 63 - 1"

definition min_duration :: duration where
  "min_duration = - (2 ^ 63)"

definition time_sub :: "time \<Rightarrow> time \<Rightarrow> duration" where
  "time_sub a b = max min_duration (min max_duration (a - b))"

lemma time_sub_less_iff:
  assumes "min_duration < d" "d \<le> max_duration"
  shows "time_sub a b < d \<longleftrightarrow> a - b < d"
  using assms by (auto simp: time_sub_def min_duration_def max_duration_def)

lemma time_sub_le_iff:
  assumes "min_duration \<le> d" "d < max_duration"
  shows "time_sub a b \<le> d \<longleftrightarrow> a - b \<le> d"
  using assms by (auto simp: time_sub_def min_duration_def max_duration_def)

lemma time_sub_mono: "a \<le> a' \<Longrightarrow> time_sub a b \<le> time_sub a' b"
  by (auto simp: time_sub_def)

lemma unix_seconds_mono: "s \<le> t \<Longrightarrow> unix_seconds s \<le> unix_seconds t"
  by (simp add: unix_seconds_def zdiv_mono1)

subsection \<open>Decimal rendering\<close>

definition digit_char :: "nat \<Rightarrow> char" where
  "digit_char d = char_of (48 + d)"

fun show_nat :: "nat \<Rightarrow> string" where
  "show_nat n = (if n < 10 then [digit_char n] else show_nat (n div 10) @ [digit_char (n mod 10)])"

declare show_nat.simps [simp del]

definition show_int :: "int \<Rightarrow> string" where
  "show_int i = (if i < 0 then CHR ''-'' # show_nat (nat (- i)) else show_nat (nat i))"

definition is_digit :: "char \<Rightarrow> bool" where
  "is_digit c \<longleftrightarrow> 48 \<le> (of_char c :: nat) \<and> (of_char c :: nat) \<le> 57"

definition digit_value :: "char \<Rightarrow> nat" where
  "digit_value c = of_char c - 48"

text \<open>The value of a digit string, most significant digit first.\<close>

definition digits_value :: "string \<Rightarrow> nat" where
  "digits_value s = foldl (\<lambda>n c. 10 * n + digit_value c) 0 s"

lemma of_char_digit_char: "d < 10 \<Longrightarrow> (of_char (digit_char d) :: nat) = 48 + d"
  by (simp add: digit_char_def)

lemma is_digit_digit_char [simp]: "d < 10 \<Longrightarrow> is_digit (digit_char d)"
  by (simp add: is_digit_def of_char_digit_char)

lemma digit_value_digit_char [simp]: "d < 10 \<Longrightarrow> digit_value (digit_char d) = d"
  by (simp add: digit_value_def of_char_digit_char)

lemma show_nat_nonempty [simp]: "show_nat n \<noteq> []"
  by (subst show_nat.simps) simp

lemma show_nat_digits: "list_all is_digit (show_nat n)"
proof (induction n rule: show_nat.induct)
  case (1 n)
  then show ?case by (subst show_nat.simps) simp
qed

lemma digits_value_snoc: "digits_value (s @ [c]) = 10 * digits_value s + digit_value c"
  by (simp add: digits_value_def)

lemma digits_value_show_nat [simp]: "digits_value (show_nat n) = n"
proof (induction n rule: show_nat.induct)
  case (1 n)
  show ?case
  proof (cases "n < 10")
    case True
    then show ?thesis by (simp add: show_nat.simps [of n] digits_value_def)
  next
    case False
    with 1 have "digits_value (show_nat (n div 10)) = n div 10" by simp
    with False show ?thesis by (simp add: show_nat.simps [of n] digits_value_snoc)
  qed
qed

lemma show_nat_inject [simp]: "show_nat m = show_nat n \<longleftrightarrow> m = n"
  by (metis digits_value_show_nat)

lemma hd_show_nat_is_digit: "is_digit (hd (show_nat n))"
  using show_nat_digits [of n] show_nat_nonempty [of n]
  by (cases "show_nat n") auto

lemma minus_not_digit [simp]: "\<not> is_digit (CHR ''-'')"
  by (simp add: is_digit_def)

lemma show_int_inject [simp]: "show_int i = show_int j \<longleftrightarrow> i = j"
proof -
  have neg: "CHR ''-'' # s \<noteq> show_nat n" for s n
    using hd_show_nat_is_digit [of n] by (cases "show_nat n") auto
  show ?thesis
    using neg [of "show_nat (nat (- i))" "nat j"] neg [of "show_nat (nat (- j))" "nat i"]
    by (auto simp: show_int_def)
qed

subsection \<open>Quoted rendering\<close>

text \<open>
  The verb \<^verbatim>\<open>%q\<close> of \<^verbatim>\<open>fmt\<close>: a double-quoted Go string literal. Bytes from 128 on belong to
  a UTF-8 sequence and are kept, as \<^verbatim>\<open>strconv.Quote\<close> keeps a printable rune.
\<close>

definition hex_char :: "nat \<Rightarrow> char" where
  "hex_char d = (if d < 10 then char_of (48 + d) else char_of (87 + d))"

definition quote_char :: "char \<Rightarrow> string" where
  "quote_char c =
     (let n = (of_char c :: nat) in
      if n = 34 \<or> n = 92 then [CHR 0x5C, c]
      else if n = 7 then CHR 0x5C # ''a''
      else if n = 8 then CHR 0x5C # ''b''
      else if n = 12 then CHR 0x5C # ''f''
      else if n = 10 then CHR 0x5C # ''n''
      else if n = 13 then CHR 0x5C # ''r''
      else if n = 9 then CHR 0x5C # ''t''
      else if n = 11 then CHR 0x5C # ''v''
      else if n < 32 \<or> n = 127 then CHR 0x5C # CHR ''x'' # hex_char (n div 16) # [hex_char (n mod 16)]
      else [c])"

definition go_quote :: "string \<Rightarrow> string" where
  "go_quote s = CHR 0x22 # concat (map quote_char s) @ [CHR 0x22]"

fun join :: "string \<Rightarrow> string list \<Rightarrow> string" where
  "join sep [] = []"
| "join sep [s] = s"
| "join sep (s # t # ss) = s @ sep @ join sep (t # ss)"

subsection \<open>Results\<close>

text \<open>The early return of an error: \<^verbatim>\<open>if err != nil { return err }\<close>.\<close>

definition res_bind :: "'e + 'a \<Rightarrow> ('a \<Rightarrow> 'e + 'b) \<Rightarrow> 'e + 'b" where
  "res_bind r f = (case r of Inl e \<Rightarrow> Inl e | Inr a \<Rightarrow> f a)"

lemma res_bind_simps [simp]:
  "res_bind (Inl e) f = Inl e"
  "res_bind (Inr a) f = f a"
  by (simp_all add: res_bind_def)

lemma res_bind_eq_Inr: "res_bind r f = Inr b \<longleftrightarrow> (\<exists>a. r = Inr a \<and> f a = Inr b)"
  by (cases r) auto

lemma res_bind_eq_Inl: "res_bind r f = Inl e \<longleftrightarrow> r = Inl e \<or> (\<exists>a. r = Inr a \<and> f a = Inl e)"
  by (cases r) auto

subsection \<open>Search and update in a slice\<close>

text \<open>
  A Go loop that returns the first element satisfying a test is the library's \<^const>\<open>List.find\<close>.
  Loops that run from the last index down, and change the element they stop at, are
  \<open>find_last\<close> and \<open>update_last\<close>.
\<close>

fun update_first :: "('a \<Rightarrow> bool) \<Rightarrow> ('a \<Rightarrow> 'a) \<Rightarrow> 'a list \<Rightarrow> 'a list" where
  "update_first p f [] = []"
| "update_first p f (x # xs) = (if p x then f x # xs else x # update_first p f xs)"

definition update_last :: "('a \<Rightarrow> bool) \<Rightarrow> ('a \<Rightarrow> 'a) \<Rightarrow> 'a list \<Rightarrow> 'a list" where
  "update_last p f xs = rev (update_first p f (rev xs))"

definition find_last :: "('a \<Rightarrow> bool) \<Rightarrow> 'a list \<Rightarrow> 'a option" where
  "find_last p xs = List.find p (rev xs)"

lemma find_eq_Some_in_set: "List.find p xs = Some x \<Longrightarrow> x \<in> set xs \<and> p x"
  by (auto simp: find_Some_iff)

lemma find_last_Nil [simp]: "find_last p [] = None"
  by (simp add: find_last_def)

lemma find_last_snoc [simp]: "find_last p (xs @ [x]) = (if p x then Some x else find_last p xs)"
  by (simp add: find_last_def)

lemma find_append:
  "List.find p (xs @ ys) = (case List.find p xs of None \<Rightarrow> List.find p ys | Some x \<Rightarrow> Some x)"
  by (induction xs) auto

lemma find_last_Cons:
  "find_last p (x # xs) = (case find_last p xs of None \<Rightarrow> if p x then Some x else None | Some y \<Rightarrow> Some y)"
  by (simp add: find_last_def find_append split: option.split)

lemma find_last_distinct:
  assumes "distinct (map f xs)"
  shows "find_last (\<lambda>x. f x = k) xs = List.find (\<lambda>x. f x = k) xs"
  using assms
proof (induction xs)
  case (Cons x xs)
  show ?case
  proof (cases "f x = k")
    case True
    with Cons.prems have "find_last (\<lambda>x. f x = k) xs = None"
      by (auto simp: find_last_def find_None_iff) (metis image_eqI)
    with True show ?thesis by (simp add: find_last_Cons)
  next
    case False
    with Cons show ?thesis by (simp add: find_last_Cons split: option.split)
  qed
qed simp

lemma find_last_None_iff: "find_last p xs = None \<longleftrightarrow> (\<forall>x \<in> set xs. \<not> p x)"
  by (auto simp: find_last_def find_None_iff)

lemma find_last_Some_in_set: "find_last p xs = Some x \<Longrightarrow> x \<in> set xs \<and> p x"
  by (auto simp: find_last_def dest: find_eq_Some_in_set)

lemma update_last_Nil [simp]: "update_last p f [] = []"
  by (simp add: update_last_def)

lemma update_last_snoc [simp]:
  "update_last p f (xs @ [x]) = (if p x then xs @ [f x] else update_last p f xs @ [x])"
  by (simp add: update_last_def)

lemma length_update_first [simp]: "length (update_first p f xs) = length xs"
  by (induction xs) auto

lemma length_update_last [simp]: "length (update_last p f xs) = length xs"
  by (simp add: update_last_def)

lemma update_last_no_match: "\<forall>x \<in> set xs. \<not> p x \<Longrightarrow> update_last p f xs = xs"
  by (induction xs rule: rev_induct) auto

lemma set_update_last_subset:
  "set (update_last p f xs) \<subseteq> set xs \<union> f ` {x \<in> set xs. p x}"
  by (induction xs rule: rev_induct) auto

lemma list_all_update_last:
  "list_all q xs \<Longrightarrow> (\<And>x. x \<in> set xs \<Longrightarrow> p x \<Longrightarrow> q x \<Longrightarrow> q (f x)) \<Longrightarrow>
   list_all q (update_last p f xs)"
  by (induction xs rule: rev_induct) auto

lemma filter_update_last_other:
  "(\<And>x. p x \<Longrightarrow> \<not> q x \<and> \<not> q (f x)) \<Longrightarrow> filter q (update_last p f xs) = filter q xs"
  by (induction xs rule: rev_induct) auto

lemma map_update_last:
  "(\<And>x. p x \<Longrightarrow> g (f x) = g x) \<Longrightarrow> map g (update_last p f xs) = map g xs"
  by (induction xs rule: rev_induct) auto

text \<open>The element found is the one updated: the split of the list at the last match.\<close>

lemma find_last_split:
  "find_last p xs = Some x \<Longrightarrow>
   \<exists>ys zs. xs = ys @ x # zs \<and> p x \<and> (\<forall>z \<in> set zs. \<not> p z) \<and> update_last p f xs = ys @ f x # zs"
proof (induction xs rule: rev_induct)
  case Nil
  then show ?case by simp
next
  case (snoc y xs)
  show ?case
  proof (cases "p y")
    case True
    with snoc.prems show ?thesis by (intro exI [of _ xs] exI [of _ "[]"]) auto
  next
    case False
    with snoc obtain ys zs where "xs = ys @ x # zs" "p x" "\<forall>z \<in> set zs. \<not> p z"
      "update_last p f xs = ys @ f x # zs"
      by auto
    with False have "xs @ [y] = ys @ x # (zs @ [y]) \<and> p x \<and> (\<forall>z \<in> set (zs @ [y]). \<not> p z) \<and>
      update_last p f (xs @ [y]) = ys @ f x # (zs @ [y])"
      using update_last_snoc [of p f xs y] by simp
    then show ?thesis by blast
  qed
qed

subsection \<open>Maps\<close>

text \<open>Reading a Go map: a missing key gives the zero value of the element type.\<close>

definition map_get :: "'v \<Rightarrow> ('k \<rightharpoonup> 'v) \<Rightarrow> 'k \<Rightarrow> 'v" where
  "map_get z m k = (case m k of None \<Rightarrow> z | Some v \<Rightarrow> v)"

lemma map_get_simps [simp]:
  "map_get z Map.empty k = z"
  "map_get z (m(k \<mapsto> v)) k = v"
  "k \<noteq> l \<Longrightarrow> map_get z (m(k \<mapsto> v)) l = map_get z m l"
  by (simp_all add: map_get_def)

subsection \<open>Real bounds\<close>

lemma unit_mult_closed:
  fixes a b :: real
  assumes "0 \<le> a" "a \<le> 1" "0 \<le> b" "b \<le> 1"
  shows "0 \<le> a * b" "a * b \<le> 1"
proof -
  show "0 \<le> a * b" using assms by simp
  have "a * b \<le> 1 * 1" using assms by (intro mult_mono) auto
  then show "a * b \<le> 1" by simp
qed

end
