(* ===== verification/Boundary.thy ===== *)
theory Boundary
  imports Prelude
begin

text \<open>
  The boundary vocabulary the beats exchange, package by package of \<^verbatim>\<open>src/api/v1\<close>: the
  detection rattle emits (\<^verbatim>\<open>signal\<close>), the proposal set clank emits and the snapshot it reasoned
  over (\<^verbatim>\<open>proposal\<close>), the decision hiss seals around it (\<^verbatim>\<open>decision\<close>), the approval an operator
  sends (\<^verbatim>\<open>approval\<close>) and the outcome thump reports (\<^verbatim>\<open>outcome\<close>), with the lookups and the
  \<^verbatim>\<open>Auditable\<close> checks the packages define on them.

  A Go struct is a record whose field names carry a prefix per struct. A named string type with
  declared constants is a datatype with one constructor per constant and one more,
  \<open>\<dots>Other\<close>, for any other string a decoder can produce; the empty string is \<open>\<dots>Other []\<close>.
\<close>

subsection \<open>signal\<close>

record severity =
  sevDegradationPct :: real
  sevTrajectory :: string

record blast_radius =
  brAffectedPct :: real
  brVelocity :: string
  brDownstreamConsumers :: int

record impact =
  impSeverity :: severity
  impBlastRadius :: blast_radius

record divergence =
  divMetric :: string
  divObserved :: real
  divBaseline :: real
  divConfidence :: real
  divTrajectory :: string

record observed_node =
  onName :: string
  onState :: string

record topology_context =
  tcUpstream :: "observed_node list"
  tcDownstream :: "observed_node list"

record traffic_context =
  trAffectedPct :: real
  trBaseline :: real
  trBaselineWindow :: string

record detection =
  detName :: string
  detFingerprint :: string
  detOriginService :: string
  detServiceTier :: string
  detDetectorType :: string
  detDivergence :: divergence
  detTopology :: topology_context
  detTraffic :: traffic_context
  detImpact :: impact
  detContractRef :: string
  detSLORef :: string
  detDetectedAt :: time

subsection \<open>proposal: the snapshot\<close>

record node_state =
  nsName :: string
  nsState :: string
  nsDegradedSince :: duration
  nsTrafficShare :: real

record topology_snapshot =
  tsUpstream :: "node_state list"
  tsDownstream :: "node_state list"

record change_event =
  ceID :: string
  ceType :: string
  ceTarget :: string
  ceAge :: duration
  ceCausalLikelihood :: real
  ceRationale :: "string list"
  cePredictedSignals :: "string list"
  ceHistoricalStaleness :: duration

record change_snapshot =
  chEvents :: "change_event list"

record signal_snapshot =
  ssConfidence :: real
  ssMetric :: string
  ssSeverity :: severity
  ssBlastRadius :: blast_radius
  ssOriginService :: string

record sao =
  saoVersion :: int
  saoAssembledAt :: time
  saoSignal :: signal_snapshot
  saoTopology :: topology_snapshot
  saoChange :: change_snapshot

subsection \<open>proposal: the set\<close>

datatype blast_tier = BlastLow | BlastMed | BlastHigh | BlastOther string

datatype phase = PhaseProposed | PhaseAcknowledge | PhaseActed | PhaseSuperseded | PhaseClosed
  | PhaseNoAction | PhaseBudgetExhausted | PhaseDeclined | PhaseOther string

type_synonym failure_class = string

abbreviation ClassUnknown :: failure_class where
  "ClassUnknown \<equiv> ''unknown''"

record hypothesis =
  hypName :: string
  hypWeight :: real

record evidence_ref =
  evTool :: string
  evQuery :: string
  evKey :: string
  evSummary :: string
  evRef :: string
  evLive :: bool
  evSubject :: string

record confidence_terms =
  ctSignalConfidence :: real
  ctCorroborated :: int
  ctGrounding :: real
  ctAlignmentOK :: bool
  ctLikelihoodOK :: bool

record predicted_impact =
  piSeverityReductionPct :: real
  piBlastRadiusDelta :: real
  piSLOEffects :: "string \<rightharpoonup> string"

record reversal_path =
  rpMethod :: string
  rpWatching :: string
  rpTrigger :: string
  rpAutomatic :: bool

record governance_level =
  glBand :: string
  glThresholdApplied :: real

record candidate =
  cndID :: string
  cndContractRef :: string
  cndConfidence :: real
  cndComputedConfidence :: real
  cndConfidenceCeilingBound :: bool
  cndTerms :: confidence_terms
  cndPredictedImpact :: "predicted_impact option"
  cndBlastTier :: blast_tier
  cndReversalPath :: "reversal_path option"
  cndGovernanceLevel :: "governance_level option"
  cndRank :: int
  cndCitations :: "string list"

record gate_result =
  grBudgetOK :: bool
  grDedupeOK :: bool
  grEvidenceOK :: bool
  grPassed :: bool
  grReason :: string

text \<open>
  The lines of a causal score's rationale, one constructor per format string of
  \<^verbatim>\<open>src/internal/clank/causal.go\<close> with the values the line prints.
\<close>

datatype rationale_line =
    TemporalLine duration real
  | TopologicalLine bool real
  | PriorLine duration real
  | CorroboratedLine real duration real
  | CappedLine real
  | PredictedAbsentLine string real
  | OutsideTopologyLine string

record causal_score =
  csEventID :: string
  csInTopology :: bool
  csTemporal :: real
  csTopological :: real
  csHistorical :: real
  csLiveCorroborated :: bool
  csLikelihood :: real
  csRationale :: "rationale_line list"

record ranking_rationale =
  rrDominantAxis :: string
  rrVelocityWeight :: string

record status =
  stPhase :: phase
  stReason :: string
  stSupersededBy :: string
  stOutcome :: string
  stObservedAt :: time

record proposal_set =
  psName :: string
  psRunID :: string
  psSignalRef :: string
  psSLORef :: string
  psSAOSnapshot :: "sao option"
  psFailureClass :: failure_class
  psCausalScores :: "causal_score list"
  psHypotheses :: "hypothesis list"
  psEvidence :: "evidence_ref list"
  psServiceTier :: string
  psGate :: "gate_result option"
  psProposals :: "candidate list"
  psRecommended :: string
  psRankingRationale :: "ranking_rationale option"
  psStatus :: "status option"

definition zero_terms :: confidence_terms where
  "zero_terms = \<lparr>ctSignalConfidence = 0, ctCorroborated = 0, ctGrounding = 0,
     ctAlignmentOK = False, ctLikelihoodOK = False\<rparr>"

definition candidateFor :: "proposal_set \<Rightarrow> string \<Rightarrow> candidate option" where
  "candidateFor s i = List.find (\<lambda>c. cndID c = i) (psProposals s)"

definition contractRefFor :: "proposal_set \<Rightarrow> string \<Rightarrow> string" where
  "contractRefFor s i = (case candidateFor s i of None \<Rightarrow> [] | Some c \<Rightarrow> cndContractRef c)"

definition confidenceFor :: "proposal_set \<Rightarrow> string \<Rightarrow> real" where
  "confidenceFor s i = (case candidateFor s i of None \<Rightarrow> 0 | Some c \<Rightarrow> cndConfidence c)"

definition computedConfidenceFor :: "proposal_set \<Rightarrow> string \<Rightarrow> real" where
  "computedConfidenceFor s i =
     (case candidateFor s i of None \<Rightarrow> 0 | Some c \<Rightarrow> cndComputedConfidence c)"

definition confidenceCeilingBoundFor :: "proposal_set \<Rightarrow> string \<Rightarrow> bool" where
  "confidenceCeilingBoundFor s i =
     (case candidateFor s i of None \<Rightarrow> False | Some c \<Rightarrow> cndConfidenceCeilingBound c)"

definition termsFor :: "proposal_set \<Rightarrow> string \<Rightarrow> confidence_terms" where
  "termsFor s i = (case candidateFor s i of None \<Rightarrow> zero_terms | Some c \<Rightarrow> cndTerms c)"

subsection \<open>decision\<close>

datatype verdict = VerdictApproved | VerdictEscalate | VerdictRejected | VerdictHold
  | VerdictOther string

datatype band = BandObserve | BandActReversible | BandActDisruptive | BandOther string

text \<open>The conversion \<^verbatim>\<open>decision.Band(s)\<close> and back.\<close>

definition band_of_string :: "string \<Rightarrow> band" where
  "band_of_string s =
     (if s = ''observe'' then BandObserve
      else if s = ''act_reversible'' then BandActReversible
      else if s = ''act_disruptive'' then BandActDisruptive
      else BandOther s)"

fun band_string :: "band \<Rightarrow> string" where
  "band_string BandObserve = ''observe''"
| "band_string BandActReversible = ''act_reversible''"
| "band_string BandActDisruptive = ''act_disruptive''"
| "band_string (BandOther s) = s"

abbreviation ReasonConfidenceFloor :: string where "ReasonConfidenceFloor \<equiv> ''confidence_floor''"
abbreviation ReasonGroundingFloor :: string where "ReasonGroundingFloor \<equiv> ''grounding_floor''"
abbreviation ReasonAuthorityCeiling :: string where "ReasonAuthorityCeiling \<equiv> ''authority_ceiling''"
abbreviation ReasonIrreversible :: string where "ReasonIrreversible \<equiv> ''irreversible''"
abbreviation ReasonFreezeWindow :: string where "ReasonFreezeWindow \<equiv> ''freeze_window''"
abbreviation ReasonUngatedInput :: string where "ReasonUngatedInput \<equiv> ''ungated_input''"
abbreviation ReasonRiskCeiling :: string where "ReasonRiskCeiling \<equiv> ''risk_ceiling''"

record decision =
  decID :: string
  decProposalRef :: string
  decSignalRef :: string
  decSLORef :: string
  decCandidateRef :: string
  decVerdict :: verdict
  decReasons :: "string list"
  decRequestedBand :: band
  decGrantedBand :: band
  decRiskBand :: band
  decFloorApplied :: real
  decPolicyVersion :: string
  decEvaluatedAt :: time
  decForced :: bool
  decOperator :: string
  decApprover :: string

record governed =
  govDecision :: decision
  govSet :: proposal_set

datatype audit_error =
    MissingPolicyVersion | MissingEvaluationTime | NoReasons verdict
  | MissingDecisionRef | MissingExecutionTime | MissingMode | MissingResult | NoErrorText
  | MissingSignalRef | MissingApprover | MissingAckTime

definition decision_auditable :: "decision \<Rightarrow> audit_error option" where
  "decision_auditable d =
     (if decPolicyVersion d = [] then Some MissingPolicyVersion
      else if is_zero_time (decEvaluatedAt d) then Some MissingEvaluationTime
      else if decVerdict d \<noteq> VerdictApproved \<and> decReasons d = []
        then Some (NoReasons (decVerdict d))
      else None)"

definition awaitsApproval :: "verdict \<Rightarrow> bool" where
  "awaitsApproval v \<longleftrightarrow> v = VerdictEscalate \<or> v = VerdictHold"

subsection \<open>outcome\<close>

datatype mode = ModeDryRun | ModeLive | ModeOther string

datatype result = ResultRendered | ResultApplied | ResultProposed | ResultSuccess | ResultFailure
  | ResultUnknown | ResultBlocked | ResultPartialNonConverging | ResultOther string

fun result_string :: "result \<Rightarrow> string" where
  "result_string ResultRendered = ''rendered''"
| "result_string ResultApplied = ''applied''"
| "result_string ResultProposed = ''proposed''"
| "result_string ResultSuccess = ''success''"
| "result_string ResultFailure = ''failure''"
| "result_string ResultUnknown = ''unknown''"
| "result_string ResultBlocked = ''blocked''"
| "result_string ResultPartialNonConverging = ''partial_non_converging''"
| "result_string (ResultOther s) = s"

record outcome =
  outID :: string
  outDecisionRef :: string
  outSignalRef :: string
  outContractRef :: string
  outMode :: mode
  outResult :: result
  outError :: string
  outExecutedAt :: time
  outObservedSeverity :: "real option"

definition outcome_auditable :: "outcome \<Rightarrow> audit_error option" where
  "outcome_auditable o' =
     (if outDecisionRef o' = [] then Some MissingDecisionRef
      else if is_zero_time (outExecutedAt o') then Some MissingExecutionTime
      else if outMode o' = ModeOther [] then Some MissingMode
      else if outResult o' = ResultOther [] then Some MissingResult
      else if (outResult o' = ResultFailure \<or> outResult o' = ResultPartialNonConverging)
              \<and> outError o' = [] then Some NoErrorText
      else None)"

subsection \<open>approval\<close>

record approval =
  apSignalRef :: string
  apApprover :: string
  apApprovedAt :: time
  apCapBand :: string

definition approval_auditable :: "approval \<Rightarrow> audit_error option" where
  "approval_auditable a =
     (if apSignalRef a = [] then Some MissingSignalRef
      else if apApprover a = [] then Some MissingApprover
      else if is_zero_time (apApprovedAt a) then Some MissingAckTime
      else None)"

subsection \<open>Facts on the vocabulary\<close>

lemma candidateFor_in_set:
  "candidateFor s i = Some c \<Longrightarrow> c \<in> set (psProposals s) \<and> cndID c = i"
  by (auto simp: candidateFor_def dest: find_eq_Some_in_set)

lemma candidateFor_None_iff:
  "candidateFor s i = None \<longleftrightarrow> (\<forall>c \<in> set (psProposals s). cndID c \<noteq> i)"
  by (auto simp: candidateFor_def find_None_iff)

lemma band_string_of_string [simp]: "band_string (band_of_string s) = s"
  by (simp add: band_of_string_def)

lemma decision_auditable_None_iff:
  "decision_auditable d = None \<longleftrightarrow>
     decPolicyVersion d \<noteq> [] \<and> decEvaluatedAt d \<noteq> zero_time \<and>
     (decVerdict d = VerdictApproved \<or> decReasons d \<noteq> [])"
  by (auto simp: decision_auditable_def is_zero_time_def)

lemma outcome_auditable_None_iff:
  "outcome_auditable x = None \<longleftrightarrow>
     outDecisionRef x \<noteq> [] \<and> outExecutedAt x \<noteq> zero_time \<and> outMode x \<noteq> ModeOther [] \<and>
     outResult x \<noteq> ResultOther [] \<and>
     (outResult x \<in> {ResultFailure, ResultPartialNonConverging} \<longrightarrow> outError x \<noteq> [])"
  by (auto simp: outcome_auditable_def is_zero_time_def)

lemma approval_auditable_None_iff:
  "approval_auditable a = None \<longleftrightarrow>
     apSignalRef a \<noteq> [] \<and> apApprover a \<noteq> [] \<and> apApprovedAt a \<noteq> zero_time"
  by (auto simp: approval_auditable_def is_zero_time_def)

lemma awaitsApproval_simps [simp]:
  "awaitsApproval VerdictEscalate" "awaitsApproval VerdictHold"
  "\<not> awaitsApproval VerdictApproved" "\<not> awaitsApproval VerdictRejected"
  "\<not> awaitsApproval (VerdictOther s)"
  by (simp_all add: awaitsApproval_def)

subsection \<open>Concrete values\<close>

text \<open>A candidate, a set and an approval the witnesses of the development evaluate.\<close>

definition example_candidate :: candidate where
  "example_candidate = \<lparr>cndID = ''c1'', cndContractRef = ''scale-out'', cndConfidence = 9/10,
     cndComputedConfidence = 9/10, cndConfidenceCeilingBound = False, cndTerms = zero_terms,
     cndPredictedImpact = None, cndBlastTier = BlastLow,
     cndReversalPath = Some \<lparr>rpMethod = ''scale_in'', rpWatching = ''errors'',
       rpTrigger = ''< 0.01'', rpAutomatic = True\<rparr>,
     cndGovernanceLevel = Some \<lparr>glBand = ''act_reversible'', glThresholdApplied = 0\<rparr>,
     cndRank = 1, cndCitations = [''kube#1'']\<rparr>"

definition example_set :: proposal_set where
  "example_set = \<lparr>psName = ''ps1'', psRunID = ''fp/1'', psSignalRef = ''fp'', psSLORef = ''slo'',
     psSAOSnapshot = None, psFailureClass = ''service_failure'', psCausalScores = [],
     psHypotheses = [], psEvidence = [], psServiceTier = ''tier1'',
     psGate = Some \<lparr>grBudgetOK = True, grDedupeOK = True, grEvidenceOK = True, grPassed = True,
       grReason = []\<rparr>,
     psProposals = [example_candidate], psRecommended = ''c1'', psRankingRationale = None,
     psStatus = None\<rparr>"

definition example_decision :: decision where
  "example_decision = \<lparr>decID = ''dec:fp:1'', decProposalRef = ''ps1'', decSignalRef = ''fp'',
     decSLORef = ''slo'', decCandidateRef = ''c1'', decVerdict = VerdictApproved, decReasons = [],
     decRequestedBand = BandActReversible, decGrantedBand = BandActReversible,
     decRiskBand = BandActReversible, decFloorApplied = 1/2, decPolicyVersion = ''v1'',
     decEvaluatedAt = 150, decForced = False, decOperator = [], decApprover = []\<rparr>"

definition example_governed :: governed where
  "example_governed = \<lparr>govDecision = example_decision, govSet = example_set\<rparr>"

end
