(* ===== verification/Authority.thy ===== *)
theory Authority
  imports Boundary
begin

text \<open>
  The governance verdict of \<^verbatim>\<open>src/internal/hiss\<close>: the authored policy (\<^verbatim>\<open>policy.go\<close>), the risk
  lattice (\<^verbatim>\<open>risk.go\<close>) and the two-stage evaluation of one proposal set (\<^verbatim>\<open>authority.go\<close>).
  Stage one collects a reason per failed minimum; stage two compares the intrinsic risk of an
  eligible candidate with the tier's ceiling for unattended action.
\<close>

record window =
  winName :: string
  winStart :: time
  winEnd :: time

record policy =
  polVersion :: string
  polConfidenceGate :: string
  polFloors :: "string \<rightharpoonup> (failure_class \<rightharpoonup> real)"
  polMaxBand :: "string \<rightharpoonup> band"
  polAutoBand :: "string \<rightharpoonup> band"
  polFreezeWindows :: "window list"
  polRequireReversal :: bool

definition riskBand :: "bool \<Rightarrow> bool \<Rightarrow> blast_tier \<Rightarrow> band" where
  "riskBand reversible automatic blast =
     (if \<not> reversible then BandActDisruptive
      else if \<not> automatic then BandActDisruptive
      else if blast = BlastHigh then BandActDisruptive
      else BandActReversible)"

fun bandRank :: "band \<Rightarrow> int" where
  "bandRank BandObserve = 0"
| "bandRank BandActDisruptive = 2"
| "bandRank BandActReversible = 1"
| "bandRank (BandOther _) = 3"

definition recommended :: "proposal_set \<Rightarrow> candidate option" where
  "recommended ps = List.find (\<lambda>c. cndID c = psRecommended ps) (psProposals ps)"

definition requestedBand :: "candidate \<Rightarrow> band" where
  "requestedBand c =
     (case cndGovernanceLevel c of None \<Rightarrow> BandObserve | Some gl \<Rightarrow> band_of_string (glBand gl))"

definition automatic_undo :: "candidate \<Rightarrow> bool" where
  "automatic_undo c = (case cndReversalPath c of None \<Rightarrow> False | Some rp \<Rightarrow> rpAutomatic rp)"

definition candidate_risk :: "candidate \<Rightarrow> band" where
  "candidate_risk c = riskBand (cndReversalPath c \<noteq> None) (automatic_undo c) (cndBlastTier c)"

definition selfReportBinds :: "candidate \<Rightarrow> bool" where
  "selfReportBinds c \<longleftrightarrow> bandRank (candidate_risk c) > bandRank BandActReversible"

definition effectiveComputedConfidence :: "candidate \<Rightarrow> real" where
  "effectiveComputedConfidence c =
     (if cndComputedConfidence c = 0 \<and> cndConfidence c > 0 then cndConfidence c
      else cndComputedConfidence c)"

text \<open>Missing map entries read as the zero value: no floor, and the empty band.\<close>

definition policy_floor :: "policy \<Rightarrow> string \<Rightarrow> failure_class \<Rightarrow> real" where
  "policy_floor pol tier cls = map_get 0 (map_get Map.empty (polFloors pol) tier) cls"

definition policy_maxBand :: "policy \<Rightarrow> string \<Rightarrow> band" where
  "policy_maxBand pol tier = map_get (BandOther []) (polMaxBand pol) tier"

definition policy_autoBand :: "policy \<Rightarrow> string \<Rightarrow> band" where
  "policy_autoBand pol tier = map_get (BandOther []) (polAutoBand pol) tier"

definition in_window :: "time \<Rightarrow> window \<Rightarrow> bool" where
  "in_window now w \<longleftrightarrow> \<not> now < winStart w \<and> now < winEnd w"

definition confidence_reasons :: "policy \<Rightarrow> candidate \<Rightarrow> real \<Rightarrow> string list" where
  "confidence_reasons pol c flr =
     (if polConfidenceGate pol = ''split'' then
        (if effectiveComputedConfidence c < flr then [ReasonGroundingFloor] else []) @
        (if selfReportBinds c \<and> cndConfidence c < flr then [ReasonConfidenceFloor] else [])
      else (if cndConfidence c < flr then [ReasonConfidenceFloor] else []))"

definition freeze_reasons :: "policy \<Rightarrow> time \<Rightarrow> string list" where
  "freeze_reasons pol now =
     map (\<lambda>w. ReasonFreezeWindow @ '':'' @ winName w)
       (filter (in_window now) (polFreezeWindows pol))"

definition stage_one_reasons :: "proposal_set \<Rightarrow> policy \<Rightarrow> candidate \<Rightarrow> time \<Rightarrow> string list" where
  "stage_one_reasons ps pol c now =
     confidence_reasons pol c (policy_floor pol (psServiceTier ps) (psFailureClass ps)) @
     (if bandRank (requestedBand c) > bandRank (policy_maxBand pol (psServiceTier ps))
      then [ReasonAuthorityCeiling] else []) @
     (if polRequireReversal pol \<and> cndReversalPath c = None then [ReasonIrreversible] else []) @
     freeze_reasons pol now"

definition decision_id :: "string \<Rightarrow> time \<Rightarrow> string" where
  "decision_id fp now = ''dec:'' @ fp @ '':'' @ show_int (unix_seconds now)"

definition draft_decision :: "proposal_set \<Rightarrow> policy \<Rightarrow> time \<Rightarrow> decision" where
  "draft_decision ps pol now =
     \<lparr>decID = decision_id (psSignalRef ps) now,
      decProposalRef = psName ps,
      decSignalRef = psSignalRef ps,
      decSLORef = psSLORef ps,
      decCandidateRef = psRecommended ps,
      decVerdict = VerdictOther [],
      decReasons = [],
      decRequestedBand = BandOther [],
      decGrantedBand = BandOther [],
      decRiskBand = BandOther [],
      decFloorApplied = 0,
      decPolicyVersion = polVersion pol,
      decEvaluatedAt = now,
      decForced = False,
      decOperator = [],
      decApprover = []\<rparr>"

definition gate_passed :: "proposal_set \<Rightarrow> bool" where
  "gate_passed ps = (case psGate ps of None \<Rightarrow> False | Some g \<Rightarrow> grPassed g)"

definition evaluate :: "proposal_set \<Rightarrow> policy \<Rightarrow> time \<Rightarrow> decision" where
  "evaluate ps pol now =
     (let d = draft_decision ps pol now in
      case (if gate_passed ps then recommended ps else None) of
        None \<Rightarrow> d\<lparr>decVerdict := VerdictRejected, decReasons := [ReasonUngatedInput]\<rparr>
      | Some c \<Rightarrow>
          (let reasons = stage_one_reasons ps pol c now;
               d = d\<lparr>decRequestedBand := requestedBand c,
                     decFloorApplied := policy_floor pol (psServiceTier ps) (psFailureClass ps),
                     decReasons := reasons\<rparr>
           in if reasons \<noteq> [] then d\<lparr>decVerdict := VerdictEscalate\<rparr>
              else
                (let d = d\<lparr>decRiskBand := candidate_risk c\<rparr>
                 in if bandRank (candidate_risk c)
                         > bandRank (policy_autoBand pol (psServiceTier ps))
                    then d\<lparr>decReasons := [ReasonRiskCeiling], decVerdict := VerdictHold\<rparr>
                    else d\<lparr>decVerdict := VerdictApproved, decGrantedBand := requestedBand c\<rparr>)))"

subsection \<open>Branches of the evaluation\<close>

lemmas decision_updates = Let_def draft_decision_def

lemma evaluate_threads_refs [simp]:
  "decID (evaluate ps pol now) = decision_id (psSignalRef ps) now"
  "decProposalRef (evaluate ps pol now) = psName ps"
  "decSignalRef (evaluate ps pol now) = psSignalRef ps"
  "decSLORef (evaluate ps pol now) = psSLORef ps"
  "decCandidateRef (evaluate ps pol now) = psRecommended ps"
  "decPolicyVersion (evaluate ps pol now) = polVersion pol"
  "decEvaluatedAt (evaluate ps pol now) = now"
  "decForced (evaluate ps pol now) = False"
  "decApprover (evaluate ps pol now) = []"
  by (simp_all add: evaluate_def decision_updates split: option.split)

lemma evaluate_cases:
  obtains
    (rejected) "\<not> gate_passed ps \<or> recommended ps = None"
      "decVerdict (evaluate ps pol now) = VerdictRejected"
      "decReasons (evaluate ps pol now) = [ReasonUngatedInput]"
      "decGrantedBand (evaluate ps pol now) = BandOther []"
  | (escalated) c where "gate_passed ps" "recommended ps = Some c"
      "stage_one_reasons ps pol c now \<noteq> []"
      "decVerdict (evaluate ps pol now) = VerdictEscalate"
      "decReasons (evaluate ps pol now) = stage_one_reasons ps pol c now"
      "decRequestedBand (evaluate ps pol now) = requestedBand c"
      "decGrantedBand (evaluate ps pol now) = BandOther []"
  | (held) c where "gate_passed ps" "recommended ps = Some c"
      "stage_one_reasons ps pol c now = []"
      "bandRank (candidate_risk c) > bandRank (policy_autoBand pol (psServiceTier ps))"
      "decVerdict (evaluate ps pol now) = VerdictHold"
      "decReasons (evaluate ps pol now) = [ReasonRiskCeiling]"
      "decRequestedBand (evaluate ps pol now) = requestedBand c"
      "decGrantedBand (evaluate ps pol now) = BandOther []"
  | (approved) c where "gate_passed ps" "recommended ps = Some c"
      "stage_one_reasons ps pol c now = []"
      "bandRank (candidate_risk c) \<le> bandRank (policy_autoBand pol (psServiceTier ps))"
      "decVerdict (evaluate ps pol now) = VerdictApproved"
      "decReasons (evaluate ps pol now) = []"
      "decRequestedBand (evaluate ps pol now) = requestedBand c"
      "decGrantedBand (evaluate ps pol now) = requestedBand c"
proof (cases "if gate_passed ps then recommended ps else None")
  case None
  then show ?thesis
    using rejected by (auto simp: evaluate_def decision_updates split: if_splits)
next
  case (Some c)
  then have g: "gate_passed ps" and r: "recommended ps = Some c" by (auto split: if_splits)
  show ?thesis
  proof (cases "stage_one_reasons ps pol c now = []")
    case False
    then show ?thesis using escalated g r by (simp add: evaluate_def decision_updates)
  next
    case True
    then show ?thesis
      using held approved g r by (cases "bandRank (candidate_risk c)
        > bandRank (policy_autoBand pol (psServiceTier ps))") (simp_all add: evaluate_def decision_updates)
  qed
qed

lemma stage_one_clear_iff:
  "stage_one_reasons ps pol c now = [] \<longleftrightarrow>
     confidence_reasons pol c (policy_floor pol (psServiceTier ps) (psFailureClass ps)) = [] \<and>
     bandRank (requestedBand c) \<le> bandRank (policy_maxBand pol (psServiceTier ps)) \<and>
     (polRequireReversal pol \<longrightarrow> cndReversalPath c \<noteq> None) \<and>
     (\<forall>w \<in> set (polFreezeWindows pol). \<not> in_window now w)"
  by (auto simp: stage_one_reasons_def freeze_reasons_def filter_empty_conv)

lemma confidence_clear_iff:
  "confidence_reasons pol c flr = [] \<longleftrightarrow>
     (if polConfidenceGate pol = ''split''
      then flr \<le> effectiveComputedConfidence c \<and> (selfReportBinds c \<longrightarrow> flr \<le> cndConfidence c)
      else flr \<le> cndConfidence c)"
  by (auto simp: confidence_reasons_def)

lemma recommended_in_set: "recommended ps = Some c \<Longrightarrow> c \<in> set (psProposals ps) \<and> cndID c = psRecommended ps"
  by (auto simp: recommended_def dest: find_eq_Some_in_set)

lemma recommended_eq_candidateFor: "recommended ps = candidateFor ps (psRecommended ps)"
  by (simp add: recommended_def candidateFor_def)

subsection \<open>The risk lattice\<close>

lemma riskBand_reversible_iff:
  "riskBand r a b = BandActReversible \<longleftrightarrow> r \<and> a \<and> b \<noteq> BlastHigh"
  by (simp add: riskBand_def)

lemma riskBand_never_observe: "riskBand r a b \<in> {BandActReversible, BandActDisruptive}"
  by (simp add: riskBand_def)

lemma selfReportBinds_iff:
  "selfReportBinds c \<longleftrightarrow> \<not> (automatic_undo c \<and> cndBlastTier c \<noteq> BlastHigh)"
  by (auto simp: selfReportBinds_def candidate_risk_def riskBand_def automatic_undo_def
      split: option.splits)

subsection \<open>What a verdict means\<close>

definition policy_tighter :: "policy \<Rightarrow> policy \<Rightarrow> bool" where
  "policy_tighter p q \<longleftrightarrow>
     polConfidenceGate p = polConfidenceGate q \<and>
     (\<forall>tier cls. policy_floor p tier cls \<le> policy_floor q tier cls) \<and>
     (\<forall>tier. bandRank (policy_maxBand q tier) \<le> bandRank (policy_maxBand p tier)) \<and>
     (\<forall>tier. bandRank (policy_autoBand q tier) \<le> bandRank (policy_autoBand p tier)) \<and>
     set (polFreezeWindows p) \<subseteq> set (polFreezeWindows q) \<and>
     (polRequireReversal p \<longrightarrow> polRequireReversal q)"

lemma confidence_reasons_antimono:
  "a \<le> b \<Longrightarrow> polConfidenceGate p = polConfidenceGate q \<Longrightarrow>
   confidence_reasons q c b = [] \<Longrightarrow> confidence_reasons p c a = []"
  by (auto simp: confidence_clear_iff split: if_splits)

lemma approved_imp:
  assumes "decVerdict (evaluate ps pol now) = VerdictApproved"
  obtains c where "gate_passed ps" "recommended ps = Some c"
    "stage_one_reasons ps pol c now = []"
    "bandRank (candidate_risk c) \<le> bandRank (policy_autoBand pol (psServiceTier ps))"
    "decGrantedBand (evaluate ps pol now) = requestedBand c"
  using assms by (cases rule: evaluate_cases [of ps pol now]) auto

lemma approved_intro:
  assumes "gate_passed ps" "recommended ps = Some c" "stage_one_reasons ps pol c now = []"
    "bandRank (candidate_risk c) \<le> bandRank (policy_autoBand pol (psServiceTier ps))"
  shows "decVerdict (evaluate ps pol now) = VerdictApproved"
  using assms by (cases rule: evaluate_cases [of ps pol now]) auto

lemma approved_iff:
  "decVerdict (evaluate ps pol now) = VerdictApproved \<longleftrightarrow>
     gate_passed ps \<and> (\<exists>c. recommended ps = Some c \<and> stage_one_reasons ps pol c now = [] \<and>
       bandRank (candidate_risk c) \<le> bandRank (policy_autoBand pol (psServiceTier ps)))"
  by (blast elim: approved_imp intro: approved_intro)

lemma stage_one_clear_explicit:
  "stage_one_reasons ps pol c now = [] \<longleftrightarrow>
     (let flr = policy_floor pol (psServiceTier ps) (psFailureClass ps)
      in if polConfidenceGate pol = ''split''
         then flr \<le> effectiveComputedConfidence c \<and>
              (automatic_undo c \<and> cndBlastTier c \<noteq> BlastHigh \<or> flr \<le> cndConfidence c)
         else flr \<le> cndConfidence c) \<and>
     bandRank (requestedBand c) \<le> bandRank (policy_maxBand pol (psServiceTier ps)) \<and>
     (cndReversalPath c \<noteq> None \<or> \<not> polRequireReversal pol) \<and>
     (\<forall>w \<in> set (polFreezeWindows pol). \<not> (winStart w \<le> now \<and> now < winEnd w))"
proof -
  have "(\<forall>w \<in> W. \<not> in_window now w) \<longleftrightarrow> (\<forall>w \<in> W. \<not> (winStart w \<le> now \<and> now < winEnd w))" for W
    by (simp add: in_window_def linorder_not_less)
  then show ?thesis
    unfolding stage_one_clear_iff confidence_clear_iff selfReportBinds_iff Let_def by auto
qed

text \<open>A concrete policy the witnesses below evaluate.\<close>

definition example_policy :: policy where
  "example_policy = \<lparr>polVersion = ''v1'', polConfidenceGate = ''split'',
     polFloors = [''tier1'' \<mapsto> [''service_failure'' \<mapsto> 1/2]],
     polMaxBand = [''tier1'' \<mapsto> BandActReversible], polAutoBand = [''tier1'' \<mapsto> BandActReversible],
     polFreezeWindows = [\<lparr>winName = ''xmas'', winStart = 100, winEnd = 200\<rparr>],
     polRequireReversal = True\<rparr>"

lemmas example_defs = example_candidate_def example_set_def example_policy_def

lemmas verdict_defs = gate_passed_def recommended_def requestedBand_def automatic_undo_def
  candidate_risk_def riskBand_def selfReportBinds_def effectiveComputedConfidence_def
  policy_floor_def policy_maxBand_def policy_autoBand_def in_window_def confidence_reasons_def
  freeze_reasons_def stage_one_reasons_def map_get_def band_of_string_def



lemma evaluate_auditable:
  "polVersion pol \<noteq> [] \<Longrightarrow> now \<noteq> zero_time \<Longrightarrow> decision_auditable (evaluate ps pol now) = None"
  by (cases rule: evaluate_cases [of ps pol now]) (simp_all add: decision_auditable_None_iff)

text \<open>C9: every decision is born auditable: under a policy with a version and at a real time the
  verdict is one of the four declared ones, it is approved exactly when no reason is recorded,
  and a band is granted only on approval, when it is the requested one.\<close>

theorem evaluate_born_auditable:
  assumes "polVersion pol \<noteq> []" "now \<noteq> zero_time"
  shows "decision_auditable (evaluate ps pol now) = None \<and>
    decVerdict (evaluate ps pol now)
      \<in> {VerdictApproved, VerdictEscalate, VerdictRejected, VerdictHold} \<and>
    (decVerdict (evaluate ps pol now) = VerdictApproved \<longleftrightarrow> decReasons (evaluate ps pol now) = []) \<and>
    decGrantedBand (evaluate ps pol now) =
      (if decVerdict (evaluate ps pol now) = VerdictApproved
       then decRequestedBand (evaluate ps pol now) else BandOther [])"
  using assms by (cases rule: evaluate_cases [of ps pol now]) (simp_all add: decision_auditable_None_iff)

theorem evaluate_born_auditable_witness:
  "polVersion example_policy \<noteq> [] \<and> (150::time) \<noteq> zero_time \<and>
   decision_auditable (evaluate example_set example_policy 150) = None"
  using evaluate_born_auditable [of example_policy 150 example_set]
  by (simp add: example_policy_def zero_time_def)

text \<open>C10: tightening a policy never lets more through: a set approved under a policy whose floors
  are at least as high, whose ceilings are at most as high, whose freeze windows include the
  other's and which requires a reversal whenever the other does, is approved under the other.\<close>

theorem evaluate_tightening:
  assumes "policy_tighter p q" "decVerdict (evaluate ps q now) = VerdictApproved"
  shows "decVerdict (evaluate ps p now) = VerdictApproved"
  using assms(2)
proof (rule approved_imp)
  fix c
  assume *: "gate_passed ps" "recommended ps = Some c" "stage_one_reasons ps q c now = []"
    "bandRank (candidate_risk c) \<le> bandRank (policy_autoBand q (psServiceTier ps))"
  with assms(1) have "stage_one_reasons ps p c now = []"
    by (auto simp: stage_one_clear_iff policy_tighter_def
        intro: confidence_reasons_antimono order_trans)
  moreover have "bandRank (candidate_risk c) \<le> bandRank (policy_autoBand p (psServiceTier ps))"
    using * assms(1) by (auto simp: policy_tighter_def intro: order_trans)
  ultimately show ?thesis using * by (blast intro: approved_intro)
qed

theorem evaluate_tightening_witness:
  "policy_tighter (example_policy\<lparr>polFreezeWindows := []\<rparr>) example_policy \<and>
   decVerdict (evaluate example_set example_policy 200) = VerdictApproved \<and>
   decVerdict (evaluate example_set (example_policy\<lparr>polFreezeWindows := []\<rparr>) 200) = VerdictApproved"
proof -
  have t: "policy_tighter (example_policy\<lparr>polFreezeWindows := []\<rparr>) example_policy"
    by (simp add: policy_tighter_def policy_floor_def policy_maxBand_def policy_autoBand_def)
  have a: "decVerdict (evaluate example_set example_policy 200) = VerdictApproved"
    by (simp add: evaluate_def decision_updates example_defs verdict_defs)
  from evaluate_tightening [OF t a] t a show ?thesis by simp
qed

text \<open>inside a freeze window nothing proceeds and nothing is merely held: a gated set with a
  resolvable recommendation escalates with a reason naming the window, any other is rejected.\<close>

theorem evaluate_freeze_window:
  assumes "w \<in> set (polFreezeWindows pol)" "winStart w \<le> now" "now < winEnd w"
  shows "(if gate_passed ps \<and> recommended ps \<noteq> None
          then decVerdict (evaluate ps pol now) = VerdictEscalate \<and>
               ''freeze_window:'' @ winName w \<in> set (decReasons (evaluate ps pol now))
          else decVerdict (evaluate ps pol now) = VerdictRejected)"
proof -
  have iw: "in_window now w" using assms by (simp add: in_window_def)
  then have r: "''freeze_window:'' @ winName w \<in> set (stage_one_reasons ps pol c now)" for c
    using assms(1) by (auto simp: stage_one_reasons_def freeze_reasons_def)
  show ?thesis
  proof (cases rule: evaluate_cases [of ps pol now])
    case (escalated c)
    then show ?thesis using r [of c] by simp
  next
    case (held c)
    then show ?thesis using r [of c] by simp
  next
    case (approved c)
    then show ?thesis using r [of c] by simp
  qed auto
qed

theorem evaluate_freeze_window_witness:
  "decVerdict (evaluate example_set example_policy 150) = VerdictEscalate \<and>
   ''freeze_window:xmas'' \<in> set (decReasons (evaluate example_set example_policy 150))"
  using evaluate_freeze_window [of "\<lparr>winName = ''xmas'', winStart = 100, winEnd = 200\<rparr>"
      example_policy 150 example_set]
  by (simp add: example_defs gate_passed_def recommended_def)

text \<open>the verdict reads authored facts and the recommended candidate only: two sets with the
  same references, gate, tier and class, whose recommended candidates agree in confidence,
  grounded confidence, blast tier, reversal path and requested level, get the same decision,
  whatever the other candidates, the forecasts, the ranks, the hypotheses and the evidence are.\<close>

theorem evaluate_noninterference:
  assumes "psName ps = psName qs" "psSignalRef ps = psSignalRef qs" "psSLORef ps = psSLORef qs"
    "psRecommended ps = psRecommended qs" "psServiceTier ps = psServiceTier qs"
    "psFailureClass ps = psFailureClass qs" "gate_passed ps = gate_passed qs"
    "map_option (\<lambda>c. (cndConfidence c, cndComputedConfidence c, cndBlastTier c, cndReversalPath c,
        cndGovernanceLevel c)) (recommended ps) =
     map_option (\<lambda>c. (cndConfidence c, cndComputedConfidence c, cndBlastTier c, cndReversalPath c,
        cndGovernanceLevel c)) (recommended qs)"
  shows "evaluate ps pol now = evaluate qs pol now"
proof -
  have d: "draft_decision ps pol now = draft_decision qs pol now"
    using assms by (simp add: draft_decision_def)
  show ?thesis
  proof (cases "recommended ps")
    case None
    with assms have "recommended qs = None" by simp
    with None d show ?thesis by (simp add: evaluate_def)
  next
    case (Some c)
    with assms(8) obtain c' where c': "recommended qs = Some c'"
      "cndConfidence c = cndConfidence c'" "cndComputedConfidence c = cndComputedConfidence c'"
      "cndBlastTier c = cndBlastTier c'" "cndReversalPath c = cndReversalPath c'"
      "cndGovernanceLevel c = cndGovernanceLevel c'"
      by (cases "recommended qs") auto
    then have e: "requestedBand c = requestedBand c'" "candidate_risk c = candidate_risk c'"
      "confidence_reasons pol c x = confidence_reasons pol c' x" for x
      by (simp_all add: requestedBand_def candidate_risk_def automatic_undo_def
          confidence_reasons_def selfReportBinds_def effectiveComputedConfidence_def)
    then have "stage_one_reasons ps pol c now = stage_one_reasons qs pol c' now"
      using assms c' by (simp add: stage_one_reasons_def)
    with Some c' d e assms show ?thesis by (simp add: evaluate_def Let_def)
  qed
qed

theorem evaluate_noninterference_witness:
  "evaluate (example_set\<lparr>psProposals := [example_candidate\<lparr>cndRank := 7\<rparr>], psHypotheses := []\<rparr>)
     example_policy 150 = evaluate example_set example_policy 150"
  by (rule evaluate_noninterference) (simp_all add: example_defs gate_passed_def recommended_def)

subsection \<open>The zero policy\<close>

text \<open>
  An empty policy document decodes to the zero policy: no floors, no ceilings, no windows. A
  missing ceiling reads as the empty band, which ranks above every real band, so neither the
  ceiling on the request nor the ceiling on risk binds.
\<close>

definition zero_policy :: policy where
  "zero_policy = \<lparr>polVersion = [], polConfidenceGate = [], polFloors = Map.empty,
     polMaxBand = Map.empty, polAutoBand = Map.empty, polFreezeWindows = [],
     polRequireReversal = False\<rparr>"

datatype policy_error = PolicyPathRequired | ReadPolicy string | ParsePolicy string

definition loadPolicy ::
  "(string \<Rightarrow> string + 'raw) \<Rightarrow> ('raw \<Rightarrow> string + policy) \<Rightarrow> string \<Rightarrow> policy_error + policy" where
  "loadPolicy read_file unmarshal path =
     (if path = [] then Inl PolicyPathRequired
      else case read_file path of
             Inl e \<Rightarrow> Inl (ReadPolicy e)
           | Inr raw \<Rightarrow> (case unmarshal raw of Inl e \<Rightarrow> Inl (ParsePolicy e) | Inr pol \<Rightarrow> Inr pol))"

lemma bandRank_bounds: "0 \<le> bandRank b" "bandRank b \<le> 3"
  by (cases b; simp)+

lemma unconfigured_tier_no_ceiling:
  "polMaxBand pol tier = None \<Longrightarrow> bandRank b \<le> bandRank (policy_maxBand pol tier)"
  "polAutoBand pol tier = None \<Longrightarrow> bandRank b \<le> bandRank (policy_autoBand pol tier)"
  using bandRank_bounds(2) [of b]
  by (simp_all add: policy_maxBand_def policy_autoBand_def map_get_def)

text \<open>a policy with no entry for a tier leaves that tier ungoverned: where no floor, no ceiling
  on the requested band and no ceiling on risk is configured, reversal is not required and no
  window is declared, every gated set with a resolvable recommendation of non-negative confidence
  is approved at whatever band it asks for, act_disruptive and unknown bands included.\<close>

theorem unconfigured_tier_approves:
  assumes "polFloors pol (psServiceTier ps) = None" "polMaxBand pol (psServiceTier ps) = None"
    "polAutoBand pol (psServiceTier ps) = None" "polFreezeWindows pol = []"
    "\<not> polRequireReversal pol" "gate_passed ps" "recommended ps = Some c"
    "0 \<le> cndConfidence c" "0 \<le> cndComputedConfidence c"
  shows "decVerdict (evaluate ps pol now) = VerdictApproved \<and>
    decGrantedBand (evaluate ps pol now) = requestedBand c"
proof -
  have f: "policy_floor pol (psServiceTier ps) (psFailureClass ps) = 0"
    using assms(1) by (simp add: policy_floor_def map_get_def)
  have "stage_one_reasons ps pol c now = []"
    using assms f unconfigured_tier_no_ceiling(1) [OF assms(2)]
    by (auto simp: stage_one_clear_iff confidence_clear_iff effectiveComputedConfidence_def)
  then show ?thesis
    using assms unconfigured_tier_no_ceiling(2) [OF assms(3), of "candidate_risk c"]
    by (cases rule: evaluate_cases [of ps pol now]) auto
qed

theorem unconfigured_tier_approves_witness:
  "decVerdict (evaluate (example_set\<lparr>psProposals := [example_candidate\<lparr>cndReversalPath := None,
       cndBlastTier := BlastHigh, cndGovernanceLevel := Some \<lparr>glBand = ''act_disruptive'',
       glThresholdApplied = 0\<rparr>\<rparr>]\<rparr>) zero_policy 150) = VerdictApproved"
  using unconfigured_tier_approves [of zero_policy
      "example_set\<lparr>psProposals := [example_candidate\<lparr>cndReversalPath := None,
       cndBlastTier := BlastHigh, cndGovernanceLevel := Some \<lparr>glBand = ''act_disruptive'',
       glThresholdApplied = 0\<rparr>\<rparr>]\<rparr>"
      "example_candidate\<lparr>cndReversalPath := None, cndBlastTier := BlastHigh,
       cndGovernanceLevel := Some \<lparr>glBand = ''act_disruptive'', glThresholdApplied = 0\<rparr>\<rparr>" 150]
  by (simp add: zero_policy_def example_set_def example_candidate_def gate_passed_def recommended_def)

end
