(* ===== verification/Beat.thy ===== *)
theory Beat
  imports Prelude
begin

text \<open>
  The directory feeder of \<^verbatim>\<open>src/internal/beat/drain.go\<close>: one pass over the YAML files of an inbox.
  The file system and the YAML decoder are parameters: \<open>read_file\<close> and \<open>unmarshal\<close> answer with
  an error or a value, \<open>rename\<close> answers with an error or nothing. What a pass does to the inbox is
  the list of moves it made, a path with the subdirectory it went to, beside the state of the
  beat that handles the decoded values. \<open>ContextDone\<close> is the error of a tick whose context is
  already cancelled when it starts; it drains nothing.
\<close>

datatype 'e drain_error =
    ReadError string string
  | QuarantineError string string
  | HandleError 'e
  | ContextDone

type_synonym moves = "(string \<times> string) list"

definition disposition ::
  "(string \<Rightarrow> string \<Rightarrow> string option) \<Rightarrow> string \<Rightarrow> string \<Rightarrow> moves \<Rightarrow> string option \<times> moves"
where
  "disposition rename path sub moved =
     (case rename path sub of
        Some err \<Rightarrow> (Some err, moved)
      | None \<Rightarrow> (None, moved @ [(path, sub)]))"

fun drainDir ::
  "(string \<Rightarrow> string + 'raw) \<Rightarrow> ('raw \<Rightarrow> string + 'v) \<Rightarrow> (string \<Rightarrow> string \<Rightarrow> string option) \<Rightarrow>
   (string \<Rightarrow> 'v \<Rightarrow> 's \<times> moves \<Rightarrow> 'e option \<times> 's \<times> moves) \<Rightarrow>
   string list \<Rightarrow> 's \<times> moves \<Rightarrow> 'e drain_error option \<times> 's \<times> moves"
where
  "drainDir read_file unmarshal rename handle [] (s, moved) = (None, s, moved)"
| "drainDir read_file unmarshal rename handle (path # paths) (s, moved) =
     (case read_file path of
        Inl err \<Rightarrow> (Some (ReadError path err), s, moved)
      | Inr raw \<Rightarrow>
          (case unmarshal raw of
             Inl _ \<Rightarrow>
               (case disposition rename path ''quarantine'' moved of
                  (Some err, moved') \<Rightarrow> (Some (QuarantineError path err), s, moved')
                | (None, moved') \<Rightarrow> drainDir read_file unmarshal rename handle paths (s, moved'))
           | Inr v \<Rightarrow>
               (case handle path v (s, moved) of
                  (Some err, s', moved') \<Rightarrow> (Some (HandleError err), s', moved')
                | (None, s', moved') \<Rightarrow>
                    drainDir read_file unmarshal rename handle paths (s', moved'))))"

text \<open>The values a pass hands over, in order: every file that reads and decodes.\<close>

definition decoded :: "(string \<Rightarrow> string + 'raw) \<Rightarrow> ('raw \<Rightarrow> string + 'v) \<Rightarrow> string \<Rightarrow> 'v option" where
  "decoded read_file unmarshal path =
     (case read_file path of
        Inl _ \<Rightarrow> None
      | Inr raw \<Rightarrow> (case unmarshal raw of Inl _ \<Rightarrow> None | Inr v \<Rightarrow> Some v))"

text \<open>
  A state predicate that every successful or failed handling keeps holds after the pass, however
  it ends.
\<close>

lemma drainDir_invariant:
  assumes step: "\<And>path v s m. I s \<Longrightarrow> I (fst (snd (handle path v (s, m))))"
    and init: "I s"
  shows "I (fst (snd (drainDir read_file unmarshal rename handle paths (s, moved))))"
  using init
proof (induction paths arbitrary: s moved)
  case (Cons path paths)
  have "I (fst (snd (drainDir read_file unmarshal rename handle paths (s, moved'))))" for moved'
    using Cons by blast
  moreover have "I (fst (snd (drainDir read_file unmarshal rename handle paths
      (fst (snd (handle path v (s, moved))), moved'))))" for v moved'
    using Cons.IH [OF step [OF Cons.prems]] .
  ultimately show ?case
    using step [OF Cons.prems] Cons.prems
    by (auto simp: disposition_def split: sum.split option.split prod.split)
       (metis fst_conv snd_conv)+
qed simp

text \<open>
  A pass that meets no file-system error and no handler error disposes of every file: those that
  do not decode go to quarantine and block nothing behind them.
\<close>

lemma drainDir_complete:
  assumes reads: "\<And>p. p \<in> set paths \<Longrightarrow> \<exists>raw. read_file p = Inr raw"
    and renames: "\<And>p sub. rename p sub = None"
    and handles: "\<And>p v s m. handle p v (s, m) = (None, h p v s, m @ [(p, disp v)])"
  shows "drainDir read_file unmarshal rename handle paths (s, moved) =
    (None,
     fold (\<lambda>p s. case decoded read_file unmarshal p of None \<Rightarrow> s | Some v \<Rightarrow> h p v s) paths s,
     moved @ map (\<lambda>p. (p, case decoded read_file unmarshal p of None \<Rightarrow> ''quarantine''
                                                        | Some v \<Rightarrow> disp v)) paths)"
  using reads
proof (induction paths arbitrary: s moved)
  case (Cons path paths)
  obtain raw where raw: "read_file path = Inr raw" using Cons.prems by auto
  have ih: "drainDir read_file unmarshal rename handle paths (s', moved') =
    (None,
     fold (\<lambda>p s. case decoded read_file unmarshal p of None \<Rightarrow> s | Some v \<Rightarrow> h p v s) paths s',
     moved' @ map (\<lambda>p. (p, case decoded read_file unmarshal p of None \<Rightarrow> ''quarantine''
                                                        | Some v \<Rightarrow> disp v)) paths)" for s' moved'
    using Cons by simp
  show ?case
    by (cases "unmarshal raw")
      (simp_all add: raw ih decoded_def [of _ _ path] disposition_def renames [of path] handles)
qed simp

end
