(* ===== verification/EventLog.thy ===== *)
theory EventLog
  imports Boundary
begin

text \<open>
  The generic append-only log of \<^verbatim>\<open>src/internal/ledger\<close>, shared by hiss (every decision) and
  thump (every outcome). The mutex of the Go type makes each call atomic, so the log is a list
  of items with the function that reads an item's event time. The contract the two beats rely
  on is the locale \<open>event_log\<close>; both of their wrappers interpret it.
\<close>

record 'a log =
  logItems :: "'a list"
  logTs :: "'a \<Rightarrow> time"

definition newLog :: "('a \<Rightarrow> time) \<Rightarrow> 'a log" where
  "newLog ts = \<lparr>logItems = [], logTs = ts\<rparr>"

definition log_record :: "'a \<Rightarrow> 'a log \<Rightarrow> 'a log" where
  "log_record v l = l\<lparr>logItems := logItems l @ [v]\<rparr>"

definition log_filter :: "('a \<Rightarrow> bool) \<Rightarrow> 'a log \<Rightarrow> 'a list" where
  "log_filter pred l = filter pred (logItems l)"

definition log_since :: "time \<Rightarrow> 'a log \<Rightarrow> 'a list" where
  "log_since cutoff l = log_filter (\<lambda>v. cutoff < logTs l v) l"

text \<open>The two wrappers: \<^verbatim>\<open>hiss.DecisionLog\<close> and \<^verbatim>\<open>thump.OutcomeLog\<close>.\<close>

definition newDecisionLog :: "decision log" where
  "newDecisionLog = newLog decEvaluatedAt"

definition byVerdict :: "verdict \<Rightarrow> decision log \<Rightarrow> decision list" where
  "byVerdict v l = log_filter (\<lambda>d. decVerdict d = v) l"

definition newOutcomeLog :: "outcome log" where
  "newOutcomeLog = newLog outExecutedAt"

definition byResult :: "result \<Rightarrow> outcome log \<Rightarrow> outcome list" where
  "byResult r l = log_filter (\<lambda>x. outResult x = r) l"

subsection \<open>The append-only contract\<close>

text \<open>
  A log starts empty, a record is appended behind everything already there, and a query answers
  with the matching records in append order. What follows for any such log is that records are
  never lost, reordered or invented by later appends.
\<close>

locale event_log =
  fixes empty :: 'l
    and append :: "'a \<Rightarrow> 'l \<Rightarrow> 'l"
    and query :: "'k \<Rightarrow> 'l \<Rightarrow> 'a list"
    and matches :: "'k \<Rightarrow> 'a \<Rightarrow> bool"
  assumes query_empty: "query k empty = []"
    and query_append: "query k (append v l) = query k l @ (if matches k v then [v] else [])"
begin

definition append_all :: "'a list \<Rightarrow> 'l \<Rightarrow> 'l" where
  "append_all vs l = fold append vs l"

lemma query_append_all: "query k (append_all vs l) = query k l @ filter (matches k) vs"
  by (induction vs arbitrary: l) (simp_all add: append_all_def query_append)

lemma query_history: "query k (append_all vs empty) = filter (matches k) vs"
  by (simp add: query_append_all query_empty)

lemma query_grows: "\<exists>new. query k (append_all vs l) = query k l @ new"
  by (simp add: query_append_all)

lemma query_only_recorded: "v \<in> set (query k (append_all vs empty)) \<longleftrightarrow> v \<in> set vs \<and> matches k v"
  by (auto simp: query_history)

end

text \<open>
  A window query is a family of such queries with nested match sets: a later cutoff answers with a
  subset of an earlier one.
\<close>

locale windowed_log = event_log empty append query matches
  for empty :: 'l and append :: "'a \<Rightarrow> 'l \<Rightarrow> 'l" and query :: "int \<Rightarrow> 'l \<Rightarrow> 'a list"
    and matches :: "int \<Rightarrow> 'a \<Rightarrow> bool" +
  assumes window_nested: "s \<le> t \<Longrightarrow> matches t v \<Longrightarrow> matches s v"
begin

lemma window_shrinks:
  "s \<le> t \<Longrightarrow> query t (append_all vs empty) = filter (matches t) (query s (append_all vs empty))"
proof -
  assume le: "s \<le> t"
  have "filter (matches t) (filter (matches s) vs) = filter (matches t) vs"
    using window_nested [OF le] by (simp add: filter_filter) (metis (mono_tags))
  then show ?thesis by (simp add: query_history)
qed

end

text \<open>
  The time function of a log is fixed at construction, so the queries are stated on the items of
  a log built by the wrapper's constructor.
\<close>

definition decisions_since :: "time \<Rightarrow> decision log \<Rightarrow> decision list" where
  "decisions_since cutoff l = log_since cutoff (l\<lparr>logTs := decEvaluatedAt\<rparr>)"

definition outcomes_since :: "time \<Rightarrow> outcome log \<Rightarrow> outcome list" where
  "outcomes_since cutoff l = log_since cutoff (l\<lparr>logTs := outExecutedAt\<rparr>)"

lemmas log_defs = newLog_def log_record_def log_filter_def log_since_def

interpretation dlog: event_log newDecisionLog log_record byVerdict "\<lambda>v d. decVerdict d = v"
  by unfold_locales (simp_all add: newDecisionLog_def byVerdict_def log_defs)

interpretation olog: event_log newOutcomeLog log_record byResult "\<lambda>r x. outResult x = r"
  by unfold_locales (simp_all add: newOutcomeLog_def byResult_def log_defs)

interpretation dwin: windowed_log newDecisionLog log_record decisions_since
  "\<lambda>cutoff d. cutoff < decEvaluatedAt d"
  by unfold_locales (simp_all add: newDecisionLog_def decisions_since_def log_defs)

interpretation owin: windowed_log newOutcomeLog log_record outcomes_since
  "\<lambda>cutoff x. cutoff < outExecutedAt x"
  by unfold_locales (simp_all add: newOutcomeLog_def outcomes_since_def log_defs)

lemma logTs_record [simp]: "logTs (log_record v l) = logTs l"
  by (simp add: log_record_def)

lemma logItems_record [simp]: "logItems (log_record v l) = logItems l @ [v]"
  by (simp add: log_record_def)

end
