(* ===== verification/HissTransport.thy ===== *)
theory HissTransport
  imports Authority Beat EventLog
begin

text \<open>
  The governance beat around the verdict: the fingerprints held for a human (\<^verbatim>\<open>pending.go\<close>), the
  handlers of a delivered proposal set and of an operator's approval (\<^verbatim>\<open>transport.go\<close>), the
  directory feeder, and the rebuild of the holds from the decisions already on the stream
  (\<^verbatim>\<open>rebuild.go\<close>), all of \<^verbatim>\<open>src/internal/hiss\<close>.

  The state \<open>hiss_transport\<close> keeps the holds (absent in the offline path), the decision log, and,
  as lists, what was published on \<^verbatim>\<open>thump.decisions\<close> and which approval requests were created.
  The publisher and the request surface are parameters that answer each call with an error or
  nothing. The two handlers are interleaved call by call: an approval that arrives between the
  recording of a hold and the publication of the decision that raised it is not modelled.
\<close>

subsection \<open>Held fingerprints\<close>

type_synonym pending_holds = "string \<rightharpoonup> governed"

definition newPendingHolds :: pending_holds where
  "newPendingHolds = Map.empty"

definition holds_record :: "governed \<Rightarrow> pending_holds \<Rightarrow> pending_holds" where
  "holds_record g h = h(decSignalRef (govDecision g) \<mapsto> g)"

definition holds_take :: "string \<Rightarrow> pending_holds \<Rightarrow> governed option \<times> pending_holds" where
  "holds_take fp h = (h fp, if h fp \<noteq> None then h(fp := None) else h)"

definition holds_len :: "pending_holds \<Rightarrow> nat" where
  "holds_len h = card (dom h)"

text \<open>
  The contract the approval handler relies on: a take answers with the last record of its
  fingerprint and removes it, and neither operation touches another fingerprint.
\<close>

locale hold_store =
  fixes empty :: 'h
    and record_hold :: "'g \<Rightarrow> 'h \<Rightarrow> 'h"
    and take_hold :: "string \<Rightarrow> 'h \<Rightarrow> 'g option \<times> 'h"
    and key :: "'g \<Rightarrow> string"
  assumes take_empty: "fst (take_hold k empty) = None"
    and take_recorded: "fst (take_hold k (record_hold g h)) =
        (if key g = k then Some g else fst (take_hold k h))"
    and take_taken: "fst (take_hold k (snd (take_hold j h))) =
        (if j = k then None else fst (take_hold k h))"
begin

text \<open>A fingerprint nobody records again stays taken, whatever else is recorded and taken.\<close>

lemma taken_stays_taken:
  assumes "fst (take_hold k h) = None" "\<And>g. Inl g \<in> set ops \<Longrightarrow> key g \<noteq> k"
  shows "fst (take_hold k (fold (case_sum record_hold (\<lambda>j. snd \<circ> take_hold j)) ops h)) = None"
  using assms
proof (induction ops arbitrary: h)
  case (Cons op ops)
  have "fst (take_hold k (case_sum record_hold (\<lambda>j. snd \<circ> take_hold j) op h)) = None"
    using Cons.prems by (cases op) (auto simp: take_recorded take_taken)
  with Cons show ?case by simp
qed simp

lemma take_twice: "fst (take_hold k (snd (take_hold k h))) = None"
  by (simp add: take_taken)

end

interpretation ph: hold_store newPendingHolds holds_record holds_take "\<lambda>g. decSignalRef (govDecision g)"
  by unfold_locales (auto simp: newPendingHolds_def holds_record_def holds_take_def)

subsection \<open>The handlers\<close>

datatype hiss_error =
    CreateRequestError string string
  | PublishDecisionError string
  | ReissueNotAuditable audit_error
  | PublishReissueError string string
  | NilHolds
  | HandleFileError string hiss_error
  | ArchiveError string string

record hiss_ports =
  hpCreate :: "(governed \<Rightarrow> string option) option"
  hpPublish :: "governed \<Rightarrow> string option"

record hiss_transport =
  htHolds :: "pending_holds option"
  htLog :: "decision log"
  htPublished :: "governed list"
  htRequests :: "governed list"

definition record_and_publish ::
  "hiss_ports \<Rightarrow> governed \<Rightarrow> hiss_transport \<Rightarrow> hiss_error option \<times> hiss_transport" where
  "record_and_publish ports g tr =
     (let tr' = tr\<lparr>htLog := log_record (govDecision g) (htLog tr)\<rparr>
      in case hpPublish ports g of
           Some e \<Rightarrow> (Some (PublishDecisionError e), tr')
         | None \<Rightarrow> (None, tr'\<lparr>htPublished := htPublished tr @ [g]\<rparr>))"

definition hiss_handle ::
  "policy \<Rightarrow> hiss_ports \<Rightarrow> time \<Rightarrow> proposal_set \<Rightarrow> hiss_transport \<Rightarrow> hiss_error option \<times> hiss_transport"
where
  "hiss_handle pol ports now ps tr =
     (let d = evaluate ps pol now; held = \<lparr>govDecision = d, govSet = ps\<rparr>
      in case htHolds tr of
           None \<Rightarrow> record_and_publish ports held tr
         | Some h \<Rightarrow>
             if awaitsApproval (decVerdict d)
             then (let tr1 = tr\<lparr>htHolds := Some (holds_record held h)\<rparr>
                   in case hpCreate ports of
                        None \<Rightarrow> record_and_publish ports held tr1
                      | Some create \<Rightarrow>
                          (case create held of
                             Some e \<Rightarrow> (Some (CreateRequestError (decSignalRef d) e), tr1)
                           | None \<Rightarrow> record_and_publish ports held
                                       (tr1\<lparr>htRequests := htRequests tr @ [held]\<rparr>)))
             else record_and_publish ports held tr)"

text \<open>The clock is read twice, once for the identifier and once for the evaluation time.\<close>

definition reissue :: "policy \<Rightarrow> approval \<Rightarrow> time \<Rightarrow> time \<Rightarrow> decision \<Rightarrow> decision" where
  "reissue pol a t1 t2 d =
     d\<lparr>decID := decision_id (decSignalRef d) t1,
       decVerdict := VerdictApproved,
       decGrantedBand := decRequestedBand d,
       decReasons := [],
       decApprover := apApprover a,
       decPolicyVersion := polVersion pol,
       decEvaluatedAt := t2\<rparr>"

definition approveHandler ::
  "policy \<Rightarrow> hiss_ports \<Rightarrow> time \<Rightarrow> time \<Rightarrow> approval \<Rightarrow> hiss_transport \<Rightarrow> hiss_error option \<times> hiss_transport"
where
  "approveHandler pol ports t1 t2 a tr =
     (case htHolds tr of
        None \<Rightarrow> (Some NilHolds, tr)
      | Some h \<Rightarrow>
          (case holds_take (apSignalRef a) h of
             (None, h') \<Rightarrow> (None, tr\<lparr>htHolds := Some h'\<rparr>)
           | (Some held, h') \<Rightarrow>
               (let tr1 = tr\<lparr>htHolds := Some h'\<rparr>;
                    d = reissue pol a t1 t2 (govDecision held);
                    g = \<lparr>govDecision = d, govSet = govSet held\<rparr>
                in case decision_auditable d of
                     Some e \<Rightarrow> (Some (ReissueNotAuditable e), tr1)
                   | None \<Rightarrow>
                       (case hpPublish ports g of
                          Some e \<Rightarrow> (Some (PublishReissueError (apSignalRef a) e), tr1)
                        | None \<Rightarrow> (None, tr1\<lparr>htPublished := htPublished tr @ [g],
                                             htLog := log_record d (htLog tr)\<rparr>)))))"

text \<open>One poll pass of the offline path; \<open>now p\<close> is the clock when file \<open>p\<close> is handled.\<close>

definition hiss_tick ::
  "bool \<Rightarrow> policy \<Rightarrow> hiss_ports \<Rightarrow> (string \<Rightarrow> time) \<Rightarrow> (string \<Rightarrow> string + 'raw) \<Rightarrow> ('raw \<Rightarrow> string + proposal_set) \<Rightarrow>
   (string \<Rightarrow> string \<Rightarrow> string option) \<Rightarrow> string list \<Rightarrow> hiss_transport \<times> moves \<Rightarrow>
   hiss_error drain_error option \<times> hiss_transport \<times> moves" where
  "hiss_tick cancelled pol ports now read_file unmarshal rename paths st =
     (if cancelled then (Some ContextDone, st) else drainDir read_file unmarshal rename
       (\<lambda>path ps (tr, moved).
          case hiss_handle pol ports (now path) ps tr of
            (Some e, tr') \<Rightarrow> (Some (HandleFileError path e), tr', moved)
          | (None, tr') \<Rightarrow>
              (case disposition rename path ''processed'' moved of
                 (Some e, moved') \<Rightarrow> (Some (ArchiveError path e), tr', moved')
               | (None, moved') \<Rightarrow> (None, tr', moved')))
       paths st)"

subsection \<open>Rebuild after a restart\<close>

definition latest_decisions :: "governed list \<Rightarrow> pending_holds" where
  "latest_decisions msgs = fold holds_record msgs Map.empty"

text \<open>\<open>order\<close> is the order in which Go ranges over the map of latest decisions.\<close>

definition rebuildHolds :: "string list \<Rightarrow> governed list \<Rightarrow> pending_holds" where
  "rebuildHolds order msgs =
     (let latest = latest_decisions msgs
      in fold (\<lambda>k h. case latest k of
                       None \<Rightarrow> h
                     | Some g \<Rightarrow> if awaitsApproval (decVerdict (govDecision g))
                                 then holds_record g h else h)
           order newPendingHolds)"

definition buildTransport :: "string list \<Rightarrow> governed list \<Rightarrow> hiss_transport" where
  "buildTransport order msgs =
     \<lparr>htHolds = Some (rebuildHolds order msgs), htLog = newDecisionLog,
      htPublished = msgs, htRequests = []\<rparr>"

subsection \<open>Facts on the holds\<close>

abbreviation sigOf :: "governed \<Rightarrow> string" where
  "sigOf g \<equiv> decSignalRef (govDecision g)"

abbreviation awaits :: "governed \<Rightarrow> bool" where
  "awaits g \<equiv> awaitsApproval (decVerdict (govDecision g))"

lemma latest_decisions_snoc [simp]:
  "latest_decisions (msgs @ [g]) = (latest_decisions msgs)(sigOf g \<mapsto> g)"
  by (simp add: latest_decisions_def holds_record_def)

lemma latest_decisions_Nil [simp]: "latest_decisions [] = Map.empty"
  by (simp add: latest_decisions_def)

lemma latest_decisions_eq: "latest_decisions msgs k = find_last (\<lambda>g. sigOf g = k) msgs"
  by (induction msgs rule: rev_induct) auto

lemma latest_decisions_Some:
  "latest_decisions msgs k = Some g \<Longrightarrow> g \<in> set msgs \<and> sigOf g = k"
  by (auto simp: latest_decisions_eq dest: find_last_Some_in_set)

lemma rebuild_fold:
  assumes "\<And>k g. latest k = Some g \<Longrightarrow> sigOf g = k"
  shows "fold (\<lambda>k h. case latest k of None \<Rightarrow> h | Some g \<Rightarrow> if awaits g then holds_record g h else h)
           order h j =
         (case latest j of Some g \<Rightarrow> if j \<in> set order \<and> awaits g then Some g else h j | None \<Rightarrow> h j)"
proof (induction order arbitrary: h)
  case Nil
  then show ?case by (simp split: option.split)
next
  case (Cons k ks)
  then show ?case
    using assms [of k] by (auto simp: holds_record_def split: option.splits)
qed

text \<open>The iteration order does not matter: the rebuilt holds are the latest decisions that wait.\<close>

lemma rebuildHolds_eq:
  assumes "set order = dom (latest_decisions msgs)"
  shows "rebuildHolds order msgs k =
    (case latest_decisions msgs k of
       None \<Rightarrow> None | Some g \<Rightarrow> if awaits g then Some g else None)"
proof -
  have *: "latest_decisions msgs k = Some g \<Longrightarrow> sigOf g = k" for k g
    using latest_decisions_Some by blast
  show ?thesis
    unfolding rebuildHolds_def Let_def newPendingHolds_def
    by (subst rebuild_fold [OF *]) (auto simp: assms dom_def split: option.split)
qed

subsection \<open>Runs and reachable states\<close>

datatype hiss_event =
    SetDelivered policy hiss_ports time proposal_set
  | ApprovalDelivered policy hiss_ports time time approval

fun hiss_step :: "hiss_event \<Rightarrow> hiss_transport \<Rightarrow> hiss_error option \<times> hiss_transport" where
  "hiss_step (SetDelivered pol ports now ps) tr = hiss_handle pol ports now ps tr"
| "hiss_step (ApprovalDelivered pol ports t1 t2 a) tr = approveHandler pol ports t1 t2 a tr"

definition hiss_run :: "hiss_event list \<Rightarrow> hiss_transport \<Rightarrow> hiss_transport" where
  "hiss_run evs tr = fold (\<lambda>ev tr. snd (hiss_step ev tr)) evs tr"

text \<open>
  A reachable state of the broker path: boot on an empty stream, any deliveries under any policy
  and any answers of the ports, and restarts that rebuild from the part of the stream its
  retention kept.
\<close>

inductive hiss_reachable :: "hiss_transport \<Rightarrow> bool" where
  boot: "hiss_reachable (buildTransport [] [])"
| deliver: "hiss_reachable tr \<Longrightarrow> hiss_reachable (snd (hiss_step ev tr))"
| restart: "hiss_reachable tr \<Longrightarrow> set order = dom (latest_decisions (drop n (htPublished tr))) \<Longrightarrow>
    hiss_reachable (buildTransport order (drop n (htPublished tr)))"

definition judged :: "governed \<Rightarrow> bool" where
  "judged g \<longleftrightarrow> (\<exists>pol t. govDecision g = evaluate (govSet g) pol t)"

definition reissued :: "governed \<Rightarrow> bool" where
  "reissued g \<longleftrightarrow> (\<exists>g0 pol a t1 t2. judged g0 \<and> awaits g0 \<and> govSet g = govSet g0 \<and>
     govDecision g = reissue pol a t1 t2 (govDecision g0) \<and> decision_auditable (govDecision g) = None)"

definition holds_inv :: "pending_holds \<Rightarrow> bool" where
  "holds_inv h \<longleftrightarrow> (\<forall>fp g. h fp = Some g \<longrightarrow> sigOf g = fp \<and> judged g \<and> awaits g)"

definition hiss_inv :: "hiss_transport \<Rightarrow> bool" where
  "hiss_inv tr \<longleftrightarrow> (\<exists>h. htHolds tr = Some h \<and> holds_inv h) \<and>
     (\<forall>g \<in> set (htPublished tr). judged g \<or> reissued g)"

lemma judged_evaluate [simp]: "judged \<lparr>govDecision = evaluate ps pol t, govSet = ps\<rparr>"
  by (auto simp: judged_def)

lemma reissue_sel [simp]:
  "decVerdict (reissue pol a t1 t2 d) = VerdictApproved"
  "decSignalRef (reissue pol a t1 t2 d) = decSignalRef d"
  "decCandidateRef (reissue pol a t1 t2 d) = decCandidateRef d"
  "decProposalRef (reissue pol a t1 t2 d) = decProposalRef d"
  "decSLORef (reissue pol a t1 t2 d) = decSLORef d"
  "decGrantedBand (reissue pol a t1 t2 d) = decRequestedBand d"
  "decEvaluatedAt (reissue pol a t1 t2 d) = t2"
  "decPolicyVersion (reissue pol a t1 t2 d) = polVersion pol"
  "decReasons (reissue pol a t1 t2 d) = []"
  "decApprover (reissue pol a t1 t2 d) = apApprover a"
  by (simp_all add: reissue_def)

lemma record_and_publish_sel [simp]:
  "htHolds (snd (record_and_publish ports g tr)) = htHolds tr"
  "htPublished (snd (record_and_publish ports g tr)) =
     (if hpPublish ports g = None then htPublished tr @ [g] else htPublished tr)"
  "logItems (htLog (snd (record_and_publish ports g tr))) = logItems (htLog tr) @ [govDecision g]"
  by (auto simp: record_and_publish_def Let_def split: option.split)

text \<open>What a handled set leaves behind: its hold if it waits, and at most its own decision.\<close>

lemma hiss_handle_effect:
  fixes now ps pol
  defines "g \<equiv> \<lparr>govDecision = evaluate ps pol now, govSet = ps\<rparr>"
  assumes "htHolds tr = Some h"
  shows "htHolds (snd (hiss_handle pol ports now ps tr)) =
           Some (if awaits g then holds_record g h else h)"
    and "htPublished (snd (hiss_handle pol ports now ps tr)) \<in> {htPublished tr, htPublished tr @ [g]}"
    and "fst (hiss_handle pol ports now ps tr) = None \<Longrightarrow>
         htPublished (snd (hiss_handle pol ports now ps tr)) = htPublished tr @ [g]"
  using assms
  by (auto simp: hiss_handle_def Let_def record_and_publish_def split: option.splits if_splits)

lemma holds_take_eq: "holds_take fp h = (h fp, h(fp := None))"
  by (auto simp: holds_take_def fun_eq_iff)

lemma approveHandler_effect:
  assumes "htHolds tr = Some h"
  shows "htHolds (snd (approveHandler pol ports t1 t2 a tr)) = Some (h(apSignalRef a := None))"
    and "htPublished (snd (approveHandler pol ports t1 t2 a tr)) =
      (case h (apSignalRef a) of
         None \<Rightarrow> htPublished tr
       | Some held \<Rightarrow>
           (let g = \<lparr>govDecision = reissue pol a t1 t2 (govDecision held), govSet = govSet held\<rparr>
            in if decision_auditable (govDecision g) = None \<and> hpPublish ports g = None
               then htPublished tr @ [g] else htPublished tr))"
    and "fst (approveHandler pol ports t1 t2 a tr) = None \<longleftrightarrow>
      (case h (apSignalRef a) of
         None \<Rightarrow> True
       | Some held \<Rightarrow>
           (let g = \<lparr>govDecision = reissue pol a t1 t2 (govDecision held), govSet = govSet held\<rparr>
            in decision_auditable (govDecision g) = None \<and> hpPublish ports g = None))"
  using assms
  by (auto simp: approveHandler_def holds_take_eq Let_def split: option.split)

lemma holds_inv_record: "holds_inv h \<Longrightarrow> judged g \<Longrightarrow> awaits g \<Longrightarrow> holds_inv (holds_record g h)"
  by (auto simp: holds_inv_def holds_record_def)

lemma holds_inv_remove: "holds_inv h \<Longrightarrow> holds_inv (h(fp := None))"
  by (auto simp: holds_inv_def)

lemma hiss_inv_handle:
  assumes "hiss_inv tr"
  shows "hiss_inv (snd (hiss_handle pol ports now ps tr))"
proof -
  from assms obtain h where h: "htHolds tr = Some h" "holds_inv h"
    by (auto simp: hiss_inv_def)
  show ?thesis
    using assms h hiss_handle_effect(1,2) [OF h(1), of pol ports now ps]
    by (auto simp: hiss_inv_def intro: holds_inv_record)
qed

lemma hiss_inv_approve:
  assumes "hiss_inv tr"
  shows "hiss_inv (snd (approveHandler pol ports t1 t2 a tr))"
proof -
  from assms obtain h where h: "htHolds tr = Some h" "holds_inv h"
    by (auto simp: hiss_inv_def)
  have "judged x \<or> reissued x"
    if "x \<in> set (htPublished (snd (approveHandler pol ports t1 t2 a tr)))" for x
  proof (cases "x \<in> set (htPublished tr)")
    case True
    with assms show ?thesis by (auto simp: hiss_inv_def)
  next
    case False
    with that approveHandler_effect(2) [OF h(1), of pol ports t1 t2 a] obtain held where
      "h (apSignalRef a) = Some held"
      "x = \<lparr>govDecision = reissue pol a t1 t2 (govDecision held), govSet = govSet held\<rparr>"
      "decision_auditable (govDecision x) = None"
      by (auto simp: Let_def split: option.splits if_splits)
    with h(2) show ?thesis
      unfolding reissued_def holds_inv_def by fastforce
  qed
  then show ?thesis
    using h approveHandler_effect(1) [OF h(1), of pol ports t1 t2 a]
    by (auto simp: hiss_inv_def intro: holds_inv_remove)
qed

lemma hiss_inv_step: "hiss_inv tr \<Longrightarrow> hiss_inv (snd (hiss_step ev tr))"
  by (cases ev) (simp_all add: hiss_inv_handle hiss_inv_approve)

lemma reissued_not_awaits: "reissued g \<Longrightarrow> \<not> awaits g"
  by (auto simp: reissued_def)

lemma hiss_inv_rebuild:
  assumes "\<forall>g \<in> set msgs. judged g \<or> reissued g" "set order = dom (latest_decisions msgs)"
  shows "hiss_inv (buildTransport order msgs)"
proof -
  have "holds_inv (rebuildHolds order msgs)"
    unfolding holds_inv_def rebuildHolds_eq [OF assms(2)]
    using assms(1) latest_decisions_Some reissued_not_awaits
    by (fastforce split: option.splits if_splits)
  with assms(1) show ?thesis by (simp add: hiss_inv_def buildTransport_def)
qed

lemma hiss_reachable_inv: "hiss_reachable tr \<Longrightarrow> hiss_inv tr"
proof (induction rule: hiss_reachable.induct)
  case boot
  then show ?case by (rule hiss_inv_rebuild) auto
next
  case (deliver tr ev)
  then show ?case by (blast intro: hiss_inv_step)
next
  case (restart tr order n)
  then show ?case
    by (intro hiss_inv_rebuild) (auto simp: hiss_inv_def dest: in_set_dropD)
qed

subsection \<open>Every release answers to a judged set\<close>

lemma judged_refs:
  assumes "judged g"
  shows "sigOf g = psSignalRef (govSet g)" "decCandidateRef (govDecision g) = psRecommended (govSet g)"
    "decProposalRef (govDecision g) = psName (govSet g)" "decSLORef (govDecision g) = psSLORef (govSet g)"
  using assms by (auto simp: judged_def)

lemma judged_eligible:
  assumes "judged g" "decVerdict (govDecision g) = VerdictApproved \<or> awaits g"
  obtains c where "gate_passed (govSet g)" "recommended (govSet g) = Some c"
    "decRequestedBand (govDecision g) = requestedBand c"
proof -
  from assms(1) obtain pol t where *: "govDecision g = evaluate (govSet g) pol t"
    by (auto simp: judged_def)
  show ?thesis
    using assms(2) that * by (cases rule: evaluate_cases [of "govSet g" pol t]) auto
qed

lemma judged_granted:
  "judged g \<Longrightarrow> decVerdict (govDecision g) = VerdictApproved \<Longrightarrow>
   decGrantedBand (govDecision g) = decRequestedBand (govDecision g)"
proof -
  assume "judged g" "decVerdict (govDecision g) = VerdictApproved"
  then obtain pol t where "govDecision g = evaluate (govSet g) pol t"
    by (auto simp: judged_def)
  with \<open>decVerdict (govDecision g) = VerdictApproved\<close> show ?thesis
    by (cases rule: evaluate_cases [of "govSet g" pol t]) auto
qed

lemma approval_names_its_set:
  assumes "hiss_reachable tr" "g \<in> set (htPublished tr)"
    "decVerdict (govDecision g) = VerdictApproved"
  shows "gate_passed (govSet g) \<and>
    decSignalRef (govDecision g) = psSignalRef (govSet g) \<and>
    decProposalRef (govDecision g) = psName (govSet g) \<and>
    decSLORef (govDecision g) = psSLORef (govSet g) \<and>
    (\<exists>c \<in> set (psProposals (govSet g)). recommended (govSet g) = Some c \<and>
       decCandidateRef (govDecision g) = cndID c \<and>
       decGrantedBand (govDecision g) = requestedBand c)"
proof -
  from hiss_reachable_inv [OF assms(1)] assms(2) have "judged g \<or> reissued g"
    by (auto simp: hiss_inv_def)
  then show ?thesis
  proof
    assume j: "judged g"
    with assms(3) obtain c where c: "gate_passed (govSet g)" "recommended (govSet g) = Some c"
      "decRequestedBand (govDecision g) = requestedBand c"
      by (blast elim: judged_eligible)
    with judged_refs [OF j] judged_granted [OF j assms(3)] recommended_in_set [OF c(2)]
    show ?thesis by auto
  next
    assume "reissued g"
    then obtain g0 pol a t1 t2 where g0: "judged g0" "awaits g0" "govSet g = govSet g0"
      "govDecision g = reissue pol a t1 t2 (govDecision g0)"
      by (auto simp: reissued_def)
    then obtain c where c: "gate_passed (govSet g0)" "recommended (govSet g0) = Some c"
      "decRequestedBand (govDecision g0) = requestedBand c"
      by (blast elim: judged_eligible)
    with g0 judged_refs [OF g0(1)] recommended_in_set [OF c(2)] show ?thesis by auto
  qed
qed


definition quiet_ports :: hiss_ports where
  "quiet_ports = \<lparr>hpCreate = None, hpPublish = (\<lambda>_. None)\<rparr>"

definition example_approval :: approval where
  "example_approval = \<lparr>apSignalRef = ''fp'', apApprover = ''op'', apApprovedAt = 160, apCapBand = []\<rparr>"

definition example_run :: hiss_transport where
  "example_run = hiss_run [SetDelivered example_policy quiet_ports 150 example_set,
     ApprovalDelivered example_policy quiet_ports 160 160 example_approval] (buildTransport [] [])"

lemma hiss_run_reachable: "hiss_reachable tr \<Longrightarrow> hiss_reachable (hiss_run evs tr)"
  by (induction evs arbitrary: tr) (simp_all add: hiss_run_def hiss_reachable.deliver)

lemma example_run_reachable: "hiss_reachable example_run"
  unfolding example_run_def by (rule hiss_run_reachable [OF hiss_reachable.boot])

lemma example_run_published:
  "htPublished example_run =
    [\<lparr>govDecision = evaluate example_set example_policy 150, govSet = example_set\<rparr>,
     \<lparr>govDecision = reissue example_policy example_approval 160 160 (evaluate example_set example_policy 150),
      govSet = example_set\<rparr>]"
proof -
  have v: "decVerdict (evaluate example_set example_policy 150) = VerdictEscalate"
    by (simp add: evaluate_def decision_updates example_defs verdict_defs)
  have s: "psSignalRef example_set = ''fp''" by (simp add: example_set_def)
  have a: "apSignalRef example_approval = ''fp''" by (simp add: example_approval_def)
  have n: "decision_auditable (reissue example_policy example_approval 160 160
      (evaluate example_set example_policy 150)) = None"
    by (simp add: decision_auditable_None_iff zero_time_def) (simp add: example_policy_def)
  show ?thesis
    by (simp add: example_run_def hiss_run_def buildTransport_def hiss_handle_def quiet_ports_def
        record_and_publish_def approveHandler_def v s a n Let_def holds_take_def holds_record_def)
qed


subsection \<open>An approval releases a hold once\<close>

definition published_for :: "string \<Rightarrow> hiss_transport \<Rightarrow> nat" where
  "published_for fp tr = length (filter (\<lambda>g. sigOf g = fp) (htPublished tr))"

definition held_for :: "string \<Rightarrow> hiss_transport \<Rightarrow> nat" where
  "held_for fp tr = (case htHolds tr of Some h \<Rightarrow> if h fp = None then 0 else 1 | None \<Rightarrow> 0)"

text \<open>An event that does not bring a new set for the fingerprint.\<close>

fun no_new_set :: "string \<Rightarrow> hiss_event \<Rightarrow> bool" where
  "no_new_set fp (SetDelivered _ _ _ ps) \<longleftrightarrow> psSignalRef ps \<noteq> fp"
| "no_new_set fp (ApprovalDelivered _ _ _ _ _) \<longleftrightarrow> True"

lemma release_potential_step:
  assumes "hiss_inv tr" "no_new_set fp ev"
  shows "published_for fp (snd (hiss_step ev tr)) + held_for fp (snd (hiss_step ev tr))
         \<le> published_for fp tr + held_for fp tr"
proof -
  from assms(1) obtain h where h: "htHolds tr = Some h" "holds_inv h" by (auto simp: hiss_inv_def)
  show ?thesis
  proof (cases ev)
    case (SetDelivered pol ports now ps)
    with assms(2) show ?thesis
      using hiss_handle_effect(1,2) [OF h(1), of pol ports now ps]
      by (auto simp: published_for_def held_for_def holds_record_def h(1))
  next
    case (ApprovalDelivered pol ports t1 t2 a)
    then show ?thesis
      using approveHandler_effect(1,2) [OF h(1), of pol ports t1 t2 a] h
      by (auto simp: published_for_def held_for_def holds_inv_def Let_def split: option.splits)
  qed
qed

lemma release_potential_run:
  assumes "hiss_inv tr" "list_all (no_new_set fp) evs"
  shows "published_for fp (hiss_run evs tr) + held_for fp (hiss_run evs tr)
         \<le> published_for fp tr + held_for fp tr"
  using assms
proof (induction evs arbitrary: tr)
  case (Cons ev evs)
  have "hiss_inv (snd (hiss_step ev tr))" using Cons.prems hiss_inv_step by blast
  moreover have "list_all (no_new_set fp) evs" "no_new_set fp ev" using Cons.prems by auto
  ultimately show ?case
    using Cons.IH [of "snd (hiss_step ev tr)"] release_potential_step [OF Cons.prems(1), of fp ev]
    by (simp add: hiss_run_def)
qed (simp add: hiss_run_def)

lemma published_step_grows: "\<exists>new. htPublished (snd (hiss_step ev tr)) = htPublished tr @ new"
  by (cases ev)
    (auto simp: hiss_handle_def approveHandler_def holds_take_eq record_and_publish_def Let_def
      split: option.split)

lemma published_grows: "published_for fp tr \<le> published_for fp (hiss_run evs tr)"
proof (induction evs arbitrary: tr)
  case (Cons ev evs)
  have "published_for fp tr \<le> published_for fp (snd (hiss_step ev tr))"
    using published_step_grows [of ev tr] by (auto simp: published_for_def)
  with Cons [of "snd (hiss_step ev tr)"] show ?case by (simp add: hiss_run_def)
qed (simp add: hiss_run_def)

text \<open>C5: however many approvals arrive for a fingerprint, redelivered or repeated, and whatever else
  is handled meanwhile, a held fingerprint is released at most once and an unheld one never, until
  a new set for that fingerprint is delivered.\<close>

theorem approval_at_most_once:
  assumes "hiss_reachable tr" "list_all (no_new_set fp) evs"
  shows "published_for fp (hiss_run evs tr) \<le> published_for fp tr + held_for fp tr"
  using release_potential_run [OF hiss_reachable_inv [OF assms(1)] assms(2)] by linarith

theorem approval_at_most_once_witness:
  "published_for ''fp'' (hiss_run [ApprovalDelivered example_policy quiet_ports 170 170 example_approval,
      ApprovalDelivered example_policy quiet_ports 180 180 example_approval] example_run) \<le> 2"
proof -
  have "held_for ''fp'' example_run = 0"
    using approveHandler_effect(1) [of
        "snd (hiss_handle example_policy quiet_ports 150 example_set (buildTransport [] []))"]
      hiss_handle_effect(1) [of "buildTransport [] []" newPendingHolds example_policy quiet_ports 150 example_set]
    by (simp add: example_run_def hiss_run_def held_for_def buildTransport_def rebuildHolds_def
        example_approval_def newPendingHolds_def)
  moreover have "published_for ''fp'' example_run = 2"
    by (simp add: published_for_def example_run_published) (simp add: example_set_def)
  ultimately show ?thesis
    using approval_at_most_once [OF example_run_reachable, of "''fp''"
        "[ApprovalDelivered example_policy quiet_ports 170 170 example_approval,
          ApprovalDelivered example_policy quiet_ports 180 180 example_approval]"]
    by simp
qed

text \<open>an approval whose decision cannot be published loses the hold: the handler reports the error,
  nothing is published, and no later approval of the fingerprint, the redelivery of this one
  included, ever releases it.\<close>

theorem failed_release_is_lost:
  assumes "hiss_reachable tr" "htHolds tr = Some h" "h (apSignalRef a) = Some held"
    "hpPublish ports \<lparr>govDecision = reissue pol a t1 t2 (govDecision held), govSet = govSet held\<rparr> = Some e"
    "polVersion pol \<noteq> []" "t2 \<noteq> zero_time"
    "list_all (no_new_set (apSignalRef a)) evs"
  shows "fst (approveHandler pol ports t1 t2 a tr) = Some (PublishReissueError (apSignalRef a) e) \<and>
    published_for (apSignalRef a) (hiss_run evs (snd (approveHandler pol ports t1 t2 a tr)))
      = published_for (apSignalRef a) tr"
proof -
  let ?g = "\<lparr>govDecision = reissue pol a t1 t2 (govDecision held), govSet = govSet held\<rparr>"
  let ?tr = "snd (approveHandler pol ports t1 t2 a tr)"
  have aud: "decision_auditable (govDecision ?g) = None"
    using assms(5,6) by (simp add: decision_auditable_None_iff)
  have err: "fst (approveHandler pol ports t1 t2 a tr) = Some (PublishReissueError (apSignalRef a) e)"
    using assms(2-4) aud by (simp add: approveHandler_def holds_take_eq Let_def)
  have "hiss_reachable ?tr"
    using hiss_reachable.deliver [OF assms(1), of "ApprovalDelivered pol ports t1 t2 a"] by simp
  moreover have "held_for (apSignalRef a) ?tr = 0"
    using approveHandler_effect(1) [OF assms(2)] by (simp add: held_for_def)
  moreover have "published_for (apSignalRef a) ?tr = published_for (apSignalRef a) tr"
    using approveHandler_effect(2) [OF assms(2), of pol ports t1 t2 a] assms(3,4)
    by (simp add: published_for_def Let_def)
  moreover have "published_for (apSignalRef a) ?tr \<le> published_for (apSignalRef a) (hiss_run evs ?tr)"
    by (rule published_grows)
  ultimately show ?thesis
    using release_potential_run [OF hiss_reachable_inv assms(7), of ?tr] err by simp
qed

definition failing_ports :: hiss_ports where
  "failing_ports = \<lparr>hpCreate = None, hpPublish = (\<lambda>_. Some ''timeout'')\<rparr>"

definition held_run :: hiss_transport where
  "held_run = hiss_run [SetDelivered example_policy quiet_ports 150 example_set] (buildTransport [] [])"

lemma held_run_reachable: "hiss_reachable held_run"
  unfolding held_run_def by (rule hiss_run_reachable [OF hiss_reachable.boot])

lemma held_run_state:
  "htHolds held_run =
     Some [''fp'' \<mapsto> \<lparr>govDecision = evaluate example_set example_policy 150, govSet = example_set\<rparr>]"
  "htPublished held_run =
     [\<lparr>govDecision = evaluate example_set example_policy 150, govSet = example_set\<rparr>]"
proof -
  have v: "decVerdict (evaluate example_set example_policy 150) = VerdictEscalate"
    by (simp add: evaluate_def decision_updates example_defs verdict_defs)
  have s: "psSignalRef example_set = ''fp''" by (simp add: example_set_def)
  have h: "htHolds (buildTransport [] []) = Some Map.empty"
    by (simp add: buildTransport_def rebuildHolds_def newPendingHolds_def)
  show "htHolds held_run =
     Some [''fp'' \<mapsto> \<lparr>govDecision = evaluate example_set example_policy 150, govSet = example_set\<rparr>]"
    "htPublished held_run =
     [\<lparr>govDecision = evaluate example_set example_policy 150, govSet = example_set\<rparr>]"
    using v s h
    by (simp_all add: held_run_def hiss_run_def hiss_handle_def quiet_ports_def
        record_and_publish_def Let_def holds_record_def buildTransport_def)
qed

theorem failed_release_is_lost_witness:
  "published_for ''fp'' (hiss_run
     [ApprovalDelivered example_policy quiet_ports 170 170 example_approval]
     (snd (approveHandler example_policy failing_ports 160 160 example_approval held_run)))
   = published_for ''fp'' held_run"
proof -
  have a: "apSignalRef example_approval = ''fp''" by (simp add: example_approval_def)
  have n: "polVersion example_policy \<noteq> []" by (simp add: example_policy_def)
  have t: "(160::time) \<noteq> zero_time" by (simp add: zero_time_def)
  show ?thesis
    using failed_release_is_lost [OF held_run_reachable held_run_state(1), of example_approval _
        failing_ports example_policy 160 160 "''timeout''"
        "[ApprovalDelivered example_policy quiet_ports 170 170 example_approval]"]
    by (simp add: a n t failing_ports_def)
qed

subsection \<open>A restart restores the holds\<close>

text \<open>
  Runs without port failures in which, as the dedupe ledger of clank guarantees, no set arrives
  for a fingerprint already held unless it is held again.
\<close>

inductive hiss_quiet :: "hiss_transport \<Rightarrow> bool" where
  quiet_boot: "hiss_quiet (buildTransport [] [])"
| quiet_set: "hiss_quiet tr \<Longrightarrow> htHolds tr = Some h \<Longrightarrow>
    h (psSignalRef ps) = None \<or> awaitsApproval (decVerdict (evaluate ps pol now)) \<Longrightarrow>
    hiss_handle pol ports now ps tr = (None, tr') \<Longrightarrow> hiss_quiet tr'"
| quiet_approval: "hiss_quiet tr \<Longrightarrow> approveHandler pol ports t1 t2 a tr = (None, tr') \<Longrightarrow> hiss_quiet tr'"

text \<open>The waiting part of the latest decisions.\<close>

definition waiting :: "governed list \<Rightarrow> pending_holds" where
  "waiting msgs k = (case latest_decisions msgs k of None \<Rightarrow> None | Some g \<Rightarrow> if awaits g then Some g else None)"

lemma waiting_snoc:
  "waiting (msgs @ [g]) = (waiting msgs)(sigOf g := (if awaits g then Some g else None))"
  by (auto simp: waiting_def fun_eq_iff)

lemma hiss_quiet_waiting:
  "hiss_quiet tr \<Longrightarrow> htHolds tr = Some (waiting (htPublished tr)) \<and> holds_inv (waiting (htPublished tr))"
proof (induction rule: hiss_quiet.induct)
  case quiet_boot
  then show ?case
    by (auto simp: buildTransport_def rebuildHolds_def newPendingHolds_def waiting_def holds_inv_def
        latest_decisions_def)
next
  case (quiet_set tr h ps pol now ports tr')
  let ?g = "\<lparr>govDecision = evaluate ps pol now, govSet = ps\<rparr>"
  have eff: "htHolds tr' = Some (if awaits ?g then holds_record ?g h else h)"
    "htPublished tr' = htPublished tr @ [?g]"
    using hiss_handle_effect(1,3) [OF quiet_set.hyps(2), of pol ports now ps] quiet_set.hyps(4) by auto
  have h: "h = waiting (htPublished tr)" using quiet_set.IH quiet_set.hyps(2) by simp
  have "(if awaits ?g then holds_record ?g h else h) = waiting (htPublished tr')"
    using quiet_set.hyps(3) unfolding eff(2) waiting_snoc h
    by (auto simp: holds_record_def fun_upd_idem)
  then show ?case
    using eff quiet_set.IH h by (metis holds_inv_record judged_evaluate)
next
  case (quiet_approval tr pol ports t1 t2 a tr')
  define h where "h = waiting (htPublished tr)"
  have h: "htHolds tr = Some h" "holds_inv h" using quiet_approval.IH by (simp_all add: h_def)
  have tr': "tr' = snd (approveHandler pol ports t1 t2 a tr)" "fst (approveHandler pol ports t1 t2 a tr) = None"
    using quiet_approval.hyps by simp_all
  have "h(apSignalRef a := None) = waiting (htPublished tr')"
  proof (cases "h (apSignalRef a)")
    case None
    then show ?thesis
      using approveHandler_effect(2) [OF h(1), of pol ports t1 t2 a] tr' h_def
      by (simp add: fun_upd_idem)
  next
    case (Some held)
    with h(2) have "sigOf held = apSignalRef a" by (simp add: holds_inv_def)
    then show ?thesis
      using approveHandler_effect(2,3) [OF h(1), of pol ports t1 t2 a] tr' Some
      by (simp add: Let_def waiting_snoc h_def)
  qed
  then show ?case
    using approveHandler_effect(1) [OF h(1), of pol ports t1 t2 a] tr' holds_inv_remove [OF h(2)]
    by metis
qed


lemma held_run_quiet: "hiss_quiet held_run"
proof -
  have "hiss_handle example_policy quiet_ports 150 example_set (buildTransport [] []) =
    (None, held_run)"
    by (simp add: held_run_def hiss_run_def hiss_handle_def record_and_publish_def quiet_ports_def
        buildTransport_def Let_def)
  moreover have "htHolds (buildTransport [] []) = Some Map.empty"
    by (simp add: buildTransport_def rebuildHolds_def newPendingHolds_def)
  ultimately show ?thesis
    using hiss_quiet.quiet_set [OF hiss_quiet.quiet_boot, of Map.empty example_set] by simp
qed


subsection \<open>A poll pass\<close>

lemma hiss_handle_quiet:
  assumes "hpCreate ports = None" "\<And>g. hpPublish ports g = None"
  shows "fst (hiss_handle pol ports now ps tr) = None"
    and "htPublished (snd (hiss_handle pol ports now ps tr)) =
      htPublished tr @ [\<lparr>govDecision = evaluate ps pol now, govSet = ps\<rparr>]"
  using assms
  by (auto simp: hiss_handle_def record_and_publish_def Let_def split: option.split)

lemma published_fold:
  assumes "hpCreate ports = None" "\<And>g. hpPublish ports g = None"
  shows "htPublished (fold (\<lambda>p tr. case dec p of None \<Rightarrow> tr
             | Some ps \<Rightarrow> snd (hiss_handle pol ports (now p) ps tr)) paths tr) =
    htPublished tr @ List.map_filter (\<lambda>p. map_option (\<lambda>ps.
       \<lparr>govDecision = evaluate ps pol (now p), govSet = ps\<rparr>) (dec p)) paths"
  by (induction paths arbitrary: tr)
    (auto simp: map_filter_simps hiss_handle_quiet(2) [OF assms] split: option.split)

text \<open>a poll pass over a readable inbox with working ports publishes one decision per file that
  decodes, in file order, and moves every file: the decoded ones to processed, the others to
  quarantine, where they block nothing.\<close>

theorem hiss_tick_complete:
  assumes "hpCreate ports = None" "\<And>g. hpPublish ports g = None" "\<And>p sub. rename p sub = None"
    "\<And>p. p \<in> set paths \<Longrightarrow> \<exists>raw. read_file p = Inr raw"
  shows "fst (hiss_tick False pol ports now read_file unmarshal rename paths (tr, moved)) = None \<and>
    htPublished (fst (snd (hiss_tick False pol ports now read_file unmarshal rename paths (tr, moved)))) =
      htPublished tr @ List.map_filter (\<lambda>p. map_option (\<lambda>ps.
         \<lparr>govDecision = evaluate ps pol (now p), govSet = ps\<rparr>) (decoded read_file unmarshal p)) paths \<and>
    snd (snd (hiss_tick False pol ports now read_file unmarshal rename paths (tr, moved))) =
      moved @ map (\<lambda>p. (p, if decoded read_file unmarshal p = None then ''quarantine''
                            else ''processed'')) paths"
proof -
  let ?handle = "\<lambda>path ps (tr, moved).
          case hiss_handle pol ports (now path) ps tr of
            (Some e, tr') \<Rightarrow> (Some (HandleFileError path e), tr', moved)
          | (None, tr') \<Rightarrow>
              (case disposition rename path ''processed'' moved of
                 (Some e, moved') \<Rightarrow> (Some (ArchiveError path e), tr', moved')
               | (None, moved') \<Rightarrow> (None, tr', moved'))"
  have "?handle p v (s, m) = (None, snd (hiss_handle pol ports (now p) v s), m @ [(p, ''processed'')])"
    for p v s m
    using hiss_handle_quiet(1) [OF assms(1,2), of pol "now p" v s] assms(3) [of p]
    by (cases "hiss_handle pol ports (now p) v s") (simp add: disposition_def)
  then show ?thesis
    using drainDir_complete [OF assms(4), where rename = rename and handle = ?handle and s = tr
        and moved = moved and h = "\<lambda>p v s. snd (hiss_handle pol ports (now p) v s)"
        and disp = "\<lambda>_. ''processed''" and unmarshal = unmarshal, OF _ assms(3)]
    by (auto simp: hiss_tick_def published_fold [OF assms(1,2)] split: option.split)
qed

theorem hiss_tick_complete_witness:
  "htPublished (fst (snd (hiss_tick False example_policy quiet_ports (\<lambda>_. 150)
     (\<lambda>p. Inr p) (\<lambda>raw. if raw = ''good.yaml'' then Inr example_set else Inl ''bad'') (\<lambda>_ _. None)
     [''bad.yaml'', ''good.yaml''] (buildTransport [] [], [])))) =
   [\<lparr>govDecision = evaluate example_set example_policy 150, govSet = example_set\<rparr>]"
  using hiss_tick_complete [of quiet_ports "\<lambda>_ _. None" "[''bad.yaml'', ''good.yaml'']" "\<lambda>p. Inr p"
      example_policy "\<lambda>_. 150" "\<lambda>raw. if raw = ''good.yaml'' then Inr example_set else Inl ''bad''"
      "buildTransport [] []" "[]"]
  by (simp add: quiet_ports_def decoded_def map_filter_simps buildTransport_def)

end
