(* ===== verification/Contract.thy ===== *)
theory Contract
  imports Boundary
begin

text \<open>
  The authored action catalog of \<^verbatim>\<open>src/internal/contract\<close>: the contracts, the static catalog
  with its three queries, and the loader that binds each named precondition to a compiled
  function. The catalog is the autonomy boundary: clank proposes only from it and thump
  executes only from it, so its lookup is stated as an interface, the locale \<open>catalog_lookup\<close>,
  that both beats rely on.

  A precondition's function is compiled Go the loader fills in; the YAML decoder is a parameter
  that turns the raw document into contracts whose precondition functions are still arbitrary.
\<close>

record precondition =
  pcName :: string
  pcOK :: "sao \<Rightarrow> bool"

record range =
  rgMin :: real
  rgMax :: real
  rgDefault :: real

record action_spec =
  asDescription :: string
  asScopeParameters :: "string \<rightharpoonup> range"

record exec_step =
  stpVerb :: string
  stpNamespace :: string
  stpSelector :: string
  stpCommand :: "string list"
  stpDeployment :: string
  stpReplicas :: "int option"
  stpConfigMap :: string
  stpDataKey :: string
  stpFlag :: string
  stpVariant :: string
  stpPath :: string

record execution =
  exForward :: "exec_step list"
  exReverse :: "exec_step list"

record reversal =
  rvMethod :: string
  rvFallback :: string
  rvRestoreOnSuccess :: bool
  rvHoldOnMiss :: bool

record success_criteria =
  scMetric :: string
  scTarget :: string
  scWindow :: duration
  scAbortConditions :: "string list"
  scSeverityQuery :: string
  scSeverityReductionPct :: real

record action_contract =
  acName :: string
  acApplicableFailureClasses :: "failure_class list"
  acApplicableTiers :: "string list"
  acBlastTier :: blast_tier
  acPreconditions :: "precondition list"
  acAction :: action_spec
  acReversal :: reversal
  acExecution :: execution
  acSuccessCriteria :: success_criteria

type_synonym static_catalog = "action_contract list"

definition classMatches :: "action_contract \<Rightarrow> failure_class \<Rightarrow> bool" where
  "classMatches c cls \<longleftrightarrow> cls \<in> set (acApplicableFailureClasses c)"

definition tierMatches :: "action_contract \<Rightarrow> string \<Rightarrow> bool" where
  "tierMatches c tier \<longleftrightarrow> tier \<in> set (acApplicableTiers c)"

definition preconditionsMet :: "action_contract \<Rightarrow> sao \<Rightarrow> bool" where
  "preconditionsMet c s \<longleftrightarrow> list_all (\<lambda>p. pcOK p s) (acPreconditions c)"

definition applicable :: "static_catalog \<Rightarrow> failure_class \<Rightarrow> string \<Rightarrow> sao \<Rightarrow> action_contract list" where
  "applicable cat cls tier s =
     filter (\<lambda>c. classMatches c cls \<and> tierMatches c tier \<and> preconditionsMet c s) cat"

definition applicableToTier :: "static_catalog \<Rightarrow> string \<Rightarrow> sao \<Rightarrow> action_contract list" where
  "applicableToTier cat tier s = filter (\<lambda>c. tierMatches c tier \<and> preconditionsMet c s) cat"

definition byName :: "static_catalog \<Rightarrow> string \<Rightarrow> action_contract option" where
  "byName cat n = List.find (\<lambda>c. acName c = n) cat"

subsection \<open>Loading\<close>

datatype load_error =
    ParseCatalog string
  | UnknownPrecondition string string

type_synonym registry = "string \<rightharpoonup> (sao \<Rightarrow> bool)"

fun bind_preconditions :: "registry \<Rightarrow> string \<Rightarrow> precondition list \<Rightarrow> load_error + precondition list" where
  "bind_preconditions reg n [] = Inr []"
| "bind_preconditions reg n (p # ps) =
     (case reg (pcName p) of
        None \<Rightarrow> Inl (UnknownPrecondition n (pcName p))
      | Some ok \<Rightarrow>
          res_bind (bind_preconditions reg n ps) (\<lambda>qs. Inr (p\<lparr>pcOK := ok\<rparr> # qs)))"

fun bind_contracts :: "registry \<Rightarrow> action_contract list \<Rightarrow> load_error + action_contract list" where
  "bind_contracts reg [] = Inr []"
| "bind_contracts reg (c # cs) =
     res_bind (bind_preconditions reg (acName c) (acPreconditions c)) (\<lambda>ps.
       res_bind (bind_contracts reg cs) (\<lambda>ds. Inr (c\<lparr>acPreconditions := ps\<rparr> # ds)))"

definition load_catalog ::
  "(string \<Rightarrow> string + action_contract list) \<Rightarrow> string \<Rightarrow> registry \<Rightarrow> load_error + static_catalog"
where
  "load_catalog unmarshal raw reg =
     (case unmarshal raw of
        Inl e \<Rightarrow> Inl (ParseCatalog e)
      | Inr contracts \<Rightarrow> bind_contracts reg contracts)"

subsection \<open>The lookup contract\<close>

text \<open>
  What the beats rely on: a lookup answers with a member of the catalog carrying the asked name,
  and refuses exactly the names no member carries.
\<close>

locale catalog_lookup =
  fixes members :: "'c \<Rightarrow> 'a set"
    and name_of :: "'a \<Rightarrow> string"
    and lookup :: "'c \<Rightarrow> string \<Rightarrow> 'a option"
  assumes lookup_sound: "lookup c n = Some a \<Longrightarrow> a \<in> members c \<and> name_of a = n"
    and lookup_complete: "lookup c n = None \<Longrightarrow> a \<in> members c \<Longrightarrow> name_of a \<noteq> n"
begin

lemma lookup_refuses_iff: "lookup c n = None \<longleftrightarrow> n \<notin> name_of ` members c"
proof (cases "lookup c n")
  case None
  then show ?thesis using lookup_complete [OF None] by auto
next
  case (Some a)
  then show ?thesis using lookup_sound [OF Some] by auto
qed

lemma lookup_admits_iff: "lookup c n \<noteq> None \<longleftrightarrow> n \<in> name_of ` members c"
  by (simp add: lookup_refuses_iff)

lemma lookup_name: "lookup c n = Some a \<Longrightarrow> name_of a = n"
  using lookup_sound by blast

lemma lookup_unique:
  "inj_on name_of (members c) \<Longrightarrow> a \<in> members c \<Longrightarrow> lookup c (name_of a) = Some a"
proof (cases "lookup c (name_of a)")
  case None
  assume "a \<in> members c"
  with lookup_complete [OF None] show ?thesis by blast
next
  case (Some b)
  assume "inj_on name_of (members c)" "a \<in> members c"
  with lookup_sound [OF Some] Some show ?thesis by (simp add: inj_on_def)
qed

end

interpretation cat: catalog_lookup set acName byName
proof unfold_locales
  show "byName c n = Some a \<Longrightarrow> a \<in> set c \<and> acName a = n" for c n a
    by (auto simp: byName_def dest: find_eq_Some_in_set)
  show "byName c n = None \<Longrightarrow> a \<in> set c \<Longrightarrow> acName a \<noteq> n" for c n a
    by (auto simp: byName_def find_None_iff)
qed

subsection \<open>Facts\<close>

lemma applicable_subset_tier:
  "set (applicable cat cls tier s) \<subseteq> set (applicableToTier cat tier s)"
  by (auto simp: applicable_def applicableToTier_def)

lemma applicable_in_catalog: "c \<in> set (applicable cat cls tier s) \<Longrightarrow> c \<in> set cat"
  by (auto simp: applicable_def)

lemma bind_preconditions_Inr:
  "bind_preconditions reg n ps = Inr qs \<longleftrightarrow>
     (\<forall>p \<in> set ps. reg (pcName p) \<noteq> None) \<and>
     qs = map (\<lambda>p. p\<lparr>pcOK := the (reg (pcName p))\<rparr>) ps"
  by (induction ps arbitrary: qs)
    (auto simp: res_bind_eq_Inr split: option.splits)

lemma bind_contracts_Inr:
  "bind_contracts reg cs = Inr ds \<longleftrightarrow>
     (\<forall>c \<in> set cs. \<forall>p \<in> set (acPreconditions c). reg (pcName p) \<noteq> None) \<and>
     ds = map (\<lambda>c. c\<lparr>acPreconditions :=
                 map (\<lambda>p. p\<lparr>pcOK := the (reg (pcName p))\<rparr>) (acPreconditions c)\<rparr>) cs"
  by (induction cs arbitrary: ds) (auto simp: res_bind_eq_Inr bind_preconditions_Inr)

lemma bind_contracts_cong_names:
  "bind_contracts reg cs = Inr ds \<Longrightarrow> map acName ds = map acName cs"
  by (auto simp: bind_contracts_Inr)

subsection \<open>Concrete values\<close>

definition example_step :: "string \<Rightarrow> exec_step" where
  "example_step variant = \<lparr>stpVerb = ''flagVariant'', stpNamespace = ''demo'', stpSelector = [],
     stpCommand = [], stpDeployment = [], stpReplicas = None, stpConfigMap = ''flagd'',
     stpDataKey = ''demo.json'', stpFlag = ''cartFailure'', stpVariant = variant, stpPath = []\<rparr>"

definition example_contract :: "string \<Rightarrow> string \<Rightarrow> action_contract" where
  "example_contract n variant = \<lparr>acName = n, acApplicableFailureClasses = [''service_failure''],
     acApplicableTiers = [''tier1''], acBlastTier = BlastLow, acPreconditions = [],
     acAction = \<lparr>asDescription = ''flip'', asScopeParameters = Map.empty\<rparr>,
     acReversal = \<lparr>rvMethod = ''flip_back'', rvFallback = ''page'', rvRestoreOnSuccess = False,
       rvHoldOnMiss = False\<rparr>,
     acExecution = \<lparr>exForward = [example_step variant], exReverse = [example_step ''on'']\<rparr>,
     acSuccessCriteria = \<lparr>scMetric = ''errors'', scTarget = ''< 0.01'', scWindow = 300 * second,
       scAbortConditions = [], scSeverityQuery = [], scSeverityReductionPct = 1/2\<rparr>\<rparr>"

end
