(* ===== verification/ThumpOrder.thy ===== *)
theory ThumpOrder
  imports Contract
begin

text \<open>
  How thump turns a governed approval into an order: the order and its reversal plan
  (\<^verbatim>\<open>src/internal/thump/order.go\<close>), the notes a reviewer reads (\<^verbatim>\<open>notes.go\<close>), the rendering with
  its refusals (\<^verbatim>\<open>actuator.go\<close>) and the order that undoes another (\<^verbatim>\<open>reversal.go\<close>).
\<close>

datatype order_kind = OrderForward | OrderReversal | OrderOther string

record reversal_plan =
  rplPath :: reversal_path
  rplFallback :: string
  rplRestoreOnSuccess :: bool
  rplHoldOnMiss :: bool

record order =
  ordID :: string
  ordKind :: order_kind
  ordDecisionRef :: string
  ordSignalRef :: string
  ordSLORef :: string
  ordContractRef :: string
  ordGrantedBand :: band
  ordDescription :: string
  ordParameters :: "string \<rightharpoonup> real"
  ordReversal :: reversal_plan
  ordSuccess :: success_criteria
  ordRenderedAt :: time
  ordNotes :: string

definition zero_reversal_path :: reversal_path where
  "zero_reversal_path = \<lparr>rpMethod = [], rpWatching = [], rpTrigger = [], rpAutomatic = False\<rparr>"

definition zero_success :: success_criteria where
  "zero_success = \<lparr>scMetric = [], scTarget = [], scWindow = 0, scAbortConditions = [],
     scSeverityQuery = [], scSeverityReductionPct = 0\<rparr>"

subsection \<open>Notes\<close>

abbreviation newline :: string where
  "newline \<equiv> [CHR 0x0A]"

text \<open>The verb \<^verbatim>\<open>%.2f\<close>: the nearest hundredth, ties to even.\<close>

definition hundredths :: "real \<Rightarrow> int" where
  "hundredths x =
     (let y = \<bar>x\<bar> * 100; n = \<lfloor>y\<rfloor>; r = y - of_int n
      in if r < 1/2 then n else if r > 1/2 then n + 1 else if even n then n else n + 1)"

definition show_fixed2 :: "real \<Rightarrow> string" where
  "show_fixed2 x =
     (let n = hundredths x
      in (if x < 0 then ''-'' else []) @ show_int (n div 100) @ ''.'' @
         show_int (n mod 100 div 10) @ show_int (n mod 10))"

definition pad_right :: "nat \<Rightarrow> string \<Rightarrow> string" where
  "pad_right n s = s @ replicate (n - length s) (CHR '' '')"

definition notes_ranking :: "ranking_rationale \<Rightarrow> string" where
  "notes_ranking rr =
     ''Ranked by: '' @ rrDominantAxis rr @
     (if rrVelocityWeight rr \<noteq> [] then '' (velocity: '' @ rrVelocityWeight rr @ '')'' else []) @ newline"

definition notes_candidate :: "string \<Rightarrow> candidate \<Rightarrow> string" where
  "notes_candidate rec c =
     (if cndID c = rec then ''*'' else '' '') @ '' #'' @ show_int (cndRank c) @ '' '' @
     pad_right 30 (cndContractRef c) @ '' confidence='' @ show_fixed2 (cndConfidence c) @
     (if cndConfidenceCeilingBound c
      then '' (ceiling-bound, computed='' @ show_fixed2 (cndComputedConfidence c) @ '')'' else []) @
     (if cndCitations c \<noteq> [] then '' citations=['' @ join '', '' (cndCitations c) @ '']'' else []) @
     newline"

definition renderNotes :: "proposal_set \<Rightarrow> string" where
  "renderNotes ps =
     ''Recommended: '' @ psRecommended ps @ newline @
     (case psRankingRationale ps of None \<Rightarrow> [] | Some rr \<Rightarrow> notes_ranking rr) @
     (if psHypotheses ps \<noteq> [] then
        newline @ ''Hypotheses:'' @ newline @
        concat (map (\<lambda>h. ''  - '' @ hypName h @ '' (weight '' @ show_fixed2 (hypWeight h) @ '')'' @ newline)
                  (psHypotheses ps))
      else []) @
     newline @ ''Candidates:'' @ newline @
     concat (map (notes_candidate (psRecommended ps)) (psProposals ps)) @
     (if psEvidence ps \<noteq> [] then
        newline @ ''Evidence:'' @ newline @
        concat (map (\<lambda>e. ''  - ['' @ evTool e @ ''] '' @ evQuery e @ '': '' @ evSummary e @ newline)
                  (psEvidence ps))
      else [])"

subsection \<open>Rendering\<close>

datatype render_error =
    ErrUnauditable audit_error
  | ErrUngoverned verdict
  | ErrSeamMismatch string string
  | ErrOutsideCatalog string

definition order_of :: "decision \<Rightarrow> proposal_set \<Rightarrow> candidate \<Rightarrow> action_contract \<Rightarrow> time \<Rightarrow> order" where
  "order_of dec ps cand ct now =
     \<lparr>ordID = ''ord:'' @ decSignalRef dec @ '':'' @ show_int (unix_seconds now),
      ordKind = OrderForward,
      ordDecisionRef = decID dec,
      ordSignalRef = decSignalRef dec,
      ordSLORef = decSLORef dec,
      ordContractRef = cndContractRef cand,
      ordGrantedBand = decGrantedBand dec,
      ordDescription = asDescription (acAction ct),
      ordParameters = (\<lambda>n. map_option rgDefault (asScopeParameters (acAction ct) n)),
      ordReversal =
        \<lparr>rplPath = (case cndReversalPath cand of None \<Rightarrow> zero_reversal_path | Some rp \<Rightarrow> rp),
         rplFallback = rvFallback (acReversal ct),
         rplRestoreOnSuccess = rvRestoreOnSuccess (acReversal ct),
         rplHoldOnMiss = rvHoldOnMiss (acReversal ct)\<rparr>,
      ordSuccess = acSuccessCriteria ct,
      ordRenderedAt = now,
      ordNotes = renderNotes ps\<rparr>"

definition render :: "governed \<Rightarrow> static_catalog \<Rightarrow> time \<Rightarrow> render_error + order" where
  "render g cat now =
     (let dec = govDecision g; ps = govSet g
      in case decision_auditable dec of
           Some e \<Rightarrow> Inl (ErrUnauditable e)
         | None \<Rightarrow>
             if decVerdict dec \<noteq> VerdictApproved then Inl (ErrUngoverned (decVerdict dec))
             else
               (case candidateFor ps (decCandidateRef dec) of
                  None \<Rightarrow> Inl (ErrSeamMismatch (decID dec) (psName ps))
                | Some cand \<Rightarrow>
                    if decProposalRef dec \<noteq> psName ps \<or> decSignalRef dec \<noteq> psSignalRef ps
                    then Inl (ErrSeamMismatch (decID dec) (psName ps))
                    else
                      (case byName cat (cndContractRef cand) of
                         None \<Rightarrow> Inl (ErrOutsideCatalog (cndContractRef cand))
                       | Some ct \<Rightarrow> Inr (order_of dec ps cand ct now))))"

definition reversalOf :: "order \<Rightarrow> time \<Rightarrow> order" where
  "reversalOf ord now =
     \<lparr>ordID = ''rev:'' @ ordSignalRef ord @ '':'' @ show_int (unix_seconds now),
      ordKind = OrderReversal,
      ordDecisionRef = ordDecisionRef ord,
      ordSignalRef = ordSignalRef ord,
      ordSLORef = [],
      ordContractRef = ordContractRef ord,
      ordGrantedBand = BandOther [],
      ordDescription = rpMethod (rplPath (ordReversal ord)),
      ordParameters = Map.empty,
      ordReversal = ordReversal ord,
      ordSuccess = zero_success,
      ordRenderedAt = now,
      ordNotes = []\<rparr>"

subsection \<open>Facts\<close>

lemma order_of_sel [simp]:
  "ordKind (order_of dec ps cand ct now) = OrderForward"
  "ordDecisionRef (order_of dec ps cand ct now) = decID dec"
  "ordSignalRef (order_of dec ps cand ct now) = decSignalRef dec"
  "ordContractRef (order_of dec ps cand ct now) = cndContractRef cand"
  "ordSLORef (order_of dec ps cand ct now) = decSLORef dec"
  "ordGrantedBand (order_of dec ps cand ct now) = decGrantedBand dec"
  by (simp_all add: order_of_def)

lemma reversalOf_sel [simp]:
  "ordKind (reversalOf ord now) = OrderReversal"
  "ordDecisionRef (reversalOf ord now) = ordDecisionRef ord"
  "ordSignalRef (reversalOf ord now) = ordSignalRef ord"
  "ordContractRef (reversalOf ord now) = ordContractRef ord"
  by (simp_all add: reversalOf_def)

lemma render_Inr_iff:
  "render g cat now = Inr ord \<longleftrightarrow>
     decision_auditable (govDecision g) = None \<and>
     decVerdict (govDecision g) = VerdictApproved \<and>
     decProposalRef (govDecision g) = psName (govSet g) \<and>
     decSignalRef (govDecision g) = psSignalRef (govSet g) \<and>
     (\<exists>cand ct. candidateFor (govSet g) (decCandidateRef (govDecision g)) = Some cand \<and>
        byName cat (cndContractRef cand) = Some ct \<and>
        ord = order_of (govDecision g) (govSet g) cand ct now)"
  by (auto simp: render_def Let_def split: option.splits)

text \<open>thump renders an order only for what governance granted and the catalog holds: the decision
  is auditable and approved, describes the set it travels with, and names one of its candidates,
  whose contract the catalog holds under that name; the order is a forward one, and its
  references, band, parameters, reversal flags and success criteria are those of the decision, of
  that candidate and of that contract.\<close>

theorem render_traced:
  assumes "render g cat now = Inr ord"
  shows "\<exists>cand ct. cand \<in> set (psProposals (govSet g)) \<and> cndID cand = decCandidateRef (govDecision g) \<and>
    ct \<in> set cat \<and> acName ct = cndContractRef cand \<and>
    decision_auditable (govDecision g) = None \<and> decVerdict (govDecision g) = VerdictApproved \<and>
    decSignalRef (govDecision g) = psSignalRef (govSet g) \<and>
    decProposalRef (govDecision g) = psName (govSet g) \<and>
    ordKind ord = OrderForward \<and> ordContractRef ord = acName ct \<and>
    ordDecisionRef ord = decID (govDecision g) \<and> ordSignalRef ord = psSignalRef (govSet g) \<and>
    ordGrantedBand ord = decGrantedBand (govDecision g) \<and>
    ordSuccess ord = acSuccessCriteria ct \<and>
    dom (ordParameters ord) = dom (asScopeParameters (acAction ct)) \<and>
    (\<forall>n r. asScopeParameters (acAction ct) n = Some r \<longrightarrow> ordParameters ord n = Some (rgDefault r)) \<and>
    rplHoldOnMiss (ordReversal ord) = rvHoldOnMiss (acReversal ct) \<and>
    rplRestoreOnSuccess (ordReversal ord) = rvRestoreOnSuccess (acReversal ct)"
proof -
  from assms obtain cand ct where *: "decision_auditable (govDecision g) = None"
    "decVerdict (govDecision g) = VerdictApproved" "decProposalRef (govDecision g) = psName (govSet g)"
    "decSignalRef (govDecision g) = psSignalRef (govSet g)"
    "candidateFor (govSet g) (decCandidateRef (govDecision g)) = Some cand"
    "byName cat (cndContractRef cand) = Some ct"
    "ord = order_of (govDecision g) (govSet g) cand ct now"
    by (auto simp: render_Inr_iff)
  with candidateFor_in_set [OF *(5)] cat.lookup_sound [OF *(6)] show ?thesis
    by (intro exI [of _ cand] exI [of _ ct]) (auto simp: order_of_def)
qed

lemma example_render:
  "render example_governed [example_contract ''scale-out'' ''off''] 160 =
     Inr (order_of example_decision example_set example_candidate
            (example_contract ''scale-out'' ''off'') 160)"
  by (simp add: render_def Let_def example_governed_def example_decision_def example_set_def
      example_candidate_def example_contract_def decision_auditable_def is_zero_time_def
      zero_time_def candidateFor_def byName_def)

theorem render_traced_witness:
  "\<exists>cand ct. cand \<in> set (psProposals example_set) \<and> ct \<in> set [example_contract ''scale-out'' ''off''] \<and>
     acName ct = cndContractRef cand"
  using render_traced [OF example_render] by (auto simp: example_governed_def)

text \<open>each refusal names its cause, in this order: the audit invariant, the verdict, the
  mismatch between decision and set, the catalog; an order is rendered exactly when none
  applies.\<close>

theorem render_refusals:
  "(case render g cat now of
      Inl (ErrUnauditable e) \<Rightarrow> decision_auditable (govDecision g) = Some e
    | Inl (ErrUngoverned v) \<Rightarrow>
        decision_auditable (govDecision g) = None \<and> decVerdict (govDecision g) = v \<and> v \<noteq> VerdictApproved
    | Inl (ErrSeamMismatch i n) \<Rightarrow>
        decision_auditable (govDecision g) = None \<and> decVerdict (govDecision g) = VerdictApproved \<and>
        (if candidateFor (govSet g) (decCandidateRef (govDecision g)) = None then True
         else \<not> (decProposalRef (govDecision g) = psName (govSet g) \<and>
                 decSignalRef (govDecision g) = psSignalRef (govSet g)))
    | Inl (ErrOutsideCatalog ref) \<Rightarrow>
        decision_auditable (govDecision g) = None \<and> decVerdict (govDecision g) = VerdictApproved \<and>
        contractRefFor (govSet g) (decCandidateRef (govDecision g)) = ref \<and> ref \<notin> acName ` set cat
    | Inr ord \<Rightarrow>
        decision_auditable (govDecision g) = None \<and> decVerdict (govDecision g) = VerdictApproved \<and>
        contractRefFor (govSet g) (decCandidateRef (govDecision g)) \<in> acName ` set cat)"
proof (cases "candidateFor (govSet g) (decCandidateRef (govDecision g))")
  case None
  then show ?thesis by (auto simp: render_def Let_def split: option.splits)
next
  case (Some cand)
  show ?thesis
  proof (cases "byName cat (cndContractRef cand)")
    case None
    with cat.lookup_refuses_iff [of cat "cndContractRef cand"] Some show ?thesis
      by (auto simp: render_def Let_def contractRefFor_def split: option.splits)
  next
    case (Some ct)
    with cat.lookup_admits_iff [of cat "cndContractRef cand"]
      \<open>candidateFor (govSet g) (decCandidateRef (govDecision g)) = Some cand\<close> show ?thesis
      by (auto simp: render_def Let_def contractRefFor_def split: option.splits)
  qed
qed

end
