(* ===== verification/Actuate.thy ===== *)
theory Actuate
  imports Contract
begin

text \<open>
  The actuator of \<^verbatim>\<open>src/internal/actuate\<close>: how an authored execution block becomes a closed set of
  operations (\<^verbatim>\<open>binding.go\<close>) and how one is dispatched against the cluster or the GitOps source of
  record (\<^verbatim>\<open>runner.go\<close>).

  The Kubernetes client and the forge are parameters: each of their methods is a function of its
  arguments and of a world it may change, with the error text or the value it answers. The
  error texts the actuator builds around those answers are kept, since they end in an outcome's
  error. Timeouts are answers of the client. JSON documents are values of the type \<open>json\<close>; decoding
  a stored document into a map and printing one are the parameters \<open>parse\<close> and \<open>render\<close>.
\<close>

subsection \<open>Documents\<close>

datatype json = JNull | JBool bool | JNum int | JText string | JArr "json list"
  | JObj "string \<Rightarrow> json option"

definition as_object :: "json option \<Rightarrow> (string \<Rightarrow> json option) option" where
  "as_object j = (case j of Some (JObj m) \<Rightarrow> Some m | _ \<Rightarrow> None)"

definition set_variant :: "string \<Rightarrow> string \<Rightarrow> (string \<Rightarrow> json option) \<Rightarrow> (string \<Rightarrow> json option) option" where
  "set_variant flag variant doc =
     (let flags = (case as_object (doc ''flags'') of None \<Rightarrow> Map.empty | Some f \<Rightarrow> f)
      in case as_object (flags flag) of
           None \<Rightarrow> None
         | Some def \<Rightarrow>
             Some (doc(''flags'' \<mapsto> JObj (flags(flag \<mapsto> JObj (def(''defaultVariant'' \<mapsto> JText variant)))))))"

definition setDefaultVariant ::
  "(string \<Rightarrow> string + (string \<Rightarrow> json option)) \<Rightarrow> (json \<Rightarrow> string) \<Rightarrow> string \<Rightarrow> string \<Rightarrow> string \<Rightarrow>
   string + string" where
  "setDefaultVariant parse render doc flag variant =
     (case parse doc of
        Inl e \<Rightarrow> Inl (''parse flagd document: '' @ e)
      | Inr m \<Rightarrow>
          (case set_variant flag variant m of
             None \<Rightarrow> Inl (''flag '' @ go_quote flag @ '' not defined in flagd document'')
           | Some m' \<Rightarrow> Inr (render (JObj m'))))"

subsection \<open>Operations\<close>

datatype operation =
    ExecOp string string "string list"
  | ScaleOp string string int
  | RestartOp string string
  | FlagVariantOp string string string string string
  | MaintenanceReleaseOp string string string
  | SeqOp "operation list"

record binding =
  bdForward :: operation
  bdReverse :: operation

datatype unbindable = NoSteps | MissingTarget string | NoForgeWired | NoMechanism string

datatype bind_error = BindError string bool "nat option" unbindable

text \<open>A contract's name, whether the failure is in its reverse half, and the step of a sequence.\<close>

definition mechanismFor :: "exec_step \<Rightarrow> bool \<Rightarrow> unbindable + operation" where
  "mechanismFor s forgeWired =
     (if stpVerb s = ''exec'' then
        (if stpNamespace s = [] \<or> stpSelector s = [] \<or> stpCommand s = [] then Inl (MissingTarget ''exec'')
         else Inr (ExecOp (stpNamespace s) (stpSelector s) (stpCommand s)))
      else if stpVerb s = ''scale'' then
        (case stpReplicas s of
           None \<Rightarrow> Inl (MissingTarget ''scale'')
         | Some n \<Rightarrow>
             if stpNamespace s = [] \<or> stpDeployment s = [] then Inl (MissingTarget ''scale'')
             else Inr (ScaleOp (stpNamespace s) (stpDeployment s) n))
      else if stpVerb s = ''restart'' then
        (if stpNamespace s = [] \<or> stpDeployment s = [] then Inl (MissingTarget ''restart'')
         else Inr (RestartOp (stpNamespace s) (stpDeployment s)))
      else if stpVerb s = ''flagVariant'' then
        (if stpNamespace s = [] \<or> stpConfigMap s = [] \<or> stpDataKey s = [] \<or> stpFlag s = []
             \<or> stpVariant s = [] then Inl (MissingTarget ''flagVariant'')
         else Inr (FlagVariantOp (stpNamespace s) (stpConfigMap s) (stpDataKey s) (stpFlag s)
                     (stpVariant s)))
      else if stpVerb s = ''maintenanceRelease'' then
        (if \<not> forgeWired then Inl NoForgeWired
         else if stpPath s = [] \<or> stpFlag s = [] \<or> stpVariant s = []
           then Inl (MissingTarget ''maintenanceRelease'')
         else Inr (MaintenanceReleaseOp (stpPath s) (stpFlag s) (stpVariant s)))
      else Inl (NoMechanism (stpVerb s)))"

fun seq_mechanisms :: "nat \<Rightarrow> bool \<Rightarrow> exec_step list \<Rightarrow> (nat \<times> unbindable) + operation list" where
  "seq_mechanisms i forgeWired [] = Inr []"
| "seq_mechanisms i forgeWired (s # ss) =
     (case mechanismFor s forgeWired of
        Inl e \<Rightarrow> Inl (i + 1, e)
      | Inr op' \<Rightarrow> res_bind (seq_mechanisms (i + 1) forgeWired ss) (\<lambda>ops. Inr (op' # ops)))"

fun opFor :: "exec_step list \<Rightarrow> bool \<Rightarrow> (nat option \<times> unbindable) + operation" where
  "opFor [] forgeWired = Inl (None, NoSteps)"
| "opFor [s] forgeWired =
     (case mechanismFor s forgeWired of Inl e \<Rightarrow> Inl (None, e) | Inr op' \<Rightarrow> Inr op')"
| "opFor (s # t # ss) forgeWired =
     (case seq_mechanisms 0 forgeWired (s # t # ss) of
        Inl (i, e) \<Rightarrow> Inl (Some i, e)
      | Inr ops \<Rightarrow> Inr (SeqOp ops))"

definition bindingFor :: "action_contract \<Rightarrow> bool \<Rightarrow> bind_error + binding" where
  "bindingFor c forgeWired =
     (case opFor (exForward (acExecution c)) forgeWired of
        Inl (i, e) \<Rightarrow> Inl (BindError (acName c) False i e)
      | Inr fwd \<Rightarrow>
          (case opFor (exReverse (acExecution c)) forgeWired of
             Inl (i, e) \<Rightarrow> Inl (BindError (acName c) True i e)
           | Inr rev' \<Rightarrow> Inr \<lparr>bdForward = fwd, bdReverse = rev'\<rparr>))"

fun bind_from :: "(string \<rightharpoonup> binding) \<Rightarrow> bool \<Rightarrow> action_contract list \<Rightarrow> bind_error + (string \<rightharpoonup> binding)" where
  "bind_from out forgeWired [] = Inr out"
| "bind_from out forgeWired (c # cs) =
     (case bindingFor c forgeWired of
        Inl e \<Rightarrow> Inl e
      | Inr b \<Rightarrow> bind_from (out(acName c \<mapsto> b)) forgeWired cs)"

definition bind_catalog :: "static_catalog \<Rightarrow> bool \<Rightarrow> bind_error + (string \<rightharpoonup> binding)" where
  "bind_catalog cat forgeWired = bind_from Map.empty forgeWired cat"

subsection \<open>Dispatch\<close>

record release =
  relKey :: string
  relPath :: string
  relContent :: string
  relNotes :: string

record 'w kube =
  kubeExec :: "string \<Rightarrow> string \<Rightarrow> string list \<Rightarrow> 'w \<Rightarrow> string option \<times> 'w"
  kubePatch :: "string \<Rightarrow> string \<Rightarrow> string \<Rightarrow> string \<Rightarrow> string \<Rightarrow> json \<Rightarrow> 'w \<Rightarrow> string option \<times> 'w"
  kubeGetConfigMapKey :: "string \<Rightarrow> string \<Rightarrow> string \<Rightarrow> 'w \<Rightarrow> (string + string) \<times> 'w"

record 'w forge =
  forgeRead :: "string \<Rightarrow> 'w \<Rightarrow> (string + string) \<times> 'w"
  forgeCut :: "release \<Rightarrow> 'w \<Rightarrow> (string + string) \<times> 'w"

record 'w dispatch =
  dspKube :: "'w kube"
  dspForge :: "'w forge option"
  dspRef :: string
  dspReverse :: bool
  dspNotes :: string
  dspParse :: "string \<Rightarrow> string + (string \<Rightarrow> json option)"
  dspRender :: "json \<Rightarrow> string"
  dspStamp :: string

definition releaseKey :: "string \<Rightarrow> bool \<Rightarrow> string" where
  "releaseKey ref reverse = (if reverse then ref @ '':revert'' else ref)"

definition jobj :: "(string \<times> json) list \<Rightarrow> json" where
  "jobj kvs = JObj (map_of kvs)"

abbreviation errUnbindable :: string where
  "errUnbindable \<equiv> ''actuate: contract names no executable mechanism''"

definition do_flagVariant ::
  "string \<Rightarrow> string \<Rightarrow> string \<Rightarrow> string \<Rightarrow> string \<Rightarrow> 'w dispatch \<Rightarrow> 'w \<Rightarrow> string option \<times> 'w" where
  "do_flagVariant ns cm key flag variant d w =
     (case kubeGetConfigMapKey (dspKube d) ns cm key w of
        (Inl e, w1) \<Rightarrow> (Some (''read '' @ ns @ ''/'' @ cm @ ''['' @ key @ '']: '' @ e), w1)
      | (Inr current, w1) \<Rightarrow>
          (case setDefaultVariant (dspParse d) (dspRender d) current flag variant of
             Inl e \<Rightarrow> (Some (ns @ ''/'' @ cm @ ''['' @ key @ '']: '' @ e), w1)
           | Inr updated \<Rightarrow>
               kubePatch (dspKube d) [] ''v1'' ''configmaps'' ns cm
                 (jobj [(''data'', jobj [(key, JText updated)])]) w1))"

definition do_maintenanceRelease ::
  "string \<Rightarrow> string \<Rightarrow> string \<Rightarrow> 'w dispatch \<Rightarrow> 'w \<Rightarrow> string option \<times> 'w" where
  "do_maintenanceRelease path flag variant d w =
     (case dspForge d of
        None \<Rightarrow> (Some (''no forge wired for '' @ path @ '': '' @ errUnbindable), w)
      | Some f \<Rightarrow>
          (case forgeRead f path w of
             (Inl e, w1) \<Rightarrow> (Some (''read '' @ path @ '': '' @ e), w1)
           | (Inr current, w1) \<Rightarrow>
               (case setDefaultVariant (dspParse d) (dspRender d) current flag variant of
                  Inl e \<Rightarrow> (Some (''read '' @ path @ '': '' @ e), w1)
                | Inr updated \<Rightarrow>
                    (case forgeCut f \<lparr>relKey = releaseKey (dspRef d) (dspReverse d), relPath = path,
                                      relContent = updated, relNotes = dspNotes d\<rparr> w1 of
                       (Inl e, w2) \<Rightarrow> (Some e, w2)
                     | (Inr _, w2) \<Rightarrow> (None, w2)))))"

fun op_do :: "operation \<Rightarrow> 'w dispatch \<Rightarrow> 'w \<Rightarrow> string option \<times> 'w"
and seq_do :: "operation list \<Rightarrow> 'w dispatch \<Rightarrow> 'w \<Rightarrow> string option \<times> 'w"
where
  "op_do (ExecOp ns sel cmd) d w = kubeExec (dspKube d) ns sel cmd w"
| "op_do (ScaleOp ns dep n) d w =
     kubePatch (dspKube d) ''apps'' ''v1'' ''deployments'' ns dep
       (jobj [(''spec'', jobj [(''replicas'', JNum n)])]) w"
| "op_do (RestartOp ns dep) d w =
     kubePatch (dspKube d) ''apps'' ''v1'' ''deployments'' ns dep
       (jobj [(''spec'', jobj [(''template'', jobj [(''metadata'', jobj [(''annotations'',
          jobj [(''thump.io/restartedAt'', JText (dspStamp d))])])])])]) w"
| "op_do (FlagVariantOp ns cm key flag variant) d w = do_flagVariant ns cm key flag variant d w"
| "op_do (MaintenanceReleaseOp path flag variant) d w = do_maintenanceRelease path flag variant d w"
| "op_do (SeqOp ops) d w = seq_do ops d w"
| "seq_do [] d w = (None, w)"
| "seq_do (x # xs) d w =
     (case op_do x d w of
        (Some e, w1) \<Rightarrow> (Some e, w1)
      | (None, w1) \<Rightarrow> seq_do xs d w1)"

function resultOf :: "operation \<Rightarrow> result" where
  "resultOf (MaintenanceReleaseOp _ _ _) = ResultProposed"
| "resultOf (SeqOp ops) = (if ops = [] then ResultApplied else resultOf (last ops))"
| "resultOf (ExecOp _ _ _) = ResultApplied"
| "resultOf (ScaleOp _ _ _) = ResultApplied"
| "resultOf (RestartOp _ _) = ResultApplied"
| "resultOf (FlagVariantOp _ _ _ _ _) = ResultApplied"
  by pat_completeness auto
termination
proof (relation "measure size")
  fix ops :: "operation list"
  assume "ops \<noteq> []"
  then have "size (last ops) \<le> size_list size ops"
    by (meson last_in_set order_refl size_list_estimation')
  then show "(last ops, SeqOp ops) \<in> measure size" by simp
qed simp

record 'w runner =
  rnKube :: "'w kube"
  rnForge :: "'w forge option"
  rnBindings :: "string \<rightharpoonup> binding"

definition newRunner :: "'w kube \<Rightarrow> static_catalog \<Rightarrow> 'w forge option \<Rightarrow> bind_error + 'w runner" where
  "newRunner k cat f =
     (case bind_catalog cat (f \<noteq> None) of
        Inl e \<Rightarrow> Inl e
      | Inr b \<Rightarrow> Inr \<lparr>rnKube = k, rnForge = f, rnBindings = b\<rparr>)"

definition show_bool :: "bool \<Rightarrow> string" where
  "show_bool b = (if b then ''true'' else ''false'')"

definition runner_run ::
  "(string \<Rightarrow> string + (string \<Rightarrow> json option)) \<Rightarrow> (json \<Rightarrow> string) \<Rightarrow> string \<Rightarrow> 'w runner \<Rightarrow>
   string \<Rightarrow> bool \<Rightarrow> string \<Rightarrow> 'w \<Rightarrow> (string + result) \<times> 'w" where
  "runner_run parse render stamp r ref reverse notes w =
     (case rnBindings r ref of
        None \<Rightarrow> (Inl (''actuate: ref '' @ go_quote ref @ '' is not bound to an action''), w)
      | Some b \<Rightarrow>
          (let op' = (if reverse then bdReverse b else bdForward b);
               d = \<lparr>dspKube = rnKube r, dspForge = rnForge r, dspRef = ref, dspReverse = reverse,
                    dspNotes = notes, dspParse = parse, dspRender = render, dspStamp = stamp\<rparr>
           in case op_do op' d w of
                (Some e, w1) \<Rightarrow>
                  (Inl (''actuate: '' @ ref @ '' (reverse='' @ show_bool reverse @ ''): '' @ e), w1)
              | (None, w1) \<Rightarrow> (Inr (resultOf op'), w1)))"

subsection \<open>Documents: what a flip changes\<close>

lemma set_variant_twice:
  "set_variant flag v m = Some m1 \<Longrightarrow> set_variant flag v' m1 = set_variant flag v' m"
  by (auto simp: set_variant_def as_object_def Let_def split: option.splits json.splits)

lemma set_variant_other_key:
  "set_variant flag v m = Some m' \<Longrightarrow> k \<noteq> ''flags'' \<Longrightarrow> m' k = m k"
  by (auto simp: set_variant_def Let_def split: option.splits)

text \<open>The variant a document gives a flag by default.\<close>

definition default_variant :: "string \<Rightarrow> (string \<Rightarrow> json option) \<Rightarrow> json option" where
  "default_variant flag m =
     (case as_object (m ''flags'') of
        None \<Rightarrow> None
      | Some flags \<Rightarrow> (case as_object (flags flag) of None \<Rightarrow> None | Some def \<Rightarrow> def ''defaultVariant''))"

lemma default_variant_set:
  "set_variant flag v m = Some m' \<Longrightarrow> default_variant flag m' = Some (JText v)"
  by (auto simp: set_variant_def default_variant_def as_object_def Let_def
      split: option.splits json.splits)

lemma default_variant_set_other:
  "set_variant flag v m = Some m' \<Longrightarrow> flag' \<noteq> flag \<Longrightarrow> default_variant flag' m' = default_variant flag' m"
  by (auto simp: set_variant_def default_variant_def as_object_def Let_def
      split: option.splits json.splits)

lemma set_variant_current:
  assumes "default_variant flag m = Some (JText v)"
  shows "set_variant flag v m = Some m"
proof -
  from assms obtain flags where f: "as_object (m ''flags'') = Some flags"
    by (auto simp: default_variant_def split: option.splits)
  with assms obtain def where d: "as_object (flags flag) = Some def" "def ''defaultVariant'' = Some (JText v)"
    by (auto simp: default_variant_def split: option.splits)
  have m: "m ''flags'' = Some (JObj flags)" "flags flag = Some (JObj def)"
    using f d by (auto simp: as_object_def split: option.splits json.splits)
  show ?thesis
    using f d m by (simp add: set_variant_def fun_upd_idem)
qed

text \<open>C24: flipping a flag to another variant and back restores the document: where the flipped
  document decodes to what was printed, the second flip prints exactly the document the first one
  was applied to, whenever that document had the flag at the restored variant. The authored undo
  of a flag flip is therefore exact, and the flip touches no other flag and no other field.\<close>

theorem flag_flip_undone:
  assumes "parse doc = Inr m" "default_variant flag m = Some (JText old)"
    and "set_variant flag new m = Some m1" "parse (render (JObj m1)) = Inr m1"
  shows "setDefaultVariant parse render doc flag new = Inr (render (JObj m1)) \<and>
    setDefaultVariant parse render (render (JObj m1)) flag old = Inr (render (JObj m)) \<and>
    default_variant flag m1 = Some (JText new) \<and>
    (\<forall>other. other \<noteq> flag \<longrightarrow> default_variant other m1 = default_variant other m) \<and>
    (\<forall>k. k \<noteq> ''flags'' \<longrightarrow> m1 k = m k)"
proof -
  have "set_variant flag old m1 = Some m"
    using set_variant_twice [OF assms(3)] set_variant_current [OF assms(2)] by simp
  then show ?thesis
    using assms default_variant_set [OF assms(3)] default_variant_set_other [OF assms(3)]
      set_variant_other_key [OF assms(3)]
    by (simp add: setDefaultVariant_def)
qed

definition example_doc :: "string \<Rightarrow> string \<Rightarrow> json option" where
  "example_doc variant =
     [''flags'' \<mapsto> JObj [''cartFailure'' \<mapsto> JObj [''defaultVariant'' \<mapsto> JText variant]]]"

theorem flag_flip_undone_witness:
  "setDefaultVariant (\<lambda>raw. if raw = ''on'' then Inr (example_doc ''on'') else Inr (example_doc ''off''))
     (\<lambda>j. case j of JObj m \<Rightarrow> (if default_variant ''cartFailure'' m = Some (JText ''on'') then ''on'' else ''off'')
                  | _ \<Rightarrow> [])
     ''off'' ''cartFailure'' ''on'' = Inr ''on'' \<and>
   setDefaultVariant (\<lambda>raw. if raw = ''on'' then Inr (example_doc ''on'') else Inr (example_doc ''off''))
     (\<lambda>j. case j of JObj m \<Rightarrow> (if default_variant ''cartFailure'' m = Some (JText ''on'') then ''on'' else ''off'')
                  | _ \<Rightarrow> [])
     ''on'' ''cartFailure'' ''off'' = Inr ''off''"
proof -
  have "default_variant ''cartFailure'' (example_doc v) = Some (JText v)" for v
    by (simp add: default_variant_def example_doc_def as_object_def)
  moreover have "set_variant ''cartFailure'' ''on'' (example_doc ''off'') = Some (example_doc ''on'')"
    by (simp add: set_variant_def example_doc_def as_object_def)
  ultimately show ?thesis
    using flag_flip_undone [of
        "\<lambda>raw. if raw = ''on'' then Inr (example_doc ''on'') else Inr (example_doc ''off'')" "''off''"
        "example_doc ''off''" "''cartFailure''" "''off''" "''on''" "example_doc ''on''"
        "\<lambda>j. case j of JObj m \<Rightarrow>
           (if default_variant ''cartFailure'' m = Some (JText ''on'') then ''on'' else ''off'')
         | _ \<Rightarrow> []"]
    by simp
qed

subsection \<open>Binding\<close>

fun flat :: "operation \<Rightarrow> bool" where
  "flat (SeqOp _) = False"
| "flat _ = True"

lemma mechanismFor_flat: "mechanismFor s fw = Inr op' \<Longrightarrow> flat op'"
  by (auto simp: mechanismFor_def split: if_splits option.splits)

lemma seq_mechanisms_Inr:
  "seq_mechanisms i fw ss = Inr ops \<Longrightarrow>
   length ops = length ss \<and> (\<forall>j < length ss. mechanismFor (ss ! j) fw = Inr (ops ! j))"
proof (induction ss arbitrary: i ops)
  case (Cons s ss)
  then obtain op' ops' where *: "mechanismFor s fw = Inr op'" "seq_mechanisms (i + 1) fw ss = Inr ops'"
    "ops = op' # ops'"
    by (auto simp: res_bind_eq_Inr split: sum.splits)
  with Cons.IH [OF *(2)] show ?case by (auto simp: less_Suc_eq_0_disj)
qed simp

lemma bind_from_Inr:
  assumes "bind_from out fw cs = Inr b"
  shows "dom b = dom out \<union> acName ` set cs" "\<forall>c \<in> set cs. \<exists>x. bindingFor c fw = Inr x"
    and "b n = (case find_last (\<lambda>c. acName c = n) cs of
                  None \<Rightarrow> out n
                | Some c \<Rightarrow> (case bindingFor c fw of Inr x \<Rightarrow> Some x | Inl _ \<Rightarrow> None))"
  using assms
proof (induction cs arbitrary: out)
  case (Cons c cs)
  {
    case 1
    with Cons.IH(1) show ?case by (auto split: sum.splits)
  next
    case 2
    with Cons.IH(2) show ?case by (fastforce split: sum.splits)
  next
    case 3
    then obtain x where x: "bindingFor c fw = Inr x" "bind_from (out(acName c \<mapsto> x)) fw cs = Inr b"
      by (auto split: sum.splits)
    show ?case
      using Cons.IH(3) [OF x(2)] x(1)
      by (auto simp: find_last_Cons split: option.split)
  }
qed (auto)

text \<open>a catalog that binds leaves no authored action without a mechanism and no mechanism
  without an authored action: the bound references are exactly the catalog's names, and, when
  names are distinct, each is bound to the operations its own forward and reverse steps name, the
  contract a lookup by name finds.\<close>

theorem bind_covers_catalog:
  assumes "bind_catalog cat forgeWired = Inr b"
  shows "dom b = acName ` set cat \<and>
    (distinct (map acName cat) \<longrightarrow>
      (\<forall>n c. byName cat n = Some c \<longrightarrow>
         (\<exists>x. b n = Some x \<and> opFor (exForward (acExecution c)) forgeWired = Inr (bdForward x) \<and>
              opFor (exReverse (acExecution c)) forgeWired = Inr (bdReverse x))))"
proof -
  note bf = bind_from_Inr [OF assms [unfolded bind_catalog_def]]
  have "\<exists>x. b n = Some x \<and> opFor (exForward (acExecution c)) forgeWired = Inr (bdForward x) \<and>
      opFor (exReverse (acExecution c)) forgeWired = Inr (bdReverse x)"
    if dist: "distinct (map acName cat)" and n: "byName cat n = Some c" for n c
  proof -
    from n find_last_distinct [OF dist, of n] have "find_last (\<lambda>c. acName c = n) cat = Some c"
      by (simp add: byName_def)
    moreover obtain x where "bindingFor c forgeWired = Inr x"
      using bf(2) cat.lookup_sound [OF n] by auto
    ultimately show ?thesis
      using bf(3) [of n]
      by (auto simp: bindingFor_def split: sum.splits prod.splits)
  qed
  with bf(1) show ?thesis by auto
qed

definition example_binding :: "string \<Rightarrow> binding" where
  "example_binding variant =
     \<lparr>bdForward = FlagVariantOp ''demo'' ''flagd'' ''demo.json'' ''cartFailure'' variant,
      bdReverse = FlagVariantOp ''demo'' ''flagd'' ''demo.json'' ''cartFailure'' ''on''\<rparr>"

lemma example_bindingFor:
  "variant \<noteq> [] \<Longrightarrow> bindingFor (example_contract n variant) fw = Inr (example_binding variant)"
  by (simp add: bindingFor_def mechanismFor_def example_contract_def example_step_def
      example_binding_def)

theorem bind_covers_catalog_witness:
  "dom [''flip'' \<mapsto> example_binding ''off''] = {''flip''} \<and>
   bind_catalog [example_contract ''flip'' ''off''] False = Inr [''flip'' \<mapsto> example_binding ''off'']"
proof -
  have b: "bind_catalog [example_contract ''flip'' ''off''] False = Inr [''flip'' \<mapsto> example_binding ''off'']"
    by (simp add: bind_catalog_def example_bindingFor) (simp add: example_contract_def)
  show ?thesis
    using bind_covers_catalog [OF b] b by (simp add: example_contract_def)
qed

text \<open>with two contracts of one name the lookup by name, which renders orders and success
  criteria, answers with the first, while the runner is bound to the steps of the last, so an
  order rendered from one contract executes another.\<close>

theorem duplicate_names_diverge:
  assumes "acName c1 = n" "acName c2 = n" "bind_catalog [c1, c2] forgeWired = Inr b"
  shows "byName [c1, c2] n = Some c1 \<and>
    (\<exists>x. b n = Some x \<and> opFor (exForward (acExecution c2)) forgeWired = Inr (bdForward x))"
  using assms
  by (auto simp: byName_def bind_catalog_def bindingFor_def split: sum.splits prod.splits)

theorem duplicate_names_diverge_witness:
  "byName [example_contract ''flip'' ''off'', example_contract ''flip'' ''half''] ''flip'' =
     Some (example_contract ''flip'' ''off'') \<and>
   bind_catalog [example_contract ''flip'' ''off'', example_contract ''flip'' ''half''] False =
     Inr [''flip'' \<mapsto> example_binding ''half'']"
proof -
  have n: "acName (example_contract ''flip'' v) = ''flip''" for v by (simp add: example_contract_def)
  have b: "bind_catalog [example_contract ''flip'' ''off'', example_contract ''flip'' ''half''] False =
     Inr [''flip'' \<mapsto> example_binding ''half'']"
    by (simp add: bind_catalog_def example_bindingFor n)
  from duplicate_names_diverge [OF n n b] b show ?thesis by simp
qed

subsection \<open>Dispatch\<close>

lemma seq_do_append:
  "seq_do (xs @ ys) d w =
     (case seq_do xs d w of (Some e, w1) \<Rightarrow> (Some e, w1) | (None, w1) \<Rightarrow> seq_do ys d w1)"
  by (induction xs arbitrary: w) (auto split: prod.split option.split)

text \<open>a multi-step action stops at its first failing step: the steps before it ran in order, its
  error is the action's error, and no step behind it touches the world.\<close>

theorem seq_stops_at_first_failure:
  assumes "seq_do before d w = (None, w1)" "op_do step d w1 = (Some e, w2)"
  shows "op_do (SeqOp (before @ step # after)) d w = (Some e, w2)"
  using assms by (simp add: seq_do_append)

definition logging_kube :: "string list kube" where
  "logging_kube = \<lparr>kubeExec = (\<lambda>ns sel cmd w. (if cmd = [''fail''] then Some ''exit 1'' else None, w @ [sel])),
     kubePatch = (\<lambda>_ _ _ _ name _ w. (None, w @ [name])),
     kubeGetConfigMapKey = (\<lambda>_ _ _ w. (Inl ''none'', w))\<rparr>"

definition logging_dispatch :: "string list dispatch" where
  "logging_dispatch = \<lparr>dspKube = logging_kube, dspForge = None, dspRef = ''ref'', dspReverse = False,
     dspNotes = [], dspParse = (\<lambda>_. Inr Map.empty), dspRender = (\<lambda>_. []), dspStamp = []\<rparr>"

theorem seq_stops_at_first_failure_witness:
  "op_do (SeqOp [ScaleOp ''ns'' ''a'' 3, ExecOp ''ns'' ''b'' [''fail''], ScaleOp ''ns'' ''c'' 1])
     logging_dispatch [] = (Some ''exit 1'', [''a'', ''b''])"
  using seq_stops_at_first_failure [of "[ScaleOp ''ns'' ''a'' 3]" logging_dispatch "[]" "[''a'']"
      "ExecOp ''ns'' ''b'' [''fail'']" "''exit 1''" "[''a'', ''b'']" "[ScaleOp ''ns'' ''c'' 1]"]
  by (simp add: logging_dispatch_def logging_kube_def)

text \<open>an unbound reference never reaches the world: the run reports an error naming the
  reference and leaves the world as it was; a bound one reports a result exactly when the bound
  operation of the asked direction ran without error, and then that operation's own result.\<close>

theorem runner_run_only_bound:
  "case rnBindings r ref of
     None \<Rightarrow> runner_run parse render stamp r ref reverse notes w =
        (Inl (''actuate: ref '' @ go_quote ref @ '' is not bound to an action''), w)
   | Some b \<Rightarrow>
       (let op' = (if reverse then bdReverse b else bdForward b)
        in runner_run parse render stamp r ref reverse notes w = (Inr res, w1) \<longleftrightarrow>
           op_do op' \<lparr>dspKube = rnKube r, dspForge = rnForge r, dspRef = ref, dspReverse = reverse,
              dspNotes = notes, dspParse = parse, dspRender = render, dspStamp = stamp\<rparr> w = (None, w1) \<and>
           res = resultOf op')"
  by (auto simp: runner_run_def Let_def split: option.splits prod.splits)

end
