(* ===== verification/Executor.thy ===== *)
theory Executor
  imports ThumpOrder Actuate
begin

text \<open>
  How thump carries an order out: the dry run (\<^verbatim>\<open>src/internal/thump/executor.go\<close>), the live executor
  over an action runner (\<^verbatim>\<open>live.go\<close>), the executor gated by a kill switch (\<^verbatim>\<open>gatedexecutor.go\<close>) and
  the switch polled from a file (\<^verbatim>\<open>killswitch.go\<close>).

  An executor is a function of the order, the time and the world it may change. What the
  transport relies on is the locale \<open>executor_contract\<close>: every outcome answers to its order and is
  fit for the audit trail. What the live executor relies on is the locale \<open>action_runner\<close>, which
  the actuator's runner interprets.
\<close>

type_synonym 'w executor = "order \<Rightarrow> time \<Rightarrow> 'w \<Rightarrow> outcome \<times> 'w"

type_synonym 'w run_fun =
  "string \<Rightarrow> bool \<Rightarrow> (string \<rightharpoonup> real) \<Rightarrow> string \<Rightarrow> 'w \<Rightarrow> (string + result) \<times> 'w"

definition outcome_id :: "order \<Rightarrow> time \<Rightarrow> string" where
  "outcome_id ord now = ''out:'' @ ordSignalRef ord @ '':'' @ show_int (unix_seconds now)"

definition outcome_of :: "order \<Rightarrow> time \<Rightarrow> mode \<Rightarrow> result \<Rightarrow> string \<Rightarrow> outcome" where
  "outcome_of ord now md res err =
     \<lparr>outID = outcome_id ord now, outDecisionRef = ordDecisionRef ord,
      outSignalRef = ordSignalRef ord, outContractRef = ordContractRef ord,
      outMode = md, outResult = res, outError = err, outExecutedAt = now,
      outObservedSeverity = None\<rparr>"

definition dryRun :: "'w executor" where
  "dryRun ord now w = (outcome_of ord now ModeDryRun ResultRendered [], w)"

definition live :: "'w run_fun \<Rightarrow> 'w executor" where
  "live run ord now w =
     (case run (ordContractRef ord) (ordKind ord = OrderReversal) (ordParameters ord) (ordNotes ord) w of
        (Inl err, w1) \<Rightarrow> (outcome_of ord now ModeLive ResultFailure err, w1)
      | (Inr res, w1) \<Rightarrow> (outcome_of ord now ModeLive res [], w1))"

definition blockedOutcome :: "order \<Rightarrow> time \<Rightarrow> outcome" where
  "blockedOutcome ord now = outcome_of ord now ModeLive ResultBlocked []"

text \<open>The switch is read once, from the world the order meets.\<close>

definition gated :: "'w executor \<Rightarrow> ('w \<Rightarrow> bool) \<Rightarrow> 'w executor" where
  "gated inner armed ord now w =
     (if ordKind ord \<noteq> OrderReversal \<and> \<not> armed w then (blockedOutcome ord now, w)
      else inner ord now w)"

subsection \<open>The kill switch\<close>

record file_switch =
  fsPath :: string
  fsArmed :: bool

definition newFileSwitch :: "string \<Rightarrow> file_switch" where
  "newFileSwitch path = \<lparr>fsPath = path, fsArmed = False\<rparr>"

datatype switch_error = SwitchRead string | SwitchParse string

definition switch_reload ::
  "(string \<Rightarrow> string + 'raw) \<Rightarrow> ('raw \<Rightarrow> string + bool) \<Rightarrow> file_switch \<Rightarrow> switch_error option \<times> file_switch"
where
  "switch_reload read_file unmarshal s =
     (case read_file (fsPath s) of
        Inl e \<Rightarrow> (Some (SwitchRead e), s\<lparr>fsArmed := False\<rparr>)
      | Inr raw \<Rightarrow>
          (case unmarshal raw of
             Inl e \<Rightarrow> (Some (SwitchParse e), s\<lparr>fsArmed := False\<rparr>)
           | Inr armed \<Rightarrow> (None, s\<lparr>fsArmed := armed\<rparr>)))"

subsection \<open>Contracts\<close>

locale action_runner =
  fixes run :: "string \<Rightarrow> bool \<Rightarrow> (string \<rightharpoonup> real) \<Rightarrow> string \<Rightarrow> 'w \<Rightarrow> (string + result) \<times> 'w"
  assumes run_result: "run ref rv ps n w = (Inr res, w1) \<Longrightarrow> res = ResultApplied \<or> res = ResultProposed"
    and run_error: "run ref rv ps n w = (Inl e, w1) \<Longrightarrow> e \<noteq> []"

locale executor_contract =
  fixes exec :: "order \<Rightarrow> time \<Rightarrow> 'w \<Rightarrow> outcome \<times> 'w"
  assumes threads: "outDecisionRef (fst (exec ord t w)) = ordDecisionRef ord"
      "outSignalRef (fst (exec ord t w)) = ordSignalRef ord"
      "outContractRef (fst (exec ord t w)) = ordContractRef ord"
    and stamped: "outExecutedAt (fst (exec ord t w)) = t"
    and says_mode: "outMode (fst (exec ord t w)) \<in> {ModeDryRun, ModeLive}"
    and says_result: "outResult (fst (exec ord t w)) \<in>
        {ResultRendered, ResultApplied, ResultProposed, ResultFailure, ResultBlocked}"
    and says_error: "outResult (fst (exec ord t w)) = ResultFailure \<Longrightarrow> outError (fst (exec ord t w)) \<noteq> []"
begin

lemma exec_auditable:
  "ordDecisionRef ord \<noteq> [] \<Longrightarrow> t \<noteq> zero_time \<Longrightarrow> outcome_auditable (fst (exec ord t w)) = None"
  using says_mode [of ord t w] says_result [of ord t w] says_error [of ord t w]
  by (auto simp: outcome_auditable_None_iff threads stamped)

lemma gated_contract: "executor_contract (gated exec armed)"
proof
  fix ord :: order and t :: time and w
  have cases: "gated exec armed ord t w = (blockedOutcome ord t, w) \<or> gated exec armed ord t w = exec ord t w"
    by (simp add: gated_def)
  then show "outDecisionRef (fst (gated exec armed ord t w)) = ordDecisionRef ord"
    "outSignalRef (fst (gated exec armed ord t w)) = ordSignalRef ord"
    "outContractRef (fst (gated exec armed ord t w)) = ordContractRef ord"
    "outExecutedAt (fst (gated exec armed ord t w)) = t"
    using threads stamped by (auto simp: blockedOutcome_def outcome_of_def)
  show "outMode (fst (gated exec armed ord t w)) \<in> {ModeDryRun, ModeLive}"
    "outResult (fst (gated exec armed ord t w)) \<in>
      {ResultRendered, ResultApplied, ResultProposed, ResultFailure, ResultBlocked}"
    using cases says_mode [of ord t w] says_result [of ord t w]
    by (auto simp: blockedOutcome_def outcome_of_def)
  show "outResult (fst (gated exec armed ord t w)) = ResultFailure \<Longrightarrow>
      outError (fst (gated exec armed ord t w)) \<noteq> []"
    using cases says_error [of ord t w] by (auto simp: blockedOutcome_def outcome_of_def)
qed

end

text \<open>A live executor over any runner that keeps its contract keeps the executor's contract.\<close>

sublocale action_runner \<subseteq> live_exec: executor_contract "live run"
proof
  fix ord :: order and t :: time and w
  obtain r w1 where rw: "run (ordContractRef ord) (ordKind ord = OrderReversal) (ordParameters ord)
      (ordNotes ord) w = (r, w1)"
    by (cases "run (ordContractRef ord) (ordKind ord = OrderReversal) (ordParameters ord)
      (ordNotes ord) w")
  show "outDecisionRef (fst (live run ord t w)) = ordDecisionRef ord"
    "outSignalRef (fst (live run ord t w)) = ordSignalRef ord"
    "outContractRef (fst (live run ord t w)) = ordContractRef ord"
    "outExecutedAt (fst (live run ord t w)) = t"
    "outMode (fst (live run ord t w)) \<in> {ModeDryRun, ModeLive}"
    using rw by (cases r; simp add: live_def outcome_of_def)+
  show "outResult (fst (live run ord t w)) \<in>
      {ResultRendered, ResultApplied, ResultProposed, ResultFailure, ResultBlocked}"
    "outResult (fst (live run ord t w)) = ResultFailure \<Longrightarrow> outError (fst (live run ord t w)) \<noteq> []"
    using rw run_result run_error by (cases r; fastforce simp: live_def outcome_of_def)+
qed

interpretation dry: executor_contract dryRun
  by unfold_locales (simp_all add: dryRun_def outcome_of_def)

definition catalog_run ::
  "(string \<Rightarrow> string + (string \<Rightarrow> json option)) \<Rightarrow> (json \<Rightarrow> string) \<Rightarrow> string \<Rightarrow> 'w runner \<Rightarrow> 'w run_fun" where
  "catalog_run parse print stamp r ref reverse params notes w =
     runner_run parse print stamp r ref reverse notes w"

lemma resultOf_cases: "resultOf op' \<in> {ResultApplied, ResultProposed}"
  by (induction op' rule: resultOf.induct) auto

interpretation act: action_runner "catalog_run parse print stamp r"
  for parse print stamp and r :: "'w runner"
proof
  show "catalog_run parse print stamp r ref rv ps n w = (Inr res, w1) \<Longrightarrow>
      res = ResultApplied \<or> res = ResultProposed" for ref rv ps n w res w1
    using resultOf_cases
    by (auto simp: catalog_run_def runner_run_def Let_def split: option.splits prod.splits)
  show "catalog_run parse print stamp r ref rv ps n w = (Inl e, w1) \<Longrightarrow> e \<noteq> []" for ref rv ps n w e w1
    by (auto simp: catalog_run_def runner_run_def Let_def split: option.splits prod.splits)
qed

text \<open>The production executor: live over the actuator's runner, behind the switch.\<close>

definition gatedLive ::
  "(string \<Rightarrow> string + (string \<Rightarrow> json option)) \<Rightarrow> (json \<Rightarrow> string) \<Rightarrow> string \<Rightarrow> ('w \<Rightarrow> bool) \<Rightarrow>
   'w runner \<Rightarrow> 'w executor" where
  "gatedLive parse print stamp armed r = gated (live (catalog_run parse print stamp r)) armed"

interpretation prod: executor_contract "gatedLive parse print stamp armed r"
  for parse print stamp armed and r :: "'w runner"
  unfolding gatedLive_def by (rule act.live_exec.gated_contract)

subsection \<open>Properties\<close>


text \<open>the switch is armed after a reload exactly when the file was read, parsed and says so; any
  failure disarms it, whatever it was before, and reports the failure.\<close>

theorem reload_failure_disarms:
  "fsArmed (snd (switch_reload read_file unmarshal s)) \<longleftrightarrow>
     (\<exists>raw. read_file (fsPath s) = Inr raw \<and> unmarshal raw = Inr True)"
  by (auto simp: switch_reload_def split: sum.split)

text \<open>every outcome of the production executor, live over the actuator's runner and gated by the
  switch, is auditable and answers to its order, for every order that names its decision: success,
  failure of the mutation, an unbound reference and a block alike.\<close>

theorem production_outcomes_auditable:
  assumes "ordDecisionRef ord \<noteq> []" "now \<noteq> zero_time"
  shows "outcome_auditable (fst (gatedLive parse print stamp armed r ord now w)) = None \<and>
    outDecisionRef (fst (gatedLive parse print stamp armed r ord now w)) = ordDecisionRef ord \<and>
    outSignalRef (fst (gatedLive parse print stamp armed r ord now w)) = ordSignalRef ord"
  by (simp add: prod.exec_auditable [OF assms] prod.threads)

definition example_runner :: "string list runner" where
  "example_runner = \<lparr>rnKube = logging_kube, rnForge = None,
     rnBindings = [''scale-out'' \<mapsto> \<lparr>bdForward = ScaleOp ''ns'' ''web'' 3, bdReverse = ScaleOp ''ns'' ''web'' 1\<rparr>]\<rparr>"

definition example_order :: order where
  "example_order = order_of example_decision example_set example_candidate
     (example_contract ''scale-out'' ''off'') 160"

definition example_exec :: "(string list \<Rightarrow> bool) \<Rightarrow> string list executor" where
  "example_exec armed = gatedLive (\<lambda>_. Inr Map.empty) (\<lambda>_. []) [] armed example_runner"

theorem production_outcomes_auditable_witness:
  "outcome_auditable (fst (example_exec (\<lambda>_. True) example_order 160 [])) = None"
  using production_outcomes_auditable [of example_order 160 "\<lambda>_. Inr Map.empty" "\<lambda>_. []" "[]"
      "\<lambda>_. True" example_runner "[]"]
  by (simp add: example_exec_def example_order_def example_decision_def zero_time_def)

end
