(* ===== verification/Converge.thy ===== *)
theory Converge
  imports Prelude
begin

text \<open>
  The convergence probe of \<^verbatim>\<open>src/internal/converge\<close>: the prose target of a success criterion is
  parsed into a comparison (\<^verbatim>\<open>target.go\<close>), the metric's live value is read by an instant query and
  compared (\<^verbatim>\<open>prober.go\<close>). Every doubt must read as not converged.

  The query client and the decoding of its answer are a parameter, \<open>instant\<close>: an error, or the
  samples of the result vector, each the decoded value text or nothing where the value is not a
  JSON string. Reading a value text as a float is the parameter \<open>parseFloat\<close>. The regular
  expression of the target is modelled character by character.
\<close>

datatype go_float = Finite real | NaN | Inf

definition is_space :: "char \<Rightarrow> bool" where
  "is_space c \<longleftrightarrow> c \<in> {CHR 0x09, CHR 0x0A, CHR 0x0C, CHR 0x0D, CHR '' ''}"

definition num_char :: "char \<Rightarrow> bool" where
  "num_char c \<longleftrightarrow> is_digit c \<or> c = CHR ''.''"

definition number_after :: "string \<Rightarrow> string \<Rightarrow> (string \<times> string) option" where
  "number_after cmp s =
     (let n = takeWhile num_char (dropWhile is_space s) in if n = [] then None else Some (cmp, n))"

text \<open>The pattern anchored at the head of the string, then its leftmost match.\<close>

definition comparison_at :: "string \<Rightarrow> (string \<times> string) option" where
  "comparison_at s =
     (case s of
        [] \<Rightarrow> None
      | c # r \<Rightarrow>
          if c = CHR ''<'' then number_after ''<'' r
          else if c = CHR ''='' then
            (case r of
               [] \<Rightarrow> None
             | c' # r' \<Rightarrow> if c' = CHR ''='' then number_after ''=='' r' else None)
          else None)"

fun find_comparison :: "string \<Rightarrow> (string \<times> string) option" where
  "find_comparison [] = None"
| "find_comparison (c # s) =
     (case comparison_at (c # s) of Some m \<Rightarrow> Some m | None \<Rightarrow> find_comparison s)"

text \<open>\<^verbatim>\<open>strconv.ParseFloat\<close> on a string of digits and dots.\<close>

definition parse_decimal :: "string \<Rightarrow> real option" where
  "parse_decimal s =
     (let ip = takeWhile is_digit s
      in case dropWhile is_digit s of
           [] \<Rightarrow> if ip = [] then None else Some (real (digits_value ip))
         | c # fp \<Rightarrow>
             if c = CHR ''.'' \<and> list_all is_digit fp \<and> (ip \<noteq> [] \<or> fp \<noteq> [])
             then Some (real (digits_value (ip @ fp)) / 10 ^ length fp) else None)"

definition parseTarget :: "string \<Rightarrow> (string \<times> real) option" where
  "parseTarget target =
     (if target = ''HEALTH_OK'' then Some (''=='', 0)
      else case find_comparison target of
             None \<Rightarrow> None
           | Some (cmp, n) \<Rightarrow> (case parse_decimal n of None \<Rightarrow> None | Some f \<Rightarrow> Some (cmp, f)))"

definition compare :: "string \<Rightarrow> real \<Rightarrow> real \<Rightarrow> bool" where
  "compare cmp v threshold =
     (if cmp = ''<'' then v < threshold else if cmp = ''=='' then v = threshold else False)"

definition prober_query ::
  "(string \<Rightarrow> string + string option list) \<Rightarrow> (string \<Rightarrow> go_float option) \<Rightarrow> string \<Rightarrow> real option" where
  "prober_query instant parseFloat q =
     (case instant q of
        Inl _ \<Rightarrow> None
      | Inr [] \<Rightarrow> None
      | Inr (v # _) \<Rightarrow>
          (case v of
             None \<Rightarrow> None
           | Some s \<Rightarrow>
               (case parseFloat s of
                  Some (Finite f) \<Rightarrow> Some f
                | _ \<Rightarrow> None)))"

definition converged ::
  "(string \<Rightarrow> string + string option list) \<Rightarrow> (string \<Rightarrow> go_float option) \<Rightarrow> (string \<rightharpoonup> string) \<Rightarrow>
   string \<Rightarrow> string \<Rightarrow> bool" where
  "converged instant parseFloat queries metric target =
     (case parseTarget target of
        None \<Rightarrow> False
      | Some (cmp, threshold) \<Rightarrow>
          (case queries metric of
             None \<Rightarrow> False
           | Some q \<Rightarrow>
               (case prober_query instant parseFloat q of
                  None \<Rightarrow> False
                | Some v \<Rightarrow> compare cmp v threshold)))"

definition probe_severity ::
  "(string \<Rightarrow> string + string option list) \<Rightarrow> (string \<Rightarrow> go_float option) \<Rightarrow> (string \<rightharpoonup> string) \<Rightarrow>
   string \<Rightarrow> real option" where
  "probe_severity instant parseFloat queries q =
     (case queries q of None \<Rightarrow> None | Some promql \<Rightarrow> prober_query instant parseFloat promql)"

text \<open>The queries file: the last query of a name wins.\<close>

definition load_queries :: "(string \<times> string) list \<Rightarrow> (string \<rightharpoonup> string)" where
  "load_queries qs = fold (\<lambda>(n, q) out. out(n \<mapsto> q)) qs Map.empty"

subsection \<open>Facts\<close>

lemma takeWhile_all: "list_all p s \<Longrightarrow> takeWhile p s = s"
  by (induction s) auto

lemma dropWhile_all: "list_all p s \<Longrightarrow> dropWhile p s = []"
  by (induction s) auto

lemma parse_decimal_show_nat [simp]: "parse_decimal (show_nat n) = Some (real n)"
  by (simp add: parse_decimal_def takeWhile_all [OF show_nat_digits] dropWhile_all [OF show_nat_digits])

lemma digit_not_space: "is_digit c \<Longrightarrow> \<not> is_space c"
  by (auto simp: is_digit_def is_space_def)

lemma takeWhile_append_stop:
  "list_all p s \<Longrightarrow> (rest = [] \<or> \<not> p (hd rest)) \<Longrightarrow> takeWhile p (s @ rest) = s"
  by (induction s) (auto, cases rest, auto)

lemma find_comparison_prefix:
  assumes "list_all (\<lambda>c. c \<noteq> CHR ''<'' \<and> c \<noteq> CHR ''='') pre"
  shows "find_comparison (pre @ s) = find_comparison s"
  using assms
proof (induction pre)
  case (Cons c pre)
  then have "comparison_at (c # pre @ s) = None"
    by (simp add: comparison_at_def)
  with Cons show ?case by simp
qed simp

lemma number_after_spaced:
  assumes "list_all num_char n" "n \<noteq> []" "\<not> is_space (hd n)" "rest = [] \<or> \<not> num_char (hd rest)"
  shows "number_after cmp (CHR '' '' # n @ rest) = Some (cmp, n)"
proof -
  have "dropWhile is_space (CHR '' '' # n @ rest) = n @ rest"
    using assms(2,3) by (cases n) (auto simp: is_space_def)
  then show ?thesis
    using assms by (simp add: number_after_def takeWhile_append_stop)
qed

lemma number_after_show_nat:
  assumes "rest = [] \<or> \<not> num_char (hd rest)"
  shows "number_after cmp (CHR '' '' # show_nat n @ rest) = Some (cmp, show_nat n)"
proof (rule number_after_spaced [OF _ _ _ assms])
  show "list_all num_char (show_nat n)"
    using show_nat_digits [of n] by (auto simp: list_all_iff num_char_def)
  show "\<not> is_space (hd (show_nat n))"
    using hd_show_nat_is_digit digit_not_space by blast
qed simp

subsection \<open>Properties\<close>

text \<open>C27: the probe says converged exactly when the target parses, the metric has a bound query, the
  query answers with a finite number in its first sample and that number satisfies the target's
  comparison; an unparsable target, an unbound metric, a failed request, an empty result, a value
  that is no number, NaN and infinity all read as not converged.\<close>

theorem converged_fails_closed:
  "converged instant parseFloat queries metric target \<longleftrightarrow>
     (\<exists>cmp threshold q s rest v.
        parseTarget target = Some (cmp, threshold) \<and> queries metric = Some q \<and>
        instant q = Inr (Some s # rest) \<and> parseFloat s = Some (Finite v) \<and>
        (cmp = ''<'' \<and> v < threshold \<or> cmp = ''=='' \<and> v = threshold))"
  by (auto simp: converged_def prober_query_def compare_def
      split: option.splits sum.splits list.splits go_float.splits if_splits)

text \<open>an authored target reads back as the comparison it writes: text free of comparison signs, a
  sign, a blank, a decimal integer and any unit that does not continue the number parse to that
  sign and that number.\<close>

theorem parseTarget_reads_authored:
  assumes "list_all (\<lambda>c. c \<noteq> CHR ''<'' \<and> c \<noteq> CHR ''='') prose"
    "cmp = ''<'' \<or> cmp = ''==''" "unit = [] \<or> \<not> num_char (hd unit)"
  shows "parseTarget (prose @ cmp @ '' '' @ show_nat n @ unit) = Some (cmp, real n)"
proof -
  have ne: "prose @ cmp @ '' '' @ show_nat n @ unit \<noteq> ''HEALTH_OK''"
  proof
    assume "prose @ cmp @ '' '' @ show_nat n @ unit = ''HEALTH_OK''"
    moreover have "CHR '' '' \<in> set (prose @ cmp @ '' '' @ show_nat n @ unit)" by simp
    ultimately have "CHR '' '' \<in> set ''HEALTH_OK''" by metis
    then show False by simp
  qed
  have "find_comparison (cmp @ '' '' @ show_nat n @ unit) = Some (cmp, show_nat n)"
    using assms(2) number_after_show_nat [OF assms(3)] by (auto simp: comparison_at_def)
  then show ?thesis
    unfolding parseTarget_def using ne
    by (simp add: find_comparison_prefix [OF assms(1)])
qed

theorem parseTarget_reads_authored_witness:
  "parseTarget ''p99 < 250ms'' = Some (''<'', 250)"
proof -
  have n: "show_nat 250 = ''250''" by code_simp
  show ?thesis
    using parseTarget_reads_authored [of "''p99 ''" "''<''" "''ms''" 250]
    by (simp add: n num_char_def is_digit_def)
qed

end
