(* ===== verification/ThumpTransport.thy ===== *)
theory ThumpTransport
  imports Executor Converge Beat EventLog
begin

text \<open>
  The act beat around the executor (\<^verbatim>\<open>src/internal/thump\<close>): the handler of a governed decision, the
  watch that settles an applied order and fires its undo, the poll that waits for a release to be
  accepted (\<^verbatim>\<open>transport.go\<close>, \<^verbatim>\<open>reversal.go\<close>, \<^verbatim>\<open>acceptance.go\<close>, \<^verbatim>\<open>converger.go\<close>) and the
  directory feeder.

  The state \<open>thump_transport\<close> keeps, as lists, what was published on each subject, the outcome log,
  the world the executor changes, and the watches started and not yet run. A watch runs in its own
  goroutine and touches nothing before its window elapses, so it is one step of its own. The
  publishers, the notifier, the probe and the forge are parameters that answer each call.
\<close>

subsection \<open>The convergence read\<close>

definition prom_settle ::
  "(string \<Rightarrow> string \<Rightarrow> bool) \<Rightarrow> (string \<Rightarrow> real option) \<Rightarrow> order \<Rightarrow> bool \<times> real option" where
  "prom_settle conv sev ord =
     (let q = (if ordSLORef ord = [] then scSeverityQuery (ordSuccess ord) else ordSLORef ord)
      in (conv (scMetric (ordSuccess ord)) (scTarget (ordSuccess ord)),
          if q \<noteq> [] then sev q else None))"

record settlement =
  stlConverged :: bool
  stlFire :: bool
  stlHeld :: bool
  stlUndo :: "order option"
  stlSeverity :: "real option"

text \<open>\<open>now\<close> stamps the undo; a cancelled context ends the wait with the zero settlement.\<close>

definition watch :: "(order \<Rightarrow> bool \<times> real option) \<Rightarrow> bool \<Rightarrow> time \<Rightarrow> order \<Rightarrow> settlement" where
  "watch settle cancelled now ord =
     (if cancelled
      then \<lparr>stlConverged = False, stlFire = False, stlHeld = False, stlUndo = None, stlSeverity = None\<rparr>
      else
        (let (conv, sev) = settle ord;
             held = (\<not> conv \<and> rplHoldOnMiss (ordReversal ord));
             fire = ((\<not> conv \<and> \<not> rplHoldOnMiss (ordReversal ord))
                     \<or> rplRestoreOnSuccess (ordReversal ord))
         in if \<not> fire
            then \<lparr>stlConverged = conv, stlFire = False, stlHeld = held, stlUndo = None, stlSeverity = sev\<rparr>
            else \<lparr>stlConverged = conv, stlFire = True, stlHeld = False,
                  stlUndo = Some (reversalOf ord now), stlSeverity = sev\<rparr>))"

definition settleResult :: "bool \<Rightarrow> result" where
  "settleResult conv = (if conv then ResultSuccess else ResultPartialNonConverging)"

definition settleError :: "bool \<Rightarrow> bool \<Rightarrow> string \<Rightarrow> string \<Rightarrow> string" where
  "settleError conv held target fallback =
     (if conv then []
      else if held then
        (if fallback = []
         then ''success window elapsed without meeting '' @ go_quote target
              @ ''; undo held, no fallback authored''
         else ''success window elapsed without meeting '' @ go_quote target
              @ ''; undo held, fallback: '' @ fallback)
      else ''success window elapsed without meeting '' @ go_quote target)"

definition acceptanceError :: "string \<Rightarrow> string" where
  "acceptanceError fallback =
     (if fallback = [] then ''release not accepted within the success window; no fallback authored''
      else ''release not accepted within the success window; fallback: '' @ fallback)"

subsection \<open>The transport\<close>

datatype watch_job = SettleJob order | AcceptJob order

record 'w thump_transport =
  ttOrders :: "order list"
  ttOutcomes :: "outcome list"
  ttDeclines :: "decision list"
  ttHeld :: "governed list"
  ttNotified :: "governed list"
  ttLog :: "outcome log"
  ttWorld :: 'w
  ttJobs :: "watch_job list"

record thump_ports =
  tpOrder :: "order \<Rightarrow> string option"
  tpOutcome :: "outcome \<Rightarrow> string option"
  tpDecline :: "decision \<Rightarrow> string option"
  tpHeld :: "governed \<Rightarrow> string option"
  tpNotify :: "(governed \<Rightarrow> string option) option"
  tpReversal :: bool
  tpAcceptance :: bool

datatype thump_error =
    ErrRenderFailed string render_error
  | PublishOrderError string string
  | PublishOutcomeError string string
  | PublishHeldError string string
  | PublishDeclineError string string
  | ThumpHandleFile string thump_error
  | ThumpQuarantine string string
  | ThumpArchive string string

definition thump_notify ::
  "thump_ports \<Rightarrow> governed \<Rightarrow> 'w thump_transport \<Rightarrow> bool \<times> 'w thump_transport" where
  "thump_notify ports g tr =
     (case tpNotify ports of
        None \<Rightarrow> (False, tr)
      | Some notify \<Rightarrow>
          if \<not> awaitsApproval (decVerdict (govDecision g)) then (False, tr)
          else (case notify g of
                  Some _ \<Rightarrow> (False, tr)
                | None \<Rightarrow> (True, tr\<lparr>ttNotified := ttNotified tr @ [g]\<rparr>)))"

text \<open>The watch an outcome starts, if any.\<close>

definition watch_for :: "thump_ports \<Rightarrow> order \<Rightarrow> outcome \<Rightarrow> watch_job list" where
  "watch_for ports ord oc =
     (if tpReversal ports \<and> outMode oc = ModeLive \<and> outResult oc = ResultApplied then [SettleJob ord]
      else if tpAcceptance ports \<and> outMode oc = ModeLive \<and> outResult oc = ResultProposed
        then [AcceptJob ord]
      else [])"

definition thump_act ::
  "thump_ports \<Rightarrow> 'w executor \<Rightarrow> time \<Rightarrow> string \<Rightarrow> order \<Rightarrow> 'w thump_transport \<Rightarrow>
   thump_error option \<times> 'w thump_transport" where
  "thump_act ports exec now sig ord tr =
     (let (oc, w1) = exec ord now (ttWorld tr);
          tr1 = tr\<lparr>ttWorld := w1, ttJobs := ttJobs tr @ watch_for ports ord oc\<rparr>
      in case tpOrder ports ord of
           Some e \<Rightarrow> (Some (PublishOrderError sig e), tr1)
         | None \<Rightarrow>
             (let tr2 = tr1\<lparr>ttOrders := ttOrders tr @ [ord]\<rparr>
              in case tpOutcome ports oc of
                   Some e \<Rightarrow> (Some (PublishOutcomeError sig e), tr2)
                 | None \<Rightarrow> (None, tr2\<lparr>ttOutcomes := ttOutcomes tr @ [oc],
                                     ttLog := log_record oc (ttLog tr)\<rparr>)))"

text \<open>\<open>t1\<close> and \<open>t2\<close> are the clock at the rendering and at the execution.\<close>

definition thump_handle ::
  "thump_ports \<Rightarrow> static_catalog \<Rightarrow> 'w executor \<Rightarrow> time \<Rightarrow> time \<Rightarrow> governed \<Rightarrow> 'w thump_transport \<Rightarrow>
   thump_error option \<times> 'w thump_transport" where
  "thump_handle ports cat exec t1 t2 g tr =
     (let sig = decSignalRef (govDecision g)
      in if decVerdict (govDecision g) = VerdictApproved then
           (case render g cat t1 of
              Inl e \<Rightarrow> (Some (ErrRenderFailed sig e), tr)
            | Inr ord \<Rightarrow> thump_act ports exec t2 sig ord tr)
         else if decVerdict (govDecision g) = VerdictHold then
           (case tpHeld ports g of
              Some e \<Rightarrow> (Some (PublishHeldError sig e), tr)
            | None \<Rightarrow> (None, snd (thump_notify ports g (tr\<lparr>ttHeld := ttHeld tr @ [g]\<rparr>))))
         else
           (case tpDecline ports (govDecision g) of
              Some e \<Rightarrow> (Some (PublishDeclineError sig e), tr)
            | None \<Rightarrow> (None, snd (thump_notify ports g
                               (tr\<lparr>ttDeclines := ttDeclines tr @ [govDecision g]\<rparr>)))))"

text \<open>Publishing whose error is only logged.\<close>

definition emit_outcome :: "thump_ports \<Rightarrow> outcome \<Rightarrow> 'w thump_transport \<Rightarrow> 'w thump_transport" where
  "emit_outcome ports oc tr =
     (let tr1 = (if tpOutcome ports oc = None then tr\<lparr>ttOutcomes := ttOutcomes tr @ [oc]\<rparr> else tr)
      in tr1\<lparr>ttLog := log_record oc (ttLog tr1)\<rparr>)"

definition emit_order :: "thump_ports \<Rightarrow> order \<Rightarrow> 'w thump_transport \<Rightarrow> 'w thump_transport" where
  "emit_order ports ord tr =
     (if tpOrder ports ord = None then tr\<lparr>ttOrders := ttOrders tr @ [ord]\<rparr> else tr)"

definition convergence_outcome :: "settlement \<Rightarrow> order \<Rightarrow> time \<Rightarrow> time \<Rightarrow> outcome" where
  "convergence_outcome stl ord t1 t2 =
     \<lparr>outID = ''out:'' @ ordSignalRef ord @ '':conv:'' @ show_int (unix_seconds t1),
      outDecisionRef = ordDecisionRef ord, outSignalRef = ordSignalRef ord,
      outContractRef = ordContractRef ord, outMode = ModeLive,
      outResult = settleResult (stlConverged stl),
      outError = settleError (stlConverged stl) (stlHeld stl) (scTarget (ordSuccess ord))
                   (rplFallback (ordReversal ord)),
      outExecutedAt = t2, outObservedSeverity = stlSeverity stl\<rparr>"

text \<open>The clock is read for the undo's stamp, the outcome's identifier and time, and the undo's run.\<close>

record settle_clock =
  clkUndo :: time
  clkID :: time
  clkAt :: time
  clkRun :: time

definition watchAndSettle ::
  "thump_ports \<Rightarrow> 'w executor \<Rightarrow> (order \<Rightarrow> bool \<times> real option) \<Rightarrow> bool \<Rightarrow> settle_clock \<Rightarrow> order \<Rightarrow>
   'w thump_transport \<Rightarrow> 'w thump_transport" where
  "watchAndSettle ports exec settle cancelled clk ord tr =
     (let stl = watch settle cancelled (clkUndo clk) ord
      in if cancelled then tr
         else
           (let tr1 = emit_outcome ports (convergence_outcome stl ord (clkID clk) (clkAt clk)) tr
            in case stlUndo stl of
                 None \<Rightarrow> tr1
               | Some undo \<Rightarrow>
                   (let (oc, w1) = exec undo (clkRun clk) (ttWorld tr1)
                    in emit_outcome ports oc (emit_order ports undo (tr1\<lparr>ttWorld := w1\<rparr>)))))"

definition accept_outcome :: "order \<Rightarrow> result \<Rightarrow> string \<Rightarrow> time \<Rightarrow> time \<Rightarrow> outcome" where
  "accept_outcome ord res err t1 t2 =
     \<lparr>outID = ''out:'' @ ordSignalRef ord @ '':accept:'' @ show_int (unix_seconds t1),
      outDecisionRef = ordDecisionRef ord, outSignalRef = ordSignalRef ord,
      outContractRef = ordContractRef ord, outMode = ModeLive, outResult = res, outError = err,
      outExecutedAt = t2, outObservedSeverity = None\<rparr>"

definition recordAccept ::
  "thump_ports \<Rightarrow> order \<Rightarrow> result \<Rightarrow> string \<Rightarrow> settle_clock \<Rightarrow> 'w thump_transport \<Rightarrow> 'w thump_transport" where
  "recordAccept ports ord res err clk tr =
     emit_outcome ports (accept_outcome ord res err (clkID clk) (clkAt clk)) tr"

text \<open>
  \<open>withdraw\<close> is the forge's answer for a release key, an error or whether the release had been
  accepted; \<open>c1\<close> and \<open>c2\<close> say whether the context is cancelled after the poll and after the
  convergence wait.
\<close>

definition watchAndAccept ::
  "thump_ports \<Rightarrow> 'w executor \<Rightarrow> (order \<Rightarrow> bool \<times> real option) \<Rightarrow> (string \<Rightarrow> string + bool) \<Rightarrow>
   bool \<Rightarrow> bool \<Rightarrow> settle_clock \<Rightarrow> order \<Rightarrow> 'w thump_transport \<Rightarrow> 'w thump_transport" where
  "watchAndAccept ports exec settle withdraw c1 c2 clk ord tr =
     (if c1 then tr
      else case withdraw (ordContractRef ord) of
             Inl e \<Rightarrow> recordAccept ports ord ResultFailure (''acceptance poll failed: '' @ e) clk tr
           | Inr accepted \<Rightarrow>
               if \<not> accepted
               then recordAccept ports ord ResultPartialNonConverging
                      (acceptanceError (rplFallback (ordReversal ord))) clk tr
               else watchAndSettle ports exec settle c2 clk ord tr)"

definition thump_tick ::
  "bool \<Rightarrow> thump_ports \<Rightarrow> static_catalog \<Rightarrow> 'w executor \<Rightarrow> (string \<Rightarrow> time \<times> time) \<Rightarrow> (string \<Rightarrow> string + 'raw) \<Rightarrow>
   ('raw \<Rightarrow> string + governed) \<Rightarrow> (string \<Rightarrow> string \<Rightarrow> string option) \<Rightarrow> string list \<Rightarrow>
   'w thump_transport \<times> moves \<Rightarrow> thump_error drain_error option \<times> 'w thump_transport \<times> moves" where
  "thump_tick cancelled ports cat exec clock read_file unmarshal rename paths st =
     (if cancelled then (Some ContextDone, st) else drainDir read_file unmarshal rename
       (\<lambda>path g (tr, moved).
          case thump_handle ports cat exec (fst (clock path)) (snd (clock path)) g tr of
            (Some (ErrRenderFailed sig e), tr') \<Rightarrow>
              (case disposition rename path ''quarantine'' moved of
                 (Some err, moved') \<Rightarrow> (Some (ThumpQuarantine path err), tr', moved')
               | (None, moved') \<Rightarrow> (None, tr', moved'))
          | (Some e, tr') \<Rightarrow> (Some (ThumpHandleFile path e), tr', moved)
          | (None, tr') \<Rightarrow>
              (case disposition rename path
                      (if decVerdict (govDecision g) \<noteq> VerdictApproved then ''skipped'' else ''processed'')
                      moved of
                 (Some err, moved') \<Rightarrow> (Some (ThumpArchive path err), tr', moved')
               | (None, moved') \<Rightarrow> (None, tr', moved')))
       paths st)"

subsection \<open>What a handled decision changes\<close>

lemma thump_notify_sel [simp]:
  "ttOrders (snd (thump_notify ports g tr)) = ttOrders tr"
  "ttOutcomes (snd (thump_notify ports g tr)) = ttOutcomes tr"
  "ttDeclines (snd (thump_notify ports g tr)) = ttDeclines tr"
  "ttHeld (snd (thump_notify ports g tr)) = ttHeld tr"
  "ttLog (snd (thump_notify ports g tr)) = ttLog tr"
  "ttWorld (snd (thump_notify ports g tr)) = ttWorld tr"
  "ttJobs (snd (thump_notify ports g tr)) = ttJobs tr"
  by (auto simp: thump_notify_def split: option.split)

lemma emit_outcome_sel [simp]:
  "ttOrders (emit_outcome ports oc tr) = ttOrders tr"
  "ttWorld (emit_outcome ports oc tr) = ttWorld tr"
  "ttJobs (emit_outcome ports oc tr) = ttJobs tr"
  "ttOutcomes (emit_outcome ports oc tr) =
     (if tpOutcome ports oc = None then ttOutcomes tr @ [oc] else ttOutcomes tr)"
  "logItems (ttLog (emit_outcome ports oc tr)) = logItems (ttLog tr) @ [oc]"
  by (simp_all add: emit_outcome_def Let_def)

lemma emit_order_sel [simp]:
  "ttOutcomes (emit_order ports ord tr) = ttOutcomes tr"
  "ttWorld (emit_order ports ord tr) = ttWorld tr"
  "ttJobs (emit_order ports ord tr) = ttJobs tr"
  "ttLog (emit_order ports ord tr) = ttLog tr"
  "ttOrders (emit_order ports ord tr) =
     (if tpOrder ports ord = None then ttOrders tr @ [ord] else ttOrders tr)"
  by (simp_all add: emit_order_def)

lemma thump_act_sel:
  "ttWorld (snd (thump_act ports exec now sig ord tr)) = snd (exec ord now (ttWorld tr))"
  "ttJobs (snd (thump_act ports exec now sig ord tr)) =
     ttJobs tr @ watch_for ports ord (fst (exec ord now (ttWorld tr)))"
  "set (ttOrders (snd (thump_act ports exec now sig ord tr))) \<subseteq> insert ord (set (ttOrders tr))"
  "set (ttOutcomes (snd (thump_act ports exec now sig ord tr)))
     \<subseteq> insert (fst (exec ord now (ttWorld tr))) (set (ttOutcomes tr))"
  "set (logItems (ttLog (snd (thump_act ports exec now sig ord tr))))
     \<subseteq> insert (fst (exec ord now (ttWorld tr))) (set (logItems (ttLog tr)))"
  by (auto simp: thump_act_def Let_def split: prod.split option.split)

lemma watch_for_orders: "j \<in> set (watch_for ports ord oc) \<Longrightarrow> j = SettleJob ord \<or> j = AcceptJob ord"
  by (auto simp: watch_for_def split: if_splits)

text \<open>C8: thump acts only on a grant: a decision that is not approved, or whose approval does not
  render, leaves the world, the orders, the outcomes and the watches as they were, a hold goes to
  the held subject alone and every other refusal to the declines alone; a rendered approval is
  executed exactly once per delivery, on the order rendered from it.\<close>

theorem thump_acts_only_on_approval:
  "(case (if decVerdict (govDecision g) = VerdictApproved then Some (render g cat t1) else None) of
      Some (Inr ord) \<Rightarrow>
        ttWorld (snd (thump_handle ports cat exec t1 t2 g tr)) = snd (exec ord t2 (ttWorld tr)) \<and>
        ttHeld (snd (thump_handle ports cat exec t1 t2 g tr)) = ttHeld tr \<and>
        ttDeclines (snd (thump_handle ports cat exec t1 t2 g tr)) = ttDeclines tr
    | Some (Inl e) \<Rightarrow>
        thump_handle ports cat exec t1 t2 g tr
          = (Some (ErrRenderFailed (decSignalRef (govDecision g)) e), tr)
    | None \<Rightarrow>
        ttWorld (snd (thump_handle ports cat exec t1 t2 g tr)) = ttWorld tr \<and>
        ttOrders (snd (thump_handle ports cat exec t1 t2 g tr)) = ttOrders tr \<and>
        ttOutcomes (snd (thump_handle ports cat exec t1 t2 g tr)) = ttOutcomes tr \<and>
        ttJobs (snd (thump_handle ports cat exec t1 t2 g tr)) = ttJobs tr \<and>
        (if decVerdict (govDecision g) = VerdictHold
         then ttDeclines (snd (thump_handle ports cat exec t1 t2 g tr)) = ttDeclines tr
         else ttHeld (snd (thump_handle ports cat exec t1 t2 g tr)) = ttHeld tr))"
  by (auto simp: thump_handle_def thump_act_def Let_def
      split: option.splits sum.splits prod.splits)

subsection \<open>Settling an applied order\<close>



text \<open>a contract that asks for both loses its hold: a missed window fires the undo of an action
  that was itself the remediation, and the settlement does not report it as held.\<close>

theorem hold_lost_when_restore_authored:
  assumes "rplHoldOnMiss (ordReversal ord)" "rplRestoreOnSuccess (ordReversal ord)"
    "settle ord = (False, sev)"
  shows "stlFire (watch settle False now ord) \<and> \<not> stlHeld (watch settle False now ord) \<and>
    stlUndo (watch settle False now ord) = Some (reversalOf ord now)"
  using assms by (simp add: watch_def)

theorem hold_lost_when_restore_authored_witness:
  "stlFire (watch (\<lambda>_. (False, None)) False 170
     (example_order\<lparr>ordReversal := (ordReversal example_order)\<lparr>rplHoldOnMiss := True,
        rplRestoreOnSuccess := True\<rparr>\<rparr>))"
  using hold_lost_when_restore_authored [of "example_order\<lparr>ordReversal :=
      (ordReversal example_order)\<lparr>rplHoldOnMiss := True, rplRestoreOnSuccess := True\<rparr>\<rparr>"
      "\<lambda>_. (False, None)" None 170]
  by simp

lemma settleError_nonempty: "\<not> conv \<Longrightarrow> settleError conv held target fallback \<noteq> []"
  by (simp add: settleError_def)

lemma convergence_outcome_auditable:
  "ordDecisionRef ord \<noteq> [] \<Longrightarrow> t2 \<noteq> zero_time \<Longrightarrow>
   outcome_auditable (convergence_outcome stl ord t1 t2) = None"
  by (auto simp: outcome_auditable_None_iff convergence_outcome_def settleResult_def settleError_nonempty)

lemma accept_outcome_auditable:
  "ordDecisionRef ord \<noteq> [] \<Longrightarrow> t2 \<noteq> zero_time \<Longrightarrow> err \<noteq> [] \<Longrightarrow>
   res = ResultFailure \<or> res = ResultPartialNonConverging \<Longrightarrow>
   outcome_auditable (accept_outcome ord res err t1 t2) = None"
  by (auto simp: outcome_auditable_None_iff accept_outcome_def)

lemma watch_undo: "stlUndo (watch settle c now ord) \<in> {None, Some (reversalOf ord now)}"
  by (simp add: watch_def Let_def split: prod.split)

lemma stlFire_iff_undo: "stlFire (watch settle c now ord) \<longleftrightarrow> stlUndo (watch settle c now ord) \<noteq> None"
  by (simp add: watch_def Let_def split: prod.split)


definition open_ports :: thump_ports where
  "open_ports = \<lparr>tpOrder = (\<lambda>_. None), tpOutcome = (\<lambda>_. None), tpDecline = (\<lambda>_. None),
     tpHeld = (\<lambda>_. None), tpNotify = None, tpReversal = True, tpAcceptance = False\<rparr>"

definition thump_boot :: "'w \<Rightarrow> 'w thump_transport" where
  "thump_boot w = \<lparr>ttOrders = [], ttOutcomes = [], ttDeclines = [], ttHeld = [], ttNotified = [],
     ttLog = newOutcomeLog, ttWorld = w, ttJobs = []\<rparr>"

definition example_clock :: settle_clock where
  "example_clock = \<lparr>clkUndo = 460, clkID = 460, clkAt = 460, clkRun = 460\<rparr>"


subsection \<open>Reachable states\<close>

text \<open>
  A run of the beat: \<open>gs\<close> collects the envelopes delivered so far. Jobs run in any order and at any
  later time, a context may be cancelled at any of them, and the world may change on its own.
\<close>

inductive thump_reachable ::
  "static_catalog \<Rightarrow> 'w executor \<Rightarrow> governed list \<Rightarrow> 'w thump_transport \<Rightarrow> bool" for cat exec where
  started: "thump_reachable cat exec [] (thump_boot w)"
| decided: "thump_reachable cat exec gs tr \<Longrightarrow> decID (govDecision g) \<noteq> [] \<Longrightarrow> t2 \<noteq> zero_time \<Longrightarrow>
    thump_reachable cat exec (gs @ [g]) (snd (thump_handle ports cat exec t1 t2 g tr))"
| settled: "thump_reachable cat exec gs tr \<Longrightarrow> SettleJob ord \<in> set (ttJobs tr) \<Longrightarrow>
    clkAt clk \<noteq> zero_time \<Longrightarrow> clkRun clk \<noteq> zero_time \<Longrightarrow>
    thump_reachable cat exec gs (watchAndSettle ports exec settle cancelled clk ord
      (tr\<lparr>ttJobs := remove1 (SettleJob ord) (ttJobs tr)\<rparr>))"
| accepted: "thump_reachable cat exec gs tr \<Longrightarrow> AcceptJob ord \<in> set (ttJobs tr) \<Longrightarrow>
    clkAt clk \<noteq> zero_time \<Longrightarrow> clkRun clk \<noteq> zero_time \<Longrightarrow>
    thump_reachable cat exec gs (watchAndAccept ports exec settle withdraw c1 c2 clk ord
      (tr\<lparr>ttJobs := remove1 (AcceptJob ord) (ttJobs tr)\<rparr>))"
| drifted: "thump_reachable cat exec gs tr \<Longrightarrow> thump_reachable cat exec gs (tr\<lparr>ttWorld := w\<rparr>)"

text \<open>An order answers to a grant: a delivered approval it names, on a contract of the catalog.\<close>

definition granted :: "static_catalog \<Rightarrow> governed list \<Rightarrow> order \<Rightarrow> bool" where
  "granted cat gs ord \<longleftrightarrow> (\<exists>g \<in> set gs. decVerdict (govDecision g) = VerdictApproved \<and>
     decision_auditable (govDecision g) = None \<and> decID (govDecision g) \<noteq> [] \<and>
     ordDecisionRef ord = decID (govDecision g) \<and> ordSignalRef ord = psSignalRef (govSet g) \<and>
     ordContractRef ord = contractRefFor (govSet g) (decCandidateRef (govDecision g)) \<and>
     ordContractRef ord \<in> acName ` set cat)"

definition answers :: "static_catalog \<Rightarrow> governed list \<Rightarrow> outcome \<Rightarrow> bool" where
  "answers cat gs oc \<longleftrightarrow> outcome_auditable oc = None \<and>
     (\<exists>ord. granted cat gs ord \<and> outDecisionRef oc = ordDecisionRef ord \<and>
        outSignalRef oc = ordSignalRef ord \<and> outContractRef oc = ordContractRef ord)"

fun job_order :: "watch_job \<Rightarrow> order" where
  "job_order (SettleJob ord) = ord"
| "job_order (AcceptJob ord) = ord"

definition thump_inv :: "static_catalog \<Rightarrow> governed list \<Rightarrow> 'w thump_transport \<Rightarrow> bool" where
  "thump_inv cat gs tr \<longleftrightarrow>
     (\<forall>ord \<in> set (ttOrders tr). granted cat gs ord) \<and>
     (\<forall>j \<in> set (ttJobs tr). granted cat gs (job_order j)) \<and>
     (\<forall>oc \<in> set (ttOutcomes tr) \<union> set (logItems (ttLog tr)). answers cat gs oc)"

lemma granted_mono: "granted cat gs ord \<Longrightarrow> granted cat (gs @ [g]) ord"
  by (auto simp: granted_def)

lemma answers_mono: "answers cat gs oc \<Longrightarrow> answers cat (gs @ [g]) oc"
  by (auto simp: answers_def intro: granted_mono)

lemma granted_decision: "granted cat gs ord \<Longrightarrow> ordDecisionRef ord \<noteq> []"
  by (auto simp: granted_def)

lemma granted_reversal: "granted cat gs ord \<Longrightarrow> granted cat gs (reversalOf ord now)"
  by (simp add: granted_def)

lemma rendered_granted:
  assumes "render g cat t = Inr ord" "decID (govDecision g) \<noteq> []"
  shows "granted cat (gs @ [g]) ord"
proof -
  from assms(1) obtain cand ct where *: "decision_auditable (govDecision g) = None"
    "decVerdict (govDecision g) = VerdictApproved" "decSignalRef (govDecision g) = psSignalRef (govSet g)"
    "candidateFor (govSet g) (decCandidateRef (govDecision g)) = Some cand"
    "byName cat (cndContractRef cand) = Some ct" "ord = order_of (govDecision g) (govSet g) cand ct t"
    by (auto simp: render_Inr_iff)
  with assms(2) cat.lookup_admits_iff [of cat "cndContractRef cand"] show ?thesis
    by (auto simp: granted_def contractRefFor_def)
qed

lemma convergence_answers:
  "granted cat gs ord \<Longrightarrow> t2 \<noteq> zero_time \<Longrightarrow> answers cat gs (convergence_outcome stl ord t1 t2)"
  using convergence_outcome_auditable granted_decision
  by (fastforce simp: answers_def convergence_outcome_def)

lemma acceptance_answers:
  "granted cat gs ord \<Longrightarrow> t2 \<noteq> zero_time \<Longrightarrow> err \<noteq> [] \<Longrightarrow>
   res = ResultFailure \<or> res = ResultPartialNonConverging \<Longrightarrow>
   answers cat gs (accept_outcome ord res err t1 t2)"
  using accept_outcome_auditable granted_decision
  by (fastforce simp: answers_def accept_outcome_def)

lemma thump_inv_emit:
  assumes "thump_inv cat gs tr" "answers cat gs oc"
  shows "thump_inv cat gs (emit_outcome ports oc tr)"
  using assms by (auto simp: thump_inv_def)

lemma thump_inv_emit_order:
  "thump_inv cat gs tr \<Longrightarrow> granted cat gs ord \<Longrightarrow> thump_inv cat gs (emit_order ports ord tr)"
  by (auto simp: thump_inv_def)

lemma thump_inv_world [simp]: "thump_inv cat gs (tr\<lparr>ttWorld := w\<rparr>) = thump_inv cat gs tr"
  by (simp add: thump_inv_def)

lemma thump_inv_unjob: "thump_inv cat gs tr \<Longrightarrow> thump_inv cat gs (tr\<lparr>ttJobs := remove1 j (ttJobs tr)\<rparr>)"
  by (auto simp: thump_inv_def dest: notin_set_remove1 [THEN contrapos_nn] split: if_splits)

text \<open>Any executor that keeps its contract keeps the transport's invariant.\<close>

context executor_contract
begin

lemma exec_answers:
  "granted cat gs ord \<Longrightarrow> t \<noteq> zero_time \<Longrightarrow> answers cat gs (fst (exec ord t w))"
  using exec_auditable [OF granted_decision] threads by (auto simp: answers_def)

lemma inv_act:
  assumes "thump_inv cat gs tr" "granted cat gs ord" "t \<noteq> zero_time"
  shows "thump_inv cat gs (snd (thump_act ports exec t sig ord tr))"
proof -
  note sel = thump_act_sel [of ports exec t sig ord tr]
  have "answers cat gs (fst (exec ord t (ttWorld tr)))" by (rule exec_answers [OF assms(2,3)])
  moreover have "granted cat gs (job_order j)"
    if "j \<in> set (watch_for ports ord (fst (exec ord t (ttWorld tr))))" for j
    using watch_for_orders [OF that] assms(2) by auto
  ultimately show ?thesis
    using assms(1,2) sel unfolding thump_inv_def by auto
qed

lemma inv_handle:
  assumes "thump_inv cat gs tr" "decID (govDecision g) \<noteq> []" "t2 \<noteq> zero_time"
  shows "thump_inv cat (gs @ [g]) (snd (thump_handle ports cat exec t1 t2 g tr))"
proof -
  have inv: "thump_inv cat (gs @ [g]) tr"
    using assms(1) granted_mono answers_mono unfolding thump_inv_def by blast
  then have "thump_inv cat (gs @ [g]) (tr\<lparr>ttHeld := x\<rparr>)"
    "thump_inv cat (gs @ [g]) (tr\<lparr>ttDeclines := y\<rparr>)" for x y
    by (simp_all add: thump_inv_def)
  then have n: "thump_inv cat (gs @ [g]) (snd (thump_notify ports g (tr\<lparr>ttHeld := x\<rparr>)))"
    "thump_inv cat (gs @ [g]) (snd (thump_notify ports g (tr\<lparr>ttDeclines := y\<rparr>)))" for x y
    by (simp_all add: thump_inv_def)
  show ?thesis
    using inv n inv_act [OF inv rendered_granted [OF _ assms(2)] assms(3)]
    by (auto simp: thump_handle_def Let_def split: sum.split option.split)
qed

lemma inv_settle:
  assumes "thump_inv cat gs tr" "granted cat gs ord" "clkAt clk \<noteq> zero_time" "clkRun clk \<noteq> zero_time"
  shows "thump_inv cat gs (watchAndSettle ports exec settle cancelled clk ord tr)"
proof (cases cancelled)
  case True
  with assms(1) show ?thesis by (simp add: watchAndSettle_def)
next
  case False
  let ?stl = "watch settle False (clkUndo clk) ord"
  let ?tr1 = "emit_outcome ports (convergence_outcome ?stl ord (clkID clk) (clkAt clk)) tr"
  have 1: "thump_inv cat gs ?tr1"
    by (rule thump_inv_emit [OF assms(1) convergence_answers [OF assms(2,3)]])
  have 2: "thump_inv cat gs (emit_outcome ports (fst (exec (reversalOf ord (clkUndo clk)) (clkRun clk) w))
      (emit_order ports (reversalOf ord (clkUndo clk)) (?tr1\<lparr>ttWorld := w1\<rparr>)))" for w w1
    using 1 granted_reversal [OF assms(2)] assms(4)
    by (intro thump_inv_emit thump_inv_emit_order exec_answers) auto
  show ?thesis
    using watch_undo [of settle False "clkUndo clk" ord] 1 False 2
    by (auto simp: watchAndSettle_def Let_def split: option.split prod.split) (metis fst_conv)
qed

lemma inv_accept:
  assumes "thump_inv cat gs tr" "granted cat gs ord" "clkAt clk \<noteq> zero_time" "clkRun clk \<noteq> zero_time"
  shows "thump_inv cat gs (watchAndAccept ports exec settle withdraw c1 c2 clk ord tr)"
proof -
  have "acceptanceError fb \<noteq> []" for fb by (simp add: acceptanceError_def)
  then have "thump_inv cat gs (recordAccept ports ord ResultPartialNonConverging
      (acceptanceError (rplFallback (ordReversal ord))) clk tr)"
    unfolding recordAccept_def using acceptance_answers [OF assms(2,3)]
    by (intro thump_inv_emit [OF assms(1)]) blast
  moreover have "thump_inv cat gs (recordAccept ports ord ResultFailure
      (''acceptance poll failed: '' @ e) clk tr)" for e
    unfolding recordAccept_def using acceptance_answers [OF assms(2,3)]
    by (intro thump_inv_emit [OF assms(1)]) simp
  ultimately show ?thesis
    using assms(1) inv_settle [OF assms] by (simp add: watchAndAccept_def split: sum.split)
qed

lemma reachable_inv: "thump_reachable cat exec gs tr \<Longrightarrow> thump_inv cat gs tr"
proof (induction rule: thump_reachable.induct)
  case (started w)
  then show ?case by (simp add: thump_inv_def thump_boot_def newOutcomeLog_def newLog_def)
next
  case (decided gs tr g t2 ports t1)
  then show ?case by (blast intro: inv_handle)
next
  case (settled gs tr ord clk ports settle cancelled)
  then have "granted cat gs ord" by (force simp: thump_inv_def)
  with settled show ?case by (blast intro: inv_settle thump_inv_unjob)
next
  case (accepted gs tr ord clk ports settle withdraw c1 c2)
  then have "granted cat gs ord" by (force simp: thump_inv_def)
  with accepted show ?case by (blast intro: inv_accept thump_inv_unjob)
next
  case (drifted gs tr w)
  then show ?case by simp
qed

end

text \<open>C3: no action without a grant, and no silence after one: in every reachable state of the beat
  with the production executor, whatever the jobs, failures, cancellations and changes of the
  world, every published order, undo included, names a delivered and auditable approval, on the
  contract of the candidate that approval grants, which the catalog holds; and every outcome
  published or logged is auditable and answers to such an order.\<close>

theorem thump_every_act_granted:
  assumes "thump_reachable cat (gatedLive parse print stamp armed r) gs tr"
  shows "(\<forall>ord \<in> set (ttOrders tr). granted cat gs ord) \<and>
    (\<forall>oc \<in> set (ttOutcomes tr) \<union> set (logItems (ttLog tr)). answers cat gs oc)"
  using prod.reachable_inv [OF assms] by (simp add: thump_inv_def)

definition example_acted :: "string list thump_transport" where
  "example_acted = snd (thump_handle open_ports [example_contract ''scale-out'' ''off'']
     (example_exec (\<lambda>_. True)) 160 160 example_governed (thump_boot []))"

lemma example_acted_reachable:
  "thump_reachable [example_contract ''scale-out'' ''off''] (example_exec (\<lambda>_. True))
     [example_governed] example_acted"
  unfolding example_acted_def
  using thump_reachable.decided [OF thump_reachable.started, of example_governed 160]
  by (simp add: example_governed_def example_decision_def zero_time_def)

lemma example_acted_orders: "ttOrders example_acted = [example_order]"
proof -
  have v: "decVerdict (govDecision example_governed) = VerdictApproved"
    by (simp add: example_governed_def example_decision_def)
  show ?thesis
    by (simp add: example_acted_def thump_handle_def v example_render thump_act_def open_ports_def
        thump_boot_def example_order_def Let_def split: prod.split)
qed

theorem thump_every_act_granted_witness:
  "granted [example_contract ''scale-out'' ''off''] [example_governed] example_order"
  using thump_every_act_granted [OF example_acted_reachable [unfolded example_exec_def]]
  by (simp add: example_acted_orders)

end
