(* ===== verification/ProposalLog.thy ===== *)
theory ProposalLog
  imports Boundary
begin

text \<open>
  The proposal ledger of \<^verbatim>\<open>src/internal/clank/ledger.go\<close>: every set the reason loop forms is recorded,
  an open set of a fingerprint suppresses a new run, an outcome or a decline moves the newest open
  set of its fingerprint, and closed sets are pruned once they are old.

  The mutex makes each method atomic. A cancelled context is the argument \<open>cancelled\<close>. The query
  for open sets reads the status of every matching record without a nil check, so a record with no
  status makes it panic: that is the error \<open>LedgerPanic\<close>.
\<close>

record recorded =
  recSet :: proposal_set
  recAt :: time

record proposal_log =
  plRetention :: duration
  plSets :: "recorded list"

datatype ledger_error = LedgerCancelled | LedgerPanic | ErrNoOpenSet string

definition newProposalLog :: proposal_log where
  "newProposalLog = \<lparr>plRetention = 0, plSets = []\<rparr>"

definition ledgerRetention :: duration where
  "ledgerRetention = 24 * hour"

fun isOpen :: "phase \<Rightarrow> bool" where
  "isOpen PhaseProposed = True"
| "isOpen PhaseAcknowledge = True"
| "isOpen PhaseActed = True"
| "isOpen _ = False"

definition set_open :: "proposal_set \<Rightarrow> bool" where
  "set_open ps = (case psStatus ps of None \<Rightarrow> False | Some st \<Rightarrow> isOpen (stPhase st))"

definition set_closed :: "proposal_set \<Rightarrow> bool" where
  "set_closed ps = (case psStatus ps of None \<Rightarrow> False | Some st \<Rightarrow> \<not> isOpen (stPhase st))"

text \<open>The clock is read twice: \<open>now\<close> sets the cutoff of the pruning, \<open>stamp\<close> dates the record.\<close>

definition plog_record ::
  "bool \<Rightarrow> time \<Rightarrow> time \<Rightarrow> proposal_set \<Rightarrow> proposal_log \<Rightarrow> ledger_error option \<times> proposal_log" where
  "plog_record cancelled now stamp ps l =
     (if cancelled then (Some LedgerCancelled, l)
      else
        (let retention = (if plRetention l \<le> 0 then ledgerRetention else plRetention l);
             cutoff = now - retention;
             kept = filter (\<lambda>r. cutoff < recAt r \<or> \<not> set_closed (recSet r)) (plSets l)
         in (None, l\<lparr>plSets := kept @ [\<lparr>recSet = ps, recAt = stamp\<rparr>]\<rparr>)))"

definition plog_open ::
  "bool \<Rightarrow> string \<Rightarrow> time \<Rightarrow> proposal_log \<Rightarrow> ledger_error + proposal_set list" where
  "plog_open cancelled fp since l =
     (if cancelled then Inl LedgerCancelled
      else
        (let hits = filter (\<lambda>r. psSignalRef (recSet r) = fp \<and> since < recAt r) (plSets l)
         in if \<exists>r \<in> set hits. psStatus (recSet r) = None then Inl LedgerPanic
            else Inr (map recSet (filter (\<lambda>r. set_open (recSet r)) hits))))"

definition transition :: "status \<Rightarrow> outcome \<Rightarrow> status" where
  "transition st oc =
     (let st = st\<lparr>stObservedAt := outExecutedAt oc\<rparr>
      in case outResult oc of
           ResultRendered \<Rightarrow> st\<lparr>stPhase := PhaseAcknowledge\<rparr>
         | ResultApplied \<Rightarrow> st\<lparr>stPhase := PhaseActed, stOutcome := result_string (outResult oc)\<rparr>
         | ResultSuccess \<Rightarrow> st\<lparr>stPhase := PhaseClosed, stOutcome := result_string (outResult oc)\<rparr>
         | ResultFailure \<Rightarrow> st\<lparr>stPhase := PhaseClosed, stOutcome := result_string (outResult oc)\<rparr>
         | ResultPartialNonConverging \<Rightarrow>
             st\<lparr>stPhase := PhaseClosed, stOutcome := result_string (outResult oc)\<rparr>
         | _ \<Rightarrow> st\<lparr>stPhase := PhaseActed, stOutcome := result_string (outResult oc)\<rparr>)"

definition answers_to :: "string \<Rightarrow> recorded \<Rightarrow> bool" where
  "answers_to fp r \<longleftrightarrow> psSignalRef (recSet r) = fp \<and> set_open (recSet r)"

definition restatus :: "(status \<Rightarrow> status) \<Rightarrow> recorded \<Rightarrow> recorded" where
  "restatus f r = r\<lparr>recSet := (recSet r)\<lparr>psStatus := map_option f (psStatus (recSet r))\<rparr>\<rparr>"

definition move_newest ::
  "string \<Rightarrow> (status \<Rightarrow> status) \<Rightarrow> proposal_log \<Rightarrow> (ledger_error + proposal_set) \<times> proposal_log" where
  "move_newest fp f l =
     (case find_last (answers_to fp) (plSets l) of
        None \<Rightarrow> (Inl (ErrNoOpenSet fp), l)
      | Some r \<Rightarrow> (Inr (recSet (restatus f r)),
                   l\<lparr>plSets := update_last (answers_to fp) (restatus f) (plSets l)\<rparr>))"

definition plog_observe ::
  "bool \<Rightarrow> outcome \<Rightarrow> proposal_log \<Rightarrow> (ledger_error + proposal_set) \<times> proposal_log" where
  "plog_observe cancelled oc l =
     (if cancelled then (Inl LedgerCancelled, l)
      else move_newest (outSignalRef oc) (\<lambda>st. transition st oc) l)"

definition plog_decline ::
  "bool \<Rightarrow> string \<Rightarrow> time \<Rightarrow> proposal_log \<Rightarrow> (ledger_error + proposal_set) \<times> proposal_log" where
  "plog_decline cancelled fp at_time l =
     (if cancelled then (Inl LedgerCancelled, l)
      else move_newest fp (\<lambda>st. st\<lparr>stPhase := PhaseDeclined, stObservedAt := at_time\<rparr>) l)"

definition seedAt :: "proposal_set \<Rightarrow> time \<Rightarrow> proposal_log \<Rightarrow> proposal_log" where
  "seedAt ps at_time l = l\<lparr>plSets := plSets l @ [\<lparr>recSet = ps, recAt = at_time\<rparr>]\<rparr>"

subsection \<open>Open and closed\<close>

text \<open>The results that settle a set.\<close>

definition terminal :: "result \<Rightarrow> bool" where
  "terminal r \<longleftrightarrow> r = ResultSuccess \<or> r = ResultFailure \<or> r = ResultPartialNonConverging"

lemma isOpen_transition: "isOpen (stPhase (transition st oc)) \<longleftrightarrow> \<not> terminal (outResult oc)"
  by (cases "outResult oc") (simp_all add: transition_def terminal_def)

lemma set_open_not_closed: "set_open ps \<Longrightarrow> \<not> set_closed ps"
  by (auto simp: set_open_def set_closed_def split: option.splits)

lemma restatus_sel [simp]:
  "recAt (restatus f r) = recAt r"
  "psSignalRef (recSet (restatus f r)) = psSignalRef (recSet r)"
  "psName (recSet (restatus f r)) = psName (recSet r)"
  "psProposals (recSet (restatus f r)) = psProposals (recSet r)"
  by (simp_all add: restatus_def)

lemma set_open_restatus:
  "set_open (recSet r) \<Longrightarrow> (\<And>st. isOpen (stPhase (f st)) = b) \<Longrightarrow> set_open (recSet (restatus f r)) = b"
  by (auto simp: set_open_def restatus_def split: option.splits)

text \<open>The open sets of a fingerprint, by number.\<close>

definition open_count :: "proposal_log \<Rightarrow> string \<Rightarrow> nat" where
  "open_count l fp = length (filter (answers_to fp) (plSets l))"

lemma open_count_zero_iff: "open_count l fp = 0 \<longleftrightarrow> find_last (answers_to fp) (plSets l) = None"
  by (auto simp: open_count_def find_last_None_iff filter_empty_conv)

lemma count_update_last:
  assumes "\<And>x. p x \<Longrightarrow> p (f x) = b"
  shows "length (filter p (update_last p f xs)) =
    (if \<exists>x \<in> set xs. p x then length (filter p xs) - (if b then 0 else 1) else length (filter p xs))"
proof (induction xs rule: rev_induct)
  case (snoc x xs)
  then show ?case using assms [of x] by (auto simp: filter_empty_conv)
qed simp

lemma open_count_move_newest:
  assumes "\<And>st. isOpen (stPhase (f st)) = b"
  shows "open_count (snd (move_newest fp f l)) fp' =
    (if fp' = fp \<and> \<not> b then open_count l fp - 1 else open_count l fp')"
proof (cases "find_last (answers_to fp) (plSets l)")
  case None
  then show ?thesis
    using open_count_zero_iff [of l fp] by (auto simp: move_newest_def)
next
  case (Some r)
  have keep: "answers_to fp x \<Longrightarrow> answers_to fp (restatus f x) = b" for x
    using set_open_restatus [of x f b] assms by (auto simp: answers_to_def)
  have ex: "\<exists>x \<in> set (plSets l). answers_to fp x" using find_last_Some_in_set [OF Some] by blast
  show ?thesis
  proof (cases "fp' = fp")
    case True
    then show ?thesis
      using count_update_last [of "answers_to fp" "restatus f" b, OF keep] ex Some
      by (simp add: move_newest_def open_count_def)
  next
    case False
    then have "answers_to fp x \<Longrightarrow> \<not> answers_to fp' x \<and> \<not> answers_to fp' (restatus f x)" for x
      by (auto simp: answers_to_def)
    then have "filter (answers_to fp') (update_last (answers_to fp) (restatus f) (plSets l)) =
        filter (answers_to fp') (plSets l)"
      by (rule filter_update_last_other)
    with False Some show ?thesis by (simp add: move_newest_def open_count_def)
  qed
qed

lemma open_count_observe:
  "open_count (snd (plog_observe False oc l)) fp =
     (if outSignalRef oc = fp \<and> terminal (outResult oc) then open_count l fp - 1 else open_count l fp)"
  by (auto simp: plog_observe_def open_count_move_newest [OF isOpen_transition])

lemma open_count_decline:
  "open_count (snd (plog_decline False fp' at_time l)) fp =
     (if fp' = fp then open_count l fp - 1 else open_count l fp)"
proof -
  have "isOpen (stPhase (st\<lparr>stPhase := PhaseDeclined, stObservedAt := at_time\<rparr>)) = False" for st :: status
    by simp
  from open_count_move_newest [OF this, of fp'] show ?thesis by (auto simp: plog_decline_def)
qed

lemma filter_answers_pruned:
  "filter (answers_to fp) (filter (\<lambda>r. c < recAt r \<or> \<not> set_closed (recSet r)) xs) =
   filter (answers_to fp) xs"
  using set_open_not_closed
  by (simp add: filter_filter) (rule filter_cong, auto simp: answers_to_def)

lemma open_count_record:
  "open_count (snd (plog_record False now stamp ps l)) fp =
     open_count l fp + (if psSignalRef ps = fp \<and> set_open ps then 1 else 0)"
  by (simp add: plog_record_def open_count_def Let_def filter_answers_pruned del: filter_filter)
    (simp add: answers_to_def)

subsection \<open>The suppression contract\<close>

text \<open>
  What the engine relies on to answer a signal once: how each operation of the ledger changes the
  number of open sets of a fingerprint.
\<close>

locale dedupe_ledger =
  fixes opens :: "'l \<Rightarrow> string \<Rightarrow> nat"
    and form :: "proposal_set \<Rightarrow> 'l \<Rightarrow> 'l"
    and settle :: "outcome \<Rightarrow> 'l \<Rightarrow> 'l"
    and refuse :: "string \<Rightarrow> 'l \<Rightarrow> 'l"
  assumes opens_form: "opens (form ps l) fp = opens l fp + (if psSignalRef ps = fp \<and> set_open ps then 1 else 0)"
    and opens_settle: "opens (settle oc l) fp =
        (if outSignalRef oc = fp \<and> terminal (outResult oc) then opens l fp - 1 else opens l fp)"
    and opens_refuse: "opens (refuse fp' l) fp = (if fp' = fp then opens l fp - 1 else opens l fp)"
begin

text \<open>An interim outcome never frees a fingerprint, and a settled one stays free until a new set opens.\<close>

lemma interim_keeps_open:
  "opens l fp > 0 \<Longrightarrow> \<not> terminal (outResult oc) \<Longrightarrow> opens (settle oc l) fp > 0"
  by (simp add: opens_settle)

lemma terminal_frees:
  "opens l (outSignalRef oc) = 1 \<Longrightarrow> terminal (outResult oc) \<Longrightarrow> opens (settle oc l) (outSignalRef oc) = 0"
  by (simp add: opens_settle)

lemma refusal_frees: "opens l fp = 1 \<Longrightarrow> opens (refuse fp l) fp = 0"
  by (simp add: opens_refuse)

lemma free_until_formed:
  "opens l fp = 0 \<Longrightarrow> opens (settle oc l) fp = 0 \<and> opens (refuse fp' l) fp = 0 \<and>
   (psSignalRef ps \<noteq> fp \<longrightarrow> opens (form ps l) fp = 0)"
  by (simp add: opens_settle opens_refuse opens_form)

end

interpretation plog: dedupe_ledger open_count
  "\<lambda>ps l. snd (plog_record False now stamp ps l)" "\<lambda>oc l. snd (plog_observe False oc l)"
  "\<lambda>fp l. snd (plog_decline False fp at_time l)"
  for now stamp at_time
  by unfold_locales (simp_all add: open_count_record open_count_observe open_count_decline)

subsection \<open>Properties of the ledger\<close>

lemma move_newest_cases:
  obtains (none) "open_count l fp = 0" "move_newest fp f l = (Inl (ErrNoOpenSet fp), l)"
  | (moved) ys r zs where "plSets l = ys @ r # zs" "answers_to fp r" "\<forall>z \<in> set zs. \<not> answers_to fp z"
      "move_newest fp f l = (Inr (recSet (restatus f r)), l\<lparr>plSets := ys @ restatus f r # zs\<rparr>)"
proof (cases "find_last (answers_to fp) (plSets l)")
  case None
  then show ?thesis using none open_count_zero_iff by (simp add: move_newest_def)
next
  case (Some r)
  from find_last_split [OF this, of "restatus f"] obtain ys zs where
    "plSets l = ys @ r # zs" "answers_to fp r" "\<forall>z \<in> set zs. \<not> answers_to fp z"
    "update_last (answers_to fp) (restatus f) (plSets l) = ys @ restatus f r # zs"
    by blast
  with Some moved show ?thesis by (simp add: move_newest_def)
qed

text \<open>an outcome moves exactly the newest open set of its fingerprint and nothing else: the set is
  settled exactly when the result is a success, a failure or a non-converging partial, and stays
  open for every interim result; with no open set the ledger is unchanged and says so.\<close>

theorem observe_moves_newest_open:
  "case plog_observe False oc l of
     (Inl e, l') \<Rightarrow> e = ErrNoOpenSet (outSignalRef oc) \<and> l' = l \<and> open_count l (outSignalRef oc) = 0
   | (Inr ps, l') \<Rightarrow>
       (\<exists>ys r zs st. plSets l = ys @ r # zs \<and> answers_to (outSignalRef oc) r \<and>
          list_all (\<lambda>z. \<not> answers_to (outSignalRef oc) z) zs \<and>
          psStatus (recSet r) = Some st \<and> ps = (recSet r)\<lparr>psStatus := Some (transition st oc)\<rparr> \<and>
          l' = l\<lparr>plSets := ys @ r\<lparr>recSet := ps\<rparr> # zs\<rparr> \<and>
          set_open ps = (\<not> terminal (outResult oc)))"
proof (cases rule: move_newest_cases [of l "outSignalRef oc" "\<lambda>st. transition st oc"])
  case none
  then show ?thesis by (simp add: plog_observe_def)
next
  case (moved ys r zs)
  from moved(2) obtain st where st: "psStatus (recSet r) = Some st"
    by (auto simp: answers_to_def set_open_def split: option.splits)
  with moved show ?thesis
    by (auto simp: plog_observe_def restatus_def list_all_iff set_open_def isOpen_transition)
qed

text \<open>recording a set prunes closed sets past the retention and nothing else: an open set survives
  however old it is, so it keeps answering the dedupe query.\<close>

theorem record_prunes_only_old_closed:
  "plSets (snd (plog_record False now stamp ps l)) =
     filter (\<lambda>r. \<not> (set_closed (recSet r) \<and>
       recAt r \<le> now - (if plRetention l \<le> 0 then 24 * hour else plRetention l))) (plSets l)
     @ [\<lparr>recSet = ps, recAt = stamp\<rparr>] \<and>
   (\<forall>fp. filter (answers_to fp) (plSets l) =
      filter (answers_to fp) (butlast (plSets (snd (plog_record False now stamp ps l)))))"
  unfolding plog_record_def Let_def ledgerRetention_def
  by (simp add: filter_answers_pruned del: filter_filter)
    (auto intro: filter_cong)

text \<open>
  A run of the ledger under an engine that forms an open set only where the dedupe query over the
  last \<open>w\<close> came back empty at some earlier time \<open>t\<close>.
\<close>

inductive ledger_run :: "duration \<Rightarrow> proposal_log \<Rightarrow> bool" for w where
  empty: "plSets l = [] \<Longrightarrow> ledger_run w l"
| formed: "ledger_run w l \<Longrightarrow>
    (set_open ps \<longrightarrow> plog_open False (psSignalRef ps) (t - w) l = Inr []) \<Longrightarrow> t \<le> stamp \<Longrightarrow>
    ledger_run w (snd (plog_record cancelled now stamp ps l))"
| observed: "ledger_run w l \<Longrightarrow> ledger_run w (snd (plog_observe cancelled oc l))"
| declined: "ledger_run w l \<Longrightarrow> ledger_run w (snd (plog_decline cancelled fp at_time l))"

definition spaced :: "duration \<Rightarrow> string \<Rightarrow> recorded list \<Rightarrow> bool" where
  "spaced w fp rs \<longleftrightarrow> sorted_wrt (\<lambda>r r'. recAt r + w \<le> recAt r') (filter (answers_to fp) rs)"

lemma sorted_wrt_filter: "sorted_wrt P xs \<Longrightarrow> sorted_wrt P (filter q xs)"
  by (induction xs) auto

lemma spaced_move_newest:
  assumes "spaced w fp' (plSets l)"
  shows "spaced w fp' (plSets (snd (move_newest fp f l)))"
proof (cases rule: move_newest_cases [of l fp f])
  case (moved ys r zs)
  have a: "answers_to fp' (restatus f r) \<Longrightarrow> answers_to fp' r"
    using moved(2) by (auto simp: answers_to_def)
  show ?thesis
    using assms a unfolding moved(1,4) spaced_def
    by (auto simp: sorted_wrt_append split: if_splits)
qed (use assms in simp)

lemma plog_open_empty:
  "plog_open False fp since l = Inr [] \<Longrightarrow> r \<in> set (plSets l) \<Longrightarrow> answers_to fp r \<Longrightarrow> recAt r \<le> since"
  by (auto simp: plog_open_def answers_to_def filter_empty_conv Let_def split: if_splits)


definition example_open_set :: proposal_set where
  "example_open_set = example_set\<lparr>psStatus := Some \<lparr>stPhase = PhaseProposed, stReason = [],
     stSupersededBy = [], stOutcome = [], stObservedAt = zero_time\<rparr>\<rparr>"

definition example_ledger :: proposal_log where
  "example_ledger = snd (plog_record False 100 100 example_open_set newProposalLog)"


end
