(* ===== verification/Click.thy ===== *)
theory Click
  imports ProposalLog Beat
begin

text \<open>
  The learn edge of clank: the bounded case base and its alignment vote
  (\<^verbatim>\<open>src/internal/clank/casebase.go\<close>), the absorption of one outcome with its metrics
  (\<^verbatim>\<open>click.go\<close>, \<^verbatim>\<open>metrics.go\<close>), the broker handlers (\<^verbatim>\<open>broker.go\<close>), the directory feeder, and the
  replay that rebuilds ledger and case base after a restart (\<^verbatim>\<open>rebuild.go\<close>).

  The metrics recorder is the list of samples each series received. Event times of a replay are
  those the stream stored.
\<close>

subsection \<open>The case base\<close>

record learned_case =
  lcRunID :: string
  lcSignalRef :: string
  lcDecisionRef :: string
  lcOutcomeRef :: string
  lcContractRef :: string
  lcFailureClass :: failure_class
  lcConfidence :: real
  lcMode :: mode
  lcResult :: result
  lcObservedAt :: time

record case_base =
  cbMaxCases :: int
  cbCases :: "learned_case list"

definition newCaseBase :: case_base where
  "newCaseBase = \<lparr>cbMaxCases = 0, cbCases = []\<rparr>"

definition case_limit :: "case_base \<Rightarrow> int" where
  "case_limit cb = (if cbMaxCases cb \<le> 0 then 10000 else cbMaxCases cb)"

text \<open>Nothing is returned but the refusal of a case that cannot be traced.\<close>

definition case_append :: "learned_case \<Rightarrow> case_base \<Rightarrow> bool \<times> case_base" where
  "case_append c cb =
     (if lcSignalRef c = [] \<or> lcOutcomeRef c = [] \<or> lcDecisionRef c = [] \<or> lcResult c = ResultOther []
      then (False, cb)
      else if int (length (cbCases cb)) \<ge> case_limit cb
      then (True, cb\<lparr>cbCases := tl (cbCases cb) @ [c]\<rparr>)
      else (True, cb\<lparr>cbCases := cbCases cb @ [c]\<rparr>))"

definition cases_for :: "string \<Rightarrow> case_base \<Rightarrow> learned_case list" where
  "cases_for fp cb = filter (\<lambda>c. lcSignalRef c = fp) (cbCases cb)"

definition minCorroboration :: nat where
  "minCorroboration = 2"

definition tally :: "string \<Rightarrow> nat \<times> nat \<Rightarrow> learned_case \<Rightarrow> nat \<times> nat" where
  "tally fp vs c =
     (if lcSignalRef c \<noteq> fp \<or> lcMode c \<noteq> ModeLive then vs
      else case lcResult c of
             ResultSuccess \<Rightarrow> (fst vs + 1, snd vs + 1)
           | ResultFailure \<Rightarrow> (fst vs + 1, snd vs)
           | ResultPartialNonConverging \<Rightarrow> (fst vs + 1, snd vs)
           | _ \<Rightarrow> vs)"

definition alignment :: "string \<Rightarrow> case_base \<Rightarrow> real option" where
  "alignment fp cb =
     (let (votes, successes) = foldl (tally fp) (0, 0) (cbCases cb)
      in if votes < minCorroboration then None else Some (real successes / real votes))"

subsection \<open>Metrics\<close>

record recorder =
  rcResolutions :: "(string \<times> string \<times> string) list"
  rcConfidence :: "(string \<times> real) list"
  rcCalibration :: "(string \<times> bool) list"
  rcEffectiveness :: "real list"
  rcRedeliveries :: nat

definition recordRedeliverySkipped :: "recorder \<Rightarrow> recorder" where
  "recordRedeliverySkipped r = r\<lparr>rcRedeliveries := rcRedeliveries r + 1\<rparr>"

definition recordResolution :: "proposal_set \<Rightarrow> outcome \<Rightarrow> recorder \<Rightarrow> recorder" where
  "recordResolution ps oc r =
     r\<lparr>rcResolutions := rcResolutions r @ [(psServiceTier ps, psFailureClass ps, result_string (outResult oc))]\<rparr>"

definition recommendedConfidence :: "proposal_set \<Rightarrow> real option" where
  "recommendedConfidence ps = map_option cndConfidence (candidateFor ps (psRecommended ps))"

definition confidenceBucket :: "real \<Rightarrow> string" where
  "confidenceBucket conf =
     (if conf < 5/10 then ''<0.5''
      else if conf \<le> 6/10 then ''0.5-0.6''
      else if conf \<le> 7/10 then ''0.6-0.7''
      else if conf \<le> 8/10 then ''0.7-0.8''
      else if conf \<le> 9/10 then ''0.8-0.9''
      else if conf \<le> 1 then ''0.9-1.0''
      else ''>1.0'')"

definition recordCalibration :: "proposal_set \<Rightarrow> outcome \<Rightarrow> recorder \<Rightarrow> recorder" where
  "recordCalibration ps oc r =
     (if \<not> terminal (outResult oc) then r
      else case recommendedConfidence ps of
             None \<Rightarrow> r
           | Some conf \<Rightarrow>
               r\<lparr>rcConfidence := rcConfidence r @ [(psFailureClass ps, conf)],
                 rcCalibration := rcCalibration r @ [(confidenceBucket conf, outResult oc = ResultSuccess)]\<rparr>)"

definition recommendedPrediction :: "proposal_set \<Rightarrow> real option" where
  "recommendedPrediction ps =
     (case List.find (\<lambda>c. cndID c = psRecommended ps \<and> cndPredictedImpact c \<noteq> None) (psProposals ps) of
        None \<Rightarrow> None
      | Some c \<Rightarrow> map_option piSeverityReductionPct (cndPredictedImpact c))"

definition preSeverity :: "proposal_set \<Rightarrow> real option" where
  "preSeverity ps = map_option (\<lambda>s. sevDegradationPct (ssSeverity (saoSignal s))) (psSAOSnapshot ps)"

definition recordEffectiveness :: "proposal_set \<Rightarrow> outcome \<Rightarrow> recorder \<Rightarrow> recorder" where
  "recordEffectiveness ps oc r =
     (if outResult oc \<noteq> ResultSuccess \<and> outResult oc \<noteq> ResultPartialNonConverging then r
      else case (outObservedSeverity oc, recommendedPrediction ps, preSeverity ps) of
             (Some post, Some pred, Some pre) \<Rightarrow>
               r\<lparr>rcEffectiveness := rcEffectiveness r @ [pred - (pre - post)]\<rparr>
           | _ \<Rightarrow> r)"

subsection \<open>Absorbing an outcome\<close>

record click =
  ckLedger :: proposal_log
  ckCases :: case_base
  ckRecorder :: "recorder option"

datatype absorb_error =
    ErrUnauditableOutcome audit_error
  | ErrIncoherentOutcome mode result
  | LedgerError ledger_error
  | ErrUnprovenancedCase learned_case

definition coherent :: "outcome \<Rightarrow> bool" where
  "coherent oc =
     (if outMode oc = ModeDryRun then outResult oc = ResultRendered
      else outResult oc \<noteq> ResultRendered)"

text \<open>The loop over the candidates has no early exit: the last one of that identifier counts.\<close>

definition newCase :: "proposal_set \<Rightarrow> outcome \<Rightarrow> learned_case" where
  "newCase ps oc =
     \<lparr>lcRunID = psRunID ps, lcSignalRef = outSignalRef oc, lcDecisionRef = outDecisionRef oc,
      lcOutcomeRef = outID oc, lcContractRef = outContractRef oc, lcFailureClass = psFailureClass ps,
      lcConfidence = foldl (\<lambda>conf c. if cndID c = psRecommended ps then cndConfidence c else conf) 0
                       (psProposals ps),
      lcMode = outMode oc, lcResult = outResult oc, lcObservedAt = outExecutedAt oc\<rparr>"

definition absorb :: "bool \<Rightarrow> outcome \<Rightarrow> click \<Rightarrow> absorb_error option \<times> click" where
  "absorb cancelled oc ck =
     (case outcome_auditable oc of
        Some e \<Rightarrow> (Some (ErrUnauditableOutcome e), ck)
      | None \<Rightarrow>
          if \<not> coherent oc then (Some (ErrIncoherentOutcome (outMode oc) (outResult oc)), ck)
          else
            (case plog_observe cancelled oc (ckLedger ck) of
               (Inl e, l) \<Rightarrow> (Some (LedgerError e), ck\<lparr>ckLedger := l\<rparr>)
             | (Inr ps, l) \<Rightarrow>
                 (let ck1 = ck\<lparr>ckLedger := l, ckRecorder := map_option (\<lambda>r.
                        recordEffectiveness ps oc (recordCalibration ps oc (recordResolution ps oc r)))
                        (ckRecorder ck)\<rparr>
                  in case case_append (newCase ps oc) (ckCases ck) of
                       (False, cb) \<Rightarrow> (Some (ErrUnprovenancedCase (newCase ps oc)), ck1\<lparr>ckCases := cb\<rparr>)
                     | (True, cb) \<Rightarrow> (None, ck1\<lparr>ckCases := cb\<rparr>))))"

text \<open>The broker handlers acknowledge every delivery: nothing here improves on redelivery.\<close>

definition learnHandler :: "bool \<Rightarrow> outcome \<Rightarrow> click \<Rightarrow> click" where
  "learnHandler cancelled oc ck = snd (absorb cancelled oc ck)"

definition declineHandler :: "bool \<Rightarrow> decision \<Rightarrow> proposal_log \<Rightarrow> proposal_log" where
  "declineHandler cancelled d l = snd (plog_decline cancelled (decSignalRef d) (decEvaluatedAt d) l)"

datatype return_error = ReturnArchive string string | ReturnUnmatch string string
  | ReturnQuarantine string string

definition return_tick ::
  "bool \<Rightarrow> (string \<Rightarrow> bool) \<Rightarrow> (string \<Rightarrow> string + 'raw) \<Rightarrow> ('raw \<Rightarrow> string + outcome) \<Rightarrow> (string \<Rightarrow> string \<Rightarrow> string option) \<Rightarrow>
   string list \<Rightarrow> click \<times> moves \<Rightarrow> return_error drain_error option \<times> click \<times> moves" where
  "return_tick cancelled later read_file unmarshal rename paths st =
     (if cancelled then (Some ContextDone, st) else drainDir read_file unmarshal rename
       (\<lambda>path oc (ck, moved).
          (let (err, ck') = absorb (later path) oc ck;
               (sub, wrap) = (case err of
                   None \<Rightarrow> (''processed'', ReturnArchive)
                 | Some (LedgerError (ErrNoOpenSet _)) \<Rightarrow> (''unmatched'', ReturnUnmatch)
                 | Some _ \<Rightarrow> (''quarantine'', ReturnQuarantine))
           in case disposition rename path sub moved of
                (Some e, moved') \<Rightarrow> (Some (wrap path e), ck', moved')
              | (None, moved') \<Rightarrow> (None, ck', moved')))
       paths st)"

subsection \<open>Replay\<close>

datatype replay_event =
    ReplayProposal time proposal_set
  | ReplayOutcome time outcome
  | ReplayDecline time decision

fun event_time :: "replay_event \<Rightarrow> time" where
  "event_time (ReplayProposal t _) = t"
| "event_time (ReplayOutcome t _) = t"
| "event_time (ReplayDecline t _) = t"

datatype replay_error = ReplayLedger ledger_error | RebuildCaseBase learned_case

fun replayInto ::
  "bool \<Rightarrow> replay_event \<Rightarrow> proposal_log \<times> case_base option \<Rightarrow>
   replay_error + (proposal_log \<times> case_base option)" where
  "replayInto cancelled (ReplayProposal t ps) (l, cases) = Inr (seedAt ps t l, cases)"
| "replayInto cancelled (ReplayOutcome t oc) (l, cases) =
     (case plog_observe cancelled oc l of
        (Inl (ErrNoOpenSet _), l') \<Rightarrow> Inr (l', cases)
      | (Inl e, l') \<Rightarrow> Inl (ReplayLedger e)
      | (Inr ps, l') \<Rightarrow>
          (case cases of
             None \<Rightarrow> Inr (l', None)
           | Some cb \<Rightarrow>
               (case case_append (newCase ps oc) cb of
                  (False, _) \<Rightarrow> Inl (RebuildCaseBase (newCase ps oc))
                | (True, cb') \<Rightarrow> Inr (l', Some cb'))))"
| "replayInto cancelled (ReplayDecline t d) (l, cases) =
     (case plog_decline cancelled (decSignalRef d) (decEvaluatedAt d) l of
        (Inl (ErrNoOpenSet _), l') \<Rightarrow> Inr (l', cases)
      | (Inl e, l') \<Rightarrow> Inl (ReplayLedger e)
      | (Inr ps, l') \<Rightarrow> Inr (l', cases))"

fun replay_all ::
  "bool \<Rightarrow> replay_event list \<Rightarrow> proposal_log \<times> case_base option \<Rightarrow>
   replay_error + (proposal_log \<times> case_base option)" where
  "replay_all cancelled [] st = Inr st"
| "replay_all cancelled (e # es) st = res_bind (replayInto cancelled e st) (replay_all cancelled es)"

text \<open>\<open>sorter\<close> is Go's sort of the merged events by time, which need not be stable.\<close>

definition rebuildLedger ::
  "bool \<Rightarrow> (replay_event list \<Rightarrow> replay_event list) \<Rightarrow> duration \<Rightarrow>
   (time \<times> proposal_set) list \<Rightarrow> (time \<times> outcome) list \<Rightarrow> (time \<times> decision) list \<Rightarrow> case_base option \<Rightarrow>
   replay_error + (proposal_log \<times> case_base option)" where
  "rebuildLedger cancelled sorter retention props outs decls cases =
     replay_all cancelled
       (sorter (map (case_prod ReplayProposal) props @ map (case_prod ReplayOutcome) outs
                @ map (case_prod ReplayDecline) decls))
       (newProposalLog\<lparr>plRetention := retention\<rparr>, cases)"

subsection \<open>The alignment vote\<close>

text \<open>A case votes when a live run of the fingerprint settled.\<close>

definition votes :: "string \<Rightarrow> learned_case \<Rightarrow> bool" where
  "votes fp c \<longleftrightarrow> lcSignalRef c = fp \<and> lcMode c = ModeLive \<and> terminal (lcResult c)"

definition succeeds :: "string \<Rightarrow> learned_case \<Rightarrow> bool" where
  "succeeds fp c \<longleftrightarrow> votes fp c \<and> lcResult c = ResultSuccess"

lemma tally_eq:
  "tally fp vs c = (fst vs + (if votes fp c then 1 else 0), snd vs + (if succeeds fp c then 1 else 0))"
  by (cases vs) (auto simp: tally_def votes_def succeeds_def terminal_def split: result.split)

lemma tally_fold:
  "foldl (tally fp) vs cs =
     (fst vs + length (filter (votes fp) cs), snd vs + length (filter (succeeds fp) cs))"
  by (induction cs arbitrary: vs) (simp_all add: tally_eq)

lemma alignment_eq:
  "alignment fp cb =
     (let v = length (filter (votes fp) (cbCases cb)); s = length (filter (succeeds fp) (cbCases cb))
      in if v < 2 then None else Some (real s / real v))"
  by (simp add: alignment_def tally_fold minCorroboration_def Let_def)

lemma succeeds_le_votes: "length (filter (succeeds fp) cs) \<le> length (filter (votes fp) cs)"
  by (induction cs) (auto simp: succeeds_def)

text \<open>C22: history votes only when corroborated, and only with settled live runs: the alignment of a
  fingerprint is absent below two votes and is otherwise the share of successes among the live
  runs that succeeded, failed or did not converge, a number between zero and one that is one
  exactly when every vote is a success.\<close>

theorem alignment_corroborated:
  "case alignment fp cb of
     None \<Rightarrow> length (filter (votes fp) (cbCases cb)) < 2
   | Some a \<Rightarrow> 2 \<le> length (filter (votes fp) (cbCases cb)) \<and> 0 \<le> a \<and> a \<le> 1 \<and>
       a * real (length (filter (votes fp) (cbCases cb))) = real (length (filter (succeeds fp) (cbCases cb))) \<and>
       (a = 1 \<longleftrightarrow> length (filter (succeeds fp) (cbCases cb)) = length (filter (votes fp) (cbCases cb)))"
  using succeeds_le_votes [of fp "cbCases cb"]
  by (auto simp: alignment_eq Let_def divide_le_eq_1)

subsection \<open>The bound of the case base\<close>

definition traceable :: "learned_case \<Rightarrow> bool" where
  "traceable c \<longleftrightarrow> lcSignalRef c \<noteq> [] \<and> lcOutcomeRef c \<noteq> [] \<and> lcDecisionRef c \<noteq> [] \<and>
     lcResult c \<noteq> ResultOther []"

definition learn_all :: "learned_case list \<Rightarrow> case_base \<Rightarrow> case_base" where
  "learn_all cs cb = fold (\<lambda>c cb. snd (case_append c cb)) cs cb"

definition last_n :: "nat \<Rightarrow> 'a list \<Rightarrow> 'a list" where
  "last_n n xs = drop (length xs - n) xs"

lemma last_n_snoc: "0 < n \<Longrightarrow> last_n n (xs @ [x]) =
    (if length (last_n n xs) \<ge> n then tl (last_n n xs) @ [x] else last_n n xs @ [x])"
  by (auto simp: last_n_def drop_Suc tl_drop Suc_diff_le simp flip: drop_Suc)

lemma case_limit_pos: "0 < case_limit cb"
  by (simp add: case_limit_def)

lemma case_append_sel:
  "cbMaxCases (snd (case_append c cb)) = cbMaxCases cb"
  "case_limit (snd (case_append c cb)) = case_limit cb"
  by (simp_all add: case_append_def case_limit_def)

lemma case_append_cases:
  "cbCases (snd (case_append c cb)) =
     (if \<not> traceable c then cbCases cb
      else if int (length (cbCases cb)) \<ge> case_limit cb then tl (cbCases cb) @ [c]
      else cbCases cb @ [c])"
  by (simp add: case_append_def traceable_def)

text \<open>the case base is the window of the last traceable cases: after any sequence of appended
  cases it holds exactly the most recent ones that can be traced, at most the limit of them, in
  order, and a case that cannot be traced never enters.\<close>

theorem case_base_window:
  "cbCases (learn_all cs (newCaseBase\<lparr>cbMaxCases := m\<rparr>)) =
     last_n (nat (if m \<le> 0 then 10000 else m)) (filter traceable cs)"
proof -
  have lim: "case_limit (learn_all cs (newCaseBase\<lparr>cbMaxCases := m\<rparr>)) = (if m \<le> 0 then 10000 else m)"
    for cs
  proof (induction cs rule: rev_induct)
    case Nil
    then show ?case by (simp add: learn_all_def case_limit_def)
  next
    case (snoc c cs)
    then show ?case by (simp add: learn_all_def case_append_sel)
  qed
  define n where "n = nat (if m \<le> 0 then 10000 else m)"
  have n: "0 < n" "case_limit (learn_all cs (newCaseBase\<lparr>cbMaxCases := m\<rparr>)) = int n" for cs
    using lim by (simp_all add: n_def)
  have "cbCases (learn_all cs (newCaseBase\<lparr>cbMaxCases := m\<rparr>)) = last_n n (filter traceable cs)"
  proof (induction cs rule: rev_induct)
    case Nil
    then show ?case by (simp add: learn_all_def newCaseBase_def last_n_def)
  next
    case (snoc c cs)
    have "learn_all (cs @ [c]) (newCaseBase\<lparr>cbMaxCases := m\<rparr>) =
        snd (case_append c (learn_all cs (newCaseBase\<lparr>cbMaxCases := m\<rparr>)))"
      by (simp add: learn_all_def)
    then show ?case
      using last_n_snoc [OF n(1), of "filter traceable cs" c]
      by (simp add: case_append_cases n(2) snoc.IH)
  qed
  then show ?thesis by (simp add: n_def)
qed

subsection \<open>Replay agrees with live processing\<close>

text \<open>
  Live processing of one stream event: a formed set is recorded (pruning at the clock \<open>now\<close>, stamped
  with the event's time), an outcome goes through the learn edge, a decline to the ledger.
\<close>

fun live_event :: "(replay_event \<Rightarrow> time) \<Rightarrow> replay_event \<Rightarrow> click \<Rightarrow> click" where
  "live_event now (ReplayProposal t ps) ck =
     ck\<lparr>ckLedger := snd (plog_record False (now (ReplayProposal t ps)) t ps (ckLedger ck))\<rparr>"
| "live_event now (ReplayOutcome t oc) ck = learnHandler False oc ck"
| "live_event now (ReplayDecline t d) ck = ck\<lparr>ckLedger := declineHandler False d (ckLedger ck)\<rparr>"

definition live_run :: "(replay_event \<Rightarrow> time) \<Rightarrow> replay_event list \<Rightarrow> click \<Rightarrow> click" where
  "live_run now es ck = fold (live_event now) es ck"

fun clean_event :: "replay_event \<Rightarrow> bool" where
  "clean_event (ReplayOutcome _ oc) \<longleftrightarrow> outcome_auditable oc = None \<and> coherent oc \<and>
     outSignalRef oc \<noteq> [] \<and> outID oc \<noteq> []"
| "clean_event _ \<longleftrightarrow> True"

definition open_records :: "proposal_log \<Rightarrow> recorded list" where
  "open_records l = filter (\<lambda>r. set_open (recSet r)) (plSets l)"

lemma answers_open: "answers_to fp r \<Longrightarrow> set_open (recSet r)"
  by (simp add: answers_to_def)

lemma find_last_open:
  "find_last (answers_to fp) (filter (\<lambda>r. set_open (recSet r)) xs) = find_last (answers_to fp) xs"
  by (induction xs rule: rev_induct) (auto simp: answers_to_def)

lemma filter_open_update_last:
  "filter (\<lambda>r. set_open (recSet r)) (update_last (answers_to fp) g xs) =
   filter (\<lambda>r. set_open (recSet r))
     (update_last (answers_to fp) g (filter (\<lambda>r. set_open (recSet r)) xs))"
  by (induction xs rule: rev_induct) (auto simp: answers_to_def)

lemma move_newest_open_cong:
  assumes "open_records l = open_records l'"
  shows "fst (move_newest fp f l) = fst (move_newest fp f l')"
    and "open_records (snd (move_newest fp f l)) = open_records (snd (move_newest fp f l'))"
proof -
  have e: "find_last (answers_to fp) (plSets l) = find_last (answers_to fp) (plSets l')"
    using find_last_open [of fp "plSets l"] find_last_open [of fp "plSets l'"] assms
    by (simp add: open_records_def)
  then show "fst (move_newest fp f l) = fst (move_newest fp f l')"
    by (simp add: move_newest_def split: option.split)
  have "open_records (m\<lparr>plSets := update_last (answers_to fp) g (plSets m)\<rparr>) =
      filter (\<lambda>r. set_open (recSet r)) (update_last (answers_to fp) g (open_records m))" for g m
    unfolding open_records_def using filter_open_update_last [of fp g "plSets m"] by simp
  with e assms show "open_records (snd (move_newest fp f l)) = open_records (snd (move_newest fp f l'))"
    by (simp add: move_newest_def split: option.split)
qed

lemma filter_open_pruned:
  "filter (\<lambda>r. set_open (recSet r)) (filter (\<lambda>r. c < recAt r \<or> \<not> set_closed (recSet r)) xs) =
   filter (\<lambda>r. set_open (recSet r)) xs"
  using set_open_not_closed by (simp add: filter_filter) (rule filter_cong, auto)

lemma open_records_record:
  "open_records (snd (plog_record False now stamp ps l)) = open_records (seedAt ps stamp l)"
  by (simp add: plog_record_def seedAt_def open_records_def Let_def filter_open_pruned del: filter_filter)

lemma newCase_traceable:
  assumes "outcome_auditable oc = None" "outSignalRef oc \<noteq> []" "outID oc \<noteq> []"
  shows "fst (case_append (newCase ps oc) cb)"
  using assms by (simp add: case_append_def newCase_def outcome_auditable_None_iff)

lemma move_newest_error: "fst (move_newest fp f l) = Inl e \<Longrightarrow> e = ErrNoOpenSet fp"
  by (auto simp: move_newest_def split: option.splits)

lemma open_records_unmoved:
  "fst (move_newest fp f l) = Inl e \<Longrightarrow> snd (move_newest fp f l) = l"
  by (auto simp: move_newest_def split: option.splits)

lemma replay_step_agrees:
  assumes "clean_event e" "open_records l = open_records (ckLedger ck)"
  shows "\<exists>l'. replayInto False e (l, Some (ckCases ck)) = Inr (l', Some (ckCases (live_event now e ck))) \<and>
    open_records l' = open_records (ckLedger (live_event now e ck))"
proof (cases e)
  case (ReplayProposal t ps)
  then show ?thesis
    using assms(2) by (simp add: open_records_record) (simp add: open_records_def seedAt_def)
next
  case (ReplayDecline t d)
  let ?f = "\<lambda>st. st\<lparr>stPhase := PhaseDeclined, stObservedAt := decEvaluatedAt d\<rparr>"
  note cong = move_newest_open_cong [OF assms(2), of "decSignalRef d" ?f]
  obtain r1 l1 where m: "move_newest (decSignalRef d) ?f l = (r1, l1)" by fastforce
  with cong(2) have "open_records l1 = open_records (ckLedger (live_event now e ck))"
    by (simp add: ReplayDecline declineHandler_def plog_decline_def)
  then show ?thesis
    using move_newest_error [of "decSignalRef d" ?f l] m
    by (cases r1) (auto simp: ReplayDecline plog_decline_def)
next
  case (ReplayOutcome t oc)
  let ?f = "\<lambda>st. transition st oc"
  note cong = move_newest_open_cong [OF assms(2), of "outSignalRef oc" ?f]
  obtain r1 l1 where m: "move_newest (outSignalRef oc) ?f l = (r1, l1)" by fastforce
  obtain r2 l2 where m2: "move_newest (outSignalRef oc) ?f (ckLedger ck) = (r2, l2)" by fastforce
  have r: "r1 = r2" "open_records l1 = open_records l2" using cong m m2 by simp_all
  show ?thesis
  proof (cases r1)
    case (Inl err)
    then show ?thesis
      using move_newest_error [of "outSignalRef oc" ?f l err] m m2 r assms
      by (simp add: ReplayOutcome plog_observe_def learnHandler_def absorb_def)
  next
    case (Inr ps)
    obtain cb where "case_append (newCase ps oc) (ckCases ck) = (True, cb)"
      using newCase_traceable [of oc ps "ckCases ck"] assms(1) ReplayOutcome
      by (cases "case_append (newCase ps oc) (ckCases ck)") auto
    then show ?thesis
      using Inr m m2 r assms
      by (simp add: ReplayOutcome plog_observe_def learnHandler_def absorb_def Let_def)
  qed
qed

lemma replay_all_agrees:
  assumes "list_all clean_event es" "open_records l = open_records (ckLedger ck)"
  shows "\<exists>l'. replay_all False es (l, Some (ckCases ck)) = Inr (l', Some (ckCases (live_run now es ck))) \<and>
    open_records l' = open_records (ckLedger (live_run now es ck))"
  using assms
proof (induction es arbitrary: l ck)
  case (Cons e es)
  from replay_step_agrees [of e l ck now] Cons.prems obtain l1 where
    "replayInto False e (l, Some (ckCases ck)) = Inr (l1, Some (ckCases (live_event now e ck)))"
    "open_records l1 = open_records (ckLedger (live_event now e ck))"
    by auto
  with Cons.IH [of l1 "live_event now e ck"] Cons.prems show ?case
    by (simp add: live_run_def)
qed (simp add: live_run_def)

lemma sorted_times_unique:
  assumes "sorted_wrt (<) (map event_time es)" "mset xs = mset es" "sorted (map event_time xs)"
  shows "xs = es"
proof -
  have s: "set xs = set es" using mset_eq_setD [OF assms(2)] .
  have d: "distinct (map event_time es)" "sorted (map event_time es)"
    using assms(1) by (simp_all add: strict_sorted_iff)
  have "distinct (map event_time xs)"
    using d(1) assms(2) mset_eq_imp_distinct_iff [of "map event_time xs" "map event_time es"] by simp
  moreover have "inj_on event_time (set xs \<union> set es)"
    using d(1) s by (simp add: distinct_map)
  ultimately show ?thesis
    using d assms(3) s by (intro map_sorted_distinct_set_unique [of event_time]) auto
qed


definition example_outcome :: outcome where
  "example_outcome = \<lparr>outID = ''out:fp:20'', outDecisionRef = ''dec:fp:1'', outSignalRef = ''fp'',
     outContractRef = ''scale-out'', outMode = ModeLive, outResult = ResultSuccess, outError = [],
     outExecutedAt = 20, outObservedSeverity = None\<rparr>"

definition example_click :: click where
  "example_click = \<lparr>ckLedger = newProposalLog, ckCases = newCaseBase, ckRecorder = None\<rparr>"


text \<open>an outcome is absorbed whole or refused without a trace: an unauditable or incoherent one, one
  that meets no open set and a cancelled one change nothing; an accepted one moves the ledger as
  observed and adds its case. The one partial effect is the refusal of a case without an outcome
  or signal reference, which leaves the ledger moved.\<close>

theorem absorb_whole_or_nothing:
  "case absorb cancelled oc ck of
     (None, ck') \<Rightarrow>
       outcome_auditable oc = None \<and> coherent oc \<and>
       (\<exists>ps. plog_observe cancelled oc (ckLedger ck) = (Inr ps, ckLedger ck') \<and>
          case_append (newCase ps oc) (ckCases ck) = (True, ckCases ck'))
   | (Some (ErrUnprovenancedCase c), ck') \<Rightarrow>
       ckCases ck' = ckCases ck \<and> (outSignalRef oc = [] \<or> outID oc = []) \<and>
       (\<exists>ps. plog_observe cancelled oc (ckLedger ck) = (Inr ps, ckLedger ck') \<and> c = newCase ps oc)
   | (Some _, ck') \<Rightarrow> ck' = ck"
proof (cases "outcome_auditable oc = None \<and> coherent oc")
  case False
  then show ?thesis by (auto simp: absorb_def split: option.splits)
next
  case ok: True
  obtain r l where obs: "plog_observe cancelled oc (ckLedger ck) = (r, l)" by fastforce
  show ?thesis
  proof (cases r)
    case (Inl e)
    then have "l = ckLedger ck"
      using obs open_records_unmoved [of "outSignalRef oc" "\<lambda>st. transition st oc" "ckLedger ck" e]
      by (auto simp: plog_observe_def split: if_splits)
    with ok obs Inl show ?thesis by (simp add: absorb_def)
  next
    case (Inr ps)
    then show ?thesis
      using ok obs newCase_traceable [of oc ps "ckCases ck"]
      by (cases "case_append (newCase ps oc) (ckCases ck)"; cases "fst (case_append (newCase ps oc) (ckCases ck))")
        (auto simp: absorb_def Let_def case_append_def split: if_splits)
  qed
qed

end
