(* ===== verification/Causal.thy ===== *)
theory Causal
  imports Click
begin

text \<open>
  The causal scorer of \<^verbatim>\<open>src/internal/clank/causal.go\<close> and its weights (\<^verbatim>\<open>weights.go\<close>): each change
  event gets a likelihood of having caused the signal from its recency, its place in the topology
  and the case base's prior, under three defences: an uncorroborated event is capped, history
  decays with its staleness, and a predicted signal that is absent costs.

  The prior is optional, as in the source; the case base's alignment is the one wired in. A half
  life of zero divides by zero in the recency score: a positive age then scores zero, as in Go,
  and for other ages, where Go computes no number, the lemmas assume a half life that is not zero.
\<close>

record scoring_weights =
  swTemporal :: real
  swTopological :: real
  swHistorical :: real
  swHistoricalHalfLife :: duration
  swGroundingNone :: real
  swGroundingOne :: real
  swGroundingMany :: real
  swCausal :: real
  swRecencyHalfLife :: duration
  swHistoricalAloneCap :: real
  swCaseBaseBaseline :: real
  swNegativeSignalPenalty :: real

type_synonym prior = "(string \<Rightarrow> real option) option"

definition topo_nodes :: "topology_snapshot \<Rightarrow> node_state list" where
  "topo_nodes topo = tsUpstream topo @ tsDownstream topo"

definition findNode :: "topology_snapshot \<Rightarrow> string \<Rightarrow> node_state option" where
  "findNode topo n = List.find (\<lambda>x. nsName x = n) (topo_nodes topo)"

definition temporalScore :: "duration \<Rightarrow> duration \<Rightarrow> real" where
  "temporalScore age halflife =
     (if halflife = 0 \<and> 0 < age then 0 else 2 powr (- real_of_int age / real_of_int halflife))"

definition topologicalScore :: "node_state option \<Rightarrow> real" where
  "topologicalScore node =
     (case node of None \<Rightarrow> 0 | Some n \<Rightarrow> if nsState n = ''degraded'' then nsTrafficShare n else 0)"

definition freshnessFactor :: "duration \<Rightarrow> duration \<Rightarrow> real" where
  "freshnessFactor staleness halflife =
     (if halflife \<le> 0 then 1 else 2 powr (- real_of_int staleness / real_of_int halflife))"

definition signalObserved :: "topology_snapshot \<Rightarrow> string \<Rightarrow> bool" where
  "signalObserved topo sig \<longleftrightarrow> list_ex (\<lambda>n. nsState n = sig) (topo_nodes topo)"

definition clampUnit :: "real \<Rightarrow> real" where
  "clampUnit x = max 0 (min 1 x)"

definition prior_rate :: "prior \<Rightarrow> string \<Rightarrow> real option" where
  "prior_rate prior fp = (case prior of None \<Rightarrow> None | Some align \<Rightarrow> align fp)"

definition live_corroborated :: "node_state option \<Rightarrow> bool" where
  "live_corroborated node = (case node of None \<Rightarrow> False | Some n \<Rightarrow> nsState n = ''degraded'')"

text \<open>The loop over the predicted signals: each absent one costs, each one leaves a line.\<close>

fun predicted_loop ::
  "topology_snapshot \<Rightarrow> real \<Rightarrow> string list \<Rightarrow> real \<times> rationale_line list \<Rightarrow> real \<times> rationale_line list" where
  "predicted_loop topo penalty [] acc = acc"
| "predicted_loop topo penalty (sig # sigs) (l, lines) =
     predicted_loop topo penalty sigs
       (if signalObserved topo sig then l else l - penalty, lines @ [PredictedAbsentLine sig penalty])"

definition scoreEvent ::
  "string \<Rightarrow> change_event \<Rightarrow> topology_snapshot \<Rightarrow> scoring_weights \<Rightarrow> prior \<Rightarrow> causal_score" where
  "scoreEvent fp e topo w prior =
     (let node = findNode topo (ceTarget e);
          temporal = temporalScore (ceAge e) (swRecencyHalfLife w);
          topological = topologicalScore node;
          base = (case prior_rate prior fp of None \<Rightarrow> swCaseBaseBaseline w | Some r \<Rightarrow> r);
          historical = base * freshnessFactor (ceHistoricalStaleness e) (swHistoricalHalfLife w);
          live = live_corroborated node;
          l0 = swTemporal w * temporal + swTopological w * topological + swHistorical w * historical;
          priorNote = (case prior_rate prior fp of
                         None \<Rightarrow> PriorLine (ceHistoricalStaleness e) historical
                       | Some r \<Rightarrow> CorroboratedLine r (ceHistoricalStaleness e) historical);
          lines0 = [TemporalLine (ceAge e) temporal, TopologicalLine (node \<noteq> None) topological, priorNote];
          (l1, lines1) = (if live then (l0, lines0)
                          else (min l0 (swHistoricalAloneCap w), lines0 @ [CappedLine (swHistoricalAloneCap w)]));
          (l2, lines2) = predicted_loop topo (swNegativeSignalPenalty w) (cePredictedSignals e) (l1, lines1);
          lines3 = (if node = None then lines2 @ [OutsideTopologyLine (ceTarget e)] else lines2)
      in \<lparr>csEventID = ceID e, csInTopology = (node \<noteq> None), csTemporal = temporal,
          csTopological = topological, csHistorical = historical, csLiveCorroborated = live,
          csLikelihood = clampUnit l2, csRationale = lines3\<rparr>)"

definition causal_scores ::
  "string \<Rightarrow> change_snapshot \<Rightarrow> topology_snapshot \<Rightarrow> scoring_weights \<Rightarrow> prior \<Rightarrow> causal_score list" where
  "causal_scores fp change topo w prior = map (\<lambda>e. scoreEvent fp e topo w prior) (chEvents change)"

subsection \<open>Facts\<close>

lemma clampUnit_range: "0 \<le> clampUnit x" "clampUnit x \<le> 1"
  by (simp_all add: clampUnit_def)

lemma clampUnit_mono: "x \<le> y \<Longrightarrow> clampUnit x \<le> clampUnit y"
  by (auto simp: clampUnit_def)

definition absent :: "topology_snapshot \<Rightarrow> string list \<Rightarrow> nat" where
  "absent topo sigs = length (filter (\<lambda>s. \<not> signalObserved topo s) sigs)"

lemma predicted_loop_eq:
  "predicted_loop topo penalty sigs (l, lines) =
     (l - real (absent topo sigs) * penalty, lines @ map (\<lambda>s. PredictedAbsentLine s penalty) sigs)"
  by (induction sigs arbitrary: l lines) (simp_all add: absent_def algebra_simps)

definition raw_likelihood ::
  "string \<Rightarrow> change_event \<Rightarrow> topology_snapshot \<Rightarrow> scoring_weights \<Rightarrow> prior \<Rightarrow> real" where
  "raw_likelihood fp e topo w prior =
     swTemporal w * temporalScore (ceAge e) (swRecencyHalfLife w) +
     swTopological w * topologicalScore (findNode topo (ceTarget e)) +
     swHistorical w * ((case prior_rate prior fp of None \<Rightarrow> swCaseBaseBaseline w | Some r \<Rightarrow> r)
        * freshnessFactor (ceHistoricalStaleness e) (swHistoricalHalfLife w))"

lemma scoreEvent_likelihood:
  "csLikelihood (scoreEvent fp e topo w prior) =
     clampUnit ((if live_corroborated (findNode topo (ceTarget e)) then raw_likelihood fp e topo w prior
                 else min (raw_likelihood fp e topo w prior) (swHistoricalAloneCap w))
                - real (absent topo (cePredictedSignals e)) * swNegativeSignalPenalty w)"
  by (simp add: scoreEvent_def raw_likelihood_def Let_def predicted_loop_eq split: prod.split)

lemma scoreEvent_sel [simp]:
  "csEventID (scoreEvent fp e topo w prior) = ceID e"
  "csInTopology (scoreEvent fp e topo w prior) = (findNode topo (ceTarget e) \<noteq> None)"
  "csLiveCorroborated (scoreEvent fp e topo w prior) = live_corroborated (findNode topo (ceTarget e))"
  by (simp_all add: scoreEvent_def Let_def split: prod.split)

lemma freshnessFactor_antimono: "s \<le> t \<Longrightarrow> freshnessFactor t h \<le> freshnessFactor s h"
  by (auto simp: freshnessFactor_def divide_right_mono)

lemma freshnessFactor_pos: "0 < freshnessFactor s h"
  by (simp add: freshnessFactor_def)


definition example_weights :: scoring_weights where
  "example_weights = \<lparr>swTemporal = 4/10, swTopological = 4/10, swHistorical = 2/10,
     swHistoricalHalfLife = 24 * hour, swGroundingNone = 1/4, swGroundingOne = 1/2, swGroundingMany = 1,
     swCausal = 1/2, swRecencyHalfLife = 30 * minute, swHistoricalAloneCap = 3/10,
     swCaseBaseBaseline = 1/2, swNegativeSignalPenalty = 1/10\<rparr>"

definition example_event :: change_event where
  "example_event = \<lparr>ceID = ''ev1'', ceType = ''deploy'', ceTarget = ''db'', ceAge = 0,
     ceCausalLikelihood = 0, ceRationale = [], cePredictedSignals = [], ceHistoricalStaleness = 0\<rparr>"


text \<open>an observed predicted signal costs nothing but is still reported absent: the rationale of every
  score carries one such line per predicted signal, observed or not.\<close>

theorem observed_signal_reported_absent:
  assumes "sig \<in> set (cePredictedSignals e)"
  shows "PredictedAbsentLine sig (swNegativeSignalPenalty w) \<in> set (csRationale (scoreEvent fp e topo w prior))"
  using assms by (auto simp: scoreEvent_def Let_def predicted_loop_eq split: prod.split)

end
