(* ===== verification/Grading.thy ===== *)
theory Grading
  imports Causal "HOL-Library.Word"
begin

text \<open>
  How clank grades and orders what the model proposed: \<^verbatim>\<open>src/internal/clank/gate.go\<close> (the readiness
  gate), \<^verbatim>\<open>confidence.go\<close> (the evidence-grounded confidence, with the model's self-report as a
  ceiling) and \<^verbatim>\<open>rank.go\<close> (the order of the candidates). Time to effect is parsed on Go's 64-bit
  signed integers, wrap-around included.
\<close>

subsection \<open>The readiness gate\<close>

definition inTopology :: "string \<Rightarrow> sao option \<Rightarrow> bool" where
  "inTopology subject s =
     (case s of None \<Rightarrow> False | Some o' \<Rightarrow> list_ex (\<lambda>n. nsName n = subject) (topo_nodes (saoTopology o')))"

definition coherentSubject :: "evidence_ref \<Rightarrow> sao option \<Rightarrow> bool" where
  "coherentSubject ref s =
     (case s of None \<Rightarrow> False
      | Some o' \<Rightarrow> if evSubject ref = [] then False
                   else evSubject ref = ssOriginService (saoSignal o') \<or> inTopology (evSubject ref) s)"

definition anyCoherentLive :: "evidence_ref list \<Rightarrow> sao option \<Rightarrow> bool" where
  "anyCoherentLive refs s \<longleftrightarrow> list_ex (\<lambda>ref. evLive ref \<and> coherentSubject ref s) refs"

definition recommendedEvidence :: "proposal_set \<Rightarrow> evidence_ref list" where
  "recommendedEvidence ps =
     (if psRecommended ps = [] \<and> psProposals ps = [] then psEvidence ps
      else case List.find (\<lambda>c. cndID c = psRecommended ps) (psProposals ps) of
             None \<Rightarrow> []
           | Some r \<Rightarrow> if cndCitations r = [] then []
                       else filter (\<lambda>ref. evKey ref \<in> set (cndCitations r)) (psEvidence ps))"

definition gate_evaluate :: "proposal_set \<Rightarrow> proposal_set list \<Rightarrow> gate_result" where
  "gate_evaluate ps openDupes =
     (let budgetOK = True;
          dedupeOK = (openDupes = []);
          evidenceOK = anyCoherentLive (recommendedEvidence ps) (psSAOSnapshot ps);
          passed = (budgetOK \<and> dedupeOK \<and> evidenceOK);
          reason = (if passed then '''' else if \<not> evidenceOK then ''evidence''
                    else if \<not> dedupeOK then ''dedupe'' else if \<not> budgetOK then ''budget'' else '''')
      in \<lparr>grBudgetOK = budgetOK, grDedupeOK = dedupeOK, grEvidenceOK = evidenceOK,
          grPassed = passed, grReason = reason\<rparr>)"

subsection \<open>Confidence\<close>

record confidence_inputs =
  ciSignalConfidence :: real
  ciCorroborated :: nat
  ciAlignment :: "real option"
  ciLikelihood :: "real option"
  ciSelfReported :: real

definition coherentLiveCitations :: "candidate \<Rightarrow> evidence_ref list \<Rightarrow> sao option \<Rightarrow> nat" where
  "coherentLiveCitations cand evidence s =
     length (remdups (map evTool
       (filter (\<lambda>ref. evKey ref \<in> set (cndCitations cand) \<and> evLive ref \<and> coherentSubject ref s) evidence)))"

definition groundingWeight :: "nat \<Rightarrow> scoring_weights \<Rightarrow> real" where
  "groundingWeight corroborated w =
     (if corroborated \<ge> 2 then swGroundingMany w
      else if corroborated = 1 then swGroundingOne w else swGroundingNone w)"

definition groundedConfidence :: "confidence_inputs \<Rightarrow> scoring_weights \<Rightarrow> real" where
  "groundedConfidence i w =
     (let c0 = ciSignalConfidence i * groundingWeight (ciCorroborated i) w;
          c1 = (case ciAlignment i of None \<Rightarrow> c0 | Some a \<Rightarrow> c0 * (1/2 + 1/2 * a))
      in case ciLikelihood i of None \<Rightarrow> c1 | Some l \<Rightarrow> min 1 (c1 * (1 + swCausal w * l)))"

definition scoreConfidence :: "confidence_inputs \<Rightarrow> scoring_weights \<Rightarrow> real" where
  "scoreConfidence i w = min (groundedConfidence i w) (ciSelfReported i)"

text \<open>The loop over the causal scores: the running maximum starts at the zero value of the variable.\<close>

fun max_likelihood :: "causal_score list \<Rightarrow> real option \<Rightarrow> real option" where
  "max_likelihood [] acc = acc"
| "max_likelihood (cs # rest) acc =
     max_likelihood rest
       (if \<not> csInTopology cs then acc
        else Some (max (case acc of None \<Rightarrow> 0 | Some m \<Rightarrow> m) (csLikelihood cs)))"

definition confidence_inputs_for ::
  "proposal_set \<Rightarrow> sao \<Rightarrow> prior \<Rightarrow> string \<Rightarrow> candidate \<Rightarrow> confidence_inputs" where
  "confidence_inputs_for ps s prior fp cand =
     \<lparr>ciSignalConfidence = ssConfidence (saoSignal s),
      ciCorroborated = coherentLiveCitations cand (psEvidence ps) (psSAOSnapshot ps),
      ciAlignment = prior_rate prior fp,
      ciLikelihood = max_likelihood (psCausalScores ps) None,
      ciSelfReported = cndConfidence cand\<rparr>"

definition score_candidate ::
  "proposal_set \<Rightarrow> sao \<Rightarrow> prior \<Rightarrow> string \<Rightarrow> scoring_weights \<Rightarrow> candidate \<Rightarrow> candidate" where
  "score_candidate ps s prior fp w cand =
     (let selfReported = cndConfidence cand;
          i = confidence_inputs_for ps s prior fp cand;
          computed = groundedConfidence i w
      in cand\<lparr>cndComputedConfidence := computed,
              cndConfidenceCeilingBound := (computed > selfReported),
              cndConfidence := min computed selfReported,
              cndTerms := \<lparr>ctSignalConfidence = ciSignalConfidence i,
                           ctCorroborated = int (ciCorroborated i),
                           ctGrounding = groundingWeight (ciCorroborated i) w,
                           ctAlignmentOK = (ciAlignment i \<noteq> None),
                           ctLikelihoodOK = (ciLikelihood i \<noteq> None)\<rparr>\<rparr>)"

definition scoreConfidences ::
  "proposal_set \<Rightarrow> sao \<Rightarrow> prior \<Rightarrow> string \<Rightarrow> scoring_weights \<Rightarrow> proposal_set" where
  "scoreConfidences ps s prior fp w =
     ps\<lparr>psProposals := map (score_candidate ps s prior fp w) (psProposals ps)\<rparr>"

subsection \<open>Rank\<close>

text \<open>A Go \<^verbatim>\<open>int\<close> is 64 bits wide and wraps; the characters are ASCII digits.\<close>

fun digits_loop :: "string \<Rightarrow> 64 word \<Rightarrow> 64 word" where
  "digits_loop [] n = n"
| "digits_loop (ch # rest) n =
     (if of_char ch < (48::nat) \<or> of_char ch > (57::nat) then n
      else digits_loop rest (n * 10 + of_nat (of_char ch - 48)))"

definition timeToEffect :: "candidate \<Rightarrow> 64 word" where
  "timeToEffect c =
     (case cndPredictedImpact c of None \<Rightarrow> 0
      | Some p \<Rightarrow> digits_loop (case piSLOEffects p ''time_to_effect'' of None \<Rightarrow> [] | Some s \<Rightarrow> s) 0)"

fun set_ranks :: "int \<Rightarrow> candidate list \<Rightarrow> candidate list" where
  "set_ranks i [] = []"
| "set_ranks i (c # cs) = c\<lparr>cndRank := i + 1\<rparr> # set_ranks (i + 1) cs"

definition rank :: "candidate list \<Rightarrow> string \<Rightarrow> candidate list \<times> ranking_rationale" where
  "rank cands velocity =
     (if velocity = ''accelerating''
      then (set_ranks 0 (sort_key (\<lambda>c. sint (timeToEffect c)) cands),
            \<lparr>rrDominantAxis = ''time_to_effect'', rrVelocityWeight = velocity\<rparr>)
      else (set_ranks 0 cands, \<lparr>rrDominantAxis = '''', rrVelocityWeight = ''''\<rparr>))"

subsection \<open>The gate\<close>

lemma gate_passed_iff:
  "grPassed (gate_evaluate ps dupes) \<longleftrightarrow>
     dupes = [] \<and> anyCoherentLive (recommendedEvidence ps) (psSAOSnapshot ps)"
  by (auto simp: gate_evaluate_def Let_def)

lemma gate_reason:
  "grReason (gate_evaluate ps dupes) =
     (if grPassed (gate_evaluate ps dupes) then ''''
      else if anyCoherentLive (recommendedEvidence ps) (psSAOSnapshot ps) then ''dedupe'' else ''evidence'')"
  by (auto simp: gate_evaluate_def Let_def)

lemma coherentLive_sound:
  assumes "anyCoherentLive (recommendedEvidence ps) (psSAOSnapshot ps)"
  obtains ref s where "ref \<in> set (psEvidence ps)" "evLive ref" "psSAOSnapshot ps = Some s"
    "evSubject ref \<noteq> []"
    "evSubject ref = ssOriginService (saoSignal s) \<or> (\<exists>n \<in> set (topo_nodes (saoTopology s)). nsName n = evSubject ref)"
    "psProposals ps = [] \<or> (\<exists>c \<in> set (psProposals ps). cndID c = psRecommended ps \<and> evKey ref \<in> set (cndCitations c))"
proof -
  from assms obtain ref where ref: "ref \<in> set (recommendedEvidence ps)" "evLive ref"
    "coherentSubject ref (psSAOSnapshot ps)"
    by (auto simp: anyCoherentLive_def list_ex_iff)
  then obtain s where s: "psSAOSnapshot ps = Some s" "evSubject ref \<noteq> []"
    "evSubject ref = ssOriginService (saoSignal s) \<or> (\<exists>n \<in> set (topo_nodes (saoTopology s)). nsName n = evSubject ref)"
    by (auto simp: coherentSubject_def inTopology_def list_ex_iff split: option.splits if_splits)
  have "ref \<in> set (psEvidence ps) \<and>
    (psProposals ps = [] \<or> (\<exists>c \<in> set (psProposals ps). cndID c = psRecommended ps \<and> evKey ref \<in> set (cndCitations c)))"
  proof (cases "psRecommended ps = [] \<and> psProposals ps = []")
    case False
    with ref(1) obtain c where c: "List.find (\<lambda>c. cndID c = psRecommended ps) (psProposals ps) = Some c"
      by (cases "List.find (\<lambda>c. cndID c = psRecommended ps) (psProposals ps)")
        (auto simp: recommendedEvidence_def)
    with False ref(1) have "evKey ref \<in> set (cndCitations c)" "ref \<in> set (psEvidence ps)"
      by (auto simp: recommendedEvidence_def split: if_splits)
    moreover from c have "c \<in> set (psProposals ps)" "cndID c = psRecommended ps"
      by (auto simp: find_Some_iff)
    ultimately show ?thesis by blast
  qed (use ref(1) in \<open>auto simp: recommendedEvidence_def\<close>)
  with ref(2) s show ?thesis by (intro that) auto
qed


definition example_ref :: evidence_ref where
  "example_ref = \<lparr>evTool = ''metrics'', evQuery = ''up'', evKey = ''up'', evSummary = ''up = 1'', evRef = ''metrics://up'',
     evLive = True, evSubject = ''checkout''\<rparr>"

definition example_sao :: sao where
  "example_sao = \<lparr>saoVersion = 1, saoAssembledAt = 5,
     saoSignal = \<lparr>ssConfidence = 8/10, ssMetric = ''latency'',
       ssSeverity = \<lparr>sevDegradationPct = 40, sevTrajectory = ''rising''\<rparr>,
       ssBlastRadius = \<lparr>brAffectedPct = 10, brVelocity = ''accelerating'', brDownstreamConsumers = 2\<rparr>,
       ssOriginService = ''checkout''\<rparr>,
     saoTopology = \<lparr>tsUpstream = [], tsDownstream = []\<rparr>, saoChange = \<lparr>chEvents = []\<rparr>\<rparr>"

definition grounded_set :: proposal_set where
  "grounded_set = example_set\<lparr>psSAOSnapshot := Some example_sao, psEvidence := [example_ref],
     psProposals := [example_candidate\<lparr>cndCitations := [''up'']\<rparr>],
     psRecommended := cndID example_candidate\<rparr>"

lemma grounded_set_passes: "grPassed (gate_evaluate grounded_set [])"
  by (simp add: gate_passed_iff grounded_set_def recommendedEvidence_def anyCoherentLive_def
      coherentSubject_def example_ref_def example_sao_def)


subsection \<open>Confidence is bounded by the evidence and by the self-report\<close>

lemma score_candidate_confidence:
  "cndConfidence (score_candidate ps s prior fp w c) = scoreConfidence (confidence_inputs_for ps s prior fp c) w"
  by (simp add: score_candidate_def Let_def scoreConfidence_def confidence_inputs_for_def)

lemma score_candidate_sel [simp]:
  "cndID (score_candidate ps s prior fp w c) = cndID c"
  "cndContractRef (score_candidate ps s prior fp w c) = cndContractRef c"
  "cndBlastTier (score_candidate ps s prior fp w c) = cndBlastTier c"
  "cndCitations (score_candidate ps s prior fp w c) = cndCitations c"
  "cndPredictedImpact (score_candidate ps s prior fp w c) = cndPredictedImpact c"
  "cndReversalPath (score_candidate ps s prior fp w c) = cndReversalPath c"
  "cndGovernanceLevel (score_candidate ps s prior fp w c) = cndGovernanceLevel c"
  "cndRank (score_candidate ps s prior fp w c) = cndRank c"
  by (simp_all add: score_candidate_def Let_def)

lemma max_likelihood_in_topology:
  "max_likelihood css acc = max_likelihood (filter csInTopology css) acc"
  by (induction css arbitrary: acc) auto

lemma max_likelihood_ge: "acc = Some m \<Longrightarrow> \<exists>x. max_likelihood css acc = Some x \<and> m \<le> x"
proof (induction css arbitrary: acc m)
  case (Cons c css)
  show ?case
  proof (cases "csInTopology c")
    case True
    obtain x where "max_likelihood css (Some (max m (csLikelihood c))) = Some x" "max m (csLikelihood c) \<le> x"
      using Cons.IH by blast
    with True Cons.prems show ?thesis by simp
  qed (use Cons in auto)
qed auto

lemma max_likelihood_nonneg: "max_likelihood css None = Some l \<Longrightarrow> 0 \<le> l"
proof (induction css)
  case (Cons c css)
  show ?case
  proof (cases "csInTopology c")
    case True
    obtain x where "max_likelihood css (Some (max 0 (csLikelihood c))) = Some x" "max 0 (csLikelihood c) \<le> x"
      using max_likelihood_ge by blast
    with True Cons.prems show ?thesis by simp
  qed (use Cons in auto)
qed simp

lemma groundedConfidence_likelihood_raises:
  assumes "0 \<le> swCausal w" "0 \<le> l" "0 \<le> groundedConfidence (i\<lparr>ciLikelihood := None\<rparr>) w"
    "groundedConfidence (i\<lparr>ciLikelihood := None\<rparr>) w \<le> 1"
  shows "groundedConfidence (i\<lparr>ciLikelihood := None\<rparr>) w \<le> groundedConfidence (i\<lparr>ciLikelihood := Some l\<rparr>) w"
proof -
  let ?c = "groundedConfidence (i\<lparr>ciLikelihood := None\<rparr>) w"
  have "groundedConfidence (i\<lparr>ciLikelihood := Some l\<rparr>) w = min 1 (?c * (1 + swCausal w * l))"
    by (simp add: groundedConfidence_def Let_def split: option.split)
  moreover have "0 \<le> ?c * (swCausal w * l)" using assms by simp
  ultimately show ?thesis using assms(4) by (simp add: algebra_simps)
qed

lemma scoreConfidences_nth:
  "i < length (psProposals ps) \<Longrightarrow>
     psProposals (scoreConfidences ps s prior fp w) ! i = score_candidate ps s prior fp w (psProposals ps ! i)"
  by (simp add: scoreConfidences_def)

lemma one_backend_counts_once:
  assumes "\<And>ref. ref \<in> set evidence \<Longrightarrow> evKey ref \<in> set (cndCitations cand) \<Longrightarrow> evTool ref = tool"
  shows "coherentLiveCitations cand evidence s \<le> 1"
proof -
  let ?refs = "filter (\<lambda>ref. evKey ref \<in> set (cndCitations cand) \<and> evLive ref \<and> coherentSubject ref s) evidence"
  have "set (map evTool ?refs) \<subseteq> {tool}" using assms by auto
  then have "card (set (map evTool ?refs)) \<le> 1" by (metis card.empty card_insert_le card_mono finite.simps is_singleton_altdef is_singletonI)
  then show ?thesis by (simp add: coherentLiveCitations_def length_remdups_card_conv)
qed

text \<open>C13: clank never reports more confidence than the model claimed nor more than the evidence supports, for
  every candidate of a scored set; citations that all come from one backend never reach the weight
  reserved for two or more; and a change event that did not resolve into the topology does not
  enter the score.\<close>

theorem confidence_ceiling:
  assumes "i < length (psProposals ps)"
  shows "(let c = psProposals ps ! i;
              c' = psProposals (scoreConfidences ps s prior fp w) ! i
          in cndConfidence c' \<le> cndConfidence c \<and> cndConfidence c' \<le> cndComputedConfidence c' \<and>
             (cndConfidenceCeilingBound c' \<longleftrightarrow> cndConfidence c < cndComputedConfidence c') \<and>
             cndID c' = cndID c \<and> cndContractRef c' = cndContractRef c \<and>
             (\<forall>tool. (\<forall>ref \<in> set (psEvidence ps). evKey ref \<in> set (cndCitations c) \<longrightarrow> evTool ref = tool) \<longrightarrow>
                ctGrounding (cndTerms c') \<in> {swGroundingNone w, swGroundingOne w}) \<and>
             c' = psProposals (scoreConfidences
                    (ps\<lparr>psCausalScores := filter csInTopology (psCausalScores ps)\<rparr>) s prior fp w) ! i)"
proof -
  let ?c = "psProposals ps ! i"
  have grounding: "ctGrounding (cndTerms (score_candidate ps s prior fp w ?c)) \<in> {swGroundingNone w, swGroundingOne w}"
    if "\<forall>ref \<in> set (psEvidence ps). evKey ref \<in> set (cndCitations ?c) \<longrightarrow> evTool ref = tool" for tool
    using one_backend_counts_once [of "psEvidence ps" ?c tool "psSAOSnapshot ps"] that
    by (auto simp: score_candidate_def Let_def confidence_inputs_for_def groundingWeight_def)
  have same: "score_candidate ps s prior fp w ?c =
      score_candidate (ps\<lparr>psCausalScores := filter csInTopology (psCausalScores ps)\<rparr>) s prior fp w ?c"
    using max_likelihood_in_topology [of "psCausalScores ps" None]
    by (simp add: score_candidate_def confidence_inputs_for_def)
  have basic: "cndConfidence (score_candidate ps s prior fp w ?c) \<le> cndConfidence ?c"
    "cndConfidence (score_candidate ps s prior fp w ?c) \<le> cndComputedConfidence (score_candidate ps s prior fp w ?c)"
    "cndConfidenceCeilingBound (score_candidate ps s prior fp w ?c) \<longleftrightarrow>
       cndConfidence ?c < cndComputedConfidence (score_candidate ps s prior fp w ?c)"
    by (simp_all add: score_candidate_def Let_def)
  have at_i: "psProposals (scoreConfidences ps s prior fp w) ! i = score_candidate ps s prior fp w ?c"
    "psProposals (scoreConfidences (ps\<lparr>psCausalScores := filter csInTopology (psCausalScores ps)\<rparr>) s prior fp w) ! i =
       score_candidate (ps\<lparr>psCausalScores := filter csInTopology (psCausalScores ps)\<rparr>) s prior fp w ?c"
    using assms by (simp_all add: scoreConfidences_def)
  show ?thesis
    unfolding Let_def at_i using basic grounding same by auto
qed

theorem confidence_ceiling_witness:
  "cndConfidence (psProposals (scoreConfidences grounded_set example_sao None ''fp'' example_weights) ! 0)
     \<le> cndConfidence (psProposals grounded_set ! 0)"
proof -
  have "0 < length (psProposals grounded_set)" by (simp add: grounded_set_def)
  from confidence_ceiling [OF this, of example_sao None "''fp''" example_weights]
  show ?thesis unfolding Let_def by (rule conjunct1)
qed

text \<open>holding change data never costs: for weights and a self-report in the unit range, the confidence
  with the run's causal scores is at least the confidence of the same run with none.\<close>

theorem change_data_never_lowers:
  assumes "0 \<le> swCausal w"
    "0 \<le> groundedConfidence ((confidence_inputs_for ps s prior fp c)\<lparr>ciLikelihood := None\<rparr>) w"
    "groundedConfidence ((confidence_inputs_for ps s prior fp c)\<lparr>ciLikelihood := None\<rparr>) w \<le> 1"
  shows "cndConfidence (score_candidate (ps\<lparr>psCausalScores := []\<rparr>) s prior fp w c)
     \<le> cndConfidence (score_candidate ps s prior fp w c)"
proof -
  let ?i = "confidence_inputs_for ps s prior fp c"
  have none: "confidence_inputs_for (ps\<lparr>psCausalScores := []\<rparr>) s prior fp c = ?i\<lparr>ciLikelihood := None\<rparr>"
    by (simp add: confidence_inputs_for_def)
  have "groundedConfidence (?i\<lparr>ciLikelihood := None\<rparr>) w \<le> groundedConfidence ?i w"
  proof (cases "max_likelihood (psCausalScores ps) None")
    case None
    then have "?i\<lparr>ciLikelihood := None\<rparr> = ?i" by (simp add: confidence_inputs_for_def)
    then show ?thesis by simp
  next
    case (Some l)
    then have "?i\<lparr>ciLikelihood := Some l\<rparr> = ?i" by (simp add: confidence_inputs_for_def)
    then show ?thesis
      using groundedConfidence_likelihood_raises [OF assms(1) max_likelihood_nonneg [OF Some] assms(2,3)] by simp
  qed
  then show ?thesis
    by (auto simp: score_candidate_confidence none scoreConfidence_def confidence_inputs_for_def)
qed

theorem change_data_never_lowers_witness:
  "cndConfidence (score_candidate (grounded_set\<lparr>psCausalScores := []\<rparr>) example_sao None ''fp'' example_weights
     (psProposals grounded_set ! 0))
   \<le> cndConfidence (score_candidate grounded_set example_sao None ''fp'' example_weights (psProposals grounded_set ! 0))"
  by (rule change_data_never_lowers)
    (simp_all add: example_weights_def groundedConfidence_def confidence_inputs_for_def prior_rate_def
      groundingWeight_def example_sao_def)

subsection \<open>The order of the candidates\<close>

lemma set_ranks_nth:
  "i < length cs \<Longrightarrow> set_ranks k cs ! i = (cs ! i)\<lparr>cndRank := k + int i + 1\<rparr>"
  by (induction cs arbitrary: i k) (auto simp: nth_Cons algebra_simps split: nat.split)

lemma length_set_ranks [simp]: "length (set_ranks k cs) = length cs"
  by (induction cs arbitrary: k) auto

lemma set_ranks_forget:
  "map (\<lambda>c. c\<lparr>cndRank := r\<rparr>) (set_ranks k cs) = map (\<lambda>c. c\<lparr>cndRank := r\<rparr>) cs"
  by (induction cs arbitrary: k) auto

lemma timeToEffect_rank [simp]: "timeToEffect (c\<lparr>cndRank := r\<rparr>) = timeToEffect c"
  by (simp add: timeToEffect_def)

lemma set_ranks_time:
  "map (\<lambda>c. f (timeToEffect c)) (set_ranks k cs) = map (\<lambda>c. f (timeToEffect c)) cs"
  by (induction cs arbitrary: k) auto

lemma set_ranks_filter:
  assumes "\<And>c r. P (c\<lparr>cndRank := r\<rparr>) = P c"
  shows "map cndID (filter P (set_ranks k cs)) = map cndID (filter P cs)"
  using assms by (induction cs arbitrary: k) auto

text \<open>ranking loses and invents nothing: up to the rank field the result is a permutation of the
  candidates, the ranks are the one-based positions; under accelerating blast radius the result is
  sorted by time to effect with ties in the model's order, and otherwise the order is untouched.\<close>

theorem rank_correct:
  "(let ranked = fst (rank cands velocity) in
     mset (map (\<lambda>c. c\<lparr>cndRank := 0\<rparr>) ranked) = mset (map (\<lambda>c. c\<lparr>cndRank := 0\<rparr>) cands) \<and>
     map cndRank ranked = map int [1..<Suc (length cands)] \<and>
     (if velocity = ''accelerating''
      then sorted (map (\<lambda>c. sint (timeToEffect c)) ranked) \<and>
           (\<forall>t. map cndID (filter (\<lambda>c. timeToEffect c = t) ranked) =
                map cndID (filter (\<lambda>c. timeToEffect c = t) cands))
      else map cndID ranked = map cndID cands))"
proof -
  let ?s = "if velocity = ''accelerating'' then sort_key (\<lambda>c. sint (timeToEffect c)) cands else cands"
  have ranked: "fst (rank cands velocity) = set_ranks 0 ?s" by (simp add: rank_def)
  have perm: "mset (map (\<lambda>c. c\<lparr>cndRank := 0\<rparr>) (set_ranks 0 ?s)) = mset (map (\<lambda>c. c\<lparr>cndRank := 0\<rparr>) cands)"
    by (simp add: set_ranks_forget)
  have pos: "map cndRank (set_ranks 0 ?s) = map int [1..<Suc (length cands)]"
    by (rule nth_equalityI) (auto simp: set_ranks_nth simp del: upt_Suc split: if_splits)
  have sint_eq: "(x = y) = (sint x = sint y)" for x y :: "64 word"
    by (auto intro: signed_word_eqI)
  have stable: "filter (\<lambda>c. timeToEffect c = t) (sort_key (\<lambda>c. sint (timeToEffect c)) cands) =
      filter (\<lambda>c. timeToEffect c = t) cands" for t
    using sort_key_stable [of "\<lambda>c. sint (timeToEffect c)" "sint t" cands] unfolding sint_eq .
  have ids: "map cndID (set_ranks 0 cs) = map cndID cs" for cs
    using set_ranks_filter [of "\<lambda>_. True" 0 cs] by simp
  show ?thesis
    unfolding ranked Let_def using perm pos
    by (auto simp: set_ranks_time ids set_ranks_filter stable)
qed

end
