(* ===== verification/ConfigFile.thy ===== *)
theory ConfigFile
  imports Causal "HOL-Library.State_Monad"
begin

text \<open>
  Two-stage configuration loading: the collector of \<^verbatim>\<open>src/internal/configfile/configfile.go\<close> and the
  loaders built on it, \<^verbatim>\<open>src/internal/clank/weights.go\<close>, \<^verbatim>\<open>src/internal/clank/limits.go\<close>,
  \<^verbatim>\<open>src/internal/publish/walconfig.go\<close> and \<^verbatim>\<open>src/internal/rattle/query.go\<close>. The collector is mutated
  by every field access, so the loaders are programs of the state monad over it.

  Reading the file, decoding the YAML into the staging record and parsing a duration string are
  parameters. A staged field is an option: \<open>None\<close> is an omitted key.
\<close>

subsection \<open>The collector\<close>

record required =
  rqNoun :: string
  rqMissing :: "string list"
  rqParseErr :: "(string \<times> string) option"

datatype config_error =
    ConfigRead string string
  | ConfigParse string string
  | ConfigMissing string "string list"
  | ConfigDuration string string string

definition stage ::
  "(string \<Rightarrow> string + 'r) \<Rightarrow> ('r \<Rightarrow> string + 'f) \<Rightarrow> string \<Rightarrow> string \<Rightarrow> config_error + 'f" where
  "stage readFile unmarshal path noun =
     (case readFile path of
        Inl e \<Rightarrow> Inl (ConfigRead noun e)
      | Inr raw \<Rightarrow> (case unmarshal raw of Inl e \<Rightarrow> Inl (ConfigParse noun e) | Inr f \<Rightarrow> Inr f))"

definition require :: "string \<Rightarrow> required" where
  "require noun = \<lparr>rqNoun = noun, rqMissing = [], rqParseErr = None\<rparr>"

definition note_missing :: "string \<Rightarrow> 'a option \<Rightarrow> required \<Rightarrow> required" where
  "note_missing key p r = (case p of None \<Rightarrow> r\<lparr>rqMissing := rqMissing r @ [key]\<rparr> | Some _ \<Rightarrow> r)"

definition req_int :: "string \<Rightarrow> int option \<Rightarrow> (required, int) state" where
  "req_int key p = State (\<lambda>r. (case p of None \<Rightarrow> 0 | Some x \<Rightarrow> x, note_missing key p r))"

definition req_int64 :: "string \<Rightarrow> int option \<Rightarrow> (required, int) state" where
  "req_int64 key p = State (\<lambda>r. (case p of None \<Rightarrow> 0 | Some x \<Rightarrow> x, note_missing key p r))"

definition req_float :: "string \<Rightarrow> real option \<Rightarrow> (required, real) state" where
  "req_float key p = State (\<lambda>r. (case p of None \<Rightarrow> 0 | Some x \<Rightarrow> x, note_missing key p r))"

definition req_duration ::
  "(string \<Rightarrow> string + duration) \<Rightarrow> string \<Rightarrow> string option \<Rightarrow> (required, duration) state" where
  "req_duration parseDuration key p = State (\<lambda>r.
     case p of
       None \<Rightarrow> (0, r\<lparr>rqMissing := rqMissing r @ [key]\<rparr>)
     | Some s \<Rightarrow>
         (case parseDuration s of
            Inl e \<Rightarrow> (0, if rqParseErr r = None then r\<lparr>rqParseErr := Some (key, e)\<rparr> else r)
          | Inr d \<Rightarrow> (d, r)))"

definition required_err :: "required \<Rightarrow> config_error option" where
  "required_err r =
     (if rqMissing r \<noteq> [] then Some (ConfigMissing (rqNoun r) (rqMissing r))
      else case rqParseErr r of None \<Rightarrow> None | Some (key, e) \<Rightarrow> Some (ConfigDuration (rqNoun r) key e))"

definition collect :: "string \<Rightarrow> (required, 'a) state \<Rightarrow> config_error + 'a" where
  "collect noun m =
     (case run_state m (require noun) of
        (out, r) \<Rightarrow> (case required_err r of Some e \<Rightarrow> Inl e | None \<Rightarrow> Inr out))"

subsection \<open>clank: weights and limits\<close>

record weights_file =
  wfTemporal :: "real option"
  wfTopological :: "real option"
  wfHistorical :: "real option"
  wfHistoricalHalfLife :: "string option"
  wfGroundingNone :: "real option"
  wfGroundingOne :: "real option"
  wfGroundingMany :: "real option"
  wfCausal :: "real option"
  wfRecencyHalfLife :: "string option"
  wfHistoricalAloneCap :: "real option"
  wfCaseBaseBaseline :: "real option"
  wfNegativeSignalPenalty :: "real option"

definition read_weights :: "(string \<Rightarrow> string + duration) \<Rightarrow> weights_file \<Rightarrow> (required, scoring_weights) state" where
  "read_weights pd fl = do {
     a \<leftarrow> req_float ''temporal'' (wfTemporal fl);
     b \<leftarrow> req_float ''topological'' (wfTopological fl);
     c \<leftarrow> req_float ''historical'' (wfHistorical fl);
     d \<leftarrow> req_duration pd ''historicalHalfLife'' (wfHistoricalHalfLife fl);
     e \<leftarrow> req_float ''groundingNone'' (wfGroundingNone fl);
     f \<leftarrow> req_float ''groundingOne'' (wfGroundingOne fl);
     g \<leftarrow> req_float ''groundingMany'' (wfGroundingMany fl);
     h \<leftarrow> req_float ''causal'' (wfCausal fl);
     i \<leftarrow> req_duration pd ''recencyHalfLife'' (wfRecencyHalfLife fl);
     j \<leftarrow> req_float ''historicalAloneCap'' (wfHistoricalAloneCap fl);
     k \<leftarrow> req_float ''caseBaseBaseline'' (wfCaseBaseBaseline fl);
     l \<leftarrow> req_float ''negativeSignalPenalty'' (wfNegativeSignalPenalty fl);
     State_Monad.return \<lparr>swTemporal = a, swTopological = b, swHistorical = c, swHistoricalHalfLife = d,
       swGroundingNone = e, swGroundingOne = f, swGroundingMany = g, swCausal = h, swRecencyHalfLife = i,
       swHistoricalAloneCap = j, swCaseBaseBaseline = k, swNegativeSignalPenalty = l\<rparr>
   }"

definition loadWeightsFile ::
  "(string \<Rightarrow> string + 'r) \<Rightarrow> ('r \<Rightarrow> string + weights_file) \<Rightarrow> (string \<Rightarrow> string + duration) \<Rightarrow>
   string \<Rightarrow> config_error + scoring_weights" where
  "loadWeightsFile readFile unmarshal pd path =
     res_bind (stage readFile unmarshal path ''weights file'')
       (\<lambda>fl. collect ''weights file'' (read_weights pd fl))"

record limits =
  limMaxCases :: int
  limLedgerRetention :: duration
  limChangeLookback :: duration
  limMaxProposeAttempts :: int
  limMaxSteps :: int

record limits_file =
  lfMaxCases :: "int option"
  lfLedgerRetention :: "string option"
  lfChangeLookback :: "string option"
  lfMaxProposeAttempts :: "int option"
  lfMaxSteps :: "int option"

definition loadLimitsFile ::
  "(string \<Rightarrow> string + 'r) \<Rightarrow> ('r \<Rightarrow> string + limits_file) \<Rightarrow> (string \<Rightarrow> string + duration) \<Rightarrow>
   string \<Rightarrow> config_error + limits" where
  "loadLimitsFile readFile unmarshal pd path =
     res_bind (stage readFile unmarshal path ''limits file'') (\<lambda>lf. collect ''limits file'' (do {
       a \<leftarrow> req_int ''maxCases'' (lfMaxCases lf);
       b \<leftarrow> req_duration pd ''ledgerRetention'' (lfLedgerRetention lf);
       c \<leftarrow> req_duration pd ''changeLookback'' (lfChangeLookback lf);
       d \<leftarrow> req_int ''maxProposeAttempts'' (lfMaxProposeAttempts lf);
       e \<leftarrow> req_int ''maxSteps'' (lfMaxSteps lf);
       State_Monad.return \<lparr>limMaxCases = a, limLedgerRetention = b, limChangeLookback = c,
         limMaxProposeAttempts = d, limMaxSteps = e\<rparr>
     }))"

subsection \<open>publish: the write-ahead log\<close>

record wal_config =
  wcMaxBytes :: int
  wcMaxAge :: duration
  wcSyncInterval :: duration
  wcShipInterval :: duration

record wal_config_file =
  wcfMaxBytes :: "int option"
  wcfMaxAge :: "string option"
  wcfSyncInterval :: "string option"
  wcfShipInterval :: "string option"

definition loadWALConfig ::
  "(string \<Rightarrow> string + 'r) \<Rightarrow> ('r \<Rightarrow> string + wal_config_file) \<Rightarrow> (string \<Rightarrow> string + duration) \<Rightarrow>
   string \<Rightarrow> config_error + wal_config" where
  "loadWALConfig readFile unmarshal pd path =
     res_bind (stage readFile unmarshal path ''wal config file'') (\<lambda>fl. collect ''wal config file'' (do {
       a \<leftarrow> req_int64 ''maxBytes'' (wcfMaxBytes fl);
       b \<leftarrow> req_duration pd ''maxAge'' (wcfMaxAge fl);
       c \<leftarrow> req_duration pd ''syncInterval'' (wcfSyncInterval fl);
       d \<leftarrow> req_duration pd ''shipInterval'' (wcfShipInterval fl);
       State_Monad.return \<lparr>wcMaxBytes = a, wcMaxAge = b, wcSyncInterval = c, wcShipInterval = d\<rparr>
     }))"

definition defaultWALConfig :: wal_config where
  "defaultWALConfig = \<lparr>wcMaxBytes = 64 * 1024 * 1024, wcMaxAge = 10 * minute,
     wcSyncInterval = 5 * second, wcShipInterval = 30 * second\<rparr>"

subsection \<open>rattle: the query\<close>

record query_config =
  qcStep :: duration
  qcWindow :: duration
  qcPollInterval :: duration
  qcReconcileTimeout :: duration
  qcSustainedMinSamples :: int
  qcDebounce :: duration
  qcFreshnessBound :: duration

record query_config_file =
  qfStep :: "string option"
  qfWindow :: "string option"
  qfPollInterval :: "string option"
  qfReconcileTimeout :: "string option"
  qfSustainedMinSamples :: "int option"
  qfDebounce :: "string option"
  qfFreshnessBound :: "string option"

definition loadQueryConfig ::
  "(string \<Rightarrow> string + 'r) \<Rightarrow> ('r \<Rightarrow> string + query_config_file) \<Rightarrow> (string \<Rightarrow> string + duration) \<Rightarrow>
   string \<Rightarrow> config_error + query_config" where
  "loadQueryConfig readFile unmarshal pd path =
     res_bind (stage readFile unmarshal path ''query config file'') (\<lambda>qf. collect ''query config file'' (do {
       a \<leftarrow> req_duration pd ''step'' (qfStep qf);
       b \<leftarrow> req_duration pd ''window'' (qfWindow qf);
       c \<leftarrow> req_duration pd ''pollInterval'' (qfPollInterval qf);
       d \<leftarrow> req_duration pd ''reconcileTimeout'' (qfReconcileTimeout qf);
       e \<leftarrow> req_int ''sustainedMinSamples'' (qfSustainedMinSamples qf);
       f \<leftarrow> req_duration pd ''debounce'' (qfDebounce qf);
       g \<leftarrow> req_duration pd ''freshnessBound'' (qfFreshnessBound qf);
       State_Monad.return \<lparr>qcStep = a, qcWindow = b, qcPollInterval = c, qcReconcileTimeout = d,
         qcSustainedMinSamples = e, qcDebounce = f, qcFreshnessBound = g\<rparr>
     }))"

subsection \<open>What a collection reports\<close>

text \<open>A program of accessors has an effect that is independent of the collector it starts from: the
  keys it misses, in order, and the first duration it cannot parse.\<close>

definition read_duration :: "(string \<Rightarrow> string + duration) \<Rightarrow> string option \<Rightarrow> duration" where
  "read_duration pd p =
     (case p of None \<Rightarrow> 0 | Some s \<Rightarrow> (case pd s of Inl _ \<Rightarrow> 0 | Inr d \<Rightarrow> d))"

definition duration_fault :: "(string \<Rightarrow> string + duration) \<Rightarrow> string \<Rightarrow> string option \<Rightarrow> (string \<times> string) list" where
  "duration_fault pd key p =
     (case p of None \<Rightarrow> [] | Some s \<Rightarrow> (case pd s of Inl e \<Rightarrow> [(key, e)] | Inr _ \<Rightarrow> []))"

definition missing_key :: "string \<Rightarrow> 'a option \<Rightarrow> string list" where
  "missing_key key p = (if p = None then [key] else [])"

definition noted :: "string list \<Rightarrow> (string \<times> string) list \<Rightarrow> required \<Rightarrow> required" where
  "noted keys faults r = r\<lparr>rqMissing := rqMissing r @ keys,
     rqParseErr := (case rqParseErr r of Some x \<Rightarrow> Some x
                    | None \<Rightarrow> (case faults of [] \<Rightarrow> None | x # _ \<Rightarrow> Some x))\<rparr>"

lemma noted_noted [simp]: "noted k2 f2 (noted k1 f1 r) = noted (k1 @ k2) (f1 @ f2) r"
  by (cases f1) (auto simp: noted_def split: option.split list.split)

lemma run_req [simp]:
  "run_state (req_int key p) r = (case p of None \<Rightarrow> 0 | Some x \<Rightarrow> x, noted (missing_key key p) [] r)"
  "run_state (req_int64 key p) r = (case p of None \<Rightarrow> 0 | Some x \<Rightarrow> x, noted (missing_key key p) [] r)"
  "run_state (req_float key q) r = (case q of None \<Rightarrow> 0 | Some x \<Rightarrow> x, noted (missing_key key q) [] r)"
  by (cases r; auto simp: req_int_def req_int64_def req_float_def note_missing_def noted_def
      missing_key_def split: option.split)+

lemma run_req_duration [simp]:
  "run_state (req_duration pd key p) r =
     (read_duration pd p, noted (missing_key key p) (duration_fault pd key p) r)"
  by (cases r) (auto simp: req_duration_def read_duration_def duration_fault_def noted_def
      missing_key_def split: option.split sum.split)

lemma required_err_noted:
  "required_err (noted keys faults (require noun)) =
     (if keys \<noteq> [] then Some (ConfigMissing noun keys)
      else case faults of [] \<Rightarrow> None | (key, e) # _ \<Rightarrow> Some (ConfigDuration noun key e))"
  by (auto simp: required_err_def noted_def require_def split: list.split)

lemma collect_noted:
  assumes "run_state m (require noun) = (out, noted keys faults (require noun))"
  shows "collect noun m =
    (if keys \<noteq> [] then Inl (ConfigMissing noun keys)
     else case faults of [] \<Rightarrow> Inr out | (key, e) # _ \<Rightarrow> Inl (ConfigDuration noun key e))"
  using assms by (auto simp: collect_def required_err_noted split: list.split)

definition weights_missing :: "weights_file \<Rightarrow> string list" where
  "weights_missing fl = missing_key ''temporal'' (wfTemporal fl) @ missing_key ''topological'' (wfTopological fl) @
     missing_key ''historical'' (wfHistorical fl) @ missing_key ''historicalHalfLife'' (wfHistoricalHalfLife fl) @
     missing_key ''groundingNone'' (wfGroundingNone fl) @ missing_key ''groundingOne'' (wfGroundingOne fl) @
     missing_key ''groundingMany'' (wfGroundingMany fl) @ missing_key ''causal'' (wfCausal fl) @
     missing_key ''recencyHalfLife'' (wfRecencyHalfLife fl) @
     missing_key ''historicalAloneCap'' (wfHistoricalAloneCap fl) @
     missing_key ''caseBaseBaseline'' (wfCaseBaseBaseline fl) @
     missing_key ''negativeSignalPenalty'' (wfNegativeSignalPenalty fl)"

text \<open>The file that states exactly the given weights, its half lives as the given strings.\<close>

definition stated_weights :: "string \<Rightarrow> string \<Rightarrow> scoring_weights \<Rightarrow> weights_file" where
  "stated_weights hist rec w = \<lparr>wfTemporal = Some (swTemporal w), wfTopological = Some (swTopological w),
     wfHistorical = Some (swHistorical w), wfHistoricalHalfLife = Some hist,
     wfGroundingNone = Some (swGroundingNone w), wfGroundingOne = Some (swGroundingOne w),
     wfGroundingMany = Some (swGroundingMany w), wfCausal = Some (swCausal w),
     wfRecencyHalfLife = Some rec, wfHistoricalAloneCap = Some (swHistoricalAloneCap w),
     wfCaseBaseBaseline = Some (swCaseBaseBaseline w), wfNegativeSignalPenalty = Some (swNegativeSignalPenalty w)\<rparr>"

lemma collect_weights:
  "collect noun (read_weights pd fl) =
     (if weights_missing fl \<noteq> [] then Inl (ConfigMissing noun (weights_missing fl))
      else case duration_fault pd ''historicalHalfLife'' (wfHistoricalHalfLife fl) @
                duration_fault pd ''recencyHalfLife'' (wfRecencyHalfLife fl) of
             [] \<Rightarrow> Inr (fst (run_state (read_weights pd fl) (require noun)))
           | (key, e) # _ \<Rightarrow> Inl (ConfigDuration noun key e))"
  by (rule collect_noted) (simp add: read_weights_def weights_missing_def)

definition field :: "real option \<Rightarrow> real" where
  "field p = (case p of None \<Rightarrow> 0 | Some x \<Rightarrow> x)"

lemma field_Some [simp]: "field (Some x) = x"
  by (simp add: field_def)

lemma read_weights_value:
  "fst (run_state (read_weights pd fl) r) =
     \<lparr>swTemporal = field (wfTemporal fl), swTopological = field (wfTopological fl),
      swHistorical = field (wfHistorical fl), swHistoricalHalfLife = read_duration pd (wfHistoricalHalfLife fl),
      swGroundingNone = field (wfGroundingNone fl), swGroundingOne = field (wfGroundingOne fl),
      swGroundingMany = field (wfGroundingMany fl), swCausal = field (wfCausal fl),
      swRecencyHalfLife = read_duration pd (wfRecencyHalfLife fl),
      swHistoricalAloneCap = field (wfHistoricalAloneCap fl), swCaseBaseBaseline = field (wfCaseBaseBaseline fl),
      swNegativeSignalPenalty = field (wfNegativeSignalPenalty fl)\<rparr>"
  by (simp add: read_weights_def field_def)

lemma missing_key_Nil [simp]: "missing_key k p = [] \<longleftrightarrow> (\<exists>x. p = Some x)"
  by (auto simp: missing_key_def)

lemma weights_missing_stated [simp]: "weights_missing (stated_weights hist rec w) = []"
  by (simp add: weights_missing_def stated_weights_def)

lemma weights_missing_Nil:
  assumes "weights_missing fl = []"
  obtains hist rec w where "fl = stated_weights hist rec w"
proof -
  from assms obtain a b c d e f g h i j k l where
    "fl = \<lparr>wfTemporal = Some a, wfTopological = Some b, wfHistorical = Some c, wfHistoricalHalfLife = Some d,
       wfGroundingNone = Some e, wfGroundingOne = Some f, wfGroundingMany = Some g, wfCausal = Some h,
       wfRecencyHalfLife = Some i, wfHistoricalAloneCap = Some j, wfCaseBaseBaseline = Some k,
       wfNegativeSignalPenalty = Some l\<rparr>"
    by (cases fl) (simp add: weights_missing_def, blast)
  then have "fl = stated_weights d i \<lparr>swTemporal = a, swTopological = b, swHistorical = c,
      swHistoricalHalfLife = 0, swGroundingNone = e, swGroundingOne = f, swGroundingMany = g, swCausal = h,
      swRecencyHalfLife = 0, swHistoricalAloneCap = j, swCaseBaseBaseline = k, swNegativeSignalPenalty = l\<rparr>"
    by (simp add: stated_weights_def)
  then show ?thesis by (rule that)
qed

lemma collect_stated:
  "collect noun (read_weights pd (stated_weights hist rec w)) =
     (case pd hist of Inl e \<Rightarrow> Inl (ConfigDuration noun ''historicalHalfLife'' e)
      | Inr dh \<Rightarrow> (case pd rec of Inl e \<Rightarrow> Inl (ConfigDuration noun ''recencyHalfLife'' e)
                  | Inr dr \<Rightarrow> Inr (w\<lparr>swHistoricalHalfLife := dh, swRecencyHalfLife := dr\<rparr>)))"
proof -
  have faults: "duration_fault pd key (Some x) = (case pd x of Inl e \<Rightarrow> [(key, e)] | Inr _ \<Rightarrow> [])" for key x
    by (simp add: duration_fault_def)
  have fields: "wfHistoricalHalfLife (stated_weights hist rec w) = Some hist"
    "wfRecencyHalfLife (stated_weights hist rec w) = Some rec"
    by (simp_all add: stated_weights_def)
  have "fst (run_state (read_weights pd (stated_weights hist rec w)) (require noun)) =
      w\<lparr>swHistoricalHalfLife := dh, swRecencyHalfLife := dr\<rparr>" if "pd hist = Inr dh" "pd rec = Inr dr" for dh dr
    by (cases w) (simp add: read_weights_value stated_weights_def read_duration_def that)
  then show ?thesis
    by (cases "pd hist"; cases "pd rec") (simp_all add: collect_weights fields faults)
qed

lemma stated_weights_cong:
  "stated_weights hist rec (w\<lparr>swHistoricalHalfLife := dh, swRecencyHalfLife := dr\<rparr>) = stated_weights hist rec w"
  by (simp add: stated_weights_def)

lemma collect_weights_Inr:
  "collect noun (read_weights pd fl) = Inr w \<longleftrightarrow>
     (\<exists>hist rec. fl = stated_weights hist rec w \<and> pd hist = Inr (swHistoricalHalfLife w) \<and>
        pd rec = Inr (swRecencyHalfLife w))"
proof
  assume loaded: "collect noun (read_weights pd fl) = Inr w"
  then have "weights_missing fl = []" by (auto simp: collect_weights split: if_splits)
  then obtain hist rec w0 where fl: "fl = stated_weights hist rec w0" by (rule weights_missing_Nil)
  from loaded obtain dh dr where d: "pd hist = Inr dh" "pd rec = Inr dr"
    and w: "w = w0\<lparr>swHistoricalHalfLife := dh, swRecencyHalfLife := dr\<rparr>"
    unfolding fl collect_stated by (auto split: sum.splits)
  have "fl = stated_weights hist rec w" using fl w by (simp add: stated_weights_cong)
  moreover have "pd hist = Inr (swHistoricalHalfLife w)" "pd rec = Inr (swRecencyHalfLife w)"
    using d w by simp_all
  ultimately show "\<exists>hist rec. fl = stated_weights hist rec w \<and> pd hist = Inr (swHistoricalHalfLife w) \<and>
      pd rec = Inr (swRecencyHalfLife w)" by blast
qed (auto simp: collect_stated)

text \<open>loading the scoring weights is all or nothing: weights come back exactly when the file states every
  term and both half lives parse, and they are the stated ones; a file that omits terms is refused
  with every omitted key, in the order of the record, even when a half life is also malformed.\<close>

theorem weights_load_exact:
  "(loadWeightsFile readFile unmarshal pd path = Inr w \<longleftrightarrow>
      (\<exists>raw hist rec. readFile path = Inr raw \<and> unmarshal raw = Inr (stated_weights hist rec w) \<and>
         pd hist = Inr (swHistoricalHalfLife w) \<and> pd rec = Inr (swRecencyHalfLife w))) \<and>
   (\<forall>keys. loadWeightsFile readFile unmarshal pd path = Inl (ConfigMissing ''weights file'' keys) \<longleftrightarrow>
      (\<exists>raw fl. readFile path = Inr raw \<and> unmarshal raw = Inr fl \<and> weights_missing fl = keys \<and> keys \<noteq> []))"
proof (intro conjI allI)
  have staged: "stage readFile unmarshal path ''weights file'' = Inr fl \<longleftrightarrow>
      (\<exists>raw. readFile path = Inr raw \<and> unmarshal raw = Inr fl)" for fl
    by (auto simp: stage_def split: sum.splits)
  have not_missing: "stage readFile unmarshal path ''weights file'' \<noteq> Inl (ConfigMissing n ks)" for n ks
    by (auto simp: stage_def split: sum.splits)
  show "loadWeightsFile readFile unmarshal pd path = Inr w \<longleftrightarrow>
      (\<exists>raw hist rec. readFile path = Inr raw \<and> unmarshal raw = Inr (stated_weights hist rec w) \<and>
         pd hist = Inr (swHistoricalHalfLife w) \<and> pd rec = Inr (swRecencyHalfLife w))"
    by (auto simp: loadWeightsFile_def res_bind_eq_Inr staged collect_weights_Inr)
  have "collect ''weights file'' (read_weights pd fl) = Inl (ConfigMissing ''weights file'' keys) \<longleftrightarrow>
      weights_missing fl = keys \<and> keys \<noteq> []" for fl keys
    by (auto simp: collect_weights split: list.splits)
  note collected = this
  show "loadWeightsFile readFile unmarshal pd path = Inl (ConfigMissing ''weights file'' keys) \<longleftrightarrow>
      (\<exists>raw fl. readFile path = Inr raw \<and> unmarshal raw = Inr fl \<and> weights_missing fl = keys \<and> keys \<noteq> [])" for keys
  proof (cases "stage readFile unmarshal path ''weights file''")
    case (Inl e)
    with staged not_missing show ?thesis by (simp add: loadWeightsFile_def res_bind_def)
  next
    case (Inr fl)
    with staged have "readFile path = Inr raw \<and> unmarshal raw = Inr fl' \<Longrightarrow> fl' = fl" for raw fl'
      by (metis sum.inject(2))
    moreover from Inr staged obtain raw where "readFile path = Inr raw" "unmarshal raw = Inr fl" by blast
    ultimately show ?thesis using Inr collected [of fl keys] by (auto simp: loadWeightsFile_def res_bind_def)
  qed
qed

end
