(* ===== verification/Engine.thy ===== *)
theory Engine
  imports Grading ConfigFile Beat Contract
begin

text \<open>
  The reason loop of \<^verbatim>\<open>src/internal/clank/engine.go\<close> with its intake (\<^verbatim>\<open>intake.go\<close>), its terminal tools
  (\<^verbatim>\<open>tools.go\<close>) and the directory transport that drives it (\<^verbatim>\<open>transport.go\<close>, \<^verbatim>\<open>decline.go\<close>).

  The model, the evidence tools, the topology and change sources, the checkpoint store, the JSON
  decoders, the journal and the publisher are seams of the source and fields of the record
  \<open>engine\<close> here. Each stateful one takes and returns a world \<open>'w\<close>, so a model that answers
  differently every turn is a function of the world. The prose of the seed prompt is one of the
  seams. Clock readings, context cancellation and what other goroutines do to the shared ledger
  while the model reasons are the record \<open>readings\<close>. Logs, spans and token accounting are not
  modelled.
\<close>

subsection \<open>The conversation\<close>

record tool_call =
  callID :: string
  callName :: string
  callArgs :: string

record tool_result =
  trCallID :: string
  trDigest :: string
  trName :: string
  trIsError :: bool

record message =
  msgRole :: string
  msgContent :: string
  msgToolCalls :: "tool_call list"
  msgToolResults :: "tool_result list"

record completion =
  cmpMessage :: message
  cmpToolCalls :: "tool_call list"

record turn =
  tnRunID :: string
  tnStep :: nat
  tnMsgs :: "message list"

subsection \<open>What the model may author\<close>

record propose_candidate =
  pcaID :: string
  pcaContractRef :: string
  pcaConfidence :: "real option"
  pcaCitations :: "string list"

record propose_input =
  pinFailureClass :: failure_class
  pinHypotheses :: "hypothesis list"
  pinProposals :: "propose_candidate list"

record insufficient_input =
  insReason :: string
  insFailureClass :: failure_class

definition authored_candidate :: "propose_candidate \<Rightarrow> candidate" where
  "authored_candidate c =
     \<lparr>cndID = pcaID c, cndContractRef = pcaContractRef c,
      cndConfidence = (case pcaConfidence c of None \<Rightarrow> 1 | Some x \<Rightarrow> x),
      cndComputedConfidence = 0, cndConfidenceCeilingBound = False, cndTerms = zero_terms,
      cndPredictedImpact = None, cndBlastTier = BlastOther [], cndReversalPath = None,
      cndGovernanceLevel = None, cndRank = 0, cndCitations = pcaCitations c\<rparr>"

definition candidates :: "propose_input \<Rightarrow> candidate list" where
  "candidates p = map authored_candidate (pinProposals p)"

subsection \<open>The engine\<close>

datatype engine_error =
    OpenDupes ledger_error
  | TopologySource string
  | ChangeSource string
  | ModelComplete nat string
  | CheckpointFailed nat string
  | DecodePropose string
  | DecodeInsufficient string
  | ToolFailed string string
  | RecordFailed ledger_error
  | JournalFailed string
  | PublishFailed string

record 'w engine =
  enTopology :: "detection \<Rightarrow> 'w \<Rightarrow> (string + topology_snapshot) \<times> 'w"
  enChanges :: "detection \<Rightarrow> 'w \<Rightarrow> (string + change_snapshot) \<times> 'w"
  enComplete :: "message list \<Rightarrow> 'w \<Rightarrow> (string + completion) \<times> 'w"
  enTools :: "string \<Rightarrow> (string \<Rightarrow> 'w \<Rightarrow> (string + evidence_ref) \<times> 'w) option"
  enSeedPrompt :: "detection \<Rightarrow> sao \<Rightarrow> action_contract list \<Rightarrow> string"
  enDecodePropose :: "string \<Rightarrow> string + propose_input"
  enDecodeInsufficient :: "string \<Rightarrow> string + insufficient_input"
  enCheckpoint :: "turn \<Rightarrow> 'w \<Rightarrow> string option \<times> 'w"
  enFinish :: "string \<Rightarrow> engine_error option \<Rightarrow> 'w \<Rightarrow> string option \<times> 'w"
  enJournal :: "(proposal_set \<Rightarrow> 'w \<Rightarrow> string option \<times> 'w) option"
  enPub :: "(proposal_set \<Rightarrow> 'w \<Rightarrow> string option \<times> 'w) option"
  enCatalog :: static_catalog
  enScorerPrior :: prior
  enPrior :: prior
  enDedupeWindow :: duration
  enMaxSteps :: int
  enWeights :: scoring_weights

record 'w engine_state =
  esLedger :: proposal_log
  esRecorder :: "recorder option"
  esJournaled :: "proposal_set list"
  esPublished :: "proposal_set list"
  esWorld :: 'w

record readings =
  rdOpenNow :: time
  rdRunNanos :: int
  rdAssembledAt :: time
  rdGateNow :: time
  rdPruneNow :: time
  rdStamp :: time
  rdCancelledOpen :: bool
  rdCancelledGate :: bool
  rdCancelledRecord :: bool
  rdMeanwhile :: "proposal_log \<Rightarrow> proposal_log"

subsection \<open>Intake\<close>

definition topologyFromSignal :: "topology_context \<Rightarrow> topology_snapshot" where
  "topologyFromSignal t =
     (let node = (\<lambda>n. \<lparr>nsName = onName n, nsState = onState n, nsDegradedSince = 0, nsTrafficShare = 0\<rparr>)
      in \<lparr>tsUpstream = map node (tcUpstream t), tsDownstream = map node (tcDownstream t)\<rparr>)"

definition assemble ::
  "'w engine \<Rightarrow> readings \<Rightarrow> detection \<Rightarrow> 'w \<Rightarrow> (engine_error + sao) \<times> 'w" where
  "assemble e rd sig w =
     (case enTopology e sig w of
        (Inl err, w1) \<Rightarrow> (Inl (TopologySource err), w1)
      | (Inr topo, w1) \<Rightarrow>
          (let topo = (if tsUpstream topo = [] \<and> tsDownstream topo = []
                       then topologyFromSignal (detTopology sig) else topo)
           in case enChanges e sig w1 of
                (Inl err, w2) \<Rightarrow> (Inl (ChangeSource err), w2)
              | (Inr change, w2) \<Rightarrow>
                  (Inr \<lparr>saoVersion = 1, saoAssembledAt = rdAssembledAt rd,
                        saoSignal = \<lparr>ssConfidence = divConfidence (detDivergence sig),
                          ssMetric = divMetric (detDivergence sig),
                          ssSeverity = impSeverity (detImpact sig),
                          ssBlastRadius = impBlastRadius (detImpact sig),
                          ssOriginService = detOriginService sig\<rparr>,
                        saoTopology = topo, saoChange = change\<rparr>, w2)))"

subsection \<open>The loop\<close>

definition evidenceKey :: "string \<Rightarrow> nat \<Rightarrow> string" where
  "evidenceKey tool n = tool @ ''-'' @ show_nat n"

fun withCallIDs_from :: "nat \<Rightarrow> tool_call list \<Rightarrow> nat \<Rightarrow> tool_call list" where
  "withCallIDs_from i [] step = []"
| "withCallIDs_from i (c # cs) step =
     (if callID c = [] then c\<lparr>callID := ''call_'' @ show_nat step @ ''_'' @ show_nat i\<rparr> else c)
     # withCallIDs_from (Suc i) cs step"

definition withCallIDs :: "tool_call list \<Rightarrow> nat \<Rightarrow> tool_call list" where
  "withCallIDs calls step = withCallIDs_from 0 calls step"

record loop_state =
  lsSet :: proposal_set
  lsMsgs :: "message list"
  lsEvidence :: "evidence_ref list"
  lsProposed :: bool
  lsDeclined :: bool

definition set_reason :: "string \<Rightarrow> proposal_set \<Rightarrow> proposal_set" where
  "set_reason why ps = ps\<lparr>psStatus := map_option (\<lambda>st. st\<lparr>stReason := why\<rparr>) (psStatus ps)\<rparr>"

definition set_phase :: "phase \<Rightarrow> proposal_set \<Rightarrow> proposal_set" where
  "set_phase ph ps = ps\<lparr>psStatus := map_option (\<lambda>st. st\<lparr>stPhase := ph\<rparr>) (psStatus ps)\<rparr>"

text \<open>One turn's tool calls in order: the answer is whether the run is done, with the digests.\<close>

fun dispatch_calls ::
  "'w engine \<Rightarrow> tool_call list \<Rightarrow> tool_result list \<Rightarrow> loop_state \<Rightarrow> 'w \<Rightarrow>
   (engine_error + bool \<times> tool_result list \<times> loop_state) \<times> 'w" where
  "dispatch_calls e [] results ls w = (Inr (False, results, ls), w)"
| "dispatch_calls e (call # calls) results ls w =
     (if callName call = ''propose'' then
        (case enDecodePropose e (callArgs call) of
           Inl err \<Rightarrow> (Inl (DecodePropose err), w)
         | Inr p \<Rightarrow>
             (Inr (True, results,
                   ls\<lparr>lsSet := (lsSet ls)\<lparr>psFailureClass := pinFailureClass p,
                        psHypotheses := pinHypotheses p, psProposals := candidates p\<rparr>,
                      lsProposed := True\<rparr>), w))
      else if callName call = ''insufficient'' then
        (case enDecodeInsufficient e (callArgs call) of
           Inl err \<Rightarrow> (Inl (DecodeInsufficient err), w)
         | Inr i \<Rightarrow>
             (Inr (True, results,
                   ls\<lparr>lsSet := (set_reason (insReason i) (lsSet ls))\<lparr>psFailureClass := insFailureClass i\<rparr>,
                      lsDeclined := True\<rparr>), w))
      else
        (case enTools e (callName call) of
           None \<Rightarrow>
             dispatch_calls e calls
               (results @ [\<lparr>trCallID = callID call, trDigest = ''unknown tool '' @ go_quote (callName call),
                            trName = callName call, trIsError = True\<rparr>]) ls w
         | Some run \<Rightarrow>
             (case run (callArgs call) w of
                (Inl err, w1) \<Rightarrow> (Inl (ToolFailed (callName call) err), w1)
              | (Inr ref, w1) \<Rightarrow>
                  (let ref = (if evKey ref = []
                              then ref\<lparr>evKey := evidenceKey (callName call) (length (lsEvidence ls))\<rparr> else ref);
                       content = (if evKey ref \<noteq> [] then evSummary ref @ '' [cite: '' @ evKey ref @ '']''
                                  else evSummary ref)
                   in dispatch_calls e calls
                        (results @ [\<lparr>trCallID = callID call, trDigest = content,
                                     trName = callName call, trIsError = False\<rparr>])
                        (ls\<lparr>lsEvidence := lsEvidence ls @ [ref]\<rparr>) w1))))"

text \<open>The bounded loop: \<open>n\<close> turns are left, \<open>step\<close> have been taken.\<close>

fun reason_loop ::
  "'w engine \<Rightarrow> string \<Rightarrow> nat \<Rightarrow> nat \<Rightarrow> loop_state \<Rightarrow> 'w \<Rightarrow> (engine_error + loop_state) \<times> 'w" where
  "reason_loop e runID 0 step ls w = (Inr ls, w)"
| "reason_loop e runID (Suc n) step ls w =
     (case enComplete e (lsMsgs ls) w of
        (Inl err, w1) \<Rightarrow> (Inl (ModelComplete step err), w1)
      | (Inr cm, w1) \<Rightarrow>
          (let calls = withCallIDs (cmpToolCalls cm) step;
               msgs = lsMsgs ls @ [(cmpMessage cm)\<lparr>msgToolCalls := calls\<rparr>];
               ls1 = ls\<lparr>lsMsgs := msgs\<rparr>
           in case enCheckpoint e \<lparr>tnRunID = runID, tnStep = step, tnMsgs = msgs\<rparr> w1 of
                (Some err, w2) \<Rightarrow> (Inl (CheckpointFailed step err), w2)
              | (None, w2) \<Rightarrow>
                  (if calls = [] then
                     (Inr (ls1\<lparr>lsSet := set_reason ''model ended turn without a tool call'' (lsSet ls1),
                               lsDeclined := True\<rparr>), w2)
                   else
                     (case dispatch_calls e calls [] ls1 w2 of
                        (Inl err, w3) \<Rightarrow> (Inl err, w3)
                      | (Inr (done, results, ls2), w3) \<Rightarrow>
                          (let ls3 = (if results \<noteq> []
                                 then ls2\<lparr>lsMsgs := lsMsgs ls2 @ [\<lparr>msgRole = ''tool'', msgContent = [],
                                        msgToolCalls = [], msgToolResults = results\<rparr>]\<rparr>
                                 else ls2)
                           in if done then (Inr ls3, w3) else reason_loop e runID n (Suc step) ls3 w3)))))"

subsection \<open>The autonomy boundary\<close>

datatype refusal =
    ClassMismatch string failure_class
  | OutsideCatalog string
  | CitesNothing string
  | CitesUngathered string

fun refusal_text :: "refusal \<Rightarrow> string" where
  "refusal_text (ClassMismatch ref cls) =
     ''candidate not applicable to declared failure class: '' @ go_quote ref @
     '' does not apply to declared class '' @ go_quote cls"
| "refusal_text (OutsideCatalog ref) = ''contract: proposed contract not in catalog: '' @ go_quote ref"
| "refusal_text (CitesNothing i) =
     ''candidate cites evidence the run did not gather: candidate '' @ go_quote i @ '' carries no citations''"
| "refusal_text (CitesUngathered cite) =
     ''candidate cites evidence the run did not gather: '' @ go_quote cite"

fun check_catalog :: "static_catalog \<Rightarrow> string set \<Rightarrow> failure_class \<Rightarrow> candidate list \<Rightarrow> refusal option" where
  "check_catalog cat allowed cls [] = None"
| "check_catalog cat allowed cls (c # cs) =
     (if cndContractRef c \<in> allowed then check_catalog cat allowed cls cs
      else case byName cat (cndContractRef c) of
             Some _ \<Rightarrow> Some (ClassMismatch (cndContractRef c) cls)
           | None \<Rightarrow> Some (OutsideCatalog (cndContractRef c)))"

definition enforceCatalog :: "static_catalog \<Rightarrow> proposal_set \<Rightarrow> sao \<Rightarrow> refusal option" where
  "enforceCatalog cat ps s =
     check_catalog cat (set (map acName (applicable cat (psFailureClass ps) (psServiceTier ps) s)))
       (psFailureClass ps) (psProposals ps)"

fun check_citations :: "string set \<Rightarrow> candidate list \<Rightarrow> refusal option" where
  "check_citations gathered [] = None"
| "check_citations gathered (c # cs) =
     (if cndCitations c = [] then Some (CitesNothing (cndID c))
      else case List.find (\<lambda>cite. cite \<notin> gathered) (cndCitations c) of
             Some cite \<Rightarrow> Some (CitesUngathered cite)
           | None \<Rightarrow> check_citations gathered cs)"

definition enforceCitations :: "proposal_set \<Rightarrow> refusal option" where
  "enforceCitations ps =
     check_citations (set (filter (\<lambda>k. k \<noteq> []) (map evKey (psEvidence ps)))) (psProposals ps)"

definition automaticReversal :: "exec_step list \<Rightarrow> bool" where
  "automaticReversal steps \<longleftrightarrow> \<not> list_ex (\<lambda>s. stpVerb s = ''maintenanceRelease'') steps"

definition enrich_candidate :: "static_catalog \<Rightarrow> candidate \<Rightarrow> candidate" where
  "enrich_candidate cat cand =
     (case byName cat (cndContractRef cand) of
        None \<Rightarrow> cand
      | Some c \<Rightarrow>
          (let cand = cand\<lparr>cndBlastTier := acBlastTier c\<rparr>;
               sc = acSuccessCriteria c;
               cand = (if scSeverityReductionPct sc \<noteq> 0
                       then cand\<lparr>cndPredictedImpact :=
                              Some ((case cndPredictedImpact cand of
                                       None \<Rightarrow> \<lparr>piSeverityReductionPct = 0, piBlastRadiusDelta = 0,
                                                piSLOEffects = Map.empty\<rparr>
                                     | Some p \<Rightarrow> p)\<lparr>piSeverityReductionPct := scSeverityReductionPct sc\<rparr>)\<rparr>
                       else cand)
           in if rvMethod (acReversal c) \<noteq> []
              then cand\<lparr>cndReversalPath := Some \<lparr>rpMethod = rvMethod (acReversal c), rpWatching = scMetric sc,
                           rpTrigger = scTarget sc,
                           rpAutomatic = automaticReversal (exReverse (acExecution c))\<rparr>,
                        cndGovernanceLevel := Some \<lparr>glBand = band_string BandActReversible, glThresholdApplied = 0\<rparr>\<rparr>
              else cand\<lparr>cndGovernanceLevel := Some \<lparr>glBand = band_string BandActDisruptive, glThresholdApplied = 0\<rparr>\<rparr>))"

definition enrichFromCatalog :: "static_catalog \<Rightarrow> candidate list \<Rightarrow> candidate list" where
  "enrichFromCatalog cat cs = map (enrich_candidate cat) cs"

subsection \<open>Propose\<close>

definition journal ::
  "'w engine \<Rightarrow> proposal_set \<Rightarrow> 'w engine_state \<Rightarrow> engine_error option \<times> 'w engine_state" where
  "journal e ps st =
     (case enJournal e of
        None \<Rightarrow> (None, st)
      | Some pub \<Rightarrow>
          (case pub ps (esWorld st) of
             (Some err, w) \<Rightarrow> (Some (JournalFailed err), st\<lparr>esWorld := w\<rparr>)
           | (None, w) \<Rightarrow> (None, st\<lparr>esWorld := w, esJournaled := esJournaled st @ [ps]\<rparr>)))"

text \<open>Every terminal branch records the set in the ledger and then journals it.\<close>

definition conclude ::
  "'w engine \<Rightarrow> readings \<Rightarrow> proposal_set \<Rightarrow> 'w engine_state \<Rightarrow>
   (engine_error + proposal_set option) \<times> 'w engine_state" where
  "conclude e rd ps st =
     (case plog_record (rdCancelledRecord rd) (rdPruneNow rd) (rdStamp rd) ps (esLedger st) of
        (Some err, l) \<Rightarrow> (Inl (RecordFailed err), st\<lparr>esLedger := l\<rparr>)
      | (None, l) \<Rightarrow>
          (case journal e ps (st\<lparr>esLedger := l\<rparr>) of
             (Some err, st') \<Rightarrow> (Inl err, st')
           | (None, st') \<Rightarrow> (Inr (Some ps), st')))"

definition refuse :: "refusal \<Rightarrow> proposal_set \<Rightarrow> proposal_set" where
  "refuse r ps = set_reason (refusal_text r) (set_phase PhaseNoAction ps)"

definition grade ::
  "'w engine \<Rightarrow> detection \<Rightarrow> sao \<Rightarrow> proposal_set \<Rightarrow> proposal_set" where
  "grade e sig s ps =
     (let ps = ps\<lparr>psProposals := enrichFromCatalog (enCatalog e) (psProposals ps)\<rparr>;
          ps = ps\<lparr>psCausalScores := causal_scores (psSignalRef ps) (saoChange s) (saoTopology s) (enWeights e)
                    (enScorerPrior e)\<rparr>;
          ps = scoreConfidences ps s (enPrior e) (detFingerprint sig) (enWeights e);
          (ranked, why) = rank (psProposals ps) (brVelocity (impBlastRadius (detImpact sig)))
      in ps\<lparr>psProposals := ranked, psRankingRationale := Some why,
            psRecommended := (case ranked of [] \<Rightarrow> psRecommended ps | c # _ \<Rightarrow> cndID c)\<rparr>)"

definition apply_gate :: "proposal_set \<Rightarrow> proposal_set list \<Rightarrow> proposal_set" where
  "apply_gate ps openDupes =
     (let gate = gate_evaluate ps openDupes;
          ps = ps\<lparr>psGate := Some gate\<rparr>
      in if grPassed gate then set_phase PhaseProposed ps
         else set_reason (grReason gate) (set_phase PhaseNoAction ps))"

definition set_gate_passed :: "proposal_set \<Rightarrow> bool" where
  "set_gate_passed ps = (case psGate ps of None \<Rightarrow> False | Some g \<Rightarrow> grPassed g)"

definition publish ::
  "'w engine \<Rightarrow> proposal_set \<Rightarrow> 'w engine_state \<Rightarrow> (engine_error + proposal_set option) \<times> 'w engine_state" where
  "publish e ps st =
     (if set_gate_passed ps then
        (case enPub e of
           None \<Rightarrow> (Inr (Some ps), st)
         | Some pub \<Rightarrow>
             (case pub ps (esWorld st) of
                (Some err, w) \<Rightarrow> (Inl (PublishFailed err), st\<lparr>esWorld := w\<rparr>)
              | (None, w) \<Rightarrow> (Inr (Some ps), st\<lparr>esWorld := w, esPublished := esPublished st @ [ps]\<rparr>)))
      else (Inr (Some ps), st))"

definition finish_run ::
  "'w engine \<Rightarrow> readings \<Rightarrow> detection \<Rightarrow> sao \<Rightarrow> loop_state \<Rightarrow> 'w engine_state \<Rightarrow>
   (engine_error + proposal_set option) \<times> 'w engine_state" where
  "finish_run e rd sig s ls st =
     (let ps = (lsSet ls)\<lparr>psEvidence := lsEvidence ls\<rparr>
      in if \<not> lsProposed ls \<and> \<not> lsDeclined ls then
           conclude e rd
             (set_phase PhaseBudgetExhausted
                (ps\<lparr>psGate := Some \<lparr>grBudgetOK = False, grDedupeOK = False, grEvidenceOK = False,
                                    grPassed = False, grReason = ''budget''\<rparr>\<rparr>)) st
         else if \<not> lsProposed ls then
           conclude e rd (if map_option stPhase (psStatus ps) = Some (PhaseOther [])
                          then set_phase PhaseNoAction ps else ps) st
         else case enforceCatalog (enCatalog e) ps s of
                Some r \<Rightarrow> conclude e rd (refuse r ps) st
              | None \<Rightarrow>
                  (case enforceCitations ps of
                     Some r \<Rightarrow> conclude e rd (refuse r ps) st
                   | None \<Rightarrow>
                       (let ps = grade e sig s ps
                        in case plog_open (rdCancelledGate rd) (detFingerprint sig)
                                  (rdGateNow rd - enDedupeWindow e) (esLedger st) of
                             Inl err \<Rightarrow> (Inl (OpenDupes err), st)
                           | Inr openDupes \<Rightarrow>
                               (case conclude e rd (apply_gate ps openDupes) st of
                                  (Inl err, st') \<Rightarrow> (Inl err, st')
                                | (Inr _, st') \<Rightarrow> publish e (apply_gate ps openDupes) st'))))"

definition run_id :: "readings \<Rightarrow> detection \<Rightarrow> string" where
  "run_id rd sig = detFingerprint sig @ ''/'' @ show_int (rdRunNanos rd)"

definition zero_status :: status where
  "zero_status = \<lparr>stPhase = PhaseOther [], stReason = [], stSupersededBy = [], stOutcome = [],
     stObservedAt = zero_time\<rparr>"

definition new_set :: "readings \<Rightarrow> detection \<Rightarrow> sao \<Rightarrow> proposal_set" where
  "new_set rd sig s =
     \<lparr>psName = detName sig, psRunID = run_id rd sig, psSignalRef = detFingerprint sig,
      psSLORef = detSLORef sig, psSAOSnapshot = Some s, psFailureClass = [], psCausalScores = [],
      psHypotheses = [], psEvidence = [], psServiceTier = detServiceTier sig, psGate = None,
      psProposals = [], psRecommended = [], psRankingRationale = None, psStatus = Some zero_status\<rparr>"

definition initial_loop :: "'w engine \<Rightarrow> readings \<Rightarrow> detection \<Rightarrow> sao \<Rightarrow> loop_state" where
  "initial_loop e rd sig s =
     \<lparr>lsSet = new_set rd sig s,
      lsMsgs = [\<lparr>msgRole = ''user'',
                 msgContent = enSeedPrompt e sig s (applicableToTier (enCatalog e) (detServiceTier sig) s),
                 msgToolCalls = [], msgToolResults = []\<rparr>],
      lsEvidence = [], lsProposed = False, lsDeclined = False\<rparr>"

definition propose_run ::
  "'w engine \<Rightarrow> readings \<Rightarrow> detection \<Rightarrow> 'w engine_state \<Rightarrow>
   (engine_error + proposal_set option) \<times> 'w engine_state" where
  "propose_run e rd sig st =
     (case assemble e rd sig (esWorld st) of
        (Inl err, w) \<Rightarrow> (Inl err, st\<lparr>esWorld := w\<rparr>)
      | (Inr s, w) \<Rightarrow>
          (case reason_loop e (run_id rd sig) (nat (enMaxSteps e)) 0 (initial_loop e rd sig s) w of
             (Inl err, w') \<Rightarrow> (Inl err, st\<lparr>esWorld := w'\<rparr>)
           | (Inr ls, w') \<Rightarrow>
               finish_run e rd sig s ls
                 (st\<lparr>esWorld := w', esLedger := rdMeanwhile rd (esLedger st)\<rparr>)))"

text \<open>
  The whole call. \<open>Inr None\<close> is the zero set of a skipped redelivery. The deferred terminal record
  of the store runs on every path after the precheck; its own failure is only logged.
\<close>

definition propose ::
  "'w engine \<Rightarrow> readings \<Rightarrow> detection \<Rightarrow> 'w engine_state \<Rightarrow>
   (engine_error + proposal_set option) \<times> 'w engine_state" where
  "propose e rd sig st =
     (case plog_open (rdCancelledOpen rd) (detFingerprint sig) (rdOpenNow rd - enDedupeWindow e) (esLedger st) of
        Inl err \<Rightarrow> (Inl (OpenDupes err), st)
      | Inr found \<Rightarrow>
          (if found \<noteq> [] then
             (Inr None, st\<lparr>esRecorder := map_option recordRedeliverySkipped (esRecorder st)\<rparr>)
           else
             (let (res, st') = propose_run e rd sig st;
                  (_, w) = enFinish e (run_id rd sig)
                             (case res of Inl err \<Rightarrow> Some err | Inr _ \<Rightarrow> None) (esWorld st')
              in (res, st'\<lparr>esWorld := w\<rparr>))))"

subsection \<open>What the loop keeps of the set\<close>

text \<open>
  The contract of the loop towards the rest of \<open>propose\<close>: what the three ways the model can touch
  the set keep, every run of the loop keeps.
\<close>

locale loop_invariant =
  fixes keeps :: "proposal_set \<Rightarrow> bool"
  assumes keeps_propose: "keeps ps \<Longrightarrow>
      keeps (ps\<lparr>psFailureClass := pinFailureClass p, psHypotheses := pinHypotheses p, psProposals := candidates p\<rparr>)"
    and keeps_class: "keeps ps \<Longrightarrow> keeps (ps\<lparr>psFailureClass := cls\<rparr>)"
    and keeps_reason: "keeps ps \<Longrightarrow> keeps (set_reason why ps)"
begin

lemma dispatch_calls_keeps:
  "dispatch_calls e calls results ls w = (Inr (d, rs, ls'), w') \<Longrightarrow> keeps (lsSet ls) \<Longrightarrow> keeps (lsSet ls')"
proof (induction e calls results ls w arbitrary: d rs ls' w' rule: dispatch_calls.induct)
  case (2 e call calls results ls w)
  consider (propose) "callName call = ''propose''" | (insufficient) "callName call = ''insufficient''"
    | (tool) "callName call \<noteq> ''propose''" "callName call \<noteq> ''insufficient''" by blast
  then show ?case
  proof cases
    case tool
    with 2 show ?thesis
      by (auto simp: Let_def split: option.splits prod.splits sum.splits)
  qed (use 2 in \<open>auto simp: keeps_propose keeps_class keeps_reason split: sum.splits\<close>)
qed simp

lemma reason_loop_keeps:
  "reason_loop e runID n step ls w = (Inr ls', w') \<Longrightarrow> keeps (lsSet ls) \<Longrightarrow> keeps (lsSet ls')"
proof (induction n arbitrary: step ls w)
  case (Suc n)
  from Suc.prems(1) obtain cm w1 where cm: "enComplete e (lsMsgs ls) w = (Inr cm, w1)"
    by (auto split: prod.splits sum.splits)
  define calls where "calls = withCallIDs (cmpToolCalls cm) step"
  define ls1 where "ls1 = ls\<lparr>lsMsgs := lsMsgs ls @ [(cmpMessage cm)\<lparr>msgToolCalls := calls\<rparr>]\<rparr>"
  have kept1: "keeps (lsSet ls1)" using Suc.prems(2) by (simp add: ls1_def)
  show ?case
  proof (cases "calls = []")
    case True
    with cm Suc.prems show ?thesis
      by (auto simp: Let_def calls_def ls1_def keeps_reason split: prod.splits option.splits)
  next
    case False
    with cm Suc.prems(1) obtain w2 d rs ls2 w3 where disp: "dispatch_calls e calls [] ls1 w2 = (Inr (d, rs, ls2), w3)"
      and rest: "(let ls3 = (if rs \<noteq> [] then ls2\<lparr>lsMsgs := lsMsgs ls2 @ [\<lparr>msgRole = ''tool'', msgContent = [],
                   msgToolCalls = [], msgToolResults = rs\<rparr>]\<rparr> else ls2)
                 in if d then (Inr ls3, w3) else reason_loop e runID n (Suc step) ls3 w3) = (Inr ls', w')"
      by (auto simp: Let_def calls_def ls1_def split: prod.splits option.splits sum.splits)
    from dispatch_calls_keeps [OF disp kept1] have kept2: "keeps (lsSet ls2)" .
    from rest kept2 show ?thesis by (auto simp: Let_def intro: Suc.IH split: if_splits)
  qed
qed simp

end

text \<open>The set a run works on: identified by its detection, not yet graded, with authored candidates only.\<close>

definition ungraded :: "readings \<Rightarrow> detection \<Rightarrow> sao \<Rightarrow> proposal_set \<Rightarrow> bool" where
  "ungraded rd sig s ps \<longleftrightarrow>
     psName ps = detName sig \<and> psRunID ps = run_id rd sig \<and> psSignalRef ps = detFingerprint sig \<and>
     psSLORef ps = detSLORef sig \<and> psSAOSnapshot ps = Some s \<and> psServiceTier ps = detServiceTier sig \<and>
     psGate ps = None \<and> psRecommended ps = [] \<and> map_option stPhase (psStatus ps) = Some (PhaseOther []) \<and>
     (\<forall>c \<in> set (psProposals ps). \<exists>p. c = authored_candidate p)"

interpretation run: loop_invariant "ungraded rd sig s" for rd sig s
  by unfold_locales
    (auto simp: ungraded_def candidates_def set_reason_def option.map_comp comp_def)

lemma ungraded_new_set: "ungraded rd sig s (new_set rd sig s)"
  by (simp add: ungraded_def new_set_def zero_status_def)

lemma reason_loop_ungraded:
  assumes "reason_loop e (run_id rd sig) n step (initial_loop e rd sig s) w = (Inr ls, w')"
  shows "ungraded rd sig s (lsSet ls)"
proof -
  have "lsSet (initial_loop e rd sig s) = new_set rd sig s" by (simp add: initial_loop_def)
  with run.reason_loop_keeps [OF assms] ungraded_new_set show ?thesis by simp
qed

subsection \<open>The autonomy boundary holds\<close>

lemma check_catalog_None:
  "check_catalog cat allowed cls cs = None \<longleftrightarrow> (\<forall>c \<in> set cs. cndContractRef c \<in> allowed)"
  by (induction cs) (auto split: option.splits)

lemma check_citations_None:
  "check_citations gathered cs = None \<longleftrightarrow>
     (\<forall>c \<in> set cs. cndCitations c \<noteq> [] \<and> set (cndCitations c) \<subseteq> gathered)"
proof (induction cs)
  case (Cons c cs)
  show ?case
  proof (cases "List.find (\<lambda>cite. cite \<notin> gathered) (cndCitations c)")
    case None
    then have "set (cndCitations c) \<subseteq> gathered" by (auto simp: find_None_iff)
    with None Cons.IH show ?thesis by auto
  next
    case (Some cite)
    then have "cite \<in> set (cndCitations c)" "cite \<notin> gathered" by (auto simp: find_Some_iff)
    with Some show ?thesis by auto
  qed
qed simp

text \<open>A candidate that came through grading, with the authored candidate it came from.\<close>

definition graded_from :: "static_catalog \<Rightarrow> candidate \<Rightarrow> candidate \<Rightarrow> bool" where
  "graded_from cat c c' \<longleftrightarrow>
     cndID c' = cndID c \<and> cndContractRef c' = cndContractRef c \<and> cndCitations c' = cndCitations c \<and>
     cndConfidence c' \<le> cndConfidence c \<and> cndConfidence c' \<le> cndComputedConfidence c' \<and>
     (\<forall>k. byName cat (cndContractRef c) = Some k \<longrightarrow> cndBlastTier c' = acBlastTier k)"

lemma enrich_candidate_sel [simp]:
  "cndID (enrich_candidate cat c) = cndID c"
  "cndContractRef (enrich_candidate cat c) = cndContractRef c"
  "cndCitations (enrich_candidate cat c) = cndCitations c"
  "cndConfidence (enrich_candidate cat c) = cndConfidence c"
  by (simp_all add: enrich_candidate_def Let_def split: option.split)

lemma enrich_candidate_blast:
  "byName cat (cndContractRef c) = Some k \<Longrightarrow> cndBlastTier (enrich_candidate cat c) = acBlastTier k"
  by (simp add: enrich_candidate_def Let_def)

lemma graded_from_score_rank:
  "graded_from cat c ((score_candidate ps s prior fp w (enrich_candidate cat c))\<lparr>cndRank := r\<rparr>)"
  by (auto simp: graded_from_def enrich_candidate_blast)
    (auto simp: score_candidate_def Let_def)

lemma set_ranks_set: "c \<in> set (set_ranks k cs) \<Longrightarrow> \<exists>c0 \<in> set cs. \<exists>r. c = c0\<lparr>cndRank := r\<rparr>"
  by (induction cs arbitrary: k) auto

lemma rank_set: "c \<in> set (fst (rank cs v)) \<Longrightarrow> \<exists>c0 \<in> set cs. \<exists>r. c = c0\<lparr>cndRank := r\<rparr>"
  using set_ranks_set [of c 0 "sort_key (\<lambda>c. sint (timeToEffect c)) cs"] set_ranks_set [of c 0 cs]
  by (auto simp: rank_def split: if_splits)

lemma grade_sel [simp]:
  "psSignalRef (grade e sig s ps) = psSignalRef ps" "psName (grade e sig s ps) = psName ps"
  "psSAOSnapshot (grade e sig s ps) = psSAOSnapshot ps" "psServiceTier (grade e sig s ps) = psServiceTier ps"
  "psFailureClass (grade e sig s ps) = psFailureClass ps" "psEvidence (grade e sig s ps) = psEvidence ps"
  "psStatus (grade e sig s ps) = psStatus ps" "psSLORef (grade e sig s ps) = psSLORef ps"
  by (simp_all add: grade_def Let_def scoreConfidences_def split: prod.split)

lemma grade_candidates:
  assumes "c' \<in> set (psProposals (grade e sig s ps))"
  shows "\<exists>c \<in> set (psProposals ps). graded_from (enCatalog e) c c'"
proof -
  let ?ps = "ps\<lparr>psProposals := enrichFromCatalog (enCatalog e) (psProposals ps),
      psCausalScores := causal_scores (psSignalRef ps) (saoChange s) (saoTopology s) (enWeights e) (enScorerPrior e)\<rparr>"
  from assms have "c' \<in> set (fst (rank (psProposals (scoreConfidences ?ps s (enPrior e) (detFingerprint sig) (enWeights e)))
      (brVelocity (impBlastRadius (detImpact sig)))))"
    by (simp add: grade_def Let_def split: prod.splits)
  from rank_set [OF this] obtain c r where "c \<in> set (psProposals ps)"
    "c' = (score_candidate ?ps s (enPrior e) (detFingerprint sig) (enWeights e) (enrich_candidate (enCatalog e) c))\<lparr>cndRank := r\<rparr>"
    by (auto simp: scoreConfidences_def enrichFromCatalog_def)
  then show ?thesis using graded_from_score_rank by blast
qed

lemma grade_recommended:
  assumes "psRecommended ps = []"
  shows "psRecommended (grade e sig s ps) =
    (case psProposals (grade e sig s ps) of [] \<Rightarrow> [] | c # _ \<Rightarrow> cndID c)"
  using assms by (simp add: grade_def Let_def scoreConfidences_def split: prod.split list.split)

text \<open>What the rest of the system may rely on for a delivered set.\<close>

definition deliverable :: "'w engine \<Rightarrow> detection \<Rightarrow> proposal_set \<Rightarrow> bool" where
  "deliverable e sig ps \<longleftrightarrow>
     psSignalRef ps = detFingerprint sig \<and> psServiceTier ps = detServiceTier sig \<and>
     psGate ps = Some (gate_evaluate ps []) \<and> grPassed (gate_evaluate ps []) \<and>
     map_option stPhase (psStatus ps) = Some PhaseProposed \<and>
     (\<exists>s. psSAOSnapshot ps = Some s \<and>
       (\<forall>c \<in> set (psProposals ps).
          cndContractRef c \<in> acName ` set (applicable (enCatalog e) (psFailureClass ps) (psServiceTier ps) s) \<and>
          cndCitations c \<noteq> [] \<and> set (cndCitations c) \<subseteq> evKey ` set (psEvidence ps) \<and>
          map_option acBlastTier (byName (enCatalog e) (cndContractRef c)) = Some (cndBlastTier c) \<and>
          cndConfidence c \<le> cndComputedConfidence c)) \<and>
     psRecommended ps = (case psProposals ps of [] \<Rightarrow> [] | c # _ \<Rightarrow> cndID c)"

lemma gate_evaluate_cong:
  assumes "psRecommended ps = psRecommended ps'" "psProposals ps = psProposals ps'"
    "psEvidence ps = psEvidence ps'" "psSAOSnapshot ps = psSAOSnapshot ps'"
  shows "gate_evaluate ps dupes = gate_evaluate ps' dupes"
proof -
  have "recommendedEvidence ps = recommendedEvidence ps'" unfolding recommendedEvidence_def assms ..
  then show ?thesis unfolding gate_evaluate_def assms by simp
qed

lemma apply_gate_sel [simp]:
  "psSignalRef (apply_gate ps d) = psSignalRef ps" "psServiceTier (apply_gate ps d) = psServiceTier ps"
  "psSAOSnapshot (apply_gate ps d) = psSAOSnapshot ps" "psProposals (apply_gate ps d) = psProposals ps"
  "psRecommended (apply_gate ps d) = psRecommended ps" "psEvidence (apply_gate ps d) = psEvidence ps"
  "psFailureClass (apply_gate ps d) = psFailureClass ps"
  "psGate (apply_gate ps d) = Some (gate_evaluate ps d)"
  by (simp_all add: apply_gate_def set_phase_def set_reason_def Let_def)

lemma apply_gate_phase:
  "psStatus ps = Some st \<Longrightarrow> map_option stPhase (psStatus (apply_gate ps d)) =
     Some (if grPassed (gate_evaluate ps d) then PhaseProposed else PhaseNoAction)"
  by (simp add: apply_gate_def set_phase_def set_reason_def Let_def)

lemma boundary_enforced:
  assumes set: "ungraded rd sig s ps0" "ps = ps0\<lparr>psEvidence := ev\<rparr>"
    and cat: "enforceCatalog (enCatalog e) ps s = None" and cite: "enforceCitations ps = None"
    and passed: "grPassed (gate_evaluate (grade e sig s ps) dupes)"
  shows "dupes = [] \<and> deliverable e sig (apply_gate (grade e sig s ps) dupes)"
proof -
  let ?g = "grade e sig s ps"
  from passed have dupes: "dupes = []" by (simp add: gate_passed_iff)
  have "gate_evaluate (apply_gate ?g []) [] = gate_evaluate ?g []"
    by (rule gate_evaluate_cong) simp_all
  moreover have "map_option stPhase (psStatus (apply_gate ?g [])) = Some PhaseProposed"
    using set passed dupes by (cases "psStatus ps0") (simp_all add: ungraded_def apply_gate_phase)
  moreover have "cndContractRef c \<in> acName ` set (applicable (enCatalog e) (psFailureClass ps) (psServiceTier ps) s) \<and>
      cndCitations c \<noteq> [] \<and> set (cndCitations c) \<subseteq> evKey ` set (psEvidence ps) \<and>
      map_option acBlastTier (byName (enCatalog e) (cndContractRef c)) = Some (cndBlastTier c) \<and>
      cndConfidence c \<le> cndComputedConfidence c" if "c \<in> set (psProposals ?g)" for c
  proof -
    from grade_candidates [OF that] obtain c0 where c0: "c0 \<in> set (psProposals ps)" "graded_from (enCatalog e) c0 c"
      by blast
    then have ref: "cndContractRef c \<in> acName ` set (applicable (enCatalog e) (psFailureClass ps) (psServiceTier ps) s)"
      using cat by (auto simp: enforceCatalog_def check_catalog_None graded_from_def)
    then have "cndContractRef c \<in> acName ` set (enCatalog e)" using applicable_in_catalog by blast
    then obtain k where k: "byName (enCatalog e) (cndContractRef c) = Some k"
      using cat.lookup_admits_iff by fastforce
    from c0 cite have "cndCitations c \<noteq> [] \<and> set (cndCitations c) \<subseteq> evKey ` set (psEvidence ps)"
      by (auto simp: enforceCitations_def check_citations_None graded_from_def)
    with ref k c0(2) show ?thesis by (auto simp: graded_from_def)
  qed
  moreover have "psRecommended ?g = (case psProposals ?g of [] \<Rightarrow> [] | c # _ \<Rightarrow> cndID c)"
    using set by (intro grade_recommended) (simp add: ungraded_def)
  moreover have "psSAOSnapshot ps = Some s" "psSignalRef ps = detFingerprint sig" "psServiceTier ps = detServiceTier sig"
    using set by (simp_all add: ungraded_def)
  ultimately show ?thesis using dupes passed by (simp add: deliverable_def)
qed

end
