(* ===== verification/Propose.thy ===== *)
theory Propose
  imports Engine
begin

text \<open>
  What \<open>propose\<close> guarantees, and the directory transports that drive clank
  (\<^verbatim>\<open>src/internal/clank/transport.go\<close> and \<^verbatim>\<open>decline.go\<close>): only a set that passed every check of the
  engine is delivered, every run that returns is recorded and journaled, and a fingerprint that
  already has an open set never reaches the model again inside the dedupe window.
\<close>

subsection \<open>Transports\<close>

definition maxProposeAttempts :: int where
  "maxProposeAttempts = 5"

record 'w clank_state =
  clEngine :: "'w engine_state"
  clAttempts :: "string \<rightharpoonup> int"

datatype clank_tick_error = ClankStall string string | ClankArchive string string

text \<open>The readings of each call are a function of the file, so no two calls need share a clock.\<close>

definition clank_handle ::
  "'w engine \<Rightarrow> int \<Rightarrow> (string \<Rightarrow> string \<Rightarrow> string option) \<Rightarrow> (string \<Rightarrow> readings) \<Rightarrow> string \<Rightarrow> detection \<Rightarrow>
   'w clank_state \<times> moves \<Rightarrow> clank_tick_error option \<times> 'w clank_state \<times> moves" where
  "clank_handle e limit rename rds path det = (\<lambda>(cl, moved).
     (let (res, st) = propose e (rds path) det (clEngine cl);
          cl1 = cl\<lparr>clEngine := st\<rparr>
      in case res of
           Inl _ \<Rightarrow>
             (let maxAttempts = (if limit \<le> 0 then maxProposeAttempts else limit);
                  n = map_get 0 (clAttempts cl1) path + 1
              in if maxAttempts \<le> n then
                   (let cl2 = cl1\<lparr>clAttempts := (clAttempts cl1)(path := None)\<rparr>
                    in case disposition rename path ''stalled'' moved of
                         (Some err, moved') \<Rightarrow> (Some (ClankStall path err), cl2, moved')
                       | (None, moved') \<Rightarrow> (None, cl2, moved'))
                 else (None, cl1\<lparr>clAttempts := (clAttempts cl1)(path \<mapsto> n)\<rparr>, moved))
         | Inr _ \<Rightarrow>
             (let cl2 = cl1\<lparr>clAttempts := (clAttempts cl1)(path := None)\<rparr>
              in case disposition rename path ''processed'' moved of
                   (Some err, moved') \<Rightarrow> (Some (ClankArchive path err), cl2, moved')
                 | (None, moved') \<Rightarrow> (None, cl2, moved'))))"

definition clank_tick ::
  "bool \<Rightarrow> 'w engine \<Rightarrow> int \<Rightarrow> (string \<Rightarrow> string + 'raw) \<Rightarrow> ('raw \<Rightarrow> string + detection) \<Rightarrow>
   (string \<Rightarrow> string \<Rightarrow> string option) \<Rightarrow> (string \<Rightarrow> readings) \<Rightarrow> string list \<Rightarrow>
   'w clank_state \<times> moves \<Rightarrow> clank_tick_error drain_error option \<times> 'w clank_state \<times> moves" where
  "clank_tick cancelled e limit read_file unmarshal rename rds paths cl =
     (if cancelled then (Some ContextDone, cl)
      else drainDir read_file unmarshal rename (clank_handle e limit rename rds) paths cl)"

datatype decline_error = DeclineArchive string string | DeclineUnmatch string string
  | DeclineQuarantine string string

definition decline_tick ::
  "bool \<Rightarrow> (string \<Rightarrow> bool) \<Rightarrow> (string \<Rightarrow> string + 'raw) \<Rightarrow> ('raw \<Rightarrow> string + decision) \<Rightarrow> (string \<Rightarrow> string \<Rightarrow> string option) \<Rightarrow>
   string list \<Rightarrow> proposal_log \<times> moves \<Rightarrow> decline_error drain_error option \<times> proposal_log \<times> moves" where
  "decline_tick cancelled later read_file unmarshal rename paths st =
     (if cancelled then (Some ContextDone, st) else drainDir read_file unmarshal rename
       (\<lambda>path dec (l, moved).
          (let (res, l') = plog_decline (later path) (decSignalRef dec) (decEvaluatedAt dec) l;
               (sub, wrap) = (case res of
                   Inr _ \<Rightarrow> (''processed'', DeclineArchive)
                 | Inl (ErrNoOpenSet _) \<Rightarrow> (''unmatched'', DeclineUnmatch)
                 | Inl _ \<Rightarrow> (''quarantine'', DeclineQuarantine))
           in case disposition rename path sub moved of
                (Some e, moved') \<Rightarrow> (Some (wrap path e), l', moved')
              | (None, moved') \<Rightarrow> (None, l', moved')))
       paths st)"

subsection \<open>Delivery\<close>

lemma journal_sel:
  "journal e ps st = (r, st') \<Longrightarrow>
     esPublished st' = esPublished st \<and> esLedger st' = esLedger st \<and> esRecorder st' = esRecorder st \<and>
     (r = None \<longrightarrow> esJournaled st' = esJournaled st @ (if enJournal e = None then [] else [ps]))"
  by (auto simp: journal_def split: option.splits prod.splits)

lemma plog_record_last:
  "plog_record c now stamp ps l = (None, l') \<Longrightarrow>
     plSets l' \<noteq> [] \<and> last (plSets l') = \<lparr>recSet = ps, recAt = stamp\<rparr>"
  by (auto simp: plog_record_def Let_def split: if_splits)

text \<open>The record of a set in the ledger: it is the last one.\<close>

definition recorded_last :: "readings \<Rightarrow> proposal_set \<Rightarrow> proposal_log \<Rightarrow> bool" where
  "recorded_last rd ps l \<longleftrightarrow> plSets l \<noteq> [] \<and> last (plSets l) = \<lparr>recSet = ps, recAt = rdStamp rd\<rparr>"

lemma conclude_cases:
  assumes "conclude e rd ps st = (r, st')"
  shows "esPublished st' = esPublished st \<and>
    (case r of
       Inl err \<Rightarrow> \<forall>x. err \<noteq> PublishFailed x
     | Inr x \<Rightarrow> x = Some ps \<and> recorded_last rd ps (esLedger st') \<and>
         esJournaled st' = esJournaled st @ (if enJournal e = None then [] else [ps]))"
proof (cases "plog_record (rdCancelledRecord rd) (rdPruneNow rd) (rdStamp rd) ps (esLedger st)")
  case (Pair err l)
  show ?thesis
  proof (cases err)
    case None
    obtain j st1 where j: "journal e ps (st\<lparr>esLedger := l\<rparr>) = (j, st1)" by fastforce
    have jf: "j = Some x \<Longrightarrow> \<exists>y. x = JournalFailed y" for x
      using j by (auto simp: journal_def split: option.splits prod.splits)
    from journal_sel [OF j] plog_record_last [OF Pair [unfolded None]] assms Pair None j jf show ?thesis
      by (auto simp: conclude_def recorded_last_def split: option.splits)
  qed (use assms Pair in \<open>auto simp: conclude_def\<close>)
qed

lemma publish_cases:
  assumes "publish e ps st = (r, st')"
  shows "esLedger st' = esLedger st \<and> esJournaled st' = esJournaled st \<and>
    (case r of
       Inl err \<Rightarrow> set_gate_passed ps \<and> esPublished st' = esPublished st
     | Inr x \<Rightarrow> x = Some ps \<and>
         esPublished st' = esPublished st @ (if set_gate_passed ps \<and> enPub e \<noteq> None then [ps] else []))"
  using assms by (auto simp: publish_def split: if_splits option.splits prod.splits)

lemma finish_run_cases:
  assumes run: "finish_run e rd sig s ls st = (res, st')" and ok: "ungraded rd sig s (lsSet ls)"
  shows "case res of
      Inl err \<Rightarrow> esPublished st' = esPublished st \<and>
        ((\<exists>x. err = PublishFailed x) \<longrightarrow> (\<exists>ps. deliverable e sig ps \<and> recorded_last rd ps (esLedger st')))
    | Inr x \<Rightarrow> (\<exists>ps. x = Some ps \<and> recorded_last rd ps (esLedger st') \<and>
        esJournaled st' = esJournaled st @ (if enJournal e = None then [] else [ps]) \<and>
        esPublished st' = esPublished st @ (if set_gate_passed ps \<and> enPub e \<noteq> None then [ps] else []) \<and>
        (set_gate_passed ps \<longrightarrow> deliverable e sig ps))"
proof -
  let ?ps = "(lsSet ls)\<lparr>psEvidence := lsEvidence ls\<rparr>"
  text \<open>The four declines conclude a set whose gate did not pass.\<close>
  have decline: ?thesis if "finish_run e rd sig s ls st = conclude e rd ps st"
    "\<not> set_gate_passed ps" for ps
    using conclude_cases [of e rd ps st res st'] that run by (cases res) auto
  have gateless: "psGate (refuse r ?ps) = None" "psGate (set_phase ph ?ps) = None" "psGate ?ps = None" for r ph
    using ok by (simp_all add: refuse_def set_phase_def set_reason_def ungraded_def)
  show ?thesis
  proof (cases "lsProposed ls \<and> enforceCatalog (enCatalog e) ?ps s = None \<and> enforceCitations ?ps = None")
    case False
    then consider
        (budget) "\<not> lsProposed ls" "\<not> lsDeclined ls"
      | (declined) "\<not> lsProposed ls" "lsDeclined ls"
      | (catalog) r where "lsProposed ls" "enforceCatalog (enCatalog e) ?ps s = Some r"
      | (citations) r where "lsProposed ls" "enforceCatalog (enCatalog e) ?ps s = None" "enforceCitations ?ps = Some r"
      by (cases "enforceCatalog (enCatalog e) ?ps s"; cases "enforceCitations ?ps") auto
    then show ?thesis
    proof cases
      case budget
      let ?spent = "set_phase PhaseBudgetExhausted (?ps\<lparr>psGate := Some \<lparr>grBudgetOK = False, grDedupeOK = False,
          grEvidenceOK = False, grPassed = False, grReason = ''budget''\<rparr>\<rparr>)"
      have "psGate ?spent = Some \<lparr>grBudgetOK = False, grDedupeOK = False, grEvidenceOK = False,
          grPassed = False, grReason = ''budget''\<rparr>" by (simp add: set_phase_def)
      with budget show ?thesis by (intro decline [of ?spent]) (simp_all add: finish_run_def Let_def set_gate_passed_def)
    next
      case declined
      let ?closed = "if map_option stPhase (psStatus ?ps) = Some (PhaseOther []) then set_phase PhaseNoAction ?ps else ?ps"
      have "psGate ?closed = None" using gateless by simp
      with declined show ?thesis by (intro decline [of ?closed]) (simp_all add: finish_run_def Let_def set_gate_passed_def)
    next
      case (catalog r)
      with gateless show ?thesis by (intro decline [of "refuse r ?ps"]) (simp_all add: finish_run_def Let_def set_gate_passed_def)
    next
      case (citations r)
      with gateless show ?thesis by (intro decline [of "refuse r ?ps"]) (simp_all add: finish_run_def Let_def set_gate_passed_def)
    qed
  next
    case True
    let ?g = "grade e sig s ?ps"
    show ?thesis
    proof (cases "plog_open (rdCancelledGate rd) (detFingerprint sig) (rdGateNow rd - enDedupeWindow e) (esLedger st)")
      case (Inl err)
      with True run show ?thesis by (auto simp: finish_run_def Let_def)
    next
      case (Inr dupes)
      obtain r st1 where c: "conclude e rd (apply_gate ?g dupes) st = (r, st1)" by fastforce
      note cc = conclude_cases [OF c]
      show ?thesis
      proof (cases r)
        case (Inl err)
        with True Inr run c cc show ?thesis by (auto simp: finish_run_def Let_def)
      next
        case (Inr x)
        have passed: "grPassed (gate_evaluate ?g dupes) \<Longrightarrow> deliverable e sig (apply_gate ?g dupes)"
          by (rule conjunct2, rule boundary_enforced [OF ok refl]) (use True in simp_all)
        have pub: "publish e (apply_gate ?g dupes) st1 = (res, st')"
          using True \<open>plog_open _ _ _ _ = Inr dupes\<close> run c Inr by (simp add: finish_run_def Let_def)
        from cc Inr have st1: "esPublished st1 = esPublished st" "recorded_last rd (apply_gate ?g dupes) (esLedger st1)"
          "esJournaled st1 = esJournaled st @ (if enJournal e = None then [] else [apply_gate ?g dupes])"
          by simp_all
        have gate: "set_gate_passed (apply_gate ?g dupes) = grPassed (gate_evaluate ?g dupes)"
          by (simp add: set_gate_passed_def)
        from publish_cases [OF pub] passed st1 gate show ?thesis by (auto split: sum.splits)
      qed
    qed
  qed
qed

lemma dispatch_no_publish: "dispatch_calls e calls rs ls w = (Inl err, w') \<Longrightarrow> err \<noteq> PublishFailed x"
  by (induction e calls rs ls w arbitrary: w' rule: dispatch_calls.induct)
    (auto simp: Let_def split: if_splits option.splits prod.splits sum.splits)

lemma reason_loop_no_publish:
  "reason_loop e runID n step ls w = (Inl err, w') \<Longrightarrow> err \<noteq> PublishFailed x"
  by (induction n arbitrary: step ls w)
    (auto simp: Let_def dest: dispatch_no_publish split: if_splits option.splits prod.splits sum.splits)

lemma propose_run_cases:
  assumes "propose_run e rd sig st = (res, st')"
  shows "case res of
      Inl err \<Rightarrow> esPublished st' = esPublished st \<and>
        ((\<exists>x. err = PublishFailed x) \<longrightarrow> (\<exists>ps. deliverable e sig ps \<and> recorded_last rd ps (esLedger st')))
    | Inr x \<Rightarrow> (\<exists>ps. x = Some ps \<and> recorded_last rd ps (esLedger st') \<and>
        esJournaled st' = esJournaled st @ (if enJournal e = None then [] else [ps]) \<and>
        esPublished st' = esPublished st @ (if set_gate_passed ps \<and> enPub e \<noteq> None then [ps] else []) \<and>
        (set_gate_passed ps \<longrightarrow> deliverable e sig ps))"
proof (cases "assemble e rd sig (esWorld st)")
  case (Pair a w)
  show ?thesis
  proof (cases a)
    case (Inl err)
    have "err \<noteq> PublishFailed x" for x
      using Pair Inl by (auto simp: assemble_def Let_def split: prod.splits sum.splits)
    with assms Pair Inl show ?thesis by (auto simp: propose_run_def)
  next
    case (Inr s)
    obtain r w' where loop: "reason_loop e (run_id rd sig) (nat (enMaxSteps e)) 0 (initial_loop e rd sig s) w = (r, w')"
      by fastforce
    show ?thesis
    proof (cases r)
      case (Inl err)
      with reason_loop_no_publish [OF loop [unfolded Inl]] assms Pair \<open>a = Inr s\<close> loop
      show ?thesis by (auto simp: propose_run_def)
    next
      case (Inr ls)
      let ?st = "st\<lparr>esWorld := w', esLedger := rdMeanwhile rd (esLedger st)\<rparr>"
      have "finish_run e rd sig s ls ?st = (res, st')"
        using Inr assms Pair \<open>a = Inr s\<close> loop by (simp add: propose_run_def)
      from finish_run_cases [OF this reason_loop_ungraded [OF loop [unfolded Inr]]]
      show ?thesis by (cases res) auto
    qed
  qed
qed

text \<open>The three ways a call ends: before the run, skipped, or run.\<close>

lemma propose_cases:
  assumes "propose e rd sig st = (res, st')"
  obtains (refused) err where "res = Inl (OpenDupes err)" "st' = st"
  | (skipped) "res = Inr None" "st' = st\<lparr>esRecorder := map_option recordRedeliverySkipped (esRecorder st)\<rparr>"
  | (run) st1 w where "propose_run e rd sig st = (res, st1)" "st' = st1\<lparr>esWorld := w\<rparr>"
  using assms unfolding propose_def
  by (auto simp: Let_def split: sum.splits if_splits prod.splits)

lemma propose_delivery:
  assumes "propose e rd sig st = (res, st')"
  shows "case res of
      Inl err \<Rightarrow> esPublished st' = esPublished st \<and>
        ((\<exists>x. err = PublishFailed x) \<longrightarrow> (\<exists>ps. deliverable e sig ps \<and> recorded_last rd ps (esLedger st')))
    | Inr None \<Rightarrow> esPublished st' = esPublished st \<and> esWorld st' = esWorld st \<and> esLedger st' = esLedger st
    | Inr (Some ps) \<Rightarrow> recorded_last rd ps (esLedger st') \<and>
        esJournaled st' = esJournaled st @ (if enJournal e = None then [] else [ps]) \<and>
        esPublished st' = esPublished st @ (if set_gate_passed ps \<and> enPub e \<noteq> None then [ps] else []) \<and>
        (set_gate_passed ps \<longrightarrow> deliverable e sig ps)"
  using assms
proof (cases rule: propose_cases)
  case (run st1 w)
  from propose_run_cases [OF run(1)] show ?thesis unfolding run(2) by (cases res) auto
qed auto

subsection \<open>A fingerprint with an open set is answered\<close>

definition has_status :: "proposal_set \<Rightarrow> bool" where
  "has_status ps \<longleftrightarrow> psStatus ps \<noteq> None"

definition statused :: "proposal_log \<Rightarrow> bool" where
  "statused l \<longleftrightarrow> (\<forall>r \<in> set (plSets l). psStatus (recSet r) \<noteq> None)"

lemma statused_new [simp]: "statused newProposalLog"
  by (simp add: statused_def newProposalLog_def)

lemma statused_conclude:
  assumes "conclude e rd ps st = (r, st')" "has_status ps" "statused (esLedger st)"
  shows "statused (esLedger st')"
proof -
  have "statused (snd (plog_record (rdCancelledRecord rd) (rdPruneNow rd) (rdStamp rd) ps (esLedger st)))"
    using assms(2,3) by (auto simp: plog_record_def statused_def has_status_def Let_def)
  moreover have "esLedger st' = snd (plog_record (rdCancelledRecord rd) (rdPruneNow rd) (rdStamp rd) ps (esLedger st))"
    using assms(1) journal_sel by (fastforce simp: conclude_def split: prod.splits option.splits)
  ultimately show ?thesis by simp
qed

lemma status_kept [simp]:
  "has_status (set_phase ph ps) \<longleftrightarrow> has_status ps"
  "has_status (set_reason why ps) \<longleftrightarrow> has_status ps"
  "has_status (refuse r ps) \<longleftrightarrow> has_status ps"
  "has_status (apply_gate ps d) \<longleftrightarrow> has_status ps"
  "has_status (grade e sig s ps) \<longleftrightarrow> has_status ps"
  "has_status (ps\<lparr>psEvidence := ev\<rparr>) \<longleftrightarrow> has_status ps"
  "has_status (ps\<lparr>psGate := g\<rparr>) \<longleftrightarrow> has_status ps"
  by (simp_all add: has_status_def set_phase_def set_reason_def refuse_def apply_gate_def Let_def)

lemma statused_finish:
  assumes run: "finish_run e rd sig s ls st = (res, st')" and ok: "ungraded rd sig s (lsSet ls)"
    and led: "statused (esLedger st)"
  shows "statused (esLedger st')"
proof -
  have st: "has_status (lsSet ls)" using ok by (auto simp: ungraded_def has_status_def)
  have step: "conclude e rd ps st = (r, st1) \<Longrightarrow> has_status ps \<Longrightarrow> statused (esLedger st1)" for ps r st1
    using statused_conclude led by blast
  have pub: "publish e ps st1 = (r, st2) \<Longrightarrow> esLedger st2 = esLedger st1" for ps r st1 st2
    using publish_cases by blast
  from run led show ?thesis
    unfolding finish_run_def Let_def
    by (auto simp: st split: if_splits option.splits sum.splits prod.splits dest!: step pub)
qed

lemma statused_propose:
  assumes "propose e rd sig st = (res, st')" "statused (esLedger st)"
    "statused (esLedger st) \<Longrightarrow> statused (rdMeanwhile rd (esLedger st))"
  shows "statused (esLedger st')"
  using assms(1)
proof (cases rule: propose_cases)
  case (run st1 w)
  from run(1) assms(2,3) have "statused (esLedger st1)"
    by (auto simp: propose_run_def split: prod.splits sum.splits
        intro: statused_finish [OF _ reason_loop_ungraded])
  with run(2) show ?thesis by simp
qed (use assms(2) in auto)

lemma deliverable_open: "deliverable e sig ps \<Longrightarrow> set_open ps \<and> psSignalRef ps = detFingerprint sig"
  by (auto simp: deliverable_def set_open_def)

lemma open_set_skips:
  assumes "recorded_last rd ps (esLedger st)" "deliverable e sig ps" "statused (esLedger st)"
    "rdOpenNow rd' - enDedupeWindow e < rdStamp rd" "\<not> rdCancelledOpen rd'"
  shows "propose e rd' sig st = (Inr None, st\<lparr>esRecorder := map_option recordRedeliverySkipped (esRecorder st)\<rparr>)"
proof -
  let ?l = "esLedger st" and ?since = "rdOpenNow rd' - enDedupeWindow e"
  have "\<lparr>recSet = ps, recAt = rdStamp rd\<rparr> \<in> set (plSets ?l)"
    using assms(1) last_in_set [of "plSets ?l"] by (simp add: recorded_last_def)
  with assms(2,4) deliverable_open [OF assms(2)]
  have "filter (\<lambda>r. set_open (recSet r)) (filter (\<lambda>r. psSignalRef (recSet r) = detFingerprint sig \<and> ?since < recAt r) (plSets ?l)) \<noteq> []"
    by (auto simp: filter_empty_conv intro!: bexI [of _ "\<lparr>recSet = ps, recAt = rdStamp rd\<rparr>"])
  with assms(3,5) obtain x xs where "plog_open (rdCancelledOpen rd') (detFingerprint sig) ?since ?l = Inr (x # xs)"
    by (cases "map recSet (filter (\<lambda>r. set_open (recSet r)) (filter (\<lambda>r. psSignalRef (recSet r) = detFingerprint sig \<and> ?since < recAt r) (plSets ?l)))")
      (auto simp: plog_open_def statused_def Let_def simp del: filter_filter)
  then show ?thesis by (simp add: propose_def)
qed

subsection \<open>The model is called a bounded number of times\<close>

lemma dispatch_count:
  assumes "\<And>n run args w. enTools e n = Some run \<Longrightarrow> turns (snd (run args w)) = turns w"
  shows "turns (snd (dispatch_calls e calls rs ls w)) = turns w"
  using assms
proof (induction e calls rs ls w rule: dispatch_calls.induct)
  case (2 e call calls results ls w)
  show ?case
  proof (cases "enTools e (callName call)")
    case None
    with 2 show ?thesis by (auto split: sum.splits)
  next
    case (Some run)
    obtain r w1 where r: "run (callArgs call) w = (r, w1)" by fastforce
    with "2.prems" [OF Some, of "callArgs call" w] have "turns w1 = turns w" by simp
    with 2 Some r show ?thesis by (auto simp: Let_def split: sum.splits)
  qed
qed simp

lemma reason_loop_count:
  assumes tools: "\<And>n run args w. enTools e n = Some run \<Longrightarrow> turns (snd (run args w)) = turns w"
    and complete: "\<And>msgs w. turns (snd (enComplete e msgs w)) = Suc (turns w)"
    and checkpoint: "\<And>t w. turns (snd (enCheckpoint e t w)) = turns w"
  shows "turns (snd (reason_loop e runID n step ls w)) \<le> turns w + n"
proof (induction n arbitrary: step ls w)
  case (Suc n)
  obtain c w1 where c: "enComplete e (lsMsgs ls) w = (c, w1)" by fastforce
  with complete [of "lsMsgs ls" w] have w1: "turns w1 = Suc (turns w)" by simp
  have w2: "turns w2 = turns w1" if "enCheckpoint e t w1 = (x, w2)" for t x w2
    using checkpoint [of t w1] that by simp
  have w3: "turns w3 = turns w2" if "dispatch_calls e calls [] ls2 w2 = (x, w3)" for calls ls2 w2 x w3
    using dispatch_count [where e = e and turns = turns and calls = calls and rs = "[]" and ls = ls2 and w = w2] tools that
    by simp
  have step: "turns (snd (reason_loop e runID n (Suc step) ls3 w3)) \<le> Suc (turns w + n)" if "turns w3 = Suc (turns w)" for ls3 w3
    using Suc.IH [of "Suc step" ls3 w3] that by simp
  show ?case
    using c w1 by (auto simp: Let_def w2 w3 step split: sum.splits prod.splits option.splits dest!: w2 w3)
qed simp

text \<open>Nothing after the loop asks the model.\<close>

lemma assemble_count:
  assumes "\<And>d w. turns (snd (enTopology e d w)) = turns w" "\<And>d w. turns (snd (enChanges e d w)) = turns w"
  shows "assemble e rd sig w = (r, w') \<Longrightarrow> turns w' = turns w"
proof -
  have "enTopology e sig v = (x, v') \<Longrightarrow> turns v' = turns v" "enChanges e sig v = (y, v') \<Longrightarrow> turns v' = turns v" for x y v v'
    using assms(1) [of sig v] assms(2) [of sig v] by simp_all
  then show "assemble e rd sig w = (r, w') \<Longrightarrow> turns w' = turns w"
    by (fastforce simp: assemble_def Let_def split: prod.splits sum.splits)
qed

lemma conclude_count:
  assumes "\<And>pub ps w. enJournal e = Some pub \<Longrightarrow> turns (snd (pub ps w)) = turns w"
  shows "conclude e rd ps st = (r, st') \<Longrightarrow> turns (esWorld st') = turns (esWorld st)"
  using assms [of _ ps "esWorld st"]
  by (auto simp: conclude_def journal_def split: prod.splits option.splits)

lemma publish_count:
  assumes "\<And>pub ps w. enPub e = Some pub \<Longrightarrow> turns (snd (pub ps w)) = turns w"
  shows "publish e ps st = (r, st') \<Longrightarrow> turns (esWorld st') = turns (esWorld st)"
  using assms [of _ ps "esWorld st"]
  by (auto simp: publish_def split: prod.splits option.splits if_splits)

lemma finish_run_count:
  assumes "\<And>pub ps w. enJournal e = Some pub \<Longrightarrow> turns (snd (pub ps w)) = turns w"
    "\<And>pub ps w. enPub e = Some pub \<Longrightarrow> turns (snd (pub ps w)) = turns w"
  shows "finish_run e rd sig s ls st = (r, st') \<Longrightarrow> turns (esWorld st') = turns (esWorld st)"
proof -
  have "conclude e rd ps st1 = (x, st2) \<Longrightarrow> turns (esWorld st2) = turns (esWorld st1)" for ps st1 x st2
    using conclude_count [where turns = turns and e = e] assms(1) by blast
  moreover have "publish e ps st1 = (x, st2) \<Longrightarrow> turns (esWorld st2) = turns (esWorld st1)" for ps st1 x st2
    using publish_count [where turns = turns and e = e] assms(2) by blast
  ultimately show "finish_run e rd sig s ls st = (r, st') \<Longrightarrow> turns (esWorld st') = turns (esWorld st)"
    unfolding finish_run_def Let_def
    by (auto split: if_splits option.splits sum.splits prod.splits)
qed

subsection \<open>Examples\<close>

definition example_detection :: detection where
  "example_detection = \<lparr>detName = ''checkout-latency'', detFingerprint = ''fp'', detOriginService = ''checkout'',
     detServiceTier = ''tier1'', detDetectorType = ''sustained_burn'',
     detDivergence = \<lparr>divMetric = ''latency'', divObserved = 2, divBaseline = 1, divConfidence = 8/10,
       divTrajectory = ''rising''\<rparr>,
     detTopology = \<lparr>tcUpstream = [], tcDownstream = []\<rparr>,
     detTraffic = \<lparr>trAffectedPct = 0, trBaseline = 0, trBaselineWindow = []\<rparr>,
     detImpact = \<lparr>impSeverity = \<lparr>sevDegradationPct = 40, sevTrajectory = ''rising''\<rparr>,
       impBlastRadius = \<lparr>brAffectedPct = 10, brVelocity = ''accelerating'', brDownstreamConsumers = 2\<rparr>\<rparr>,
     detContractRef = [], detSLORef = ''slo'', detDetectedAt = 1\<rparr>"

text \<open>A model that first asks one tool and then proposes what \<open>p\<close> says; the world counts its turns.\<close>

definition scripted :: "propose_input \<Rightarrow> bool \<Rightarrow> nat engine" where
  "scripted p reachable =
     \<lparr>enTopology = (\<lambda>sig w. (Inr \<lparr>tsUpstream = [], tsDownstream = []\<rparr>, w)),
      enChanges = (\<lambda>sig w. (Inr \<lparr>chEvents = []\<rparr>, w)),
      enComplete = (\<lambda>msgs w. (Inr \<lparr>cmpMessage = \<lparr>msgRole = ''assistant'', msgContent = [], msgToolCalls = [],
          msgToolResults = []\<rparr>,
        cmpToolCalls = [\<lparr>callID = ''c'', callName = (if w = 0 then ''prom'' else ''propose''), callArgs = []\<rparr>]\<rparr>,
        Suc w)),
      enTools = [''prom'' \<mapsto> (\<lambda>args w. (Inr example_ref, w))],
      enSeedPrompt = (\<lambda>_ _ _. []),
      enDecodePropose = (\<lambda>_. Inr p), enDecodeInsufficient = (\<lambda>_. Inl ''bad''),
      enCheckpoint = (\<lambda>t w. (None, w)), enFinish = (\<lambda>r err w. (None, w)),
      enJournal = Some (\<lambda>ps w. (None, w)),
      enPub = Some (\<lambda>ps w. (if reachable then None else Some ''down'', w)),
      enCatalog = [example_contract ''flip'' ''off''], enScorerPrior = None, enPrior = None,
      enDedupeWindow = 1000, enMaxSteps = 8, enWeights = example_weights\<rparr>"

definition one_proposal :: propose_input where
  "one_proposal = \<lparr>pinFailureClass = ''service_failure'', pinHypotheses = [],
     pinProposals = [\<lparr>pcaID = ''c1'', pcaContractRef = ''flip'', pcaConfidence = Some (9/10),
       pcaCitations = [''up'']\<rparr>]\<rparr>"

definition example_readings :: "time \<Rightarrow> readings" where
  "example_readings t = \<lparr>rdOpenNow = t, rdRunNanos = t, rdAssembledAt = t, rdGateNow = t, rdPruneNow = t,
     rdStamp = t, rdCancelledOpen = False, rdCancelledGate = False, rdCancelledRecord = False,
     rdMeanwhile = (\<lambda>l. l)\<rparr>"

definition fresh_engine :: "nat engine_state" where
  "fresh_engine = \<lparr>esLedger = newProposalLog, esRecorder = None, esJournaled = [], esPublished = [], esWorld = 0\<rparr>"

definition scripted_sao :: "time \<Rightarrow> sao" where
  "scripted_sao t = example_sao\<lparr>saoAssembledAt := t\<rparr>"

definition scripted_set :: "time \<Rightarrow> propose_input \<Rightarrow> proposal_set" where
  "scripted_set t p = (new_set (example_readings t) example_detection (scripted_sao t))
     \<lparr>psFailureClass := pinFailureClass p, psHypotheses := pinHypotheses p, psProposals := candidates p\<rparr>"

lemma scripted_sel [simp]:
  "enJournal (scripted p r) = Some (\<lambda>ps w. (None, w))"
  "enPub (scripted p r) = Some (\<lambda>ps w. (if r then None else Some ''down'', w))"
  "enDedupeWindow (scripted p r) = 1000"
  "enFinish (scripted p r) = (\<lambda>r err w. (None, w))"
  "enTopology (scripted p r) = (\<lambda>sig w. (Inr \<lparr>tsUpstream = [], tsDownstream = []\<rparr>, w))"
  "enChanges (scripted p r) = (\<lambda>sig w. (Inr \<lparr>chEvents = []\<rparr>, w))"
  "enTools (scripted p r) = [''prom'' \<mapsto> (\<lambda>args w. (Inr example_ref, w))]"
  "enDecodePropose (scripted p r) = (\<lambda>_. Inr p)"
  "enCheckpoint (scripted p r) = (\<lambda>t w. (None, w))"
  "enMaxSteps (scripted p r) = 8"
  "enComplete (scripted p r) = (\<lambda>msgs w. (Inr \<lparr>cmpMessage = \<lparr>msgRole = ''assistant'', msgContent = [],
       msgToolCalls = [], msgToolResults = []\<rparr>,
     cmpToolCalls = [\<lparr>callID = ''c'', callName = (if w = 0 then ''prom'' else ''propose''), callArgs = []\<rparr>]\<rparr>,
     Suc w))"
  by (simp_all add: scripted_def)

lemma scripted_assembles:
  "assemble (scripted p r) (example_readings t) example_detection w = (Inr (scripted_sao t), w)"
  by (simp add: assemble_def Let_def topologyFromSignal_def example_detection_def scripted_sao_def example_sao_def
      example_readings_def)

text \<open>The model takes two turns and the run reaches its terminal part with the authored set.\<close>

definition scripted_end :: "time \<Rightarrow> propose_input \<Rightarrow> message list \<Rightarrow> loop_state" where
  "scripted_end t p msgs = \<lparr>lsSet = scripted_set t p, lsMsgs = msgs, lsEvidence = [example_ref],
     lsProposed = True, lsDeclined = False\<rparr>"

lemma scripted_loop:
  "\<exists>msgs. reason_loop (scripted p r) runID (Suc (Suc n)) 0
     (initial_loop (scripted p r) (example_readings t) example_detection (scripted_sao t)) 0 =
     (Inr (scripted_end t p msgs), Suc (Suc 0))"
proof -
  have key: "evKey example_ref \<noteq> []" by (simp add: example_ref_def)
  show ?thesis
    by (simp add: Let_def initial_loop_def withCallIDs_def key scripted_set_def scripted_end_def)
qed

lemma scripted_run:
  "\<exists>msgs. propose_run (scripted p r) (example_readings t) example_detection fresh_engine =
     finish_run (scripted p r) (example_readings t) example_detection (scripted_sao t) (scripted_end t p msgs)
       (fresh_engine\<lparr>esWorld := 2\<rparr>)"
proof -
  have world: "esWorld fresh_engine = 0" by (simp add: fresh_engine_def)
  have same: "fresh_engine\<lparr>esWorld := w, esLedger := rdMeanwhile (example_readings t) (esLedger fresh_engine)\<rparr> =
    fresh_engine\<lparr>esWorld := w\<rparr>" for w by (simp add: example_readings_def)
  from scripted_loop [of p r "run_id (example_readings t) example_detection" 6 t] obtain msgs where
    "reason_loop (scripted p r) (run_id (example_readings t) example_detection) 8 0
       (initial_loop (scripted p r) (example_readings t) example_detection (scripted_sao t)) 0 =
       (Inr (scripted_end t p msgs), 2)" by (auto simp: numeral_2_eq_2)
  then show ?thesis by (auto simp: propose_run_def scripted_assembles world same)
qed

lemma scripted_checks:
  fixes t r
  defines "ps \<equiv> (scripted_set t one_proposal)\<lparr>psEvidence := [example_ref]\<rparr>"
    and "e \<equiv> scripted one_proposal r"
  shows "enforceCatalog (enCatalog e) ps (scripted_sao t) = None" "enforceCitations ps = None"
    "grPassed (gate_evaluate (grade e example_detection (scripted_sao t) ps) [])"
proof -
  show "enforceCatalog (enCatalog e) ps (scripted_sao t) = None" "enforceCitations ps = None"
    by (simp_all add: ps_def e_def scripted_def scripted_set_def new_set_def enforceCatalog_def one_proposal_def
      candidates_def authored_candidate_def applicable_def classMatches_def tierMatches_def preconditionsMet_def
      example_contract_def example_detection_def enforceCitations_def example_ref_def)
  have "psProposals (grade e example_detection (scripted_sao t) ps) \<noteq> []"
    by (simp add: grade_def Let_def ps_def scripted_set_def one_proposal_def candidates_def rank_def
        scoreConfidences_def enrichFromCatalog_def split: prod.split)
  then obtain c cs where c: "psProposals (grade e example_detection (scripted_sao t) ps) = c # cs"
    by (cases "psProposals (grade e example_detection (scripted_sao t) ps)") auto
  then obtain c0 where "c0 \<in> set (psProposals ps)" "graded_from (enCatalog e) c0 c"
    using grade_candidates [of c e example_detection "scripted_sao t" ps] by auto
  then have "cndCitations c = [''up'']"
    by (auto simp: ps_def scripted_set_def one_proposal_def candidates_def authored_candidate_def graded_from_def)
  moreover have "psRecommended (grade e example_detection (scripted_sao t) ps) = cndID c"
    using grade_recommended [of ps e example_detection "scripted_sao t"] c
    by (simp add: ps_def scripted_set_def new_set_def)
  ultimately show "grPassed (gate_evaluate (grade e example_detection (scripted_sao t) ps) [])"
    using c by (simp add: gate_passed_iff recommendedEvidence_def ps_def scripted_set_def new_set_def
        example_ref_def anyCoherentLive_def coherentSubject_def scripted_sao_def example_sao_def)
qed

lemma scripted_propose:
  fixes t r p
  defines "e \<equiv> scripted p r" and "ps0 \<equiv> (scripted_set t p)\<lparr>psEvidence := [example_ref]\<rparr>"
  defines "g \<equiv> apply_gate (grade e example_detection (scripted_sao t) ps0) []"
  assumes checks: "enforceCatalog (enCatalog e) ps0 (scripted_sao t) = None" "enforceCitations ps0 = None"
    "grPassed (gate_evaluate (grade e example_detection (scripted_sao t) ps0) [])"
  shows "propose e (example_readings t) example_detection fresh_engine =
     (if r then Inr (Some g) else Inl (PublishFailed ''down''),
      fresh_engine\<lparr>esLedger := newProposalLog\<lparr>plSets := [\<lparr>recSet = g, recAt = t\<rparr>]\<rparr>, esWorld := 2,
        esJournaled := [g], esPublished := (if r then [g] else [])\<rparr>) \<and> set_gate_passed g"
proof -
  obtain msgs where run: "propose_run e (example_readings t) example_detection fresh_engine =
     finish_run e (example_readings t) example_detection (scripted_sao t) (scripted_end t p msgs)
       (fresh_engine\<lparr>esWorld := 2\<rparr>)" unfolding e_def using scripted_run by blast
  have gate: "set_gate_passed g" using checks(3) by (simp add: g_def set_gate_passed_def)
  have sel: "enJournal e = Some (\<lambda>ps w. (None, w))" "enDedupeWindow e = 1000"
    "enPub e = Some (\<lambda>ps w. (if r then None else Some ''down'', w))" "enFinish e = (\<lambda>r err w. (None, w))"
    by (simp_all add: e_def)
  have "propose_run e (example_readings t) example_detection fresh_engine =
     (if r then Inr (Some g) else Inl (PublishFailed ''down''),
      fresh_engine\<lparr>esLedger := newProposalLog\<lparr>plSets := [\<lparr>recSet = g, recAt = t\<rparr>]\<rparr>, esWorld := 2,
        esJournaled := [g], esPublished := (if r then [g] else [])\<rparr>)"
    unfolding run finish_run_def using checks gate
    by (simp add: Let_def scripted_end_def ps0_def [symmetric] g_def [symmetric] sel conclude_def publish_def
        fresh_engine_def newProposalLog_def plog_open_def plog_record_def example_readings_def journal_def)
  with gate sel show ?thesis
    by (simp add: propose_def plog_open_def fresh_engine_def newProposalLog_def example_readings_def)
qed

definition no_proposal :: propose_input where
  "no_proposal = \<lparr>pinFailureClass = ''service_failure'', pinHypotheses = [], pinProposals = []\<rparr>"

lemma no_proposal_checks:
  fixes t r
  defines "ps \<equiv> (scripted_set t no_proposal)\<lparr>psEvidence := [example_ref]\<rparr>"
    and "e \<equiv> scripted no_proposal r"
  shows "enforceCatalog (enCatalog e) ps (scripted_sao t) = None" "enforceCitations ps = None"
    "psProposals (grade e example_detection (scripted_sao t) ps) = []"
    "grPassed (gate_evaluate (grade e example_detection (scripted_sao t) ps) [])"
proof -
  have ps: "psProposals ps = []" "psRecommended ps = []"
    by (simp_all add: ps_def scripted_set_def new_set_def no_proposal_def candidates_def)
  then show "enforceCatalog (enCatalog e) ps (scripted_sao t) = None" "enforceCitations ps = None"
    by (simp_all add: enforceCatalog_def enforceCitations_def)
  show none: "psProposals (grade e example_detection (scripted_sao t) ps) = []"
    using ps by (simp add: grade_def Let_def scoreConfidences_def enrichFromCatalog_def rank_def split: prod.split)
  then have "psRecommended (grade e example_detection (scripted_sao t) ps) = []"
    using grade_recommended [OF ps(2), of e example_detection "scripted_sao t"] by simp
  with none show "grPassed (gate_evaluate (grade e example_detection (scripted_sao t) ps) [])"
    by (simp add: gate_passed_iff recommendedEvidence_def ps_def scripted_set_def new_set_def
        example_ref_def anyCoherentLive_def coherentSubject_def scripted_sao_def example_sao_def)
qed

lemmas scripted_one = scripted_propose [OF scripted_checks]

subsection \<open>Properties\<close>

text \<open>C2: the autonomy boundary: a call of the engine delivers nothing, or exactly one set, and that set passed
  the gate, names only actions the catalog applies to its failure class, tier and snapshot, with the
  catalog's own blast tier, cites only evidence this run gathered, recommends its first candidate
  and is the newest record of the ledger. Whatever the model, the tools and the sources answer.\<close>

theorem delivery_within_boundary:
  assumes "propose e rd sig st = (res, st')"
  shows "esPublished st' = esPublished st \<or>
    (\<exists>ps. res = Inr (Some ps) \<and> esPublished st' = esPublished st @ [ps] \<and> deliverable e sig ps \<and>
      recorded_last rd ps (esLedger st'))"
  using propose_delivery [OF assms] by (auto split: sum.splits option.splits if_splits)

theorem delivery_within_boundary_witness:
  "\<exists>ps. deliverable (scripted one_proposal True) example_detection ps \<and>
     esPublished (snd (propose (scripted one_proposal True) (example_readings 5) example_detection fresh_engine)) = [ps]"
proof -
  let ?r = "propose (scripted one_proposal True) (example_readings 5) example_detection fresh_engine"
  have "esPublished (snd ?r) \<noteq> esPublished fresh_engine"
    using scripted_one [of True 5] by (simp add: fresh_engine_def)
  with delivery_within_boundary [of "scripted one_proposal True" "example_readings 5" example_detection fresh_engine
      "fst ?r" "snd ?r"]
  show ?thesis by (auto simp: fresh_engine_def)
qed

text \<open>C15: every run that returns is on the record: the set it returns is the newest record of the ledger and,
  with a journal, the newest of the journal, whether or not it passed the gate; it is delivered
  exactly when it passed and a publisher is wired.\<close>

theorem every_run_recorded:
  assumes "propose e rd sig st = (Inr (Some ps), st')"
  shows "recorded_last rd ps (esLedger st') \<and>
    esJournaled st' = esJournaled st @ (if enJournal e = None then [] else [ps]) \<and>
    esPublished st' = esPublished st @ (if set_gate_passed ps \<and> enPub e \<noteq> None then [ps] else [])"
  using propose_delivery [OF assms] by simp

theorem every_run_recorded_witness:
  "\<exists>ps. set_gate_passed ps \<and>
     esJournaled (snd (propose (scripted one_proposal True) (example_readings 5) example_detection fresh_engine)) = [ps] \<and>
     esPublished (snd (propose (scripted one_proposal True) (example_readings 5) example_detection fresh_engine)) = [ps]"
proof -
  obtain g st' where g: "propose (scripted one_proposal True) (example_readings 5) example_detection fresh_engine =
      (Inr (Some g), st')" "set_gate_passed g"
    using scripted_one [of True 5] by auto
  from every_run_recorded [OF g(1)] g show ?thesis by (auto simp: fresh_engine_def)
qed



text \<open>a set whose delivery failed is lost: the ledger already holds it as open, so the retry of the same
  detection inside the dedupe window is skipped as answered and nothing is ever published.\<close>

theorem failed_publish_is_lost:
  assumes "propose e rd sig st = (Inl (PublishFailed err), st')" "statused (esLedger st)"
    "statused (rdMeanwhile rd (esLedger st))"
    "rdOpenNow rd' - enDedupeWindow e < rdStamp rd" "\<not> rdCancelledOpen rd'"
  shows "fst (propose e rd' sig st') = Inr None \<and> esPublished (snd (propose e rd' sig st')) = esPublished st"
proof -
  from propose_delivery [OF assms(1)] obtain ps where "deliverable e sig ps" "recorded_last rd ps (esLedger st')"
    and pub: "esPublished st' = esPublished st" by auto
  moreover have "statused (esLedger st')" using statused_propose [OF assms(1,2)] assms(3) by simp
  ultimately have "propose e rd' sig st' =
      (Inr None, st'\<lparr>esRecorder := map_option recordRedeliverySkipped (esRecorder st')\<rparr>)"
    using open_set_skips assms(4,5) by blast
  with pub show ?thesis by simp
qed

theorem failed_publish_is_lost_witness:
  "\<exists>st'. propose (scripted one_proposal False) (example_readings 5) example_detection fresh_engine =
       (Inl (PublishFailed ''down''), st') \<and>
     fst (propose (scripted one_proposal False) (example_readings 9) example_detection st') = Inr None"
proof -
  obtain st' where g: "propose (scripted one_proposal False) (example_readings 5) example_detection fresh_engine =
      (Inl (PublishFailed ''down''), st')"
    using scripted_one [of False 5] by auto
  have "fst (propose (scripted one_proposal False) (example_readings 9) example_detection st') = Inr None \<and>
     esPublished (snd (propose (scripted one_proposal False) (example_readings 9) example_detection st')) = esPublished fresh_engine"
    by (rule failed_publish_is_lost [OF g]) (simp_all add: fresh_engine_def example_readings_def)
  with g show ?thesis by simp
qed

text \<open>C26: the reason loop is bounded: whatever the model answers, a call of the engine makes at most the
  configured number of model calls, for any count of them that only the model's completion moves.\<close>

theorem model_turns_bounded:
  assumes "\<And>msgs w. turns (snd (enComplete e msgs w)) = Suc (turns w)"
    "\<And>n run args w. enTools e n = Some run \<Longrightarrow> turns (snd (run args w)) = turns w"
    "\<And>t w. turns (snd (enCheckpoint e t w)) = turns w" "\<And>r x w. turns (snd (enFinish e r x w)) = turns w"
    "\<And>d w. turns (snd (enTopology e d w)) = turns w" "\<And>d w. turns (snd (enChanges e d w)) = turns w"
    "\<And>pub ps w. enJournal e = Some pub \<or> enPub e = Some pub \<Longrightarrow> turns (snd (pub ps w)) = turns w"
  shows "turns (esWorld (snd (propose e rd sig st))) \<le> turns (esWorld st) + nat (enMaxSteps e)"
proof -
  obtain res st' where p: "propose e rd sig st = (res, st')" by fastforce
  have fin: "finish_run e rd sig s ls st1 = (r, st2) \<Longrightarrow> turns (esWorld st2) = turns (esWorld st1)" for s ls st1 r st2
    using finish_run_count [where turns = turns and e = e] assms(7) by blast
  have loop: "reason_loop e i n k ls w = (r, w') \<Longrightarrow> turns w' \<le> turns w + n" for i n k ls w r w'
    using reason_loop_count [where turns = turns and e = e] assms(1-3) by (metis snd_conv)
  have asm: "assemble e rd sig w = (r, w') \<Longrightarrow> turns w' = turns w" for r w w'
    using assemble_count [where turns = turns and e = e] assms(5,6) by blast
  have run: "propose_run e rd sig st = (r, st1) \<Longrightarrow> turns (esWorld st1) \<le> turns (esWorld st) + nat (enMaxSteps e)" for r st1
    unfolding propose_run_def
    by (auto split: prod.splits sum.splits dest!: fin loop asm)
  obtain r1 st1 where r1: "propose_run e rd sig st = (r1, st1)" by fastforce
  have "enFinish e i x w = (y, w') \<Longrightarrow> turns w' = turns w" for i x w y w'
    using assms(4) [of i x w] by simp
  with run [OF r1] r1 show ?thesis
    by (auto simp: propose_def Let_def split: sum.splits prod.splits)
qed

theorem model_turns_bounded_witness:
  "esWorld (snd (propose (scripted one_proposal True) (example_readings 5) example_detection fresh_engine)) \<le> 8"
proof -
  have "id (esWorld (snd (propose (scripted one_proposal True) (example_readings 5) example_detection fresh_engine)))
      \<le> id (esWorld fresh_engine) + nat (enMaxSteps (scripted one_proposal True))"
    by (rule model_turns_bounded) (auto split: if_splits)
  then show ?thesis by (simp add: fresh_engine_def)
qed

text \<open>the ranking never reorders: no candidate the engine ranks carries a time to effect, so whatever the
  blast radius velocity the graded candidates keep the model's order and the recommendation is the
  model's first candidate.\<close>

theorem ranking_never_reorders:
  assumes "ungraded rd sig s ps"
  shows "map cndID (psProposals (grade e sig s ps)) = map cndID (psProposals ps) \<and>
    psRecommended (grade e sig s ps) = (case psProposals ps of [] \<Rightarrow> [] | c # _ \<Rightarrow> cndID c)"
proof -
  let ?ps = "ps\<lparr>psProposals := enrichFromCatalog (enCatalog e) (psProposals ps),
      psCausalScores := causal_scores (psSignalRef ps) (saoChange s) (saoTopology s) (enWeights e) (enScorerPrior e)\<rparr>"
  let ?cs = "map (score_candidate ?ps s (enPrior e) (detFingerprint sig) (enWeights e))
      (map (enrich_candidate (enCatalog e)) (psProposals ps))"
  let ?v = "brVelocity (impBlastRadius (detImpact sig))"
  have graded: "psProposals (grade e sig s ps) = fst (rank ?cs ?v)"
    by (simp add: grade_def Let_def scoreConfidences_def enrichFromCatalog_def split: prod.splits)
  have "timeToEffect (score_candidate ?ps s (enPrior e) (detFingerprint sig) (enWeights e) (enrich_candidate (enCatalog e) c)) = 0"
    if "c \<in> set (psProposals ps)" for c
    using that assms
    by (auto simp: ungraded_def timeToEffect_def authored_candidate_def enrich_candidate_def Let_def
        split: option.splits)
  then have "sort_key (\<lambda>c. sint (timeToEffect c)) ?cs = ?cs"
    by (intro sort_key_id_if_sorted) (simp add: sorted_iff_nth_mono)
  then have "fst (rank ?cs ?v) = set_ranks 0 ?cs" by (simp add: rank_def)
  moreover have "map cndID (set_ranks 0 ?cs) = map cndID (psProposals ps)"
    using set_ranks_filter [of "\<lambda>_. True" 0 ?cs] by simp
  ultimately have ids: "map cndID (psProposals (grade e sig s ps)) = map cndID (psProposals ps)"
    using graded by simp
  have "psRecommended ps = []" using assms by (simp add: ungraded_def)
  from grade_recommended [OF this, of e sig s] ids show ?thesis
    by (cases "psProposals ps"; cases "psProposals (grade e sig s ps)") auto
qed

theorem ranking_never_reorders_witness:
  "psRecommended (grade (scripted one_proposal True) example_detection (scripted_sao 5) (scripted_set 5 one_proposal)) = ''c1''"
proof -
  have "ungraded (example_readings 5) example_detection (scripted_sao 5) (scripted_set 5 one_proposal)"
    by (auto simp: ungraded_def scripted_set_def new_set_def zero_status_def one_proposal_def candidates_def)
  from ranking_never_reorders [OF this, of "scripted one_proposal True"] show ?thesis
    by (simp add: scripted_set_def one_proposal_def candidates_def authored_candidate_def)
qed

text \<open>a propose call with no candidate is delivered: the catalog and citation checks hold vacuously and the
  gate falls back to the whole evidence, so a set that recommends nothing is published as proposed.\<close>

theorem empty_proposal_delivered:
  "\<exists>ps. esPublished (snd (propose (scripted no_proposal True) (example_readings 5) example_detection fresh_engine)) = [ps] \<and>
     psProposals ps = [] \<and> psRecommended ps = [] \<and> set_gate_passed ps"
proof -
  let ?ps = "(scripted_set 5 no_proposal)\<lparr>psEvidence := [example_ref]\<rparr>"
  have "psRecommended (grade (scripted no_proposal True) example_detection (scripted_sao 5) ?ps) = []"
    using no_proposal_checks(3) [of True 5]
      grade_recommended [of ?ps "scripted no_proposal True" example_detection "scripted_sao 5"]
    by (simp add: scripted_set_def new_set_def)
  then show ?thesis
    using scripted_propose [OF no_proposal_checks(1,2,4), of True 5] no_proposal_checks(3) [of True 5] by simp
qed

end
