(* ===== verification/Wal.thy ===== *)
theory Wal
  imports ConfigFile "HOL-Library.List_Lexorder" "HOL-Library.Char_ord"
begin

text \<open>
  The write-ahead log of \<^verbatim>\<open>src/internal/publish/wal.go\<close> and its shipper \<^verbatim>\<open>shipper.go\<close>: an append-only
  journal in segments. The active segment is sealed by size or age, sealed segments are uploaded
  and removed, and a restarted process recovers the active segment a previous one left behind.

  The state is the handle and counters of the process together with the segment directory. The
  active file remembers how much of it has been synced, which is what survives a crash. Each
  system call that can fail is a field of \<open>faults\<close>, read anew by every operation; a failing write
  may have written some bytes, and a failing recovery may have left part of a segment. The mutex makes each operation atomic. JSON encoding is the argument
  \<open>encode\<close>, and the sink is a list of the objects put.
\<close>

subsection \<open>Segment names\<close>

definition segmentExt :: string where
  "segmentExt = ''.jsonl''"

definition activeSegmentName :: string where
  "activeSegmentName = ''active.jsonl''"

text \<open>The verb \<^verbatim>\<open>%020d\<close> on a value that is not negative.\<close>

definition pad20 :: "nat \<Rightarrow> string" where
  "pad20 n = replicate (20 - length (show_nat n)) (CHR ''0'') @ show_nat n"

definition segmentName :: "nat \<Rightarrow> int \<Rightarrow> string" where
  "segmentName baseOffset nanos = pad20 baseOffset @ ''-'' @ show_int nanos @ segmentExt"

definition max_int64 :: int where
  "max_int64 = 9223372036854775807"

text \<open>\<^verbatim>\<open>strconv.ParseInt\<close> in base 10 at 64 bits: an optional sign, digits, no overflow.\<close>

definition parse_digits :: "bool \<Rightarrow> string \<Rightarrow> int option" where
  "parse_digits neg s =
     (if s = [] \<or> \<not> list_all is_digit s then None
      else (let v = int (digits_value s)
            in if neg then (if v \<le> max_int64 + 1 then Some (- v) else None)
               else (if v \<le> max_int64 then Some v else None)))"

definition parseInt64 :: "string \<Rightarrow> int option" where
  "parseInt64 s =
     (case s of
        [] \<Rightarrow> None
      | c # cs \<Rightarrow> if c = CHR ''-'' then parse_digits True cs
                  else if c = CHR ''+'' then parse_digits False cs else parse_digits False s)"

definition cut_suffix :: "string \<Rightarrow> string \<Rightarrow> string option" where
  "cut_suffix suf s =
     (if length suf \<le> length s \<and> drop (length s - length suf) s = suf
      then Some (take (length s - length suf) s) else None)"

definition parseSegmentName :: "string \<Rightarrow> (int \<times> int) option" where
  "parseSegmentName name =
     (case cut_suffix segmentExt name of
        None \<Rightarrow> None
      | Some trimmed \<Rightarrow>
          (let offsetPart = takeWhile (\<lambda>c. c \<noteq> CHR ''-'') trimmed;
               rest = dropWhile (\<lambda>c. c \<noteq> CHR ''-'') trimmed
           in case rest of
                [] \<Rightarrow> None
              | _ # nanosPart \<Rightarrow>
                  (case parseInt64 offsetPart of
                     None \<Rightarrow> None
                   | Some off \<Rightarrow>
                       (case parseInt64 nanosPart of None \<Rightarrow> None | Some nanos \<Rightarrow> Some (off, nanos)))))"

subsection \<open>State\<close>

datatype handle = NoHandle | OpenHandle | ClosedHandle

record active_file =
  afBytes :: string
  afSynced :: nat

record wal =
  wMaxBytes :: int
  wMaxAge :: duration
  wHandle :: handle
  wSize :: int
  wOpenedAt :: time
  wBase :: nat
  wActive :: "active_file option"
  wSealed :: "(string \<times> string) list"

record faults =
  fMkdir :: "string option"
  fReadDir :: "string option"
  fStat :: "string option"
  fRecover :: "(string \<times> nat option) option"
  fRemove :: "string option"
  fOpen :: "string option"
  fSync :: "string option"
  fClose :: "string option"
  fRename :: "string option"
  fWrite :: "(nat \<times> string) option"

definition no_faults :: faults where
  "no_faults = \<lparr>fMkdir = None, fReadDir = None, fStat = None, fRecover = None, fRemove = None, fOpen = None,
     fSync = None, fClose = None, fRename = None, fWrite = None\<rparr>"

datatype wal_error =
    WalCancelled | WalMkdir string | WalNextBase string | WalStat string | WalRecover string
  | WalRemove string | WalOpen string | WalSync string | WalClose string | WalRename string
  | WalEncode string | WalWrite string | WalShip string | WalShipRemove string

definition defaultMaxBytes :: int where
  "defaultMaxBytes = 64 * 1024 * 1024"

definition defaultMaxAge :: duration where
  "defaultMaxAge = 10 * minute"

definition maxAge :: "wal \<Rightarrow> duration" where
  "maxAge w = (if wMaxAge w \<le> 0 then defaultMaxAge else wMaxAge w)"

definition maxBytes :: "wal \<Rightarrow> int" where
  "maxBytes w = (if wMaxBytes w \<le> 0 then defaultMaxBytes else wMaxBytes w)"

text \<open>A directory holds one file of a name: creating one again replaces it.\<close>

definition put_segment :: "string \<Rightarrow> string \<Rightarrow> (string \<times> string) list \<Rightarrow> (string \<times> string) list" where
  "put_segment name bytes segs = filter (\<lambda>s. fst s \<noteq> name) segs @ [(name, bytes)]"

subsection \<open>Operations\<close>

definition openFreshActive :: "faults \<Rightarrow> time \<Rightarrow> wal \<Rightarrow> wal_error option \<times> wal" where
  "openFreshActive f now w =
     (case fOpen f of
        Some err \<Rightarrow> (Some (WalOpen err), w)
      | None \<Rightarrow> (None, w\<lparr>wActive := Some \<lparr>afBytes = [], afSynced = 0\<rparr>, wHandle := OpenHandle, wSize := 0,
                        wOpenedAt := now\<rparr>))"

definition sync_active :: "wal \<Rightarrow> wal" where
  "sync_active w = w\<lparr>wActive := map_option (\<lambda>a. a\<lparr>afSynced := length (afBytes a)\<rparr>) (wActive w)\<rparr>"

definition active_bytes :: "wal \<Rightarrow> string" where
  "active_bytes w = (case wActive w of None \<Rightarrow> [] | Some a \<Rightarrow> afBytes a)"

definition seal :: "faults \<Rightarrow> int \<Rightarrow> time \<Rightarrow> wal \<Rightarrow> wal_error option \<times> wal" where
  "seal f nanos now w =
     (if wHandle w = ClosedHandle then (Some (WalSync ''file already closed''), w)
      else case fSync f of
        Some err \<Rightarrow> (Some (WalSync err), w)
      | None \<Rightarrow>
          (let w1 = sync_active w
           in case fClose f of
                Some err \<Rightarrow> (Some (WalClose err), w1\<lparr>wHandle := ClosedHandle\<rparr>)
              | None \<Rightarrow>
                  (case fRename f of
                     Some err \<Rightarrow> (Some (WalRename err), w1\<lparr>wHandle := ClosedHandle\<rparr>)
                   | None \<Rightarrow>
                       openFreshActive f now
                         (w1\<lparr>wSealed := put_segment (segmentName (wBase w1) nanos) (active_bytes w1) (wSealed w1),
                             wActive := None, wBase := wBase w1 + 1, wHandle := NoHandle\<rparr>))))"

text \<open>Up to and including the last newline.\<close>

definition complete_lines :: "string \<Rightarrow> string" where
  "complete_lines raw = rev (dropWhile (\<lambda>c. c \<noteq> CHR 0x0A) (rev raw))"

definition recoverOrphan :: "faults \<Rightarrow> int \<Rightarrow> nat \<Rightarrow> wal \<Rightarrow> wal_error option \<times> wal" where
  "recoverOrphan f nanos base w =
     (case fRecover f of
        Some (err, None) \<Rightarrow> (Some (WalRecover err), w)
      | Some (err, Some n) \<Rightarrow>
          (Some (WalRecover err),
           w\<lparr>wSealed := put_segment (segmentName base nanos) (take n (complete_lines (active_bytes w))) (wSealed w)\<rparr>)
      | None \<Rightarrow>
          (let w1 = w\<lparr>wSealed := put_segment (segmentName base nanos) (complete_lines (active_bytes w)) (wSealed w)\<rparr>
           in case fRemove f of
                Some err \<Rightarrow> (Some (WalRemove err), w1)
              | None \<Rightarrow> (None, w1\<lparr>wActive := None\<rparr>)))"

definition nextBaseOffset :: "wal \<Rightarrow> nat" where
  "nextBaseOffset w = length (filter (\<lambda>s. parseSegmentName (fst s) \<noteq> None) (wSealed w))"

definition ensureActive :: "faults \<Rightarrow> int \<Rightarrow> time \<Rightarrow> wal \<Rightarrow> wal_error option \<times> wal" where
  "ensureActive f nanos now w =
     (if wHandle w \<noteq> NoHandle then (None, w)
      else case fMkdir f of
        Some err \<Rightarrow> (Some (WalMkdir err), w)
      | None \<Rightarrow>
          (case fReadDir f of
             Some err \<Rightarrow> (Some (WalNextBase err), w)
           | None \<Rightarrow>
               (let base = nextBaseOffset w
                in case fStat f of
                     Some err \<Rightarrow> (Some (WalStat err), w)
                   | None \<Rightarrow>
                       (if wActive w \<noteq> None then
                          (case recoverOrphan f nanos base w of
                             (Some err, w1) \<Rightarrow> (Some err, w1)
                           | (None, w1) \<Rightarrow> openFreshActive f now (w1\<lparr>wBase := base + 1\<rparr>))
                        else openFreshActive f now (w\<lparr>wBase := base\<rparr>)))))"

definition write_active :: "string \<Rightarrow> wal \<Rightarrow> wal" where
  "write_active bytes w = w\<lparr>wActive := map_option (\<lambda>a. a\<lparr>afBytes := afBytes a @ bytes\<rparr>) (wActive w)\<rparr>"

text \<open>
  \<open>nanos\<close> and \<open>nanos'\<close> are the clock readings that name the segments sealed on the way, \<open>t\<close> the
  reading of the age check and \<open>t'\<close> the one that dates a fresh segment.
\<close>

record wal_clock =
  wkOrphan :: int
  wkAge :: time
  wkAgeSeal :: int
  wkSizeSeal :: int
  wkFresh :: time

definition wal_append ::
  "('a \<Rightarrow> string + string) \<Rightarrow> bool \<Rightarrow> faults \<Rightarrow> wal_clock \<Rightarrow> 'a \<Rightarrow> wal \<Rightarrow> wal_error option \<times> wal" where
  "wal_append encode cancelled f k obj w =
     (if cancelled then (Some WalCancelled, w)
      else case ensureActive f (wkOrphan k) (wkFresh k) w of
        (Some err, w1) \<Rightarrow> (Some err, w1)
      | (None, w1) \<Rightarrow>
          (case (if maxAge w1 \<le> time_sub (wkAge k) (wOpenedAt w1)
                 then seal f (wkAgeSeal k) (wkFresh k) w1 else (None, w1)) of
             (Some err, w2) \<Rightarrow> (Some err, w2)
           | (None, w2) \<Rightarrow>
               (case encode obj of
                  Inl err \<Rightarrow> (Some (WalEncode err), w2)
                | Inr json \<Rightarrow>
                    (let line = json @ [CHR 0x0A]
                     in if wHandle w2 = ClosedHandle then (Some (WalWrite ''file already closed''), w2)
                        else case fWrite f of
                          Some (n, err) \<Rightarrow> (Some (WalWrite err), write_active (take n line) w2)
                        | None \<Rightarrow>
                            (let w3 = (write_active line w2)\<lparr>wSize := wSize w2 + int (length line)\<rparr>
                             in if maxBytes w3 \<le> wSize w3 then seal f (wkSizeSeal k) (wkFresh k) w3
                                else (None, w3))))))"

definition sealIfStale :: "faults \<Rightarrow> time \<Rightarrow> int \<Rightarrow> time \<Rightarrow> wal \<Rightarrow> wal_error option \<times> wal" where
  "sealIfStale f now nanos fresh w =
     (if wHandle w = NoHandle \<or> wSize w = 0 then (None, w)
      else if time_sub now (wOpenedAt w) < maxAge w then (None, w)
      else seal f nanos fresh w)"

subsection \<open>Shipping\<close>

definition sealedSegments :: "wal \<Rightarrow> string list" where
  "sealedSegments w = sort (map fst (filter (\<lambda>s. parseSegmentName (fst s) \<noteq> None) (wSealed w)))"

text \<open>The sink answers per key; what it accepted is the list of puts.\<close>

definition shipOne ::
  "(string \<Rightarrow> string option) \<Rightarrow> (string \<Rightarrow> string option) \<Rightarrow> string \<Rightarrow> wal \<times> (string \<times> string) list \<Rightarrow>
   wal_error option \<times> wal \<times> (string \<times> string) list" where
  "shipOne put remove name = (\<lambda>(w, sink).
     (case map_of (wSealed w) name of
        None \<Rightarrow> (Some (WalShip ''no such file''), w, sink)
      | Some bytes \<Rightarrow>
          (case put name of
             Some err \<Rightarrow> (Some (WalShip err), w, sink)
           | None \<Rightarrow>
               (case remove name of
                  Some err \<Rightarrow> (Some (WalShipRemove err), w, sink @ [(name, bytes)])
                | None \<Rightarrow> (None, w\<lparr>wSealed := filter (\<lambda>s. fst s \<noteq> name) (wSealed w)\<rparr>, sink @ [(name, bytes)])))))"

fun ship_all ::
  "(string \<Rightarrow> string option) \<Rightarrow> (string \<Rightarrow> string option) \<Rightarrow> string list \<Rightarrow> wal \<times> (string \<times> string) list \<Rightarrow>
   wal_error option \<times> wal \<times> (string \<times> string) list" where
  "ship_all put remove [] st = (None, st)"
| "ship_all put remove (n # ns) st =
     (case shipOne put remove n st of
        (Some err, st') \<Rightarrow> (Some err, st')
      | (None, st') \<Rightarrow> ship_all put remove ns st')"

definition ship ::
  "string option \<Rightarrow> (string \<Rightarrow> string option) \<Rightarrow> (string \<Rightarrow> string option) \<Rightarrow> wal \<times> (string \<times> string) list \<Rightarrow>
   wal_error option \<times> wal \<times> (string \<times> string) list" where
  "ship readDir put remove st =
     (case readDir of
        Some err \<Rightarrow> (Some (WalNextBase err), st)
      | None \<Rightarrow> ship_all put remove (sealedSegments (fst st)) st)"

definition close_wal :: "faults \<Rightarrow> wal \<Rightarrow> wal_error option \<times> wal" where
  "close_wal f w =
     (if wHandle w = NoHandle then (None, w)
      else
        (let w1 = w\<lparr>wHandle := NoHandle\<rparr>
         in if wHandle w = ClosedHandle then (Some (WalSync ''file already closed''), w1)
            else case fSync f of
              Some err \<Rightarrow> (Some (WalSync err), w1)
            | None \<Rightarrow> (case fClose f of Some err \<Rightarrow> (Some (WalClose err), sync_active w1)
                       | None \<Rightarrow> (None, sync_active w1))))"

definition wal_drain ::
  "faults \<Rightarrow> int \<Rightarrow> time \<Rightarrow> string option \<Rightarrow> (string \<Rightarrow> string option) \<Rightarrow> (string \<Rightarrow> string option) \<Rightarrow>
   wal \<times> (string \<times> string) list \<Rightarrow> wal_error option \<times> wal \<times> (string \<times> string) list" where
  "wal_drain f nanos now readDir put remove = (\<lambda>(w, sink).
     (case (if wHandle w \<noteq> NoHandle \<and> 0 < wSize w then seal f nanos now w else (None, w)) of
        (Some err, w1) \<Rightarrow> (Some err, w1, sink)
      | (None, w1) \<Rightarrow>
          (case ship readDir put remove (w1, sink) of
             (Some err, st) \<Rightarrow> (Some err, st)
           | (None, (w2, sink2)) \<Rightarrow>
               (case close_wal f w2 of (err, w3) \<Rightarrow> (err, w3, sink2)))))"

text \<open>The background timer syncs what is open; a crash keeps at least the synced prefix of the active
  file and every sealed segment, and the next process starts with no handle.\<close>

definition sync_tick :: "faults \<Rightarrow> wal \<Rightarrow> wal" where
  "sync_tick f w = (if wHandle w = OpenHandle \<and> fSync f = None then sync_active w else w)"

definition crash :: "nat \<Rightarrow> wal \<Rightarrow> wal" where
  "crash n w = w\<lparr>wHandle := NoHandle, wSize := 0, wBase := 0, wOpenedAt := zero_time,
     wActive := map_option (\<lambda>a. a\<lparr>afBytes := take (max n (afSynced a)) (afBytes a)\<rparr>) (wActive w)\<rparr>"

subsection \<open>Publishers over the log\<close>

definition walPublisher_publish ::
  "('a \<Rightarrow> string + string) \<Rightarrow> ('a \<Rightarrow> 'n \<Rightarrow> string option \<times> 'n) \<Rightarrow> bool \<Rightarrow> faults \<Rightarrow> wal_clock \<Rightarrow> 'a \<Rightarrow> wal \<times> 'n \<Rightarrow>
   (wal_error + string) option \<times> wal \<times> 'n" where
  "walPublisher_publish encode deliver cancelled f k obj = (\<lambda>(w, n).
     (case wal_append encode cancelled f k obj w of
        (Some err, w1) \<Rightarrow> (Some (Inl err), w1, n)
      | (None, w1) \<Rightarrow>
          (case deliver obj n of
             (Some err, n1) \<Rightarrow> (Some (Inr err), w1, n1)
           | (None, n1) \<Rightarrow> (None, w1, n1))))"

definition journalPublisher_publish ::
  "('a \<Rightarrow> string + string) \<Rightarrow> bool \<Rightarrow> faults \<Rightarrow> wal_clock \<Rightarrow> 'a \<Rightarrow> wal \<Rightarrow> wal_error option \<times> wal" where
  "journalPublisher_publish encode cancelled f k obj w = wal_append encode cancelled f k obj w"

subsection \<open>Names: round trip and order\<close>

lemma is_digit_zero [simp]: "is_digit (CHR ''0'')"
  by (simp add: is_digit_def)

lemma digits_value_pad: "digits_value (replicate k (CHR ''0'') @ s) = digits_value s"
proof -
  have "foldl (\<lambda>n c. 10 * n + digit_value c) 0 (replicate k (CHR ''0'')) = 0"
    by (induction k) (simp_all add: digit_value_def)
  then show ?thesis by (simp add: digits_value_def)
qed

lemma pad20_digits: "list_all is_digit (pad20 n)"
  using show_nat_digits [of n] by (auto simp: pad20_def list_all_iff)

lemma digits_value_pad20 [simp]: "digits_value (pad20 n) = n"
  by (simp add: pad20_def digits_value_pad)

lemma pad20_nonempty [simp]: "pad20 n \<noteq> []"
  by (simp add: pad20_def)

lemma pad20_no_minus: "takeWhile (\<lambda>c. c \<noteq> CHR ''-'') (pad20 n @ CHR ''-'' # r) = pad20 n"
  "dropWhile (\<lambda>c. c \<noteq> CHR ''-'') (pad20 n @ CHR ''-'' # r) = CHR ''-'' # r"
proof -
  have "c \<noteq> CHR ''-''" if "c \<in> set (pad20 n)" for c
    using that pad20_digits [of n] minus_not_digit by (auto simp: list_all_iff)
  then show "takeWhile (\<lambda>c. c \<noteq> CHR ''-'') (pad20 n @ CHR ''-'' # r) = pad20 n"
    "dropWhile (\<lambda>c. c \<noteq> CHR ''-'') (pad20 n @ CHR ''-'' # r) = CHR ''-'' # r"
    by (simp_all add: takeWhile_append2 dropWhile_append2)
qed

lemma segmentName_base_inject:
  assumes "segmentName a t = segmentName b u"
  shows "a = b"
proof -
  have "takeWhile (\<lambda>c. c \<noteq> CHR ''-'') (segmentName n v) = pad20 n" for n v
    using pad20_no_minus(1) [of n "show_int v @ segmentExt"] by (simp add: segmentName_def)
  with assms have "pad20 a = pad20 b" by metis
  then show ?thesis by (metis digits_value_pad20)
qed

lemma parse_digits_nat:
  "int n \<le> max_int64 \<Longrightarrow> list_all is_digit s \<Longrightarrow> s \<noteq> [] \<Longrightarrow> digits_value s = n \<Longrightarrow> parse_digits False s = Some (int n)"
  by (simp add: parse_digits_def)

lemma parseInt64_digits:
  assumes "list_all is_digit s" "s \<noteq> []" "digits_value s = n" "int n \<le> max_int64"
  shows "parseInt64 s = Some (int n)"
proof (cases s)
  case (Cons c cs)
  have "\<not> is_digit (CHR ''+'')" by (simp add: is_digit_def)
  with assms(1) Cons have "c \<noteq> CHR ''-''" "c \<noteq> CHR ''+''" by auto
  then show ?thesis using Cons parse_digits_nat [OF assms(4,1,2,3)] by (simp add: parseInt64_def)
qed (use assms in simp)

lemma parseInt64_show_int:
  assumes "- max_int64 - 1 \<le> i" "i \<le> max_int64"
  shows "parseInt64 (show_int i) = Some i"
proof (cases "i < 0")
  case True
  with assms show ?thesis
    using show_nat_digits [of "nat (- i)"]
    by (simp add: show_int_def parseInt64_def parse_digits_def)
next
  case False
  with assms show ?thesis
    using parseInt64_digits [OF show_nat_digits show_nat_nonempty digits_value_show_nat, of "nat i"]
    by (simp add: show_int_def)
qed

lemma cut_suffix_append [simp]: "cut_suffix suf (s @ suf) = Some s"
  by (simp add: cut_suffix_def)

lemma parseSegmentName_segmentName:
  assumes "int b \<le> max_int64" "- max_int64 - 1 \<le> t" "t \<le> max_int64"
  shows "parseSegmentName (segmentName b t) = Some (int b, t)"
proof -
  have "segmentName b t = (pad20 b @ CHR ''-'' # show_int t) @ segmentExt" by (simp add: segmentName_def)
  moreover have "parseInt64 (pad20 b) = Some (int b)"
    using parseInt64_digits [OF pad20_digits pad20_nonempty digits_value_pad20 assms(1)] .
  ultimately show ?thesis
    using parseInt64_show_int [OF assms(2,3)]
    by (simp only: parseSegmentName_def cut_suffix_append option.case Let_def pad20_no_minus list.case)
qed

text \<open>Digit strings of one length are ordered by value.\<close>

lemma digits_value_Cons: "digits_value (c # s) = digit_value c * 10 ^ length s + digits_value s"
proof (induction s rule: rev_induct)
  case (snoc x xs)
  have "digits_value (c # xs @ [x]) = 10 * digits_value (c # xs) + digit_value x"
    using digits_value_snoc [of "c # xs" x] by simp
  with snoc show ?case by (simp add: digits_value_snoc algebra_simps)
qed (simp add: digits_value_def)

lemma digits_value_bound: "list_all is_digit s \<Longrightarrow> digits_value s < 10 ^ length s"
proof (induction s)
  case (Cons c s)
  then have "digit_value c \<le> 9" by (auto simp: is_digit_def digit_value_def)
  then have "digit_value c * 10 ^ length s \<le> 9 * 10 ^ length s" by (rule mult_le_mono1)
  moreover have "digits_value s < 10 ^ length s" using Cons by simp
  ultimately have "digit_value c * 10 ^ length s + digits_value s < 9 * 10 ^ length s + 10 ^ length s"
    by (rule add_le_less_mono)
  then show ?case by (simp add: digits_value_Cons)
qed (simp add: digits_value_def)

lemma digit_less_iff:
  assumes "is_digit c" "is_digit d"
  shows "c < d \<longleftrightarrow> digit_value c < digit_value d"
  using assms by (auto simp: less_char_def is_digit_def digit_value_def)

lemma digits_less:
  assumes "length xs = length ys" "list_all is_digit xs" "list_all is_digit ys" "digits_value xs < digits_value ys"
  shows "xs @ p < ys @ q"
  using assms
proof (induction xs ys rule: list_induct2)
  case (Cons x xs y ys)
  then have dig: "is_digit x" "is_digit y" by simp_all
  have bound: "digits_value xs < 10 ^ length xs" "digits_value ys < 10 ^ length xs"
    using Cons digits_value_bound by (auto, metis)
  show ?case
  proof (cases "digit_value x = digit_value y")
    case True
    then have "x = y"
      using dig digit_less_iff [of x y] digit_less_iff [of y x] by (metis less_irrefl neqE)
    moreover have "xs @ p < ys @ q"
      using Cons True by (intro Cons.IH) (auto simp: digits_value_Cons)
    ultimately show ?thesis by simp
  next
    case False
    have "digit_value x < digit_value y"
    proof (rule ccontr)
      assume "\<not> digit_value x < digit_value y"
      with False have "Suc (digit_value y) \<le> digit_value x" by simp
      then have "Suc (digit_value y) * 10 ^ length xs \<le> digit_value x * 10 ^ length xs" by (rule mult_right_mono) simp
      with Cons bound show False by (simp add: digits_value_Cons)
    qed
    then show ?thesis using digit_less_iff [OF dig] by simp
  qed
qed (simp add: digits_value_def)

lemma length_show_nat: "n < 10 ^ Suc k \<Longrightarrow> length (show_nat n) \<le> Suc k"
proof (induction k arbitrary: n)
  case 0
  then show ?case by (subst show_nat.simps) simp
next
  case (Suc k)
  show ?case
  proof (cases "n < 10")
    case True
    then show ?thesis by (subst show_nat.simps) simp
  next
    case False
    have "n div 10 < 10 ^ Suc k" using Suc.prems by (simp add: less_mult_imp_div_less)
    from Suc.IH [OF this] False show ?thesis by (subst show_nat.simps) simp
  qed
qed

lemma length_pad20: "n < 10 ^ 20 \<Longrightarrow> length (pad20 n) = 20"
  using length_show_nat [of n 19] by (simp add: pad20_def)

lemma segmentName_less:
  assumes "a < b" "b < 10 ^ 20"
  shows "segmentName a t < segmentName b u"
proof -
  have "length (pad20 a) = length (pad20 b)" using assms length_pad20 by simp
  then show ?thesis
    using digits_less [of "pad20 a" "pad20 b" "''-'' @ show_int t @ segmentExt" "''-'' @ show_int u @ segmentExt"]
      pad20_digits assms(1) by (simp add: segmentName_def)
qed

text \<open>a sealed segment's name carries its offset and seal time: parsing returns both, no name is taken for
  the active segment, and names sort as the offsets do.\<close>

theorem segment_names_faithful:
  assumes "int a \<le> max_int64" "- max_int64 - 1 \<le> t" "t \<le> max_int64"
  shows "parseSegmentName (segmentName a t) = Some (int a, t) \<and>
    parseSegmentName activeSegmentName = None \<and>
    (\<forall>b u. a < b \<and> int b \<le> max_int64 \<longrightarrow> segmentName a t < segmentName b u)"
proof (intro conjI allI impI)
  show "parseSegmentName (segmentName a t) = Some (int a, t)" by (rule parseSegmentName_segmentName [OF assms])
  show "parseSegmentName activeSegmentName = None"
    by (simp add: parseSegmentName_def activeSegmentName_def segmentExt_def cut_suffix_def)
  show "segmentName a t < segmentName b u" if "a < b \<and> int b \<le> max_int64" for b u
    using that by (intro segmentName_less) (simp_all add: max_int64_def)
qed

theorem segment_names_faithful_witness:
  "segmentName 7 5 < segmentName 12 3"
  using segment_names_faithful [of 7 5] by (simp add: max_int64_def)

subsection \<open>The log the segments make up\<close>

text \<open>What the segments hold in the order they were sealed, then the active one. With no handle the
  active file is an orphan of which only the complete lines count.\<close>

definition log_of :: "wal \<Rightarrow> string" where
  "log_of w = concat (map snd (wSealed w)) @
     (if wHandle w = NoHandle then complete_lines (active_bytes w) else active_bytes w)"

definition wal_ok :: "wal \<Rightarrow> bool" where
  "wal_ok w \<longleftrightarrow> (wHandle w = OpenHandle \<longrightarrow> wActive w \<noteq> None)"

definition unused :: "int \<Rightarrow> wal \<Rightarrow> bool" where
  "unused nanos w \<longleftrightarrow> (\<forall>b. segmentName b nanos \<notin> fst ` set (wSealed w))"

lemma put_segment_fresh: "name \<notin> fst ` set segs \<Longrightarrow> put_segment name bytes segs = segs @ [(name, bytes)]"
  by (auto simp: put_segment_def filter_id_conv)

lemma complete_lines_Nil [simp]: "complete_lines [] = []"
  by (simp add: complete_lines_def)

lemma complete_lines_snoc [simp]: "complete_lines (s @ [CHR 0x0A]) = s @ [CHR 0x0A]"
  by (simp add: complete_lines_def)

lemma active_bytes_sync [simp]: "active_bytes (sync_active w) = active_bytes w"
  by (cases "wActive w") (simp_all add: active_bytes_def sync_active_def)

lemma openFreshActive_ok:
  "openFreshActive f now w = (None, w') \<Longrightarrow>
     wSealed w' = wSealed w \<and> wHandle w' = OpenHandle \<and> active_bytes w' = [] \<and> wal_ok w' \<and> wBase w' = wBase w"
  by (auto simp: openFreshActive_def active_bytes_def wal_ok_def split: option.splits)

text \<open>Sealing moves the active bytes into one new segment and keeps the log.\<close>

lemma seal_keeps_log:
  assumes "seal f nanos now w = (None, w')" "wHandle w = OpenHandle" "segmentName (wBase w) nanos \<notin> fst ` set (wSealed w)"
  shows "log_of w' = log_of w \<and> wHandle w' = OpenHandle \<and> wal_ok w' \<and>
    wSealed w' = wSealed w @ [(segmentName (wBase w) nanos, active_bytes w)] \<and> wBase w' = wBase w + 1 \<and>
    active_bytes w' = []"
proof -
  let ?w = "(sync_active w)\<lparr>wSealed := put_segment (segmentName (wBase w) nanos) (active_bytes w) (wSealed w),
      wActive := None, wBase := wBase w + 1, wHandle := NoHandle\<rparr>"
  have "openFreshActive f now ?w = (None, w')"
    using assms(1,2) by (auto simp: seal_def Let_def sync_active_def active_bytes_def map_option_case
        split: option.splits)
  from openFreshActive_ok [OF this] put_segment_fresh [OF assms(3)] assms(2) show ?thesis
    by (simp add: log_of_def)
qed

lemma ensureActive_keeps_log:
  assumes "ensureActive f nanos now w = (None, w')" "wal_ok w" "wHandle w \<noteq> ClosedHandle" "unused nanos w"
  shows "log_of w' = log_of w \<and> wHandle w' = OpenHandle \<and> wal_ok w' \<and>
    (\<exists>b bytes. wSealed w' = wSealed w \<or> (wBase w' = b + 1 \<and> wSealed w' = wSealed w @ [(segmentName b nanos, bytes)]))"
proof (cases "wHandle w")
  case NoHandle
  show ?thesis
  proof (cases "wActive w")
    case None
    with assms(1) NoHandle have "openFreshActive f now (w\<lparr>wBase := nextBaseOffset w\<rparr>) = (None, w')"
      by (auto simp: ensureActive_def Let_def split: option.splits)
    from openFreshActive_ok [OF this] NoHandle None show ?thesis
      by (simp add: log_of_def active_bytes_def)
  next
    case (Some a)
    let ?base = "nextBaseOffset w"
    let ?w = "w\<lparr>wSealed := put_segment (segmentName ?base nanos) (complete_lines (active_bytes w)) (wSealed w),
        wActive := None, wBase := ?base + 1\<rparr>"
    from assms(1) NoHandle Some have "openFreshActive f now ?w = (None, w')"
      by (auto simp: ensureActive_def recoverOrphan_def Let_def split: option.splits prod.splits)
    from openFreshActive_ok [OF this] put_segment_fresh [of "segmentName ?base nanos" "wSealed w"] assms(4) NoHandle
    show ?thesis by (auto simp: log_of_def unused_def)
  qed
qed (use assms in \<open>auto simp: ensureActive_def\<close>)

text \<open>The directory only grows, by names of offsets already used.\<close>

definition grown :: "wal \<Rightarrow> wal \<Rightarrow> bool" where
  "grown w w' \<longleftrightarrow> (\<exists>new. wSealed w' = wSealed w @ new \<and>
     (\<forall>n \<in> fst ` set new. \<exists>b t. b < wBase w' \<and> n = segmentName b t))"

lemma grown_fresh: "grown w w' \<Longrightarrow> unused nanos w \<Longrightarrow> segmentName (wBase w') nanos \<notin> fst ` set (wSealed w')"
proof
  assume "grown w w'" and fresh: "unused nanos w"
  then obtain new where new: "wSealed w' = wSealed w @ new"
    "\<forall>n \<in> fst ` set new. \<exists>b t. b < wBase w' \<and> n = segmentName b t" by (auto simp: grown_def)
  assume "segmentName (wBase w') nanos \<in> fst ` set (wSealed w')"
  with fresh new(1) have "segmentName (wBase w') nanos \<in> fst ` set new" by (auto simp: unused_def image_Un)
  with new(2) obtain b t where "b < wBase w'" "segmentName (wBase w') nanos = segmentName b t" by blast
  then show False using segmentName_base_inject by fastforce
qed

lemma grown_same: "wSealed w' = wSealed w \<Longrightarrow> grown w w'"
  by (simp add: grown_def)

lemma grown_seal:
  "grown w w1 \<Longrightarrow> wSealed w2 = wSealed w1 @ [(segmentName (wBase w1) t, bytes)] \<Longrightarrow> wBase w2 = wBase w1 + 1 \<Longrightarrow> grown w w2"
proof -
  assume "grown w w1" and w2: "wSealed w2 = wSealed w1 @ [(segmentName (wBase w1) t, bytes)]" "wBase w2 = wBase w1 + 1"
  then obtain new where new: "wSealed w1 = wSealed w @ new"
    "\<forall>n \<in> fst ` set new. \<exists>b t. b < wBase w1 \<and> n = segmentName b t" by (auto simp: grown_def)
  have "\<exists>b u. b < wBase w2 \<and> n = segmentName b u" if "n \<in> fst ` set new" for n
  proof -
    from new(2) that obtain b u where "b < wBase w1" "n = segmentName b u" by blast
    with w2(2) have "b < wBase w2 \<and> n = segmentName b u" by simp
    then show ?thesis by blast
  qed
  moreover have "wBase w1 < wBase w2 \<and> segmentName (wBase w1) t = segmentName (wBase w1) t" using w2(2) by simp
  then have "\<exists>b u. b < wBase w2 \<and> segmentName (wBase w1) t = segmentName b u" by blast
  ultimately show "grown w w2"
    unfolding grown_def using w2(1) new(1)
    by (intro exI [of _ "new @ [(segmentName (wBase w1) t, bytes)]"] conjI ballI) (simp, simp, blast)
qed

lemma ensureActive_grown:
  assumes "ensureActive f nanos now w = (None, w')" "wal_ok w" "wHandle w \<noteq> ClosedHandle" "unused nanos w"
  shows "grown w w'"
  using ensureActive_keeps_log [OF assms] by (auto simp: grown_def, metis lessI)

lemma write_active_sel [simp]:
  "wSealed (write_active b w) = wSealed w" "wHandle (write_active b w) = wHandle w"
  "wBase (write_active b w) = wBase w" "maxBytes (write_active b w) = maxBytes w"
  "wActive (write_active b w) = None \<longleftrightarrow> wActive w = None"
  by (simp_all add: write_active_def maxBytes_def)

lemma active_bytes_write: "wActive w \<noteq> None \<Longrightarrow> active_bytes (write_active b w) = active_bytes w @ b"
  by (auto simp: write_active_def active_bytes_def)

lemma append_extends_log:
  assumes run: "wal_append encode cancelled f k obj w = (None, w')"
    and ok: "wal_ok w" "wHandle w \<noteq> ClosedHandle"
    and fresh: "unused (wkOrphan k) w" "unused (wkAgeSeal k) w" "unused (wkSizeSeal k) w"
  shows "\<exists>json. encode obj = Inr json \<and> log_of w' = log_of w @ json @ [CHR 0x0A] \<and> wHandle w' = OpenHandle \<and> wal_ok w' \<and> grown w w'"
proof -
  from run obtain w1 where w1: "ensureActive f (wkOrphan k) (wkFresh k) w = (None, w1)"
    by (auto simp: wal_append_def split: if_splits prod.splits option.splits)
  note one = ensureActive_keeps_log [OF w1 ok fresh(1)] ensureActive_grown [OF w1 ok fresh(1)]
  from run w1 obtain w2 where w2: "(if maxAge w1 \<le> time_sub (wkAge k) (wOpenedAt w1)
      then seal f (wkAgeSeal k) (wkFresh k) w1 else (None, w1)) = (None, w2)"
    by (auto simp: wal_append_def split: if_splits prod.splits option.splits)
  have two: "log_of w2 = log_of w \<and> wHandle w2 = OpenHandle \<and> wal_ok w2 \<and> grown w w2"
  proof (cases "maxAge w1 \<le> time_sub (wkAge k) (wOpenedAt w1)")
    case True
    with w2 have "seal f (wkAgeSeal k) (wkFresh k) w1 = (None, w2)" by simp
    from seal_keeps_log [OF this] one grown_fresh [OF one(2) fresh(2)] show ?thesis
      by (auto intro: grown_seal)
  qed (use w2 one in auto)
  from run w1 w2 two obtain json where json: "encode obj = Inr json" and nofault: "fWrite f = None"
    by (auto simp: wal_append_def Let_def split: if_splits prod.splits option.splits sum.splits)
  let ?line = "json @ [CHR 0x0A]"
  let ?w3 = "(write_active ?line w2)\<lparr>wSize := wSize w2 + int (length ?line)\<rparr>"
  have act: "wActive w2 \<noteq> None" using two by (simp add: wal_ok_def)
  have "active_bytes ?w3 = active_bytes w2 @ ?line"
    using active_bytes_write [OF act, of ?line] by (simp add: active_bytes_def)
  then have three: "log_of ?w3 = log_of w @ ?line" "wHandle ?w3 = OpenHandle" "wal_ok ?w3" "grown w ?w3"
    using two act by (auto simp: log_of_def wal_ok_def grown_def)
  have last: "(if maxBytes ?w3 \<le> wSize ?w3 then seal f (wkSizeSeal k) (wkFresh k) ?w3 else (None, ?w3)) = (None, w')"
    using run w1 w2 json nofault two by (simp add: wal_append_def Let_def split: if_splits)
  have "log_of w' = log_of w @ ?line \<and> wHandle w' = OpenHandle \<and> wal_ok w' \<and> grown w w'"
  proof (cases "maxBytes ?w3 \<le> wSize ?w3")
    case True
    with last have "seal f (wkSizeSeal k) (wkFresh k) ?w3 = (None, w')" by simp
    from seal_keeps_log [OF this three(2) grown_fresh [OF three(4) fresh(3)]] three show ?thesis
      by (auto intro: grown_seal [OF three(4)])
  qed (use last three in auto)
  with json show ?thesis by blast
qed

text \<open>A history of appends, each with its own faults and clock, all of which succeeded.\<close>

inductive appended :: "('a \<Rightarrow> string + string) \<Rightarrow> wal \<Rightarrow> 'a list \<Rightarrow> wal \<Rightarrow> bool" for encode where
  start: "appended encode w [] w"
| more: "appended encode w objs w1 \<Longrightarrow> wal_append encode False f k obj w1 = (None, w2) \<Longrightarrow>
    unused (wkOrphan k) w1 \<Longrightarrow> unused (wkAgeSeal k) w1 \<Longrightarrow> unused (wkSizeSeal k) w1 \<Longrightarrow>
    appended encode w (objs @ [obj]) w2"

definition encoded :: "('a \<Rightarrow> string + string) \<Rightarrow> 'a \<Rightarrow> string" where
  "encoded encode obj = (case encode obj of Inl _ \<Rightarrow> [] | Inr json \<Rightarrow> json @ [CHR 0x0A])"

lemma appended_log:
  assumes "appended encode w objs w'" "wal_ok w" "wHandle w \<noteq> ClosedHandle"
  shows "log_of w' = log_of w @ concat (map (encoded encode) objs) \<and> wal_ok w' \<and> wHandle w' \<noteq> ClosedHandle"
  using assms
proof (induction rule: appended.induct)
  case (more w objs w1 f k obj w2)
  then have one: "log_of w1 = log_of w @ concat (map (encoded encode) objs)" "wal_ok w1" "wHandle w1 \<noteq> ClosedHandle"
    by simp_all
  from append_extends_log [OF more.hyps(2) one(2,3) more.hyps(3-5)] obtain json where json: "encode obj = Inr json"
    and "log_of w2 = log_of w1 @ json @ [CHR 0x0A]" "wHandle w2 = OpenHandle" "wal_ok w2" by blast
  moreover from json have "encoded encode obj = json @ [CHR 0x0A]" by (simp add: encoded_def)
  ultimately show ?case using one(1) by simp
qed simp

subsection \<open>Shipping conserves segments\<close>

lemma ship_all_conserves:
  assumes "ship_all put remove names (w, sink) = (err, w', sink')" "distinct (map fst (wSealed w))"
  shows "\<exists>new. sink' = sink @ new \<and> set new \<subseteq> set (wSealed w) \<and> set (wSealed w) \<subseteq> set (wSealed w') \<union> set new \<and>
    wActive w' = wActive w \<and> distinct (map fst (wSealed w')) \<and>
    (err = None \<longrightarrow> map fst new = names \<and> wSealed w' = filter (\<lambda>s. fst s \<notin> set names) (wSealed w))"
  using assms
proof (induction names arbitrary: w sink)
  case Nil
  then show ?case by auto
next
  case (Cons n ns)
  obtain e1 w1 sink1 where one: "shipOne put remove n (w, sink) = (e1, w1, sink1)"
    by (cases "shipOne put remove n (w, sink)") auto
  show ?case
  proof (cases e1)
    case (Some x)
    with Cons.prems one have "err = Some x" "w' = w1" "sink' = sink1" by simp_all
    moreover have "w1 = w \<and> (sink1 = sink \<or> (\<exists>b. (n, b) \<in> set (wSealed w) \<and> sink1 = sink @ [(n, b)]))"
      using one Some by (auto simp: shipOne_def dest: map_of_SomeD split: option.splits)
    ultimately show ?thesis using Cons.prems(2) by (elim conjE disjE) auto
  next
    case None
    then obtain b where b: "(n, b) \<in> set (wSealed w)" "sink1 = sink @ [(n, b)]"
      and w1: "w1 = w\<lparr>wSealed := filter (\<lambda>s. fst s \<noteq> n) (wSealed w)\<rparr>"
      using one by (auto simp: shipOne_def dest: map_of_SomeD split: option.splits)
    have dist: "distinct (map fst (wSealed w1))" using Cons.prems(2) w1 by (simp add: distinct_map_filter)
    have rest: "ship_all put remove ns (w1, sink1) = (err, w', sink')" using Cons.prems(1) one None by simp
    from Cons.IH [OF rest dist] obtain new where new: "sink' = sink1 @ new" "set new \<subseteq> set (wSealed w1)"
      "set (wSealed w1) \<subseteq> set (wSealed w') \<union> set new" "wActive w' = wActive w1" "distinct (map fst (wSealed w'))"
      "err = None \<longrightarrow> map fst new = ns \<and> wSealed w' = filter (\<lambda>s. fst s \<notin> set ns) (wSealed w1)" by blast
    have only: "s = (n, b)" if "s \<in> set (wSealed w)" "fst s = n" for s
      using that b(1) Cons.prems(2) by (metis eq_key_imp_eq_value prod.collapse)
    have "set (wSealed w) \<subseteq> set (wSealed w') \<union> set ((n, b) # new)" using new(3) w1 only by auto
    moreover have "set ((n, b) # new) \<subseteq> set (wSealed w)" using new(2) w1 b(1) by auto
    moreover have "sink' = sink @ (n, b) # new" using new(1) b(2) by simp
    moreover have "err = None \<longrightarrow> map fst ((n, b) # new) = n # ns \<and>
        wSealed w' = filter (\<lambda>s. fst s \<notin> set (n # ns)) (wSealed w)"
      using new(6) w1 by (auto intro: filter_cong)
    ultimately show ?thesis using new(4,5) w1 by (intro exI [of _ "(n, b) # new"]) simp
  qed
qed

subsection \<open>A crash keeps what was synced\<close>

text \<open>The active file ends in a newline, as it does after every append that succeeded.\<close>

definition whole_lines :: "wal \<Rightarrow> bool" where
  "whole_lines w \<longleftrightarrow> complete_lines (active_bytes w) = active_bytes w"

lemma log_of_crash_synced:
  assumes "wHandle w = OpenHandle" "whole_lines w" "fSync f = None"
  shows "log_of (crash n (sync_tick f w)) = log_of w \<and> wal_ok (crash n (sync_tick f w)) \<and>
    wHandle (crash n (sync_tick f w)) = NoHandle"
proof -
  have "active_bytes (crash n (sync_active w)) = active_bytes w"
    by (cases "wActive w") (simp_all add: crash_def sync_active_def active_bytes_def)
  with assms show ?thesis
    by (simp add: log_of_def sync_tick_def whole_lines_def wal_ok_def)
      (simp add: crash_def sync_active_def)
qed

lemma whole_lines_append:
  assumes "wal_append encode cancelled f k obj w = (None, w')" "wal_ok w" "wHandle w \<noteq> ClosedHandle"
    "unused (wkOrphan k) w" "unused (wkAgeSeal k) w" "unused (wkSizeSeal k) w"
  shows "whole_lines w'"
proof (cases "active_bytes w' = []")
  case True
  then show ?thesis by (simp add: whole_lines_def)
next
  case False
  from append_extends_log [OF assms] obtain json where "log_of w' = log_of w @ json @ [CHR 0x0A]" "wHandle w' = OpenHandle"
    by blast
  then have "concat (map snd (wSealed w')) @ active_bytes w' = (log_of w @ json) @ [CHR 0x0A]"
    by (simp add: log_of_def)
  with False obtain pre where "active_bytes w' = pre @ [CHR 0x0A]"
    by (metis append_butlast_last_id last_appendR last_snoc)
  then show ?thesis by (simp add: whole_lines_def)
qed

text \<open>C16: the write-ahead log is append-only across segments: after any history of successful appends, with
  whatever sealing by size or age and whatever orphan left by an earlier process, reading the
  segments in order and then the active file gives the log as it was followed by exactly the
  encoded records in order.\<close>

theorem journal_append_only:
  assumes "appended encode w objs w'" "wal_ok w" "wHandle w \<noteq> ClosedHandle"
  shows "log_of w' = log_of w @ concat (map (encoded encode) objs)"
  using appended_log [OF assms] by simp

definition fresh_wal :: wal where
  "fresh_wal = \<lparr>wMaxBytes = 4, wMaxAge = 0, wHandle = NoHandle, wSize = 0, wOpenedAt = zero_time, wBase = 0,
     wActive = Some \<lparr>afBytes = ''old'' @ [CHR 0x0A] @ ''to'', afSynced = 4\<rparr>, wSealed = []\<rparr>"

definition example_clock :: wal_clock where
  "example_clock = \<lparr>wkOrphan = 1, wkAge = 2, wkAgeSeal = 3, wkSizeSeal = 4, wkFresh = 2\<rparr>"

lemma fresh_wal_appends:
  "\<exists>w'. wal_append Inr False no_faults example_clock ''new'' fresh_wal = (None, w')"
  by (simp add: wal_append_def ensureActive_def no_faults_def fresh_wal_def example_clock_def Let_def
      recoverOrphan_def openFreshActive_def maxAge_def defaultMaxAge_def time_sub_def min_duration_def
      max_duration_def seal_def)

lemma fresh_wal_unused: "unused n fresh_wal" "wal_ok fresh_wal" "wHandle fresh_wal \<noteq> ClosedHandle"
  by (simp_all add: unused_def fresh_wal_def wal_ok_def)

theorem journal_append_only_witness:
  "\<exists>w'. appended Inr fresh_wal [''new''] w' \<and>
     log_of w' = ''old'' @ [CHR 0x0A] @ ''new'' @ [CHR 0x0A]"
proof -
  obtain w' where "wal_append Inr False no_faults example_clock ''new'' fresh_wal = (None, w')"
    using fresh_wal_appends by blast
  from appended.more [OF appended.start this] fresh_wal_unused have app: "appended Inr fresh_wal [''new''] w'" by simp
  have "log_of fresh_wal = ''old'' @ [CHR 0x0A]"
    by (simp add: log_of_def fresh_wal_def active_bytes_def complete_lines_def)
  with journal_append_only [OF app] app fresh_wal_unused show ?thesis by (auto simp: encoded_def)
qed

text \<open>a crash loses no record that was synced: after an append and a sync, whatever part of the unsynced
  tail a crash destroys, the next process recovers the log whole and its next append extends it.\<close>

theorem crash_keeps_synced_records:
  assumes first: "wal_append encode c f k obj w = (None, w1)" "wal_ok w" "wHandle w \<noteq> ClosedHandle"
    "unused (wkOrphan k) w" "unused (wkAgeSeal k) w" "unused (wkSizeSeal k) w"
    and sync: "fSync g = None"
    and again: "wal_append encode c' f' k' obj' (crash n (sync_tick g w1)) = (None, w2)"
    "unused (wkOrphan k') w1" "unused (wkAgeSeal k') w1" "unused (wkSizeSeal k') w1"
  shows "log_of w2 = log_of w @ encoded encode obj @ encoded encode obj'"
proof -
  let ?c = "crash n (sync_tick g w1)"
  from append_extends_log [OF first] have one: "log_of w1 = log_of w @ encoded encode obj" "wHandle w1 = OpenHandle"
    by (auto simp: encoded_def)
  from log_of_crash_synced [OF one(2) whole_lines_append [OF first] sync, of n]
  have crash: "log_of ?c = log_of w1" "wal_ok ?c" "wHandle ?c \<noteq> ClosedHandle" by simp_all
  have "wSealed ?c = wSealed w1" by (simp add: crash_def sync_tick_def sync_active_def)
  with again(2-4) have "unused (wkOrphan k') ?c" "unused (wkAgeSeal k') ?c" "unused (wkSizeSeal k') ?c"
    by (simp_all add: unused_def)
  from append_extends_log [OF again(1) crash(2,3) this] one crash(1) show ?thesis by (auto simp: encoded_def)
qed

text \<open>C17: shipping never loses a segment: whatever the sink and the removal answer, every sealed segment is
  still on disk or was put to the sink with its bytes, nothing else is put, and a pass that succeeds
  puts exactly the sealed segments in name order and leaves none.\<close>

theorem ship_loses_nothing:
  assumes "ship readDir put remove (w, sink) = (err, w', sink')" "distinct (map fst (wSealed w))"
  shows "\<exists>new. sink' = sink @ new \<and> set new \<subseteq> set (wSealed w) \<and> set (wSealed w) \<subseteq> set (wSealed w') \<union> set new \<and>
    (err = None \<longrightarrow> map fst new = sealedSegments w \<and> sealedSegments w' = [])"
proof (cases readDir)
  case None
  with assms(1) have "ship_all put remove (sealedSegments w) (w, sink) = (err, w', sink')" by (simp add: ship_def)
  from ship_all_conserves [OF this assms(2)] obtain new where new: "sink' = sink @ new" "set new \<subseteq> set (wSealed w)"
    "set (wSealed w) \<subseteq> set (wSealed w') \<union> set new"
    "err = None \<longrightarrow> map fst new = sealedSegments w \<and> wSealed w' = filter (\<lambda>s. fst s \<notin> set (sealedSegments w)) (wSealed w)"
    by blast
  moreover have "filter (\<lambda>s. parseSegmentName (fst s) \<noteq> None) (filter (\<lambda>s. fst s \<notin> set (sealedSegments w)) (wSealed w)) = []"
    by (auto simp: sealedSegments_def filter_empty_conv)
  then have "err = None \<longrightarrow> sealedSegments w' = []"
    using new(4) unfolding sealedSegments_def by auto
  ultimately show ?thesis by blast
qed (use assms in \<open>auto simp: ship_def\<close>)

theorem ship_loses_nothing_witness:
  "sealedSegments (fst (snd (ship None (\<lambda>_. None) (\<lambda>_. None)
     (fresh_wal\<lparr>wSealed := [(segmentName 0 5, ''x'')]\<rparr>, [])))) = []"
proof -
  let ?w = "fresh_wal\<lparr>wSealed := [(segmentName 0 5, ''x'')]\<rparr>"
  have parse: "parseSegmentName (segmentName 0 5) = Some (0, 5)"
    using parseSegmentName_segmentName [of 0 5] by (simp add: max_int64_def)
  obtain w' sink' where run: "ship None (\<lambda>_. None) (\<lambda>_. None) (?w, []) = (None, w', sink')"
    by (simp add: ship_def sealedSegments_def parse shipOne_def)
  from ship_loses_nothing [OF run] run show ?thesis by auto
qed

subsection \<open>Failures the log does not recover from\<close>

text \<open>a failed close or rename wedges the log: the handle stays on a closed file, so every later append
  fails and leaves the log as it is, whatever the file system answers from then on.\<close>

theorem failed_rename_wedges:
  assumes "wHandle w = OpenHandle" "fSync f = None" "fClose f = None" "fRename f = Some err"
  shows "fst (seal f nanos now w) = Some (WalRename err) \<and>
    (let w' = snd (seal f nanos now w)
     in \<forall>encode c g k obj. \<exists>e. wal_append encode c g k obj w' = (Some e, w'))"
proof -
  have w': "snd (seal f nanos now w) = (sync_active w)\<lparr>wHandle := ClosedHandle\<rparr>"
    using assms by (simp add: seal_def)
  have "\<exists>e. wal_append encode c g k obj ((sync_active w)\<lparr>wHandle := ClosedHandle\<rparr>) =
      (Some e, (sync_active w)\<lparr>wHandle := ClosedHandle\<rparr>)" for encode c g k and obj :: 'a
    by (cases "encode obj") (auto simp: wal_append_def ensureActive_def seal_def Let_def)
  with w' assms show ?thesis by (simp add: seal_def)
qed

theorem failed_rename_wedges_witness:
  "fst (seal (no_faults\<lparr>fRename := Some ''EIO''\<rparr>) 1 2 (fresh_wal\<lparr>wHandle := OpenHandle\<rparr>)) = Some (WalRename ''EIO'')"
proof -
  let ?f = "no_faults\<lparr>fRename := Some ''EIO''\<rparr>" and ?w = "fresh_wal\<lparr>wHandle := OpenHandle\<rparr>"
  have "fst (seal ?f 1 2 ?w) = Some (WalRename ''EIO'') \<and>
    (let w' = snd (seal ?f 1 2 ?w)
     in \<forall>encode c g k (obj :: string). \<exists>e. wal_append encode c g k obj w' = (Some e, w'))"
    by (rule failed_rename_wedges) (simp_all add: no_faults_def)
  then show ?thesis by (rule conjunct1)
qed

text \<open>a torn write merges two records: after an append whose write failed part way, the next append that
  succeeds lands on the same line, and neither record is a line of its own.\<close>

theorem torn_write_merges:
  assumes "wHandle w = OpenHandle" "wActive w \<noteq> None" "encode obj = Inr json" "encode obj' = Inr json'"
    "fWrite f = Some (n, err)" "n \<le> length json" "time_sub (wkAge k) (wOpenedAt w) < maxAge w"
    "fWrite g = None" "time_sub (wkAge k') (wOpenedAt w) < maxAge w"
    "wSize w + int (length json') + 1 < maxBytes w"
  shows "active_bytes (snd (wal_append encode False g k' obj' (snd (wal_append encode False f k obj w)))) =
    active_bytes w @ take n json @ json' @ [CHR 0x0A]"
proof -
  let ?w1 = "write_active (take n json) w"
  have one: "snd (wal_append encode False f k obj w) = ?w1"
    using assms by (simp add: wal_append_def ensureActive_def Let_def)
  have same: "wHandle ?w1 = OpenHandle" "wOpenedAt ?w1 = wOpenedAt w" "maxAge ?w1 = maxAge w" "maxBytes ?w1 = maxBytes w"
    "wSize ?w1 = wSize w" "wActive ?w1 \<noteq> None"
    using assms(1,2) by (simp_all add: write_active_def maxAge_def maxBytes_def)
  have bound: "maxBytes ((write_active (json' @ [CHR 0x0A]) ?w1)\<lparr>wSize := m\<rparr>) = maxBytes w" for m
    by (simp add: maxBytes_def write_active_def)
  have "snd (wal_append encode False g k' obj' ?w1) =
      (write_active (json' @ [CHR 0x0A]) ?w1)\<lparr>wSize := wSize w + int (length (json' @ [CHR 0x0A]))\<rparr>"
    using assms same bound by (simp add: wal_append_def ensureActive_def Let_def)
  then show ?thesis
    using active_bytes_write [OF same(6), of "json' @ [CHR 0x0A]"] active_bytes_write [OF assms(2), of "take n json"] one
    by (simp add: active_bytes_def)
qed

text \<open>a restart renumbers below what is still on disk: with one unshipped segment left of a high offset, the
  next process numbers from the count of files, so a newer segment sorts and ships before an older one.\<close>

theorem restart_breaks_ship_order:
  assumes "wSealed w = [(segmentName b t, bytes)]" "1 < b" "int b \<le> max_int64" "0 \<le> t" "t \<le> max_int64"
    "wActive w = None" "wHandle w = NoHandle"
  shows "(let w' = snd (ensureActive no_faults nanos now w);
              w'' = snd (seal no_faults u now w')
          in map fst (wSealed w'') = [segmentName b t, segmentName 1 u] \<and> segmentName 1 u < segmentName b t)"
proof -
  have parse: "parseSegmentName (segmentName b t) = Some (int b, t)"
    using assms by (intro parseSegmentName_segmentName) (auto simp: max_int64_def)
  have "segmentName 1 u < segmentName b t"
    using assms by (intro segmentName_less) (auto simp: max_int64_def)
  moreover from this have "segmentName 1 u \<noteq> segmentName b t" by auto
  ultimately show ?thesis
    using assms parse
    by (simp add: ensureActive_def no_faults_def nextBaseOffset_def openFreshActive_def seal_def put_segment_def
        sync_active_def Let_def)
qed

subsection \<open>Publishing through the log\<close>

text \<open>the record exists before the fact travels: a publish whose append failed does not touch the next
  publisher, and one that reached it, successful or not, has extended the log by the record first.\<close>

theorem recorded_before_delivered:
  assumes "walPublisher_publish encode deliver c f k obj (w, n) = (err, w', n')"
    "wal_ok w" "wHandle w \<noteq> ClosedHandle"
    "unused (wkOrphan k) w" "unused (wkAgeSeal k) w" "unused (wkSizeSeal k) w"
  shows "(\<exists>e. err = Some (Inl e) \<and> n' = n) \<or>
    (\<exists>json. encode obj = Inr json \<and> log_of w' = log_of w @ json @ [CHR 0x0A] \<and> n' = snd (deliver obj n))"
proof (cases "wal_append encode c f k obj w")
  case (Pair e w1)
  show ?thesis
  proof (cases e)
    case None
    from append_extends_log [OF Pair [unfolded None] assms(2-6)] assms(1) Pair None show ?thesis
      by (auto simp: walPublisher_publish_def split: prod.splits option.splits)
  qed (use assms(1) Pair in \<open>auto simp: walPublisher_publish_def\<close>)
qed

theorem recorded_before_delivered_witness:
  "\<exists>w'. walPublisher_publish Inr (\<lambda>obj n. (None, n + 1)) False no_faults example_clock ''new'' (fresh_wal, 0::nat) = (None, w', 1) \<and>
     log_of w' = log_of fresh_wal @ ''new'' @ [CHR 0x0A]"
proof -
  obtain w' where "wal_append Inr False no_faults example_clock ''new'' fresh_wal = (None, w')"
    using fresh_wal_appends by blast
  then have run: "walPublisher_publish Inr (\<lambda>obj n. (None, n + 1)) False no_faults example_clock ''new'' (fresh_wal, 0::nat) = (None, w', 1)"
    by (simp add: walPublisher_publish_def)
  from recorded_before_delivered [OF run] fresh_wal_unused run show ?thesis by auto
qed

end
