(* ===== verification/Whir.thy ===== *)
theory Whir
  imports Boundary "HOL-Library.Multiset" "HOL-Library.List_Lexorder" "HOL-Library.Char_ord"
begin

text \<open>
  Topology: the authored dependency graph (\<^verbatim>\<open>src/internal/whir/whir.go\<close>), the live state of a
  dependency (\<^verbatim>\<open>resolve.go\<close>), the graph observed from traces (\<^verbatim>\<open>graph.go\<close>), and the snapshots clank takes
  of them (\<^verbatim>\<open>src/internal/clank/topology.go\<close>).

  The metrics backend is the record \<open>backend\<close>: an instant query answers with an error or rows, the
  remaining fields decode the raw JSON of a value and parse a float. YAML decoding and the file
  system are arguments of the loaders, and a query template is filled by \<open>bkFormat\<close>.
\<close>

abbreviation StateHealthy :: string where
  "StateHealthy \<equiv> ''healthy''"

abbreviation StateDegraded :: string where
  "StateDegraded \<equiv> ''degraded''"

abbreviation StateUnknown :: string where
  "StateUnknown \<equiv> ''unknown''"

text \<open>Storing a list of bindings in order: the last one of a key stays.\<close>

fun put_all :: "('k \<times> 'v) list \<Rightarrow> ('k \<rightharpoonup> 'v) \<Rightarrow> ('k \<rightharpoonup> 'v)" where
  "put_all [] m = m"
| "put_all ((k, v) # kvs) m = put_all kvs (m(k \<mapsto> v))"

subsection \<open>The authored graph\<close>

record entity =
  enName :: string
  enDependsOn :: "string list"

type_synonym whir_catalog = "entity list"

definition catalog_edges :: "whir_catalog \<Rightarrow> string \<Rightarrow> string list" where
  "catalog_edges c n = (case List.find (\<lambda>e. enName e = n) c of None \<Rightarrow> [] | Some e \<Rightarrow> enDependsOn e)"

text \<open>What follows the last slash, the whole reference when there is none.\<close>

definition bare_name :: "string \<Rightarrow> string" where
  "bare_name ref = rev (takeWhile (\<lambda>c. c \<noteq> CHR ''/'') (rev ref))"

text \<open>One document is its \<^verbatim>\<open>metadata.name\<close> with its \<^verbatim>\<open>spec.dependsOn\<close>, or an error.\<close>

fun load_docs :: "(string \<Rightarrow> string + string \<times> string list) \<Rightarrow> string list \<Rightarrow> string + whir_catalog" where
  "load_docs unmarshal [] = Inr []"
| "load_docs unmarshal (d # ds) =
     (case unmarshal d of
        Inl err \<Rightarrow> Inl err
      | Inr (name, deps) \<Rightarrow>
          res_bind (load_docs unmarshal ds) (\<lambda>es.
            Inr (if name = [] then es else \<lparr>enName = name, enDependsOn = map bare_name deps\<rparr> # es)))"

text \<open>The documents of a file: the pieces between occurrences of a line break and three dashes.\<close>

fun split_docs :: "string \<Rightarrow> string list" where
  "split_docs [] = [[]]"
| "split_docs (c # s) =
     (if take 4 (c # s) = [CHR 0x0A, CHR ''-'', CHR ''-'', CHR ''-''] then [] # split_docs (drop 3 s)
      else (case split_docs s of [] \<Rightarrow> [[c]] | d # ds \<Rightarrow> (c # d) # ds))"

definition whir_load :: "(string \<Rightarrow> string + string \<times> string list) \<Rightarrow> string \<Rightarrow> string + whir_catalog" where
  "whir_load unmarshal raw = load_docs unmarshal (split_docs raw)"

datatype whir_error = WhirRead string string | WhirParse string

definition loadCatalogFile ::
  "(string \<Rightarrow> string + string) \<Rightarrow> (string \<Rightarrow> string + string \<times> string list) \<Rightarrow> string \<Rightarrow>
   whir_error + whir_catalog" where
  "loadCatalogFile readFile unmarshal path =
     (case readFile path of
        Inl err \<Rightarrow> Inl (WhirRead path err)
      | Inr raw \<Rightarrow> (case whir_load unmarshal raw of
                      Inl err \<Rightarrow> Inl (WhirParse err) | Inr c \<Rightarrow> Inr c))"

subsection \<open>The backend\<close>

record instant_row =
  irMetric :: "string \<rightharpoonup> string"
  irValue :: string

record backend =
  bkQuery :: "string \<Rightarrow> string + instant_row list"
  bkString :: "string \<Rightarrow> string option"
  bkNumber :: "string \<Rightarrow> real option"
  bkParseFloat :: "string \<Rightarrow> real option"
  bkFormat :: "string \<Rightarrow> string \<Rightarrow> duration \<Rightarrow> string"

definition resolver_state :: "backend \<Rightarrow> (string \<rightharpoonup> string) \<Rightarrow> string \<Rightarrow> string" where
  "resolver_state b queries dependency =
     (case queries dependency of
        None \<Rightarrow> StateUnknown
      | Some q \<Rightarrow>
          (case bkQuery b q of
             Inl _ \<Rightarrow> StateUnknown
           | Inr [] \<Rightarrow> StateUnknown
           | Inr (r # _) \<Rightarrow>
               (case bkString b (irValue r) of
                  None \<Rightarrow> StateUnknown
                | Some v \<Rightarrow>
                    (case bkParseFloat b v of
                       None \<Rightarrow> StateUnknown
                     | Some f \<Rightarrow> if 0 < f then StateHealthy else StateDegraded))))"

definition loadStateQueries ::
  "(string \<Rightarrow> string + 'raw) \<Rightarrow> ('raw \<Rightarrow> string + (string \<times> string) list) \<Rightarrow> string \<Rightarrow>
   whir_error + (string \<rightharpoonup> string)" where
  "loadStateQueries readFile unmarshal path =
     (case readFile path of
        Inl err \<Rightarrow> Inl (WhirRead path err)
      | Inr raw \<Rightarrow>
          (case unmarshal raw of
             Inl err \<Rightarrow> Inl (WhirParse err)
           | Inr qs \<Rightarrow> Inr (put_all qs Map.empty)))"

subsection \<open>The observed graph\<close>

record graph_edge =
  geClient :: string
  geServer :: string
  geShare :: real
  geFailRate :: real
  geState :: string

record graph_queries =
  gqRequests :: string
  gqFailed :: string
  gqInboundRequests :: string
  gqInboundFailed :: string
  gqFailedThreshold :: real

definition parseRawFloat :: "backend \<Rightarrow> string \<Rightarrow> real" where
  "parseRawFloat b raw =
     (case Option.bind (bkString b raw) (bkParseFloat b) of
        Some f \<Rightarrow> f
      | None \<Rightarrow> (case bkNumber b raw of Some f \<Rightarrow> f | None \<Rightarrow> 0))"

text \<open>The loop over the request series: the last value per peer, the total, the peers in order.\<close>

fun request_loop ::
  "backend \<Rightarrow> string \<Rightarrow> instant_row list \<Rightarrow> (string \<rightharpoonup> real) \<times> real \<times> string list \<Rightarrow>
   (string \<rightharpoonup> real) \<times> real \<times> string list" where
  "request_loop b label [] acc = acc"
| "request_loop b label (r # rs) (reqs, tot, others) =
     (let peer = map_get [] (irMetric r) label;
          val = parseRawFloat b (irValue r)
      in if peer = [] \<or> val \<le> 0 then request_loop b label rs (reqs, tot, others)
         else request_loop b label rs (reqs(peer \<mapsto> val), tot + val, others @ [peer]))"

fun failed_loop :: "backend \<Rightarrow> string \<Rightarrow> instant_row list \<Rightarrow> (string \<rightharpoonup> real) \<Rightarrow> (string \<rightharpoonup> real)" where
  "failed_loop b label [] fails = fails"
| "failed_loop b label (r # rs) fails =
     (let peer = map_get [] (irMetric r) label
      in failed_loop b label rs (if peer = [] then fails else fails(peer \<mapsto> parseRawFloat b (irValue r))))"

definition edge_for ::
  "(string \<rightharpoonup> real) \<Rightarrow> (string \<rightharpoonup> real) \<Rightarrow> real \<Rightarrow> real \<Rightarrow> (string \<Rightarrow> graph_edge) \<Rightarrow> string \<Rightarrow> graph_edge" where
  "edge_for reqs fails tot threshold newEdge peer =
     (let req = map_get 0 reqs peer;
          failRate = (if 0 < req then map_get 0 fails peer / req else 0)
      in (newEdge peer)\<lparr>geShare := req / tot, geFailRate := failRate,
            geState := (if threshold \<le> failRate then StateDegraded else StateHealthy)\<rparr>)"

definition queryEdges ::
  "backend \<Rightarrow> duration \<Rightarrow> real \<Rightarrow> string \<Rightarrow> string \<Rightarrow> string \<Rightarrow> string \<Rightarrow> (string \<Rightarrow> graph_edge) \<Rightarrow> graph_edge list" where
  "queryEdges b window failedThreshold reqTemplate failTemplate name label newEdge =
     (if reqTemplate = [] then []
      else
        (let window = (if window \<le> 0 then 5 * minute else window)
         in case bkQuery b (bkFormat b reqTemplate name window) of
              Inl _ \<Rightarrow> []
            | Inr rows \<Rightarrow>
                (if rows = [] then []
                 else
                   (let (reqs, tot, others) = request_loop b label rows (Map.empty, 0, [])
                    in if tot \<le> 0 then []
                       else
                         (let fails = (if failTemplate = [] then Map.empty
                                       else case bkQuery b (bkFormat b failTemplate name window) of
                                              Inl _ \<Rightarrow> Map.empty
                                            | Inr frows \<Rightarrow> failed_loop b label frows Map.empty);
                              threshold = (if failedThreshold \<le> 0 then 5/100 else failedThreshold)
                          in map (edge_for reqs fails tot threshold newEdge) (sort others))))))"

definition blank_edge :: "string \<Rightarrow> string \<Rightarrow> graph_edge" where
  "blank_edge client server =
     \<lparr>geClient = client, geServer = server, geShare = 0, geFailRate = 0, geState = []\<rparr>"

definition graph_edges :: "backend \<Rightarrow> duration \<Rightarrow> graph_queries \<Rightarrow> string \<Rightarrow> graph_edge list" where
  "graph_edges b window q name =
     queryEdges b window (gqFailedThreshold q) (gqRequests q) (gqFailed q) name ''server''
       (\<lambda>peer. blank_edge name peer)"

definition graph_inbound :: "backend \<Rightarrow> duration \<Rightarrow> graph_queries \<Rightarrow> string \<Rightarrow> graph_edge list" where
  "graph_inbound b window q name =
     queryEdges b window (gqFailedThreshold q) (gqInboundRequests q) (gqInboundFailed q) name ''client''
       (\<lambda>peer. blank_edge peer name)"

definition loadGraphQueries ::
  "(string \<Rightarrow> string + 'raw) \<Rightarrow> ('raw \<Rightarrow> string + graph_queries) \<Rightarrow> ('raw \<Rightarrow> string + graph_queries) \<Rightarrow> string \<Rightarrow>
   whir_error + graph_queries" where
  "loadGraphQueries readFile unmarshalNested unmarshalDirect path =
     (case readFile path of
        Inl err \<Rightarrow> Inl (WhirRead path err)
      | Inr raw \<Rightarrow>
          (case unmarshalNested raw of
             Inl err \<Rightarrow> Inl (WhirParse err)
           | Inr q \<Rightarrow>
               if gqRequests q \<noteq> [] \<or> gqFailed q \<noteq> [] then Inr q
               else (case unmarshalDirect raw of Inl err \<Rightarrow> Inl (WhirParse err) | Inr q' \<Rightarrow> Inr q')))"

subsection \<open>The snapshots clank takes\<close>

text \<open>A resolver that is not wired answers unknown.\<close>

definition resolveState :: "(string \<Rightarrow> string) option \<Rightarrow> string \<Rightarrow> string" where
  "resolveState resolver dependency =
     (case resolver of None \<Rightarrow> StateUnknown | Some state \<Rightarrow> state dependency)"

definition node_of :: "string \<Rightarrow> string \<Rightarrow> real \<Rightarrow> node_state" where
  "node_of n st share = \<lparr>nsName = n, nsState = st, nsDegradedSince = 0, nsTrafficShare = share\<rparr>"

definition catalogUpstream :: "whir_catalog \<Rightarrow> (string \<Rightarrow> string) option \<Rightarrow> string \<Rightarrow> node_state list" where
  "catalogUpstream c resolver origin =
     map (\<lambda>dep. node_of dep (resolveState resolver dep) 0) (catalog_edges c origin)"

definition catalogDownstream :: "whir_catalog \<Rightarrow> (string \<Rightarrow> string) option \<Rightarrow> string \<Rightarrow> node_state list" where
  "catalogDownstream c resolver origin =
     map (\<lambda>e. node_of (enName e) (resolveState resolver (enName e)) 0)
       (filter (\<lambda>e. enName e \<noteq> origin \<and> origin \<in> set (enDependsOn e)) c)"

definition observedNodeStates :: "graph_edge list \<Rightarrow> (graph_edge \<Rightarrow> string) \<Rightarrow> node_state list" where
  "observedNodeStates edges name = map (\<lambda>e. node_of (name e) (geState e) (geShare e)) edges"

definition whir_topology :: "whir_catalog \<Rightarrow> (string \<Rightarrow> string) option \<Rightarrow> detection \<Rightarrow> topology_snapshot" where
  "whir_topology c resolver sig =
     \<lparr>tsUpstream = catalogUpstream c resolver (detOriginService sig), tsDownstream = []\<rparr>"

text \<open>The graph is a pair of queries, outbound and inbound, or not wired.\<close>

definition observed_topology ::
  "((string \<Rightarrow> graph_edge list) \<times> (string \<Rightarrow> graph_edge list)) option \<Rightarrow> whir_catalog \<Rightarrow>
   (string \<Rightarrow> string) option \<Rightarrow> detection \<Rightarrow> topology_snapshot" where
  "observed_topology graph c resolver sig =
     (let origin = detOriginService sig;
          up = (case graph of None \<Rightarrow> [] | Some (edges, _) \<Rightarrow> observedNodeStates (edges origin) geServer);
          down = (case graph of None \<Rightarrow> [] | Some (_, inbound) \<Rightarrow> observedNodeStates (inbound origin) geClient)
      in \<lparr>tsUpstream = (if up = [] then catalogUpstream c resolver origin else up),
          tsDownstream = (if down = [] then catalogDownstream c resolver origin else down)\<rparr>)"

subsection \<open>Facts\<close>

text \<open>The rows that count: a named peer with a positive value.\<close>

definition counted :: "backend \<Rightarrow> string \<Rightarrow> instant_row list \<Rightarrow> (string \<times> real) list" where
  "counted b label rows =
     filter (\<lambda>(p, v). p \<noteq> [] \<and> 0 < v)
       (map (\<lambda>r. (map_get [] (irMetric r) label, parseRawFloat b (irValue r))) rows)"

lemma request_loop_counted:
  "request_loop b label rows (reqs, tot, others) =
     (put_all (counted b label rows) reqs,
      tot + sum_list (map snd (counted b label rows)), others @ map fst (counted b label rows))"
  by (induction rows arbitrary: reqs tot others) (auto simp: counted_def Let_def not_le)

lemma put_all_notin: "p \<notin> fst ` set kvs \<Longrightarrow> put_all kvs m p = m p"
  by (induction kvs arbitrary: m) auto

lemma put_all_distinct:
  "distinct (map fst kvs) \<Longrightarrow> (p, v) \<in> set kvs \<Longrightarrow> put_all kvs m p = Some v"
proof (induction kvs arbitrary: m)
  case (Cons kv kvs)
  obtain q u where kv: "kv = (q, u)" by fastforce
  show ?case
  proof (cases "(p, v) = kv")
    case True
    with Cons.prems kv have "p \<notin> fst ` set kvs" by auto
    then have "put_all kvs (m(p \<mapsto> v)) p = (m(p \<mapsto> v)) p" by (rule put_all_notin)
    then show ?thesis using True kv by simp
  qed (use Cons kv in auto)
qed simp

lemma counted_values: "(p, v) \<in> set (counted b label rows) \<Longrightarrow> 0 < v"
  by (auto simp: counted_def)

lemma sum_list_pos: "xs \<noteq> [] \<Longrightarrow> (\<And>x. x \<in> set xs \<Longrightarrow> (0::real) < x) \<Longrightarrow> 0 < sum_list xs"
  by (induction xs rule: list_nonempty_induct) (auto intro: add_pos_pos)

lemma sum_list_sort: "sum_list (map f (sort xs)) = (sum_list (map f xs) :: real)"
  by (metis mset_map mset_sort sum_mset_sum_list)

lemma sum_list_scaled: "sum_list (map (\<lambda>x. f x / c) xs) = (sum_list (map f xs) / c :: real)"
  by (induction xs) (auto simp: add_divide_distrib)

lemma counted_total_pos: "counted b label rows \<noteq> [] \<Longrightarrow> 0 < sum_list (map snd (counted b label rows))"
  by (rule sum_list_pos) (auto dest: counted_values)

text \<open>Every shape of answer, in one equation: the edges of the distinct counted peers.\<close>

lemma queryEdges_distinct:
  assumes "reqTemplate \<noteq> []" "bkQuery b (bkFormat b reqTemplate name (if window \<le> 0 then 5 * minute else window)) = Inr rows"
    "distinct (map fst (counted b label rows))"
  shows "map geShare (queryEdges b window th reqTemplate failTemplate name label newEdge) =
    map (\<lambda>p. the (map_of (counted b label rows) p) / sum_list (map snd (counted b label rows)))
      (sort (map fst (counted b label rows)))"
proof (cases "counted b label rows = []")
  case True
  have "request_loop b label rows (Map.empty, 0, []) = (Map.empty, 0, [])"
    by (simp add: request_loop_counted True)
  with assms True show ?thesis by (simp add: queryEdges_def Let_def)
next
  case False
  let ?kvs = "counted b label rows"
  have rows: "rows \<noteq> []" using False by (auto simp: counted_def)
  have total: "0 < sum_list (map snd ?kvs)" by (rule counted_total_pos [OF False])
  have get: "map_get 0 (put_all ?kvs Map.empty) p = the (map_of ?kvs p)"
    if "p \<in> set (map fst ?kvs)" for p
  proof -
    from that obtain v where v: "(p, v) \<in> set ?kvs" by auto
    with put_all_distinct [OF assms(3) v] map_of_is_SomeI [OF assms(3) v] show ?thesis by (simp add: map_get_def)
  qed
  show ?thesis
    using assms rows total get
    by (simp add: queryEdges_def Let_def request_loop_counted edge_for_def not_le)
qed

text \<open>the observed shares are a distribution: when the backend answers one series per peer, the shares of
  the edges are positive, none exceeds one, and together they make up exactly the whole.\<close>

theorem shares_are_a_distribution:
  assumes "reqTemplate \<noteq> []" "bkQuery b (bkFormat b reqTemplate name (if window \<le> 0 then 5 * minute else window)) = Inr rows"
    "distinct (map fst (counted b label rows))" "counted b label rows \<noteq> []"
  shows "sum_list (map geShare (queryEdges b window th reqTemplate failTemplate name label newEdge)) = 1 \<and>
    (\<forall>e \<in> set (queryEdges b window th reqTemplate failTemplate name label newEdge). 0 < geShare e \<and> geShare e \<le> 1)"
proof -
  let ?kvs = "counted b label rows" and ?es = "queryEdges b window th reqTemplate failTemplate name label newEdge"
  let ?total = "sum_list (map snd ?kvs)" and ?share = "\<lambda>p. the (map_of (counted b label rows) p) / sum_list (map snd (counted b label rows))"
  have total: "0 < ?total" by (rule counted_total_pos [OF assms(4)])
  note shares = queryEdges_distinct [OF assms(1-3), of th failTemplate newEdge]
  have val: "the (map_of ?kvs p) = v" if "(p, v) \<in> set ?kvs" for p v
    using map_of_is_SomeI [OF assms(3) that] by simp
  have "sum_list (map geShare ?es) = sum_list (map ?share (map fst ?kvs))"
    unfolding shares by (rule sum_list_sort)
  also have "\<dots> = sum_list (map (\<lambda>kv. snd kv / ?total) ?kvs)"
    by (intro arg_cong [where f = sum_list]) (auto simp: val)
  also have "\<dots> = 1" using total by (simp add: sum_list_scaled)
  finally have one: "sum_list (map geShare ?es) = 1" .
  have pos: "0 < geShare e" if "e \<in> set ?es" for e
  proof -
    have "geShare e \<in> set (map geShare ?es)" using that by simp
    then obtain p v where "(p, v) \<in> set ?kvs" "geShare e = v / ?total"
      unfolding shares using val by auto
    then show ?thesis using total counted_values by simp
  qed
  have "geShare e \<le> 1" if "e \<in> set ?es" for e
  proof -
    have "geShare e \<le> sum_list (map geShare ?es)"
      by (rule member_le_sum_list) (use that pos in \<open>auto intro: less_imp_le\<close>)
    with one show ?thesis by simp
  qed
  with one pos show ?thesis by blast
qed

text \<open>Two callees answer with three and one requests a second, one of them failing half of the time.\<close>

definition sample_backend :: backend where
  "sample_backend =
     \<lparr>bkQuery = (\<lambda>q. Inr (if q = ''requests''
         then [\<lparr>irMetric = [''server'' \<mapsto> ''flagd''], irValue = ''3''\<rparr>, \<lparr>irMetric = [''server'' \<mapsto> ''cart''], irValue = ''1''\<rparr>]
         else [])),
      bkString = Some,
      bkNumber = (\<lambda>_. None),
      bkParseFloat = (\<lambda>v. if v = ''3'' then Some 3 else if v = ''1'' then Some 1 else None),
      bkFormat = (\<lambda>template _ _. template)\<rparr>"

theorem shares_are_a_distribution_witness:
  "sum_list (map geShare (queryEdges sample_backend 0 0 ''requests'' [] ''checkout'' ''server'' (blank_edge ''checkout''))) = 1"
proof -
  let ?rows = "[\<lparr>irMetric = [''server'' \<mapsto> ''flagd''], irValue = ''3''\<rparr>, \<lparr>irMetric = [''server'' \<mapsto> ''cart''], irValue = ''1''\<rparr>]"
  have query: "bkQuery sample_backend (bkFormat sample_backend ''requests'' ''checkout''
      (if (0::duration) \<le> 0 then 5 * minute else 0)) = Inr ?rows"
    by (simp add: sample_backend_def)
  have kvs: "counted sample_backend ''server'' ?rows = [(''flagd'', 3), (''cart'', 1)]"
    by (simp add: counted_def sample_backend_def parseRawFloat_def map_get_def)
  show ?thesis
    using shares_are_a_distribution [OF _ query, of "''server''" 0 "[]" "blank_edge ''checkout''"] kvs by simp
qed

text \<open>the snapshot never invents a dependency: every upstream node is a server the graph reported for the
  origin, with the state and the share it reported, or, when the graph reported none, a declared dependency
  with the state the resolver answers; downstream likewise with callers.\<close>

theorem observed_topology_sourced:
  "n \<in> set (tsUpstream (observed_topology graph c resolver sig)) \<longleftrightarrow>
     (case graph of
        Some (edges, inbound) \<Rightarrow>
          (\<exists>e. e \<in> set (edges (detOriginService sig)) \<and> n = node_of (geServer e) (geState e) (geShare e)) \<or>
          edges (detOriginService sig) = [] \<and> n \<in> set (catalogUpstream c resolver (detOriginService sig))
      | None \<Rightarrow> n \<in> set (tsUpstream (whir_topology c resolver sig)))"
  "n \<in> set (tsDownstream (observed_topology graph c resolver sig)) \<longleftrightarrow>
     (\<exists>edges inbound e. graph = Some (edges, inbound) \<and> e \<in> set (inbound (detOriginService sig)) \<and>
        n = node_of (geClient e) (geState e) (geShare e)) \<or>
     (\<nexists>edges inbound e. graph = Some (edges, inbound) \<and> e \<in> set (inbound (detOriginService sig))) \<and>
     (\<exists>e. e \<in> set c \<and> enName e \<noteq> detOriginService sig \<and> detOriginService sig \<in> set (enDependsOn e) \<and>
        n = node_of (enName e) (resolveState resolver (enName e)) 0)"
proof -
  show "n \<in> set (tsUpstream (observed_topology graph c resolver sig)) \<longleftrightarrow>
     (case graph of
        Some (edges, inbound) \<Rightarrow>
          (\<exists>e. e \<in> set (edges (detOriginService sig)) \<and> n = node_of (geServer e) (geState e) (geShare e)) \<or>
          edges (detOriginService sig) = [] \<and> n \<in> set (catalogUpstream c resolver (detOriginService sig))
      | None \<Rightarrow> n \<in> set (tsUpstream (whir_topology c resolver sig)))"
    by (cases graph) (auto simp: observed_topology_def whir_topology_def observedNodeStates_def Let_def)
  show "n \<in> set (tsDownstream (observed_topology graph c resolver sig)) \<longleftrightarrow>
     (\<exists>edges inbound e. graph = Some (edges, inbound) \<and> e \<in> set (inbound (detOriginService sig)) \<and>
        n = node_of (geClient e) (geState e) (geShare e)) \<or>
     (\<nexists>edges inbound e. graph = Some (edges, inbound) \<and> e \<in> set (inbound (detOriginService sig))) \<and>
     (\<exists>e. e \<in> set c \<and> enName e \<noteq> detOriginService sig \<and> detOriginService sig \<in> set (enDependsOn e) \<and>
        n = node_of (enName e) (resolveState resolver (enName e)) 0)"
  proof (cases graph)
    case None
    then show ?thesis by (auto simp: observed_topology_def catalogDownstream_def Let_def)
  next
    case (Some g)
    then show ?thesis
      by (cases g; cases "snd g (detOriginService sig)")
        (auto simp: observed_topology_def observedNodeStates_def catalogDownstream_def Let_def)
  qed
qed

text \<open>two series of one peer give two edges of it, each with the last value over the sum of both, so the
  shares no longer make up one. The code promises one edge per distinct peer.\<close>

theorem repeated_peer_distorts_shares:
  "map (\<lambda>e. (geServer e, geShare e))
     (queryEdges (sample_backend\<lparr>bkQuery := (\<lambda>q. Inr [\<lparr>irMetric = [''server'' \<mapsto> ''cart''], irValue = ''1''\<rparr>,
        \<lparr>irMetric = [''server'' \<mapsto> ''cart''], irValue = ''3''\<rparr>])\<rparr>)
        0 0 ''requests'' [] ''checkout'' ''server'' (blank_edge ''checkout'')) =
   [(''cart'', 3/4), (''cart'', 3/4)]"
  by (simp add: queryEdges_def sample_backend_def parseRawFloat_def map_get_def edge_for_def blank_edge_def Let_def)

end
