(* ===== verification/Rattle.thy ===== *)
theory Rattle
  imports ConfigFile Whir
begin

text \<open>
  rattle, the signal plane: the detectors (\<^verbatim>\<open>src/internal/rattle/detector.go\<close>, \<^verbatim>\<open>correlation.go\<close>,
  \<^verbatim>\<open>envelope.go\<close>), the debouncer, the signal contract, the enrichment, the sources, and the reconcile pass
  and loop that run them (\<^verbatim>\<open>reconcile.go\<close>, \<^verbatim>\<open>rattle.go\<close>).

  What one pass reads for one SLO is the record \<open>slo_reads\<close>: the answers of the sources and the clock. A
  pass is given the readings by position in the watch list, so two entries with the same fields may
  read differently. A slice whose bound is out of range, which stops the process in Go, is the error
  \<open>SliceOutOfRange\<close>. The real backend is the record \<open>backend\<close> of the topology theory.
\<close>

subsection \<open>Samples and watched objects\<close>

record sample =
  smT :: time
  smBurnRate :: real

record dependency =
  dpName :: string
  dpRole :: string

record slo =
  sloID :: string
  sloObject :: string
  sloTier :: string
  sloObjective :: real
  sloContractRef :: string
  sloDependencies :: "dependency list"

record traffic_sample =
  tsT :: time
  tsAffectedPct :: real

datatype rattle_error =
    BurnSamplesErr string string
  | MultiSignalsErr string string
  | BaselineErr string string
  | TrafficErr string string
  | SliceOutOfRange

definition slo_kind :: string where
  "slo_kind = ''slo_burn''"

definition fingerprint :: "slo \<Rightarrow> string" where
  "fingerprint s = slo_kind @ '':'' @ sloObject s"

subsection \<open>Detectors\<close>

definition burnRates :: "sample list \<Rightarrow> real list" where
  "burnRates w = map smBurnRate w"

fun diffs :: "real list \<Rightarrow> real list" where
  "diffs (x # y # xs) = (y - x) # diffs (y # xs)"
| "diffs _ = []"

definition mean :: "real list \<Rightarrow> real" where
  "mean xs = (if xs = [] then 0 else sum_list xs / real (length xs))"

definition acceleration_detect :: "real \<Rightarrow> sample list \<Rightarrow> bool \<times> real" where
  "acceleration_detect threshold w =
     (if length w < 3 then (False, 0)
      else (let d1 = diffs (burnRates w); accel = mean (diffs d1)
            in (0 < mean d1 \<and> threshold < accel, accel)))"

record sustained =
  suThreshold :: real
  suMinSamples :: int

text \<open>\<open>None\<close> is the slice expression out of range, reached exactly with a negative count.\<close>

definition sustained_detect :: "sustained \<Rightarrow> sample list \<Rightarrow> (bool \<times> real) option" where
  "sustained_detect d w =
     (if int (length w) < suMinSamples d \<or> suMinSamples d = 0 then Some (False, 0)
      else if suMinSamples d < 0 then None
      else (let tail = drop (length w - nat (suMinSamples d)) w
            in if \<exists>s \<in> set tail. smBurnRate s < suThreshold d then Some (False, 0)
               else Some (True, smBurnRate (last tail))))"

definition correlation_fires :: "int \<Rightarrow> (string \<times> sample list) list \<Rightarrow> bool" where
  "correlation_fires minSignals w =
     (minSignals \<le> int (length (filter (\<lambda>(_, series). 0 < mean (diffs (burnRates series))) w)))"

definition stddev :: "real list \<Rightarrow> real \<Rightarrow> real" where
  "stddev xs m = (if xs = [] then 0 else sqrt (sum_list (map (\<lambda>x. (x - m) * (x - m)) xs) / real (length xs)))"

definition envelope_fires :: "real \<Rightarrow> sample list \<Rightarrow> sample list \<Rightarrow> bool" where
  "envelope_fires k baseline live =
     (if length baseline < 2 then False
      else (let bMean = mean (burnRates baseline); bStdDev = stddev (burnRates baseline) bMean
            in bMean + k * bStdDev < mean (burnRates live)))"

subsection \<open>Debounce and signal contract\<close>

record debouncer =
  dbHold :: duration
  dbLast :: "string \<rightharpoonup> time"

definition newDebouncer :: "duration \<Rightarrow> debouncer" where
  "newDebouncer hold = \<lparr>dbHold = hold, dbLast = Map.empty\<rparr>"

definition allow :: "debouncer \<Rightarrow> string \<Rightarrow> time \<Rightarrow> bool \<times> debouncer" where
  "allow d fp now =
     (case dbLast d fp of
        Some l \<Rightarrow> if time_sub now l < dbHold d then (False, d) else (True, d\<lparr>dbLast := (dbLast d)(fp \<mapsto> now)\<rparr>)
      | None \<Rightarrow> (True, d\<lparr>dbLast := (dbLast d)(fp \<mapsto> now)\<rparr>))"

record exclusion_window =
  exStart :: time
  exEnd :: time
  exReason :: string

record signal_contract =
  scFreshnessBound :: duration
  scMinObservationWindow :: int
  scConfidenceFloor :: real
  scExclusionWindows :: "exclusion_window list"

definition attenuated :: "signal_contract \<Rightarrow> real \<Rightarrow> time \<Rightarrow> real" where
  "attenuated c base now =
     (let a = (if \<exists>ex \<in> set (scExclusionWindows c). exStart ex \<le> now \<and> now < exEnd ex then base / 2 else base)
      in if a < scConfidenceFloor c then scConfidenceFloor c else a)"

definition fresh :: "signal_contract \<Rightarrow> sample list \<Rightarrow> time \<Rightarrow> bool" where
  "fresh c w now = (if w = [] then False else time_sub now (smT (last w)) \<le> scFreshnessBound c)"

subsection \<open>Signals and their enrichment\<close>

definition trajectory :: "real list \<Rightarrow> string" where
  "trajectory rates =
     (let d = mean (diffs rates)
      in if 0 < d then ''accelerating'' else if d < 0 then ''recovering'' else ''stable'')"

definition signalFor :: "slo \<Rightarrow> string \<Rightarrow> real \<Rightarrow> string \<Rightarrow> time \<Rightarrow> signal_contract option \<Rightarrow> detection" where
  "signalFor s detectorType accel traj now contract =
     \<lparr>detName = sloObject s @ ''-burn-accel'', detFingerprint = fingerprint s,
      detOriginService = sloObject s, detServiceTier = sloTier s, detDetectorType = detectorType,
      detDivergence = \<lparr>divMetric = [], divObserved = accel, divBaseline = 0,
        divConfidence = (case contract of None \<Rightarrow> 0 | Some c \<Rightarrow> attenuated c 1 now), divTrajectory = traj\<rparr>,
      detTopology = \<lparr>tcUpstream = [], tcDownstream = []\<rparr>,
      detTraffic = \<lparr>trAffectedPct = 0, trBaseline = 0, trBaselineWindow = []\<rparr>,
      detImpact = \<lparr>impSeverity = \<lparr>sevDegradationPct = 0, sevTrajectory = []\<rparr>,
        impBlastRadius = \<lparr>brAffectedPct = 0, brVelocity = [], brDownstreamConsumers = 0\<rparr>\<rparr>,
      detContractRef = sloContractRef s, detSLORef = sloID s, detDetectedAt = now\<rparr>"

definition enrichTopology :: "(dependency \<Rightarrow> string + string) \<Rightarrow> slo \<Rightarrow> detection \<Rightarrow> detection" where
  "enrichTopology depState s d =
     d\<lparr>detTopology := (detTopology d)\<lparr>tcUpstream := tcUpstream (detTopology d) @
        List.map_filter (\<lambda>dep. case depState dep of
            Inl _ \<Rightarrow> None | Inr st \<Rightarrow> Some \<lparr>onName = dpName dep, onState = st\<rparr>) (sloDependencies s)\<rparr>\<rparr>"

definition enrichSeverity :: "sample list \<Rightarrow> slo \<Rightarrow> detection \<Rightarrow> detection" where
  "enrichSeverity w s d =
     (let rates = burnRates w; sev = (impSeverity (detImpact d))\<lparr>sevTrajectory := trajectory rates\<rparr>
      in d\<lparr>detImpact := (detImpact d)\<lparr>impSeverity :=
           (if rates = [] then sev
            else sev\<lparr>sevDegradationPct := min (last rates * (1 - sloObjective s)) 1\<rparr>)\<rparr>\<rparr>)"

definition enrichTraffic :: "traffic_sample list \<Rightarrow> detection \<Rightarrow> detection" where
  "enrichTraffic traffic d =
     (let latest = tsAffectedPct (last traffic)
      in d\<lparr>detTraffic := \<lparr>trAffectedPct = latest, trBaseline = 0, trBaselineWindow = []\<rparr>,
           detImpact := (detImpact d)\<lparr>impBlastRadius := \<lparr>brAffectedPct = latest,
             brVelocity = trajectory (map tsAffectedPct traffic), brDownstreamConsumers = 0\<rparr>\<rparr>\<rparr>)"

subsection \<open>The reconcile pass\<close>

record slo_reads =
  srBurn :: "string + sample list"
  srNow :: time
  srMulti :: "string + (string \<times> sample list) list"
  srBaseline :: "string + sample list"
  srDepState :: "dependency \<Rightarrow> string + string"
  srTraffic :: "string + traffic_sample list"

text \<open>The optional collaborators: a detector is its setting, a source whether it is wired. The debouncer is
  state and passed along.\<close>

record reconciler =
  rcSLOs :: "slo list"
  rcThreshold :: real
  rcCorrelation :: "int option"
  rcCorrelationSource :: bool
  rcEnvelope :: "real option"
  rcBaselineSource :: bool
  rcSustained :: "sustained option"
  rcContract :: "signal_contract option"
  rcTopologySource :: bool
  rcTrafficSource :: bool

text \<open>The detectors in order, each run only when none before it fired: the first that fires, with its figure.\<close>

definition run_envelope :: "reconciler \<Rightarrow> slo \<Rightarrow> slo_reads \<Rightarrow> sample list \<Rightarrow> rattle_error + (string \<times> real) option" where
  "run_envelope r s rd w =
     (case rcEnvelope r of
        Some k \<Rightarrow>
          if rcBaselineSource r
          then (case srBaseline rd of
                  Inl e \<Rightarrow> Inl (BaselineErr (sloID s) e)
                | Inr baseline \<Rightarrow>
                    Inr (if envelope_fires k baseline w then Some (''historical_envelope_breach'', 0) else None))
          else Inr None
      | None \<Rightarrow> Inr None)"

definition run_correlation :: "reconciler \<Rightarrow> slo \<Rightarrow> slo_reads \<Rightarrow> sample list \<Rightarrow> rattle_error + (string \<times> real) option" where
  "run_correlation r s rd w =
     (case rcCorrelation r of
        Some m \<Rightarrow>
          if rcCorrelationSource r
          then (case srMulti rd of
                  Inl e \<Rightarrow> Inl (MultiSignalsErr (sloID s) e)
                | Inr ms \<Rightarrow>
                    if correlation_fires m ms then Inr (Some (''multi_signal_correlation'', 0))
                    else run_envelope r s rd w)
          else run_envelope r s rd w
      | None \<Rightarrow> run_envelope r s rd w)"

definition run_detectors :: "reconciler \<Rightarrow> slo \<Rightarrow> slo_reads \<Rightarrow> sample list \<Rightarrow> rattle_error + (string \<times> real) option" where
  "run_detectors r s rd w =
     (let (fired, accel) = acceleration_detect (rcThreshold r) w
      in if fired then Inr (Some (''burn_rate_acceleration'', accel))
         else (case rcSustained r of
                 None \<Rightarrow> run_correlation r s rd w
               | Some d \<Rightarrow>
                   (case sustained_detect d w of
                      None \<Rightarrow> Inl SliceOutOfRange
                    | Some (True, level) \<Rightarrow> Inr (Some (''sustained_burn'', level))
                    | Some (False, _) \<Rightarrow> run_correlation r s rd w)))"

definition allow_opt :: "debouncer option \<Rightarrow> string \<Rightarrow> time \<Rightarrow> bool \<times> debouncer option" where
  "allow_opt deb fp now =
     (case deb of None \<Rightarrow> (True, None) | Some d \<Rightarrow> (let (ok, d') = allow d fp now in (ok, Some d')))"

definition enrich :: "reconciler \<Rightarrow> slo \<Rightarrow> slo_reads \<Rightarrow> sample list \<Rightarrow> detection \<Rightarrow> rattle_error + detection" where
  "enrich r s rd w d =
     (let d = enrichSeverity w s d;
          d = (if rcTopologySource r then enrichTopology (srDepState rd) s d else d)
      in if rcTrafficSource r
         then (case srTraffic rd of
                 Inl e \<Rightarrow> Inl (TrafficErr (sloID s) e)
               | Inr traffic \<Rightarrow> Inr (if traffic = [] then d else enrichTraffic traffic d))
         else Inr d)"

definition reconcile_slo ::
  "reconciler \<Rightarrow> slo \<Rightarrow> slo_reads \<Rightarrow> debouncer option \<Rightarrow> (rattle_error + detection option) \<times> debouncer option" where
  "reconcile_slo r s rd deb =
     (case srBurn rd of
        Inl e \<Rightarrow> (Inl (BurnSamplesErr (sloID s) e), deb)
      | Inr w \<Rightarrow>
          if (case rcContract r of None \<Rightarrow> False | Some c \<Rightarrow> \<not> fresh c w (srNow rd)) then (Inr None, deb)
          else
            (case run_detectors r s rd w of
               Inl e \<Rightarrow> (Inl e, deb)
             | Inr None \<Rightarrow> (Inr None, deb)
             | Inr (Some (detectorType, accel)) \<Rightarrow>
                 (let (ok, deb') = allow_opt deb (fingerprint s) (srNow rd)
                  in if \<not> ok then (Inr None, deb')
                     else
                       (case enrich r s rd w
                               (signalFor s detectorType accel (trajectory (burnRates w)) (srNow rd) (rcContract r)) of
                          Inl e \<Rightarrow> (Inl e, deb')
                        | Inr d \<Rightarrow> (Inr (Some d), deb')))))"

fun reconcile_loop ::
  "reconciler \<Rightarrow> (nat \<times> slo) list \<Rightarrow> (nat \<Rightarrow> slo_reads) \<Rightarrow> debouncer option \<Rightarrow>
   (rattle_error + detection list) \<times> debouncer option" where
  "reconcile_loop r [] rds deb = (Inr [], deb)"
| "reconcile_loop r ((i, s) # ss) rds deb =
     (case reconcile_slo r s (rds i) deb of
        (Inl e, deb') \<Rightarrow> (Inl e, deb')
      | (Inr found, deb') \<Rightarrow>
          (case reconcile_loop r ss rds deb' of
             (Inl e, deb'') \<Rightarrow> (Inl e, deb'')
           | (Inr ds, deb'') \<Rightarrow> (Inr (case found of None \<Rightarrow> ds | Some d \<Rightarrow> d # ds), deb'')))"

definition reconcile ::
  "reconciler \<Rightarrow> (nat \<Rightarrow> slo_reads) \<Rightarrow> debouncer option \<Rightarrow> (rattle_error + detection list) \<times> debouncer option" where
  "reconcile r rds deb = reconcile_loop r (List.enumerate 0 (rcSLOs r)) rds deb"

text \<open>One turn of the loop: a failed pass is logged and skipped, a detection whose publish fails is logged and
  dropped. \<open>None\<close> is no publisher.\<close>

definition rattle_tick ::
  "reconciler \<Rightarrow> (detection \<Rightarrow> string option) option \<Rightarrow> (nat \<Rightarrow> slo_reads) \<Rightarrow>
   debouncer option \<times> detection list \<Rightarrow> debouncer option \<times> detection list" where
  "rattle_tick r pub rds = (\<lambda>(deb, out).
     (case reconcile r rds deb of
        (Inl _, deb') \<Rightarrow> (deb', out)
      | (Inr ds, deb') \<Rightarrow>
          (deb', out @ (case pub of None \<Rightarrow> [] | Some send \<Rightarrow> filter (\<lambda>d. send d = None) ds))))"

fun rattle_runLoop ::
  "reconciler \<Rightarrow> ((detection \<Rightarrow> string option) option \<times> (nat \<Rightarrow> slo_reads)) list \<Rightarrow>
   debouncer option \<times> detection list \<Rightarrow> debouncer option \<times> detection list" where
  "rattle_runLoop r [] st = st"
| "rattle_runLoop r ((pub, rds) # ts) st = rattle_runLoop r ts (rattle_tick r pub rds st)"

text \<open>The production wiring.\<close>

definition newReconciler :: "slo list \<Rightarrow> bool \<Rightarrow> bool \<Rightarrow> query_config \<Rightarrow> reconciler \<times> debouncer option" where
  "newReconciler slos topo traffic q =
     (\<lparr>rcSLOs = slos, rcThreshold = 1/2, rcCorrelation = None, rcCorrelationSource = False, rcEnvelope = None,
       rcBaselineSource = False,
       rcSustained = Some \<lparr>suThreshold = 1, suMinSamples = qcSustainedMinSamples q\<rparr>,
       rcContract = Some \<lparr>scFreshnessBound = qcFreshnessBound q, scMinObservationWindow = 0,
         scConfidenceFloor = 1/2, scExclusionWindows = []\<rparr>,
       rcTopologySource = topo, rcTrafficSource = traffic\<rparr>,
      Some (newDebouncer (qcDebounce q)))"

subsection \<open>Sources\<close>

text \<open>The range request: the selected series, start and end in seconds, the step in whole seconds.\<close>

record range_request =
  rqSlothID :: string
  rqStart :: int
  rqEnd :: int
  rqStep :: int

record prom_range =
  prStatus :: string
  prResult :: "(string \<times> string) list list"

record prom_source =
  psrcStep :: duration
  psrcWindow :: duration

datatype source_error = RequestErr string | StatusErr string | TimestampErr | ValueErr | NotAFloat string

definition newPromSource :: prom_source where
  "newPromSource = \<lparr>psrcStep = minute, psrcWindow = 15 * minute\<rparr>"

text \<open>A sample's time is its whole seconds: the fraction is cut off towards zero.\<close>

fun samplesFromValues ::
  "(string \<Rightarrow> real option) \<Rightarrow> (string \<Rightarrow> string option) \<Rightarrow> (string \<Rightarrow> real option) \<Rightarrow> (string \<times> string) list \<Rightarrow>
   source_error + sample list" where
  "samplesFromValues asNumber asString parseFloat [] = Inr []"
| "samplesFromValues asNumber asString parseFloat ((t, v) # ps) =
     (case asNumber t of
        None \<Rightarrow> Inl TimestampErr
      | Some ts \<Rightarrow>
          (case asString v of
             None \<Rightarrow> Inl ValueErr
           | Some raw \<Rightarrow>
               (case parseFloat raw of
                  None \<Rightarrow> Inl (NotAFloat raw)
                | Some rate \<Rightarrow>
                    res_bind (samplesFromValues asNumber asString parseFloat ps) (\<lambda>out.
                      Inr (\<lparr>smT = (if 0 \<le> ts then \<lfloor>ts\<rfloor> else \<lceil>ts\<rceil>) * second, smBurnRate = rate\<rparr> # out)))))"

definition burnSamples ::
  "backend \<Rightarrow> (range_request \<Rightarrow> string + prom_range) \<Rightarrow> prom_source \<Rightarrow> time \<Rightarrow> slo \<Rightarrow> source_error + sample list" where
  "burnSamples b fetch p now s =
     (let step = (if psrcStep p = 0 then minute else psrcStep p);
          window = (if psrcWindow p = 0 then 15 * minute else psrcWindow p)
      in case fetch \<lparr>rqSlothID = sloID s, rqStart = unix_seconds (now - window), rqEnd = unix_seconds now,
                     rqStep = (if 0 \<le> step then step div second else - (- step div second))\<rparr> of
           Inl e \<Rightarrow> Inl (RequestErr e)
         | Inr body \<Rightarrow>
             if prStatus body \<noteq> ''success'' then Inl (StatusErr (prStatus body))
             else (case prResult body of
                     [] \<Rightarrow> Inr []
                   | series # _ \<Rightarrow> samplesFromValues (bkNumber b) (bkString b) (bkParseFloat b) series))"

record traffic_queries =
  tqAffected :: string
  tqTotal :: string

definition hubble_instant :: "backend \<Rightarrow> string \<Rightarrow> source_error + real option" where
  "hubble_instant b q =
     (case bkQuery b q of
        Inl e \<Rightarrow> Inl (RequestErr e)
      | Inr [] \<Rightarrow> Inr None
      | Inr (row # _) \<Rightarrow>
          (case bkString b (irValue row) of
             None \<Rightarrow> Inl ValueErr
           | Some raw \<Rightarrow> (case bkParseFloat b raw of None \<Rightarrow> Inl (NotAFloat raw) | Some f \<Rightarrow> Inr (Some f))))"

definition trafficSamples ::
  "backend \<Rightarrow> (string \<rightharpoonup> traffic_queries) \<Rightarrow> time \<Rightarrow> slo \<Rightarrow> source_error + traffic_sample list" where
  "trafficSamples b queries now s =
     (case queries (sloID s) of
        None \<Rightarrow> Inr []
      | Some q \<Rightarrow>
          res_bind (hubble_instant b (tqAffected q)) (\<lambda>affected.
          res_bind (hubble_instant b (tqTotal q)) (\<lambda>total.
            case (affected, total) of
              (Some a, Some t) \<Rightarrow>
                Inr [\<lparr>tsT = now, tsAffectedPct = (if 0 < t then min (a / t) 1 else 0)\<rparr>]
            | _ \<Rightarrow> Inr [])))"

definition loadTrafficQueries ::
  "(string \<Rightarrow> string + 'raw) \<Rightarrow> ('raw \<Rightarrow> string + (string \<times> string \<times> string) list) \<Rightarrow> string \<Rightarrow>
   whir_error + (string \<rightharpoonup> traffic_queries)" where
  "loadTrafficQueries readFile unmarshal path =
     (case readFile path of
        Inl err \<Rightarrow> Inl (WhirRead path err)
      | Inr raw \<Rightarrow>
          (case unmarshal raw of
             Inl err \<Rightarrow> Inl (WhirParse err)
           | Inr rows \<Rightarrow> Inr (put_all (map (\<lambda>(i, a, t). (i, \<lparr>tqAffected = a, tqTotal = t\<rparr>)) rows) Map.empty)))"

datatype watch_error = WatchRead string string | WatchParse string | WatchEmpty string

definition loadWatch ::
  "(string \<Rightarrow> string + 'raw) \<Rightarrow> ('raw \<Rightarrow> string + slo list) \<Rightarrow> string \<Rightarrow> watch_error + slo list" where
  "loadWatch readFile unmarshal path =
     (case readFile path of
        Inl err \<Rightarrow> Inl (WatchRead path err)
      | Inr raw \<Rightarrow>
          (case unmarshal raw of
             Inl err \<Rightarrow> Inl (WatchParse err)
           | Inr slos \<Rightarrow> if slos = [] then Inl (WatchEmpty path) else Inr slos))"

text \<open>The topology source of the resolver never fails: a state it cannot tell is unknown.\<close>

definition whir_dependencyState :: "backend \<Rightarrow> (string \<rightharpoonup> string) \<Rightarrow> dependency \<Rightarrow> string + string" where
  "whir_dependencyState b queries dep = Inr (resolver_state b queries (dpName dep))"

text \<open>Both enrichments are optional; the catalog is loaded for its errors only.\<close>

definition buildSources ::
  "(string \<Rightarrow> string + string) \<Rightarrow> (string \<Rightarrow> string + (string \<times> string) list) \<Rightarrow>
   (string \<Rightarrow> string + string \<times> string list) \<Rightarrow> (string \<Rightarrow> string + (string \<times> string \<times> string) list) \<Rightarrow>
   string \<Rightarrow> string \<Rightarrow> string \<Rightarrow>
   whir_error + (string \<rightharpoonup> string) option \<times> (string \<rightharpoonup> traffic_queries) option" where
  "buildSources readFile stateDoc catalogDoc trafficDoc whirCatalog whirStateQueries traffic =
     res_bind
       (if whirCatalog = [] \<or> whirStateQueries = [] then Inr None
        else res_bind (loadStateQueries readFile stateDoc whirStateQueries) (\<lambda>queries.
             res_bind (loadCatalogFile readFile catalogDoc whirCatalog) (\<lambda>_. Inr (Some queries)))) (\<lambda>topo.
     res_bind
       (if traffic = [] then Inr None
        else res_bind (loadTrafficQueries readFile trafficDoc traffic) (\<lambda>qs. Inr (Some qs))) (\<lambda>tr.
     Inr (topo, tr)))"

subsection \<open>What the detectors read\<close>

lemma length_diffs: "length (diffs xs) = length xs - 1"
  by (induction xs rule: diffs.induct) auto

lemma diffs_eq_Nil: "diffs xs = [] \<longleftrightarrow> length xs < 2"
  by (cases xs rule: diffs.cases) auto

lemma sum_diffs: "xs \<noteq> [] \<Longrightarrow> sum_list (diffs xs) = last xs - hd xs"
  by (induction xs rule: diffs.induct) auto

text \<open>The mean of the differences telescopes: only the ends of the series enter.\<close>

lemma mean_diffs: "2 \<le> length xs \<Longrightarrow> mean (diffs xs) = (last xs - hd xs) / real (length xs - 1)"
proof -
  assume "2 \<le> length xs"
  then have "xs \<noteq> []" "diffs xs \<noteq> []" by (auto simp: diffs_eq_Nil)
  then show ?thesis by (simp add: mean_def sum_diffs length_diffs)
qed

lemma hd_diffs: "2 \<le> length xs \<Longrightarrow> hd (diffs xs) = xs ! 1 - xs ! 0"
  by (cases xs rule: diffs.cases) auto

lemma last_diffs: "2 \<le> length xs \<Longrightarrow> last (diffs xs) = last xs - xs ! (length xs - 2)"
proof (induction xs rule: diffs.induct)
  case (1 x y xs)
  then show ?case by (cases xs) (auto simp: diffs_eq_Nil)
qed auto

text \<open>what acceleration means: over three or more samples the detector fires exactly when the last burn
  rate is above the first and the last step exceeds the first step by more than the threshold for each
  step between them, and it reports that excess per step. Samples in the middle do not matter.\<close>

theorem acceleration_reads_ends:
  assumes "3 \<le> length w"
  shows "acceleration_detect threshold w =
    (let b = burnRates w; n = length w;
         excess = ((b ! (n - 1) - b ! (n - 2)) - (b ! 1 - b ! 0)) / real (n - 2)
     in (b ! 0 < b ! (n - 1) \<and> threshold < excess, excess))"
proof -
  let ?b = "burnRates w" and ?n = "length w"
  have n: "length ?b = ?n" by (simp add: burnRates_def)
  have b: "?b \<noteq> []" "2 \<le> length ?b" using assms n by auto
  have d: "diffs ?b \<noteq> []" "2 \<le> length (diffs ?b)" using assms n by (auto simp: diffs_eq_Nil length_diffs)
  have one: "mean (diffs ?b) = (?b ! (?n - 1) - ?b ! 0) / real (?n - 1)"
    using mean_diffs [OF b(2)] b(1) by (simp add: last_conv_nth hd_conv_nth n)
  have two: "mean (diffs (diffs ?b)) = ((?b ! (?n - 1) - ?b ! (?n - 2)) - (?b ! 1 - ?b ! 0)) / real (?n - 2)"
    using mean_diffs [OF d(2)] last_diffs [OF b(2)] hd_diffs [OF b(2)] b(1)
    by (simp add: length_diffs n last_conv_nth [OF b(1)] numeral_2_eq_2)
  have "0 < mean (diffs ?b) \<longleftrightarrow> ?b ! 0 < ?b ! (?n - 1)"
    unfolding one using assms by (auto simp: zero_less_divide_iff)
  then show ?thesis using assms by (simp add: acceleration_detect_def Let_def two)
qed

theorem acceleration_reads_ends_witness:
  "acceleration_detect (1/2) [\<lparr>smT = 0, smBurnRate = 1\<rparr>, \<lparr>smT = 1, smBurnRate = 1\<rparr>, \<lparr>smT = 2, smBurnRate = 3\<rparr>] = (True, 2)"
  using acceleration_reads_ends [of "[\<lparr>smT = 0, smBurnRate = 1\<rparr>, \<lparr>smT = 1, smBurnRate = 1\<rparr>, \<lparr>smT = 2, smBurnRate = 3\<rparr>]" "1/2"]
  by (simp add: burnRates_def)

lemma attenuated_bounds:
  "scConfidenceFloor c \<le> attenuated c base now" "0 \<le> base \<Longrightarrow> attenuated c base now \<le> max base (scConfidenceFloor c)"
  by (auto simp: attenuated_def Let_def)

subsection \<open>Debouncing\<close>

text \<open>One debouncer later than another: the same hold, and no object's last signal moved back.\<close>

definition debounce_later :: "debouncer \<Rightarrow> debouncer \<Rightarrow> bool" where
  "debounce_later d d' \<longleftrightarrow> dbHold d' = dbHold d \<and>
     (\<forall>fp t. dbLast d fp = Some t \<longrightarrow> (\<exists>t'. dbLast d' fp = Some t' \<and> t \<le> t'))"

lemma debounce_later_refl [simp]: "debounce_later d d"
  by (simp add: debounce_later_def)

lemma debounce_later_trans: "debounce_later a b \<Longrightarrow> debounce_later b c \<Longrightarrow> debounce_later a c"
  by (fastforce simp: debounce_later_def)

lemma time_sub_ge: "0 < d \<Longrightarrow> d \<le> time_sub a b \<Longrightarrow> b + d \<le> a"
  by (auto simp: time_sub_def min_duration_def max_duration_def)

lemma allow_later:
  assumes "0 < dbHold d" "allow d fp now = (ok, d')"
  shows "debounce_later d d'" "ok \<Longrightarrow> dbLast d' fp = Some now"
    "ok \<Longrightarrow> dbLast d fp = Some t \<Longrightarrow> t + dbHold d \<le> now"
proof -
  have ge: "l + dbHold d \<le> now" if "\<not> time_sub now l < dbHold d" for l
    using time_sub_ge [OF assms(1), of now l] that by simp
  have "l \<le> now" if "\<not> time_sub now l < dbHold d" for l
    using ge [OF that] assms(1) by simp
  then show "debounce_later d d'"
    using assms(2) by (auto simp: allow_def debounce_later_def split: option.splits if_splits)
  show "ok \<Longrightarrow> dbLast d' fp = Some now" "ok \<Longrightarrow> dbLast d fp = Some t \<Longrightarrow> t + dbHold d \<le> now"
    using assms(2) ge by (auto simp: allow_def split: option.splits if_splits)
qed

text \<open>The detection the pass builds carries the object's fingerprint and the time of the reading.\<close>

lemma enrich_keeps:
  assumes "enrich r s rd w d = Inr d'"
  shows "detFingerprint d' = detFingerprint d" "detDetectedAt d' = detDetectedAt d"
    "detSLORef d' = detSLORef d" "detDetectorType d' = detDetectorType d" "detDivergence d' = detDivergence d"
    "detOriginService d' = detOriginService d" "detServiceTier d' = detServiceTier d" "detContractRef d' = detContractRef d"
  using assms
  by (auto simp: enrich_def Let_def enrichSeverity_def enrichTopology_def enrichTraffic_def split: if_splits sum.splits)

lemmas signalFor_fields = signalFor_def detection.simps divergence.simps

text \<open>A detection came out of a pass over one SLO exactly along one path.\<close>

lemma reconcile_slo_found:
  assumes "reconcile_slo r s rd deb = (Inr (Some d), deb')"
  obtains w ty accel where "srBurn rd = Inr w" "\<And>c. rcContract r = Some c \<Longrightarrow> fresh c w (srNow rd)"
    "run_detectors r s rd w = Inr (Some (ty, accel))" "allow_opt deb (fingerprint s) (srNow rd) = (True, deb')"
    "enrich r s rd w (signalFor s ty accel (trajectory (burnRates w)) (srNow rd) (rcContract r)) = Inr d"
  using assms unfolding reconcile_slo_def
  by (auto simp: Let_def split: sum.splits option.splits prod.splits if_splits)

lemma reconcile_slo_debouncer:
  "snd (reconcile_slo r s rd deb) = deb \<or> snd (reconcile_slo r s rd deb) = snd (allow_opt deb (fingerprint s) (srNow rd))"
  unfolding reconcile_slo_def
  by (auto simp: Let_def split: sum.splits option.splits prod.splits if_splits)

lemma reconcile_slo_later:
  assumes "0 < dbHold d" "reconcile_slo r s rd (Some d) = (res, deb')"
  obtains d' where "deb' = Some d'" "debounce_later d d'"
    "\<And>x. res = Inr (Some x) \<Longrightarrow> dbLast d' (detFingerprint x) = Some (detDetectedAt x)"
    "\<And>x t. res = Inr (Some x) \<Longrightarrow> dbLast d (detFingerprint x) = Some t \<Longrightarrow> t + dbHold d \<le> detDetectedAt x"
proof -
  obtain ok d1 where a: "allow d (fingerprint s) (srNow rd) = (ok, d1)" by fastforce
  note later = allow_later [OF assms(1) a]
  have "deb' = Some d \<or> deb' = Some d1"
    using reconcile_slo_debouncer [of r s rd "Some d"] assms(2) a by (auto simp: allow_opt_def)
  moreover have "ok \<and> deb' = Some d1 \<and> detFingerprint x = fingerprint s \<and> detDetectedAt x = srNow rd" if "res = Inr (Some x)" for x
    using assms(2) [unfolded that]
    by (rule reconcile_slo_found) (use a in \<open>auto simp: allow_opt_def dest: enrich_keeps simp: signalFor_def\<close>)
  ultimately show ?thesis using later that by (metis debounce_later_refl option.inject)
qed

text \<open>Signals of one object keep the hold apart; the debouncer remembers each of them or a later one.\<close>

definition hold_apart :: "duration \<Rightarrow> detection list \<Rightarrow> bool" where
  "hold_apart hold = sorted_wrt (\<lambda>d d'. detFingerprint d = detFingerprint d' \<longrightarrow> detDetectedAt d + hold \<le> detDetectedAt d')"

definition remembers :: "debouncer \<Rightarrow> detection list \<Rightarrow> bool" where
  "remembers deb ds \<longleftrightarrow> (\<forall>d \<in> set ds. \<exists>t. dbLast deb (detFingerprint d) = Some t \<and> detDetectedAt d \<le> t)"

lemma remembers_later: "remembers d ds \<Longrightarrow> debounce_later d d' \<Longrightarrow> remembers d' ds"
  unfolding remembers_def debounce_later_def by (meson order_trans)

lemma hold_apart_snoc:
  "hold_apart hold (ds @ [x]) \<longleftrightarrow> hold_apart hold ds \<and>
     (\<forall>d \<in> set ds. detFingerprint d = detFingerprint x \<longrightarrow> detDetectedAt d + hold \<le> detDetectedAt x)"
  by (auto simp: hold_apart_def sorted_wrt_append)

lemma reconcile_loop_apart:
  assumes "reconcile_loop r ss rds (Some d) = (res, deb')" "0 < dbHold d" "hold_apart (dbHold d) out" "remembers d out"
  shows "\<exists>d'. deb' = Some d' \<and> dbHold d' = dbHold d \<and> remembers d' out \<and>
    (\<forall>ds. res = Inr ds \<longrightarrow> hold_apart (dbHold d) (out @ ds) \<and> remembers d' (out @ ds))"
  using assms
proof (induction ss arbitrary: d out res deb')
  case Nil
  then show ?case by auto
next
  case (Cons p ss)
  obtain i s where p: "p = (i, s)" by fastforce
  obtain res1 deb1 where one: "reconcile_slo r s (rds i) (Some d) = (res1, deb1)" by fastforce
  obtain d1 where d1: "deb1 = Some d1" "debounce_later d d1"
    "\<And>x. res1 = Inr (Some x) \<Longrightarrow> dbLast d1 (detFingerprint x) = Some (detDetectedAt x)"
    "\<And>x t. res1 = Inr (Some x) \<Longrightarrow> dbLast d (detFingerprint x) = Some t \<Longrightarrow> t + dbHold d \<le> detDetectedAt x"
    using reconcile_slo_later [OF Cons.prems(2) one] by metis
  have hold: "dbHold d1 = dbHold d" using d1(2) by (simp add: debounce_later_def)
  have out: "remembers d1 out" by (rule remembers_later [OF Cons.prems(4) d1(2)])
  show ?case
  proof (cases res1)
    case (Inl e)
    then show ?thesis using Cons.prems(1) p one d1(1) hold out by auto
  next
    case (Inr found)
    obtain res2 deb2 where two: "reconcile_loop r ss rds (Some d1) = (res2, deb2)" by fastforce
    define out' where "out' = out @ (case found of None \<Rightarrow> [] | Some x \<Rightarrow> [x])"
    have apart: "hold_apart (dbHold d1) out'"
      using Cons.prems(3,4) d1(4) Inr hold
      by (cases found) (fastforce simp: out'_def hold_apart_snoc remembers_def)+
    have mem: "remembers d1 out'"
      using out d1(3) Inr by (cases found) (auto simp: out'_def remembers_def)
    obtain d2 where d2: "deb2 = Some d2" "dbHold d2 = dbHold d1" "remembers d2 out'"
      "\<And>ds. res2 = Inr ds \<Longrightarrow> hold_apart (dbHold d1) (out' @ ds) \<and> remembers d2 (out' @ ds)"
      using Cons.IH [OF two _ apart mem] Cons.prems(2) hold by auto
    have shape: "deb' = deb2" "\<And>ds. res = Inr ds \<Longrightarrow> \<exists>ds'. res2 = Inr ds' \<and> out @ ds = out' @ ds'"
      using Cons.prems(1) p one Inr two d1(1)
      by (cases res2; cases found; auto simp: out'_def)+
    have "remembers d2 out" using d2(3) by (auto simp: out'_def remembers_def)
    then show ?thesis using shape d2 hold by metis
  qed
qed

lemma hold_apart_publish: "hold_apart hold (out @ ds) \<Longrightarrow> hold_apart hold (out @ filter P ds)"
  by (auto simp: hold_apart_def sorted_wrt_append sorted_wrt_filter)

lemma rattle_tick_apart:
  assumes "0 < dbHold d" "hold_apart (dbHold d) out" "remembers d out"
  shows "\<exists>d' out'. rattle_tick r pub rds (Some d, out) = (Some d', out') \<and> dbHold d' = dbHold d \<and>
    hold_apart (dbHold d) out' \<and> remembers d' out'"
proof -
  obtain res deb' where pass: "reconcile r rds (Some d) = (res, deb')" by fastforce
  obtain d' where d': "deb' = Some d'" "dbHold d' = dbHold d" "remembers d' out"
    "\<And>ds. res = Inr ds \<Longrightarrow> hold_apart (dbHold d) (out @ ds) \<and> remembers d' (out @ ds)"
    using reconcile_loop_apart [OF pass [unfolded reconcile_def] assms] by auto
  show ?thesis
  proof (cases res)
    case (Inl e)
    then show ?thesis using pass d' assms(2) by (simp add: rattle_tick_def)
  next
    case (Inr ds)
    note ok = d'(4) [OF Inr]
    have "remembers d' (out @ filter P ds)" for P using ok by (auto simp: remembers_def)
    then show ?thesis
      using pass d' Inr hold_apart_publish [of "dbHold d" out ds] ok assms(2)
      by (cases pub) (auto simp: rattle_tick_def)
  qed
qed

lemma rattle_runLoop_apart:
  assumes "0 < dbHold d" "hold_apart (dbHold d) out" "remembers d out"
  shows "hold_apart (dbHold d) (snd (rattle_runLoop r ts (Some d, out)))"
  using assms
proof (induction ts arbitrary: d out)
  case (Cons t ts)
  obtain pub rds where t: "t = (pub, rds)" by fastforce
  obtain d' out' where "rattle_tick r pub rds (Some d, out) = (Some d', out')" "dbHold d' = dbHold d"
    "hold_apart (dbHold d) out'" "remembers d' out'"
    using rattle_tick_apart [OF Cons.prems] by metis
  then show ?case using Cons.IH [of d' out'] Cons.prems(1) t by simp
qed simp

text \<open>at most one signal per object and hold window: over any run of the loop, with whatever readings,
  failed passes, failed publishes and clock, jumps backwards included, two published signals with one
  fingerprint are detected at least the hold apart, the later one second.\<close>

theorem signals_hold_apart:
  assumes "0 < hold"
  shows "hold_apart hold (snd (rattle_runLoop r ts (Some (newDebouncer hold), [])))"
  using rattle_runLoop_apart [of "newDebouncer hold" "[]" r ts] assms
  by (simp add: newDebouncer_def hold_apart_def remembers_def)

lemma reconcile_loop_member:
  assumes "reconcile_loop r ss rds deb = (Inr ds, deb')" "d \<in> set ds"
  shows "\<exists>i s deb1 deb2. (i, s) \<in> set ss \<and> reconcile_slo r s (rds i) deb1 = (Inr (Some d), deb2)"
  using assms
proof (induction r ss rds deb arbitrary: ds deb' rule: reconcile_loop.induct)
  case (2 r i s ss rds deb)
  obtain found deb1 where one: "reconcile_slo r s (rds i) deb = (Inr found, deb1)"
    using 2(2) by (auto split: sum.splits prod.splits)
  obtain ds2 deb2 where two: "reconcile_loop r ss rds deb1 = (Inr ds2, deb2)"
    using 2(2) one by (auto split: sum.splits prod.splits)
  have ds: "ds = (case found of None \<Rightarrow> ds2 | Some x \<Rightarrow> x # ds2)" using 2(2) one two by simp
  show ?case
  proof (cases "found = Some d")
    case True
    then show ?thesis using one by auto
  next
    case False
    then have "d \<in> set ds2" using 2(3) ds by (auto split: option.splits)
    then show ?thesis using 2(1) [OF one [symmetric] refl two] by (metis list.set_intros(2))
  qed
qed simp

lemma production_detectors:
  assumes "run_detectors (fst (newReconciler slos topo traffic q)) s rd w = Inr (Some (ty, accel))"
  shows "ty = ''burn_rate_acceleration'' \<and> 1/2 < accel \<and> 0 < mean (diffs (burnRates w)) \<or>
    ty = ''sustained_burn'' \<and> 0 < qcSustainedMinSamples q \<and> qcSustainedMinSamples q \<le> int (length w) \<and> accel = smBurnRate (last w) \<and>
    (\<forall>x \<in> set (drop (length w - nat (qcSustainedMinSamples q)) w). 1 \<le> smBurnRate x)"
proof -
  have none: "run_correlation (fst (newReconciler slos topo traffic q)) s rd w = Inr None"
    by (simp add: run_correlation_def run_envelope_def newReconciler_def)
  have tail: "last (drop (length w - nat n) w) = last w" if "0 < n" "n \<le> int (length w)" for n
    using that by (intro last_drop) auto
  show ?thesis
    using assms none tail
    by (auto simp: run_detectors_def newReconciler_def acceleration_detect_def sustained_detect_def Let_def not_less
        split: if_splits bool.splits)
qed

text \<open>production raises no signal without cause: every detection of a pass of the wired reconciler belongs
  to an SLO of the watch list and its reading; the window is fresh; either its burn is rising and
  accelerating past one half, or the configured number of trailing samples all burn at one or more;
  and the detection carries that figure, full confidence and the SLO's identity.\<close>

theorem production_detection_grounded:
  assumes "reconcile (fst (newReconciler slos topo traffic q)) rds deb = (Inr ds, deb')" "d \<in> set ds"
  shows "\<exists>i w. i < length slos \<and> srBurn (rds i) = Inr w \<and> w \<noteq> [] \<and>
    time_sub (srNow (rds i)) (smT (last w)) \<le> qcFreshnessBound q \<and>
    detFingerprint d = ''slo_burn:'' @ sloObject (slos ! i) \<and> detOriginService d = sloObject (slos ! i) \<and>
    detSLORef d = sloID (slos ! i) \<and> detDetectedAt d = srNow (rds i) \<and> divConfidence (detDivergence d) = 1 \<and>
    (detDetectorType d = ''burn_rate_acceleration'' \<and> 1/2 < divObserved (detDivergence d) \<and>
       0 < mean (diffs (burnRates w)) \<or>
     detDetectorType d = ''sustained_burn'' \<and> 0 < qcSustainedMinSamples q \<and>
       qcSustainedMinSamples q \<le> int (length w) \<and> divObserved (detDivergence d) = smBurnRate (last w) \<and>
       (\<forall>x \<in> set (drop (length w - nat (qcSustainedMinSamples q)) w). 1 \<le> smBurnRate x))"
proof -
  let ?r = "fst (newReconciler slos topo traffic q)"
  obtain i s deb1 deb2 where m: "(i, s) \<in> set (List.enumerate 0 slos)"
    and one: "reconcile_slo ?r s (rds i) deb1 = (Inr (Some d), deb2)"
    using reconcile_loop_member [OF assms(1) [unfolded reconcile_def] assms(2)] by (auto simp: newReconciler_def)
  have i: "i < length slos" "s = slos ! i" using m by (auto simp: in_set_enumerate_eq)
  obtain w ty accel where w: "srBurn (rds i) = Inr w" "\<And>c. rcContract ?r = Some c \<Longrightarrow> fresh c w (srNow (rds i))"
    "run_detectors ?r s (rds i) w = Inr (Some (ty, accel))"
    "enrich ?r s (rds i) w (signalFor s ty accel (trajectory (burnRates w)) (srNow (rds i)) (rcContract ?r)) = Inr d"
    using reconcile_slo_found [OF one] by metis
  have fresh: "w \<noteq> []" "time_sub (srNow (rds i)) (smT (last w)) \<le> qcFreshnessBound q"
    using w(2) by (auto simp: newReconciler_def fresh_def split: if_splits)
  have fields: "detFingerprint d = ''slo_burn:'' @ sloObject s" "detOriginService d = sloObject s" "detSLORef d = sloID s"
    "detDetectedAt d = srNow (rds i)" "detDetectorType d = ty" "divObserved (detDivergence d) = accel"
    "divConfidence (detDivergence d) = 1"
    using enrich_keeps [OF w(4)]
    by (simp_all add: signalFor_def fingerprint_def slo_kind_def newReconciler_def attenuated_def)
  show ?thesis
    using production_detectors [OF w(3)] i w(1) fresh fields by auto
qed

text \<open>A service whose last three samples burn at twice the sustainable rate, read at minute ten; the other
  reading fails.\<close>

definition sample_slo :: "string \<Rightarrow> slo" where
  "sample_slo obj = \<lparr>sloID = obj @ ''-availability'', sloObject = obj, sloTier = ''tier-1'', sloObjective = 999/1000,
     sloContractRef = ''restart'', sloDependencies = []\<rparr>"

definition burning :: "time \<Rightarrow> slo_reads" where
  "burning now = \<lparr>srBurn = Inr [\<lparr>smT = now, smBurnRate = 2\<rparr>, \<lparr>smT = now, smBurnRate = 2\<rparr>, \<lparr>smT = now, smBurnRate = 2\<rparr>],
     srNow = now, srMulti = Inr [], srBaseline = Inr [], srDepState = (\<lambda>_. Inr StateUnknown), srTraffic = Inr []\<rparr>"

definition unreadable :: "time \<Rightarrow> slo_reads" where
  "unreadable now = (burning now)\<lparr>srBurn := Inl ''timeout''\<rparr>"

definition sample_query :: query_config where
  "sample_query = \<lparr>qcStep = minute, qcWindow = 15 * minute, qcPollInterval = minute, qcReconcileTimeout = 30 * second,
     qcSustainedMinSamples = 3, qcDebounce = 10 * minute, qcFreshnessBound = 5 * minute\<rparr>"

lemmas burning_eval = reconcile_slo_def burning_def newReconciler_def sample_query_def fresh_def time_sub_def
  min_duration_def max_duration_def run_detectors_def acceleration_detect_def burnRates_def mean_def
  sustained_detect_def allow_opt_def enrich_def enrichSeverity_def signalFor_def

lemma burning_detection:
  assumes "allow deb (fingerprint s) now = (True, deb')"
  shows "\<exists>d. reconcile_slo (fst (newReconciler slos False False sample_query)) s (burning now) (Some deb) =
     (Inr (Some d), Some deb') \<and> detFingerprint d = fingerprint s \<and> detDetectedAt d = now"
  using assms by (simp add: burning_eval Let_def)

lemma burning_suppressed:
  assumes "allow deb (fingerprint s) now = (False, deb')"
  shows "reconcile_slo (fst (newReconciler slos False False sample_query)) s (burning now) (Some deb) =
     (Inr None, Some deb')"
  using assms by (simp add: burning_eval Let_def)

lemma unreadable_fails:
  "reconcile_slo r s (unreadable now) deb = (Inl (BurnSamplesErr (sloID s) ''timeout''), deb)"
  by (simp add: reconcile_slo_def unreadable_def)

theorem signals_hold_apart_witness:
  "hold_apart (10 * minute) (snd (rattle_runLoop (fst (newReconciler [sample_slo ''cart''] False False sample_query))
     [(Some (\<lambda>_. None), \<lambda>_. burning 0), (Some (\<lambda>_. None), \<lambda>_. burning (11 * minute))]
     (Some (newDebouncer (10 * minute)), [])))"
  by (rule signals_hold_apart) simp

lemma one_burning_pass:
  "\<exists>d deb'. reconcile (fst (newReconciler [sample_slo ''cart''] False False sample_query)) (\<lambda>_. burning 0)
     (Some (newDebouncer (10 * minute))) = (Inr [d], deb')"
proof -
  obtain deb' where "allow (newDebouncer (10 * minute)) (fingerprint (sample_slo ''cart'')) 0 = (True, deb')"
    by (simp add: allow_def newDebouncer_def)
  then obtain d where "reconcile_slo (fst (newReconciler [sample_slo ''cart''] False False sample_query))
      (sample_slo ''cart'') (burning 0) (Some (newDebouncer (10 * minute))) = (Inr (Some d), Some deb')"
    using burning_detection by blast
  moreover have "rcSLOs (fst (newReconciler [sample_slo ''cart''] False False sample_query)) = [sample_slo ''cart'']"
    by (simp add: newReconciler_def)
  ultimately show ?thesis by (simp add: reconcile_def)
qed

theorem production_detection_grounded_witness:
  "\<exists>d ds deb'. reconcile (fst (newReconciler [sample_slo ''cart''] False False sample_query)) (\<lambda>_. burning 0)
     (Some (newDebouncer (10 * minute))) = (Inr ds, deb') \<and> d \<in> set ds \<and> detFingerprint d = ''slo_burn:cart''"
proof -
  obtain d deb' where pass: "reconcile (fst (newReconciler [sample_slo ''cart''] False False sample_query)) (\<lambda>_. burning 0)
     (Some (newDebouncer (10 * minute))) = (Inr [d], deb')"
    using one_burning_pass by blast
  from production_detection_grounded [OF pass, of d] have "detFingerprint d = ''slo_burn:cart''"
    by (auto simp: sample_slo_def)
  with pass show ?thesis by fastforce
qed

subsection \<open>Firing objects are reported\<close>

lemma allow_local:
  "dbHold d = dbHold d' \<Longrightarrow> dbLast d fp = dbLast d' fp \<Longrightarrow> fst (allow d fp now) = fst (allow d' fp now)"
  by (auto simp: allow_def split: option.splits)

lemma reconcile_slo_other:
  assumes "reconcile_slo r s rd (Some d) = (res, deb')"
  obtains d' where "deb' = Some d'" "dbHold d' = dbHold d" "\<And>fp. fp \<noteq> fingerprint s \<Longrightarrow> dbLast d' fp = dbLast d fp"
proof -
  have "deb' = Some d \<or> deb' = Some (snd (allow d (fingerprint s) (srNow rd)))"
    using reconcile_slo_debouncer [of r s rd "Some d"] assms by (auto simp: allow_opt_def split: prod.splits)
  then show ?thesis by (rule disjE) (auto intro!: that simp: allow_def split: option.splits)
qed

text \<open>An SLO fires in a reading: its window was read, is fresh, and one of the detectors fired.\<close>

definition fires :: "reconciler \<Rightarrow> slo \<Rightarrow> slo_reads \<Rightarrow> bool" where
  "fires r s rd \<longleftrightarrow> (\<exists>w ty accel. srBurn rd = Inr w \<and> (\<forall>c. rcContract r = Some c \<longrightarrow> fresh c w (srNow rd)) \<and>
     run_detectors r s rd w = Inr (Some (ty, accel)))"

lemma fires_reported:
  assumes "fires r s rd" "fst (allow d (fingerprint s) (srNow rd))" "reconcile_slo r s rd (Some d) = (Inr found, deb')"
  shows "\<exists>x. found = Some x \<and> detFingerprint x = fingerprint s \<and> detDetectedAt x = srNow rd"
proof -
  obtain w ty accel where w: "srBurn rd = Inr w" "\<forall>c. rcContract r = Some c \<longrightarrow> fresh c w (srNow rd)"
    "run_detectors r s rd w = Inr (Some (ty, accel))"
    using assms(1) by (auto simp: fires_def)
  have gate: "\<not> (case rcContract r of None \<Rightarrow> False | Some c \<Rightarrow> \<not> fresh c w (srNow rd))"
    using w(2) by (cases "rcContract r") auto
  obtain d' where al: "allow d (fingerprint s) (srNow rd) = (True, d')"
    using assms(2) by (cases "allow d (fingerprint s) (srNow rd)") auto
  let ?e = "enrich r s rd w (signalFor s ty accel (trajectory (burnRates w)) (srNow rd) (rcContract r))"
  show ?thesis
    using assms(3) w gate al enrich_keeps [of r s rd w "signalFor s ty accel (trajectory (burnRates w)) (srNow rd) (rcContract r)"]
    by (cases ?e) (auto simp: reconcile_slo_def allow_opt_def signalFor_def)
qed

lemma reconcile_loop_reported:
  assumes "reconcile_loop r ss rds (Some d) = (Inr ds, deb')" "(i, s) \<in> set ss"
    "distinct (map (fingerprint \<circ> snd) ss)" "fires r s (rds i)" "fst (allow d (fingerprint s) (srNow (rds i)))"
  shows "\<exists>x \<in> set ds. detFingerprint x = fingerprint s \<and> detDetectedAt x = srNow (rds i)"
  using assms
proof (induction ss arbitrary: d ds)
  case (Cons p ss)
  obtain j t where p: "p = (j, t)" by fastforce
  obtain found deb1 where one: "reconcile_slo r t (rds j) (Some d) = (Inr found, deb1)"
    using Cons.prems(1) p by (auto split: sum.splits prod.splits)
  obtain d1 where d1: "deb1 = Some d1" "dbHold d1 = dbHold d" "\<And>fp. fp \<noteq> fingerprint t \<Longrightarrow> dbLast d1 fp = dbLast d fp"
    using reconcile_slo_other [OF one] by metis
  obtain ds2 where two: "reconcile_loop r ss rds (Some d1) = (Inr ds2, deb')"
    and ds: "ds = (case found of None \<Rightarrow> ds2 | Some x \<Rightarrow> x # ds2)"
    using Cons.prems(1) p one d1(1) by (auto split: sum.splits prod.splits)
  show ?case
  proof (cases "(i, s) = p")
    case True
    then show ?thesis using fires_reported [OF Cons.prems(4,5)] one p ds by fastforce
  next
    case False
    then have m: "(i, s) \<in> set ss" using Cons.prems(2) by simp
    then have "fingerprint s \<in> (fingerprint \<circ> snd) ` set ss" by force
    then have "fingerprint s \<noteq> fingerprint t" using Cons.prems(3) p by (metis comp_apply distinct.simps(2) list.set_map list.simps(9) snd_conv)
    then have "fst (allow d1 (fingerprint s) (srNow (rds i)))"
      using allow_local [OF d1(2) d1(3)] Cons.prems(5) by simp
    then show ?thesis using Cons.IH [OF two m _ Cons.prems(4)] Cons.prems(3) ds by (auto split: option.splits)
  qed
qed simp

text \<open>C31: a firing object is reported: in a pass that does not fail, over a watch list of distinct objects,
  every SLO whose reading is fresh and fires, and that was not allowed a signal within the hold,
  yields a detection with its fingerprint at the time of the reading.\<close>

theorem firing_slo_reported:
  assumes "reconcile r rds (Some d) = (Inr ds, deb')" "i < length (rcSLOs r)" "distinct (map fingerprint (rcSLOs r))"
    "fires r (rcSLOs r ! i) (rds i)"
    "\<And>l. dbLast d (fingerprint (rcSLOs r ! i)) = Some l \<Longrightarrow> dbHold d \<le> time_sub (srNow (rds i)) l"
  shows "\<exists>x \<in> set ds. detFingerprint x = fingerprint (rcSLOs r ! i) \<and> detDetectedAt x = srNow (rds i)"
proof (rule reconcile_loop_reported)
  show "reconcile_loop r (List.enumerate 0 (rcSLOs r)) rds (Some d) = (Inr ds, deb')"
    using assms(1) by (simp add: reconcile_def)
  show "(i, rcSLOs r ! i) \<in> set (List.enumerate 0 (rcSLOs r))"
    using assms(2) by (simp add: in_set_enumerate_eq)
  show "distinct (map (fingerprint \<circ> snd) (List.enumerate 0 (rcSLOs r)))"
    using assms(3) by (simp flip: map_map)
  show "fst (allow d (fingerprint (rcSLOs r ! i)) (srNow (rds i)))"
    using assms(5) by (auto simp: allow_def not_less split: option.splits)
qed (rule assms(4))

theorem firing_slo_reported_witness:
  "\<exists>ds deb'. reconcile (fst (newReconciler [sample_slo ''cart''] False False sample_query)) (\<lambda>_. burning 0)
     (Some (newDebouncer (10 * minute))) = (Inr ds, deb') \<and>
   (\<exists>x \<in> set ds. detFingerprint x = fingerprint (sample_slo ''cart'') \<and> detDetectedAt x = 0)"
proof -
  let ?r = "fst (newReconciler [sample_slo ''cart''] False False sample_query)"
  obtain x deb' where pass: "reconcile ?r (\<lambda>_. burning 0) (Some (newDebouncer (10 * minute))) = (Inr [x], deb')"
    using one_burning_pass by blast
  have "fires ?r (sample_slo ''cart'') (burning 0)"
    by (simp add: fires_def burning_def newReconciler_def sample_query_def fresh_def time_sub_def min_duration_def
      max_duration_def run_detectors_def acceleration_detect_def burnRates_def mean_def sustained_detect_def Let_def)
  moreover have "rcSLOs ?r = [sample_slo ''cart'']" by (simp add: newReconciler_def)
  ultimately have "\<exists>y \<in> set [x]. detFingerprint y = fingerprint (sample_slo ''cart'') \<and> detDetectedAt y = 0"
    using firing_slo_reported [OF pass, of 0] by (simp add: newDebouncer_def burning_def)
  with pass show ?thesis by blast
qed

subsection \<open>Where the pass falls short of its contract\<close>

text \<open>an aborted pass silences what it had found: the object burns in both of two passes a minute apart and
  every publish would succeed, but another object's failed query aborts the first pass after the
  debouncer stamped the signal, so neither pass publishes it.\<close>

theorem aborted_pass_silences:
  "(let r = fst (newReconciler [sample_slo ''cart'', sample_slo ''ad''] False False sample_query);
        out = snd (rattle_runLoop r
          [(Some (\<lambda>_. None), \<lambda>i. if i = 0 then burning 0 else unreadable 0),
           (Some (\<lambda>_. None), \<lambda>i. burning minute)] (Some (newDebouncer (10 * minute)), []))
    in map detFingerprint out = [''slo_burn:ad''])"
proof -
  let ?slos = "[sample_slo ''cart'', sample_slo ''ad'']"
  let ?r = "fst (newReconciler [sample_slo ''cart'', sample_slo ''ad''] False False sample_query)"
  let ?cart = "fingerprint (sample_slo ''cart'')" and ?ad = "fingerprint (sample_slo ''ad'')"
  let ?d0 = "newDebouncer 600000000000"
  let ?d1 = "?d0\<lparr>dbLast := [?cart \<mapsto> 0]\<rparr>" and ?d2 = "?d0\<lparr>dbLast := [?cart \<mapsto> 0, ?ad \<mapsto> minute]\<rparr>"
  have fp: "?cart = ''slo_burn:cart''" "?ad = ''slo_burn:ad''"
    by (simp_all add: fingerprint_def slo_kind_def sample_slo_def)
  have slos: "rcSLOs ?r = ?slos" by (simp add: newReconciler_def)
  have a1: "allow ?d0 ?cart 0 = (True, ?d1)" by (simp add: allow_def newDebouncer_def)
  have a2: "allow ?d1 ?cart minute = (False, ?d1)"
    by (simp add: allow_def newDebouncer_def time_sub_def min_duration_def max_duration_def)
  have a3: "allow ?d1 ?ad minute = (True, ?d2)" by (simp add: allow_def newDebouncer_def fp)
  obtain x where x: "reconcile_slo ?r (sample_slo ''cart'') (burning 0) (Some ?d0) = (Inr (Some x), Some ?d1)"
    using burning_detection [OF a1] by blast
  obtain y where y: "reconcile_slo ?r (sample_slo ''ad'') (burning minute) (Some ?d1) = (Inr (Some y), Some ?d2)"
    "detFingerprint y = ?ad"
    using burning_detection [OF a3] by blast
  note z = burning_suppressed [OF a2, of ?slos]
  have p1: "rattle_tick ?r (Some (\<lambda>_. None)) (\<lambda>i. if i = 0 then burning 0 else unreadable 0) (Some ?d0, []) = (Some ?d1, [])"
    by (simp add: rattle_tick_def reconcile_def slos x unreadable_fails)
  have p2: "rattle_tick ?r (Some (\<lambda>_. None)) (\<lambda>i. burning minute) (Some ?d1, []) = (Some ?d2, [y])"
    by (simp add: rattle_tick_def reconcile_def slos y z)
  have "map detFingerprint [y] = [''slo_burn:ad'']" using y(2) fp by simp
  then show ?thesis by (simp add: Let_def p1 p2)
qed

lemma trafficSamples_single:
  assumes "trafficSamples b queries now s = Inr traffic"
  shows "traffic = [] \<or> (\<exists>x. traffic = [x])"
proof (cases "queries (sloID s)")
  case None
  then show ?thesis using assms by (simp add: trafficSamples_def)
next
  case (Some q)
  obtain affected tot where "(case (affected, tot) of (Some a, Some t) \<Rightarrow>
      Inr [\<lparr>tsT = now, tsAffectedPct = (if 0 < t then min (a / t) 1 else 0)\<rparr>] | _ \<Rightarrow> Inr []) = (Inr traffic :: source_error + _)"
    using assms unfolding trafficSamples_def Some option.case res_bind_eq_Inr by blast
  then show ?thesis by (cases affected; cases tot) auto
qed

lemma enrich_velocity:
  assumes "enrich r s rd w (signalFor s ty accel traj now c) = Inr d"
    "\<And>traffic. srTraffic rd = Inr traffic \<Longrightarrow> traffic = [] \<or> (\<exists>x. traffic = [x])"
  shows "brVelocity (impBlastRadius (detImpact d)) \<in> {[], ''stable''}"
  using assms
  by (auto simp: enrich_def Let_def enrichSeverity_def enrichTopology_def enrichTraffic_def signalFor_def trajectory_def
      mean_def split: if_splits sum.splits)

text \<open>the blast never accelerates: the traffic source answers with one sample, whose trajectory is stable,
  so no detection of any pass reads an accelerating blast, whatever the traffic does.\<close>

theorem blast_never_accelerates:
  assumes "reconcile r rds deb = (Inr ds, deb')" "d \<in> set ds"
    "\<And>i traffic. srTraffic (rds i) = Inr traffic \<Longrightarrow> \<exists>now s. trafficSamples b queries now s = Inr traffic"
  shows "brVelocity (impBlastRadius (detImpact d)) \<noteq> ''accelerating''"
proof -
  obtain i s deb1 deb2 where one: "reconcile_slo r s (rds i) deb1 = (Inr (Some d), deb2)"
    using reconcile_loop_member [OF assms(1) [unfolded reconcile_def] assms(2)] by blast
  obtain w ty accel where w:
    "enrich r s (rds i) w (signalFor s ty accel (trajectory (burnRates w)) (srNow (rds i)) (rcContract r)) = Inr d"
    using reconcile_slo_found [OF one] by metis
  have "brVelocity (impBlastRadius (detImpact d)) \<in> {[], ''stable''}"
    by (rule enrich_velocity [OF w]) (use assms(3) trafficSamples_single in blast)
  then show ?thesis by auto
qed

theorem blast_never_accelerates_witness:
  "\<exists>d ds deb'. reconcile (fst (newReconciler [sample_slo ''cart''] False False sample_query)) (\<lambda>_. burning 0)
     (Some (newDebouncer (10 * minute))) = (Inr ds, deb') \<and> d \<in> set ds \<and> brVelocity (impBlastRadius (detImpact d)) \<noteq> ''accelerating''"
proof -
  obtain d deb' where pass: "reconcile (fst (newReconciler [sample_slo ''cart''] False False sample_query)) (\<lambda>_. burning 0)
     (Some (newDebouncer (10 * minute))) = (Inr [d], deb')"
    using one_burning_pass by blast
  have traffic: "\<exists>now s. trafficSamples sample_backend Map.empty now s = Inr traffic" if "srTraffic (burning 0) = Inr traffic" for traffic
    using that by (simp add: burning_def trafficSamples_def)
  have "brVelocity (impBlastRadius (detImpact d)) \<noteq> ''accelerating''"
    by (rule blast_never_accelerates [OF pass]) (use traffic in auto)
  with pass show ?thesis by fastforce
qed

text \<open>a negative sample count in the query configuration stops the process at the first window whose burn
  does not accelerate.\<close>

theorem negative_min_samples_panics:
  assumes "qcSustainedMinSamples q < 0" "\<not> fst (acceleration_detect (1/2) w)"
  shows "run_detectors (fst (newReconciler slos topo traffic q)) s rd w = Inl SliceOutOfRange"
  using assms by (auto simp: run_detectors_def newReconciler_def sustained_detect_def split: prod.splits)

end
