(* ===== verification/Broker.thy ===== *)
theory Broker
  imports Prelude
begin

text \<open>
  The plumbing between the beats: the subjects and durable consumers (\<^verbatim>\<open>src/internal/broker/broker.go\<close>),
  the two doors of a failed delivery (\<^verbatim>\<open>subscriber.go\<close>), the replay of a subject's history
  (\<^verbatim>\<open>drain.go\<close>), the life of a connection with the readiness and exit code it drives
  (\<^verbatim>\<open>connect.go\<close>, \<^verbatim>\<open>src/internal/health/health.go\<close>, \<^verbatim>\<open>src/internal/beat/consumer.go\<close>), the offline
  publisher (\<^verbatim>\<open>src/internal/publish/publish.go\<close>) and the poll cadence (\<^verbatim>\<open>src/internal/poll/poll.go\<close>).

  The JetStream server is an argument: what a publish answers, the counts it delivers a message with,
  what a fetch returns. A delivery count is a 64 bit word as in the source.
\<close>

subsection \<open>Subjects and consumers\<close>

definition maxDeliver :: nat where
  "maxDeliver = 6"

definition all_subjects :: "string list" where
  "all_subjects = [''thump.detections'', ''thump.proposals'', ''thump.decisions'', ''thump.outcomes'',
     ''thump.declines'', ''thump.approvals'']"

definition durableFor :: "string \<Rightarrow> string" where
  "durableFor subject =
     (if subject = ''thump.detections'' then ''clank''
      else if subject = ''thump.proposals'' then ''hiss''
      else if subject = ''thump.decisions'' then ''thump''
      else if subject = ''thump.outcomes'' then ''click''
      else if subject = ''thump.declines'' then ''clank-declines''
      else if subject = ''thump.approvals'' then ''his-approvals''
      else [])"

record consumer_config =
  ccDurable :: string
  ccFilterSubject :: string
  ccAckWait :: duration
  ccMaxDeliver :: nat

datatype topology_error = EnsureStream string | EnsureConsumer string string

fun ensure_consumers ::
  "(consumer_config \<Rightarrow> string option) \<Rightarrow> string list \<Rightarrow> consumer_config list \<Rightarrow> topology_error option \<times> consumer_config list" where
  "ensure_consumers create [] made = (None, made)"
| "ensure_consumers create (subj # subjs) made =
     (let cfg = \<lparr>ccDurable = durableFor subj, ccFilterSubject = subj, ccAckWait = 30 * second, ccMaxDeliver = maxDeliver\<rparr>
      in case create cfg of
           Some e \<Rightarrow> (Some (EnsureConsumer subj e), made)
         | None \<Rightarrow> ensure_consumers create subjs (made @ [cfg]))"

definition ensureTopology ::
  "string option \<Rightarrow> (consumer_config \<Rightarrow> string option) \<Rightarrow> topology_error option \<times> consumer_config list" where
  "ensureTopology stream create =
     (case stream of Some e \<Rightarrow> (Some (EnsureStream e), []) | None \<Rightarrow> ensure_consumers create all_subjects [])"

subsection \<open>The two doors\<close>

definition defaultBackoff :: "duration list" where
  "defaultBackoff = [second, 5 * second, 15 * second]"

definition backoffFor :: "duration list \<Rightarrow> 64 word \<Rightarrow> duration" where
  "backoffFor schedule numDelivered =
     (let schedule = (if schedule = [] then defaultBackoff else schedule);
          idx = max (sint (numDelivered - 1)) 0;
          idx = (if int (length schedule) \<le> idx then int (length schedule) - 1 else idx)
      in schedule ! nat idx)"

record jet_msg =
  jmData :: string
  jmDelivered :: "64 word option"

datatype settle_action = Acked | NakDelay duration | Termed string

text \<open>The dead-letter publish may fail; the message is terminated either way.\<close>

definition dead_letter :: "(string \<Rightarrow> string \<Rightarrow> bool) \<Rightarrow> string \<Rightarrow> string \<Rightarrow> (string \<times> string) list \<Rightarrow> (string \<times> string) list" where
  "dead_letter publishes subject data dlq =
     (if publishes (subject @ ''.dlq'') data then dlq @ [(subject @ ''.dlq'', data)] else dlq)"

definition jet_deliver ::
  "(string \<Rightarrow> string + 'a) \<Rightarrow> ('a \<Rightarrow> 'w \<Rightarrow> string option \<times> 'w) \<Rightarrow> duration list \<Rightarrow> (string \<Rightarrow> string \<Rightarrow> bool) \<Rightarrow>
   string \<Rightarrow> jet_msg \<Rightarrow> 'w \<times> (string \<times> string) list \<Rightarrow> settle_action \<times> 'w \<times> (string \<times> string) list" where
  "jet_deliver unmarshal h schedule publishes subject msg = (\<lambda>(w, dlq).
     (case unmarshal (jmData msg) of
        Inl _ \<Rightarrow> (Termed ''undecodable'', w, dead_letter publishes subject (jmData msg) dlq)
      | Inr obj \<Rightarrow>
          (case h obj w of
             (None, w') \<Rightarrow> (Acked, w', dlq)
           | (Some _, w') \<Rightarrow>
               (let delivered = (case jmDelivered msg of None \<Rightarrow> 0 | Some n \<Rightarrow> n)
                in if jmDelivered msg \<noteq> None \<and> of_nat maxDeliver \<le> delivered
                   then (Termed ''retry budget exhausted'', w', dead_letter publishes subject (jmData msg) dlq)
                   else (NakDelay (backoffFor schedule delivered), w', dlq)))))"

text \<open>A message with the delivery counts the server hands it out with, until it is not sent back.\<close>

fun redeliver ::
  "(string \<Rightarrow> string + 'a) \<Rightarrow> ('a \<Rightarrow> 'w \<Rightarrow> string option \<times> 'w) \<Rightarrow> duration list \<Rightarrow> (string \<Rightarrow> string \<Rightarrow> bool) \<Rightarrow>
   string \<Rightarrow> string \<Rightarrow> 64 word list \<Rightarrow> 'w \<times> (string \<times> string) list \<Rightarrow>
   settle_action list \<times> 'w \<times> (string \<times> string) list" where
  "redeliver unmarshal h schedule publishes subject data [] st = ([], st)"
| "redeliver unmarshal h schedule publishes subject data (n # ns) st =
     (case jet_deliver unmarshal h schedule publishes subject \<lparr>jmData = data, jmDelivered = Some n\<rparr> st of
        (NakDelay d, st') \<Rightarrow>
          (let (acts, st'') = redeliver unmarshal h schedule publishes subject data ns st' in (NakDelay d # acts, st''))
      | (act, st') \<Rightarrow> ([act], st'))"

subsection \<open>Replaying a subject\<close>

text \<open>A message of the history: its stream time, when the metadata can be read, and its bytes. The fold sees
  the decodable ones.\<close>

type_synonym history_msg = "time option \<times> string"

fun drain_batch ::
  "(string \<Rightarrow> string + 'a) \<Rightarrow> (time \<Rightarrow> 'a \<Rightarrow> 'w \<Rightarrow> 'w) \<Rightarrow> history_msg list \<Rightarrow> nat \<times> 'w \<Rightarrow> nat \<times> 'w" where
  "drain_batch unmarshal fold_fn [] (n, w) = (n, w)"
| "drain_batch unmarshal fold_fn ((meta, data) # ms) (n, w) =
     (case unmarshal data of
        Inl _ \<Rightarrow> drain_batch unmarshal fold_fn ms (n, w)
      | Inr v \<Rightarrow>
          (case meta of
             None \<Rightarrow> drain_batch unmarshal fold_fn ms (n, w)
           | Some t \<Rightarrow> drain_batch unmarshal fold_fn ms (Suc n, fold_fn t v w)))"

datatype drain_subject_error = DrainCreate string string | DrainFetch string string | DrainBatch string string

text \<open>A fetch answers with an error, or with the messages of the batch, the error the batch ends with and the
  server's next state. The loop ends on a batch with no folded message.\<close>

partial_function (option) drain_loop ::
  "('s \<Rightarrow> string + history_msg list \<times> string option \<times> 's) \<Rightarrow> (string \<Rightarrow> string + 'a) \<Rightarrow> string \<Rightarrow>
   (time \<Rightarrow> 'a \<Rightarrow> 'w \<Rightarrow> 'w) \<Rightarrow> 's \<Rightarrow> 'w \<Rightarrow> (drain_subject_error option \<times> 'w) option" where
  "drain_loop fetch unmarshal prefix fold_fn st w =
     (case fetch st of
        Inl e \<Rightarrow> Some (Some (DrainFetch prefix e), w)
      | Inr (ms, batch_err, st') \<Rightarrow>
          (case drain_batch unmarshal fold_fn ms (0, w) of
             (n, w') \<Rightarrow>
               (case batch_err of
                  Some e \<Rightarrow> Some (Some (DrainBatch prefix e), w')
                | None \<Rightarrow> if n = 0 then Some (None, w')
                          else drain_loop fetch unmarshal prefix fold_fn st' w')))"

definition drainSubject ::
  "string option \<Rightarrow> ('s \<Rightarrow> string + history_msg list \<times> string option \<times> 's) \<Rightarrow> (string \<Rightarrow> string + 'a) \<Rightarrow> string \<Rightarrow>
   (time \<Rightarrow> 'a \<Rightarrow> 'w \<Rightarrow> 'w) \<Rightarrow> 's \<Rightarrow> 'w \<Rightarrow> (drain_subject_error option \<times> 'w) option" where
  "drainSubject createErr fetch unmarshal prefix fold_fn st w =
     (case createErr of
        Some e \<Rightarrow> Some (Some (DrainCreate prefix e), w)
      | None \<Rightarrow> drain_loop fetch unmarshal prefix fold_fn st w)"

subsection \<open>Connection, readiness, exit\<close>

record health =
  hReady :: bool
  hReason :: "string option"

definition setReady :: "bool \<Rightarrow> health \<Rightarrow> health" where
  "setReady ready h = (if ready then h\<lparr>hReason := None, hReady := True\<rparr> else h\<lparr>hReady := False\<rparr>)"

definition notReady :: "string \<Rightarrow> health \<Rightarrow> health" where
  "notReady reason h = h\<lparr>hReason := Some reason, hReady := False\<rparr>"

definition readyz :: "health \<Rightarrow> nat \<times> string" where
  "readyz h = (if \<not> hReady h then (503, case hReason h of None \<Rightarrow> [] | Some r \<Rightarrow> r) else (200, []))"

text \<open>Why the run context was cancelled, if it was: the first cause stays.\<close>

datatype cause = StillRunning | Stopped | BrokerClosed

definition cancel_cause :: "cause \<Rightarrow> cause \<Rightarrow> cause" where
  "cancel_cause new c = (if c = StillRunning then new else c)"

record connection =
  cnClosing :: bool
  cnHealth :: health
  cnCause :: cause

datatype conn_event = Disconnected | Reconnected | ConnClosed | OwnClose | Signalled | SetReadyNow

text \<open>The handlers a beat dials with, and its own close function, which marks the close as its own first.\<close>

definition conn_step :: "conn_event \<Rightarrow> connection \<Rightarrow> connection" where
  "conn_step ev c =
     (case ev of
        Disconnected \<Rightarrow> c\<lparr>cnHealth := notReady ''broker unreachable'' (cnHealth c)\<rparr>
      | Reconnected \<Rightarrow> c\<lparr>cnHealth := setReady True (cnHealth c)\<rparr>
      | ConnClosed \<Rightarrow>
          if cnClosing c then c
          else c\<lparr>cnHealth := notReady ''broker connection closed'' (cnHealth c),
                 cnCause := cancel_cause BrokerClosed (cnCause c)\<rparr>
      | OwnClose \<Rightarrow> c\<lparr>cnClosing := True\<rparr>
      | Signalled \<Rightarrow> c\<lparr>cnCause := cancel_cause Stopped (cnCause c)\<rparr>
      | SetReadyNow \<Rightarrow> c\<lparr>cnHealth := setReady True (cnHealth c)\<rparr>)"

definition exitOnError :: "cause \<Rightarrow> string option \<Rightarrow> nat" where
  "exitOnError c err =
     (if c = BrokerClosed then 1 else if err \<noteq> None \<and> c = StillRunning then 1 else 0)"

fun awaitConsumers :: "(string \<Rightarrow> string option) \<Rightarrow> string list \<Rightarrow> health \<Rightarrow> (string \<times> string) option \<times> health" where
  "awaitConsumers bind [] h = (None, setReady True h)"
| "awaitConsumers bind (s # ss) h =
     (case bind (durableFor s) of Some e \<Rightarrow> (Some (s, e), h) | None \<Rightarrow> awaitConsumers bind ss h)"

subsection \<open>The offline publisher and the poll cadence\<close>

text \<open>A directory as its finished files; the temporary one is never listed. Each step may fail.\<close>

record write_faults =
  wfMkdir :: "string option"
  wfCreate :: "string option"
  wfWrite :: "string option"
  wfClose :: "string option"
  wfRename :: "string option"

definition writeAtomic :: "write_faults \<Rightarrow> string \<Rightarrow> string \<Rightarrow> (string \<rightharpoonup> string) \<Rightarrow> string option \<times> (string \<rightharpoonup> string)" where
  "writeAtomic f name data dir =
     (case wfCreate f of Some e \<Rightarrow> (Some e, dir)
      | None \<Rightarrow> (case wfWrite f of Some e \<Rightarrow> (Some e, dir)
      | None \<Rightarrow> (case wfClose f of Some e \<Rightarrow> (Some e, dir)
      | None \<Rightarrow> (case wfRename f of Some e \<Rightarrow> (Some e, dir)
      | None \<Rightarrow> (None, dir(name \<mapsto> data))))))"

definition dirPublisher_publish ::
  "('a \<Rightarrow> string) option \<Rightarrow> ('a \<Rightarrow> string + string) \<Rightarrow> write_faults \<Rightarrow> time \<Rightarrow> string \<Rightarrow> 'a \<Rightarrow>
   (string \<rightharpoonup> string) \<Rightarrow> string option \<times> (string \<rightharpoonup> string)" where
  "dirPublisher_publish nameOf marshal f now subject obj dir =
     (case wfMkdir f of
        Some e \<Rightarrow> (Some e, dir)
      | None \<Rightarrow>
          (case marshal obj of
             Inl e \<Rightarrow> (Some e, dir)
           | Inr out \<Rightarrow>
               (let key = (case nameOf of
                             Some nm \<Rightarrow> if nm obj \<noteq> [] then nm obj else subject @ ''-'' @ show_int now
                           | None \<Rightarrow> subject @ ''-'' @ show_int now)
                in writeAtomic f (key @ ''.yaml'') out dir)))"

definition jetPublisher_publish ::
  "('a \<Rightarrow> string + string) \<Rightarrow> (string \<Rightarrow> string \<Rightarrow> string option) \<Rightarrow> string \<Rightarrow> 'a \<Rightarrow>
   (string \<times> string) list \<Rightarrow> string option \<times> (string \<times> string) list" where
  "jetPublisher_publish marshal send subject obj stream =
     (case marshal obj of
        Inl e \<Rightarrow> (Some e, stream)
      | Inr data \<Rightarrow>
          (case send subject data of Some e \<Rightarrow> (Some e, stream) | None \<Rightarrow> (None, stream @ [(subject, data)])))"

record backoff_config =
  bcBase :: duration
  bcCap :: duration
  bcJitterDivisor :: int

definition nextDelay :: "backoff_config \<Rightarrow> duration \<Rightarrow> bool \<Rightarrow> duration" where
  "nextDelay cfg cur tickOK = (if tickOK then bcBase cfg else min (cur * 2) (bcCap cfg))"

text \<open>One turn of the backoff loop: the result of the tick and the random draw below the bound. \<open>None\<close> is the
  panic of a draw below a bound that is not positive.\<close>

definition backoff_turn :: "backoff_config \<Rightarrow> bool \<Rightarrow> (duration \<Rightarrow> duration) \<Rightarrow> duration \<Rightarrow> duration option" where
  "backoff_turn cfg tickOK rand delay =
     (let delay = nextDelay cfg delay tickOK
      in if \<not> tickOK \<and> 0 < bcJitterDivisor cfg
         then (if delay div bcJitterDivisor cfg \<le> 0 then None else Some (delay + rand (delay div bcJitterDivisor cfg)))
         else Some delay)"

subsection \<open>Consumers\<close>

lemma ensure_consumers_made:
  "ensure_consumers create subjs made = (None, made') \<Longrightarrow>
     made' = made @ map (\<lambda>subj. \<lparr>ccDurable = durableFor subj, ccFilterSubject = subj, ccAckWait = 30 * second,
       ccMaxDeliver = maxDeliver\<rparr>) subjs"
  by (induction create subjs made rule: ensure_consumers.induct) (auto simp: Let_def split: option.splits)

text \<open>a provisioned topology has one consumer per subject, under six distinct names, none of them empty, so
  no consumer rebinds another's position.\<close>

theorem topology_consumers_distinct:
  assumes "ensureTopology stream create = (None, made)"
  shows "map ccFilterSubject made = all_subjects \<and> distinct (map ccDurable made) \<and> [] \<notin> set (map ccDurable made) \<and>
    (\<forall>c \<in> set made. ccMaxDeliver c = maxDeliver)"
proof -
  have "made = map (\<lambda>subj. \<lparr>ccDurable = durableFor subj, ccFilterSubject = subj, ccAckWait = 30 * second,
      ccMaxDeliver = maxDeliver\<rparr>) all_subjects"
    using assms ensure_consumers_made [of create all_subjects "[]" made] by (simp add: ensureTopology_def split: option.splits)
  then show ?thesis by (auto simp: all_subjects_def durableFor_def)
qed

theorem topology_consumers_distinct_witness:
  "distinct (map ccDurable (snd (ensureTopology None (\<lambda>_. None))))"
proof -
  have "ensureTopology None (\<lambda>_. None) = (None, snd (ensureTopology None (\<lambda>_. None)))"
    by (simp add: ensureTopology_def all_subjects_def Let_def)
  from topology_consumers_distinct [OF this] show ?thesis by blast
qed

subsection \<open>Every message settles\<close>

text \<open>The delays before the second to the sixth delivery.\<close>

definition retry_delays :: "duration list" where
  "retry_delays = [second, 5 * second, 15 * second, 15 * second, 15 * second]"

lemma backoffFor_default:
  "backoffFor defaultBackoff 1 = second" "backoffFor defaultBackoff 2 = 5 * second" "backoffFor defaultBackoff 3 = 15 * second"
  "backoffFor defaultBackoff 4 = 15 * second" "backoffFor defaultBackoff 5 = 15 * second"
  by (simp_all add: backoffFor_def defaultBackoff_def Let_def)

lemma backoffFor_member: "schedule \<noteq> [] \<Longrightarrow> backoffFor schedule n \<in> set schedule"
  by (auto simp: backoffFor_def Let_def intro!: nth_mem) (cases schedule; simp)

lemma jet_deliver_decoded:
  assumes "unmarshal data = Inr obj" "h obj w = (res, w')"
  shows "jet_deliver unmarshal h schedule publishes subject \<lparr>jmData = data, jmDelivered = Some n\<rparr> (w, dlq) =
    (if res = None then (Acked, w', dlq)
     else if of_nat maxDeliver \<le> n then (Termed ''retry budget exhausted'', w', dead_letter publishes subject data dlq)
     else (NakDelay (backoffFor schedule n), w', dlq))"
  using assms by (cases res) (auto simp: jet_deliver_def Let_def)

text \<open>Delivered with the counts in \<open>ns\<close>, a decodable message is sent back with the schedule's delays until the
  handler takes it, and dead-lettered by the first failure at the budget.\<close>

lemma redeliver_decoded:
  assumes "unmarshal data = Inr obj" "redeliver unmarshal h schedule publishes subject data ns (w, dlq) = (acts, w', dlq')"
  shows "(\<exists>k \<le> length ns. acts = map (NakDelay \<circ> backoffFor schedule) (take k ns) @ (if k < length ns then [Acked] else []) \<and>
      dlq' = dlq \<and> (\<forall>n \<in> set (take k ns). n < of_nat maxDeliver)) \<or>
    (\<exists>k < length ns. acts = map (NakDelay \<circ> backoffFor schedule) (take k ns) @ [Termed ''retry budget exhausted''] \<and>
      of_nat maxDeliver \<le> ns ! k \<and> dlq' = dead_letter publishes subject data dlq)"
  using assms(2)
proof (induction ns arbitrary: w acts)
  case Nil
  then show ?case by simp
next
  case (Cons n ns)
  obtain res w1 where h: "h obj w = (res, w1)" by fastforce
  note one = jet_deliver_decoded [of unmarshal data obj h w res w1 schedule publishes subject n dlq, OF assms(1) h]
  show ?case
  proof (cases "res = None")
    case True
    then have "acts = [Acked]" "dlq' = dlq" using Cons.prems one by auto
    then show ?thesis by (intro disjI1 exI [of _ 0]) simp
  next
    case failed: False
    show ?thesis
    proof (cases "of_nat maxDeliver \<le> n")
      case True
      then have "acts = [Termed ''retry budget exhausted'']" "dlq' = dead_letter publishes subject data dlq"
        using Cons.prems one failed by auto
      then show ?thesis using True by (intro disjI2 exI [of _ 0]) simp
    next
      case False
      obtain acts1 where rest: "redeliver unmarshal h schedule publishes subject data ns (w1, dlq) = (acts1, w', dlq')"
        and acts: "acts = NakDelay (backoffFor schedule n) # acts1"
        using Cons.prems one failed False by (auto simp: Let_def split: prod.splits)
      from Cons.IH [OF rest] show ?thesis
      proof (elim disjE exE conjE)
        fix k
        assume "k \<le> length ns" "acts1 = map (NakDelay \<circ> backoffFor schedule) (take k ns) @ (if k < length ns then [Acked] else [])"
          "dlq' = dlq" "\<forall>n \<in> set (take k ns). n < of_nat maxDeliver"
        then show ?thesis using acts False by (intro disjI1 exI [of _ "Suc k"]) auto
      next
        fix k
        assume "k < length ns" "acts1 = map (NakDelay \<circ> backoffFor schedule) (take k ns) @ [Termed ''retry budget exhausted'']"
          "of_nat maxDeliver \<le> ns ! k" "dlq' = dead_letter publishes subject data dlq"
        then show ?thesis using acts by (intro disjI2 exI [of _ "Suc k"]) auto
      qed
    qed
  qed
qed



text \<open>a dead-letter publish that fails does not stop the message from being terminated: it is neither
  delivered again nor kept.\<close>

theorem failed_dead_letter_loses:
  "jet_deliver (\<lambda>_. Inl ''bad json'') h schedule (\<lambda>_ _. False) subject msg (w, []) = (Termed ''undecodable'', w, [])"
  by (simp add: jet_deliver_def dead_letter_def)

subsection \<open>Replay\<close>

definition foldable :: "(string \<Rightarrow> string + 'a) \<Rightarrow> history_msg \<Rightarrow> (time \<times> 'a) option" where
  "foldable unmarshal m = (case (fst m, unmarshal (snd m)) of (Some t, Inr v) \<Rightarrow> Some (t, v) | _ \<Rightarrow> None)"

lemma drain_batch_folds:
  "drain_batch unmarshal fold_fn ms (n, w) =
     (n + length (List.map_filter (foldable unmarshal) ms),
      fold (\<lambda>(t, v). fold_fn t v) (List.map_filter (foldable unmarshal) ms) w)"
  by (induction unmarshal fold_fn ms "(n, w)" arbitrary: n w rule: drain_batch.induct)
    (auto simp: foldable_def map_filter_simps split: sum.splits option.splits)

text \<open>The server as a queue that hands out at most \<open>k\<close> messages a fetch.\<close>

definition queue_fetch :: "nat \<Rightarrow> history_msg list \<Rightarrow> string + history_msg list \<times> string option \<times> history_msg list" where
  "queue_fetch k ms = Inr (take k ms, None, drop k ms)"

lemma drain_loop_queue:
  assumes "0 < k" "list_all (\<lambda>m. foldable unmarshal m \<noteq> None) ms"
  shows "drain_loop (queue_fetch k) unmarshal prefix fold_fn ms w =
    Some (None, fold (\<lambda>(t, v). fold_fn t v) (List.map_filter (foldable unmarshal) ms) w)"
  using assms(2)
proof (induction "length ms" arbitrary: ms w rule: less_induct)
  case less
  show ?case
  proof (cases ms)
    case Nil
    then show ?thesis by (subst drain_loop.simps) (simp add: queue_fetch_def drain_batch_folds map_filter_simps)
  next
    case (Cons m ms')
    have "length (drop k ms) < length ms" using Cons assms(1) by simp
    moreover have "list_all (\<lambda>m. foldable unmarshal m \<noteq> None) (drop k ms)"
      using less.prems by (metis append_take_drop_id list_all_append)
    ultimately have rest: "drain_loop (queue_fetch k) unmarshal prefix fold_fn (drop k ms) v =
        Some (None, fold (\<lambda>(t, v). fold_fn t v) (List.map_filter (foldable unmarshal) (drop k ms)) v)" for v
      by (rule less.hyps)
    have "foldable unmarshal m \<noteq> None" "take k ms = m # take (k - 1) ms'"
      using less.prems Cons assms(1) by (auto simp: take_Cons')
    then have "length (List.map_filter (foldable unmarshal) (take k ms)) \<noteq> 0" by (auto simp: map_filter_simps)
    moreover have "List.map_filter (foldable unmarshal) ms =
        List.map_filter (foldable unmarshal) (take k ms) @ List.map_filter (foldable unmarshal) (drop k ms)"
      by (metis append_take_drop_id filter_append map_append map_filter_def)
    ultimately show ?thesis
      by (subst drain_loop.simps) (simp add: queue_fetch_def drain_batch_folds rest)
  qed
qed

text \<open>C36: a replay ends and folds the whole history in stream order, when every message decodes.\<close>

theorem drain_complete:
  assumes "list_all (\<lambda>m. foldable unmarshal m \<noteq> None) ms"
  shows "drainSubject None (queue_fetch 256) unmarshal prefix fold_fn ms w =
    Some (None, fold (\<lambda>(t, v). fold_fn t v) (List.map_filter (foldable unmarshal) ms) w)"
  using drain_loop_queue [OF _ assms, of 256] by (simp add: drainSubject_def)

theorem drain_complete_witness:
  "drainSubject None (queue_fetch 256) (\<lambda>d. if d = ''bad'' then Inl ''bad json'' else Inr d) ''rebuild'' (\<lambda>t v seen. seen @ [(t, v)])
     [(Some 1, ''a''), (Some 2, ''b'')] [] = Some (None, [(1, ''a''), (2, ''b'')])"
  using drain_complete [of "\<lambda>d. if d = ''bad'' then Inl ''bad json'' else Inr d" "[(Some 1, ''a''), (Some 2, ''b'')]"
      "''rebuild''" "\<lambda>t v seen. seen @ [(t, v)]" "[]"]
  by (simp add: foldable_def map_filter_simps)

text \<open>a batch of undecodable messages ends the replay: whatever follows two hundred and fifty six of them
  is never folded, and the replay reports success.\<close>

theorem poison_batch_ends_replay:
  assumes "length poison = 256" "list_all (\<lambda>m. foldable unmarshal m = None) poison"
  shows "drainSubject None (queue_fetch 256) unmarshal prefix fold_fn (poison @ ms) w = Some (None, w)"
proof -
  have "List.map_filter (foldable unmarshal) poison = []"
    using assms(2) by (induction poison) (auto simp: map_filter_simps)
  then show ?thesis
    using assms(1) by (simp add: drainSubject_def) (subst drain_loop.simps, simp add: queue_fetch_def drain_batch_folds)
qed

theorem poison_batch_ends_replay_witness:
  "drainSubject None (queue_fetch 256) (\<lambda>d. if d = ''bad'' then Inl ''bad json'' else Inr d) ''rebuild'' (\<lambda>t v seen. seen @ [(t, v)])
     (replicate 256 (Some 1, ''bad'') @ [(Some 2, ''b'')]) [] = Some (None, [])"
  by (rule poison_batch_ends_replay) (simp_all add: list_all_iff foldable_def)

subsection \<open>Connection and cadence\<close>

definition conn_run :: "conn_event list \<Rightarrow> connection \<Rightarrow> connection" where
  "conn_run evs c = fold conn_step evs c"

lemma conn_run_simps [simp]: "conn_run [] c = c" "conn_run (ev # evs) c = conn_run evs (conn_step ev c)"
  by (simp_all add: conn_run_def)

lemma conn_step_cause:
  "cnCause (conn_step ev c) = (if cnCause c \<noteq> StillRunning then cnCause c
     else if ev = Signalled then Stopped else if ev = ConnClosed \<and> \<not> cnClosing c then BrokerClosed else StillRunning)"
  by (cases ev) (auto simp: conn_step_def cancel_cause_def)

lemma conn_step_closing: "cnClosing (conn_step ev c) = (cnClosing c \<or> ev = OwnClose)"
  by (cases ev) (auto simp: conn_step_def)

lemma conn_run_settled: "cnCause c \<noteq> StillRunning \<Longrightarrow> cnCause (conn_run evs c) = cnCause c"
  by (induction evs arbitrary: c) (auto simp: conn_step_cause)

lemma conn_run_lost:
  "cnCause c = StillRunning \<Longrightarrow> \<not> cnClosing c \<Longrightarrow> cnCause (conn_run evs c) = BrokerClosed \<longleftrightarrow>
     (\<exists>xs ys. evs = xs @ ConnClosed # ys \<and> OwnClose \<notin> set xs \<and> Signalled \<notin> set xs)"
proof (induction evs arbitrary: c)
  case (Cons ev evs)
  show ?case
  proof (cases "ev = ConnClosed \<or> ev = Signalled")
    case True
    then have "cnCause (conn_run (ev # evs) c) = (if ev = ConnClosed then BrokerClosed else Stopped)"
      using Cons.prems conn_run_settled [of "conn_step ev c" evs] by (auto simp: conn_step_cause)
    moreover have "(\<exists>xs ys. ev # evs = xs @ ConnClosed # ys \<and> OwnClose \<notin> set xs \<and> Signalled \<notin> set xs) \<longleftrightarrow> ev = ConnClosed"
      using True by (metis append_Cons append_Nil conn_event.distinct(17) list.inject list.set_intros(1) neq_Nil_conv list.set(1) empty_iff)
    ultimately show ?thesis by auto
  next
    case False
    have still: "cnCause (conn_step ev c) = StillRunning" using Cons.prems False by (simp add: conn_step_cause)
    show ?thesis
    proof (cases "ev = OwnClose")
      case True
      have "cnCause (conn_run es d) \<noteq> BrokerClosed" if "cnClosing d" "cnCause d = StillRunning" for es d
        using that
      proof (induction es arbitrary: d)
        case (Cons e es)
        then show ?case
          by (cases "e = Signalled") (auto simp: conn_step_cause conn_step_closing conn_run_settled)
      qed simp
      moreover have "\<not> (\<exists>xs ys. ev # evs = xs @ ConnClosed # ys \<and> OwnClose \<notin> set xs \<and> Signalled \<notin> set xs)"
        using True by (auto simp: Cons_eq_append_conv)
      ultimately show ?thesis using True still by (simp add: conn_step_closing)
    next
      case other: False
      have "(\<exists>xs ys. ev # evs = xs @ ConnClosed # ys \<and> OwnClose \<notin> set xs \<and> Signalled \<notin> set xs) \<longleftrightarrow>
          (\<exists>xs ys. evs = xs @ ConnClosed # ys \<and> OwnClose \<notin> set xs \<and> Signalled \<notin> set xs)"
        using False other by (fastforce simp: Cons_eq_append_conv)
      then show ?thesis using Cons.IH [OF still] Cons.prems other by (simp add: conn_step_closing)
    qed
  qed
qed simp

text \<open>a beat that lost its broker for good exits non-zero, and only such a beat: whatever the connection
  does, the exit code after a clean stop is one exactly when the connection closed before the beat
  closed it itself and before it was told to stop; dropped and restored connections never count.\<close>

theorem lost_broker_exits_nonzero:
  assumes "cnCause c = StillRunning" "\<not> cnClosing c" "c' = conn_run evs c" "cnCause c' \<noteq> StillRunning \<or> err = None"
  shows "exitOnError (cnCause c') err = (if \<exists>xs ys. evs = xs @ ConnClosed # ys \<and> OwnClose \<notin> set xs \<and> Signalled \<notin> set xs
    then 1 else 0)"
  using conn_run_lost [OF assms(1,2), of evs] assms(3,4) by (auto simp: exitOnError_def)

theorem lost_broker_exits_nonzero_witness:
  "exitOnError (cnCause (conn_run [Disconnected, Reconnected, Signalled, OwnClose, ConnClosed]
     \<lparr>cnClosing = False, cnHealth = \<lparr>hReady = True, hReason = None\<rparr>, cnCause = StillRunning\<rparr>)) (Some ''context canceled'') = 0"
proof -
  let ?c = "\<lparr>cnClosing = False, cnHealth = \<lparr>hReady = True, hReason = None\<rparr>, cnCause = StillRunning\<rparr>"
  let ?evs = "[Disconnected, Reconnected, Signalled, OwnClose, ConnClosed]"
  have "cnCause (conn_run ?evs ?c) \<noteq> StillRunning" by (simp add: conn_step_cause)
  moreover have "\<not> (\<exists>xs ys. ?evs = xs @ ConnClosed # ys \<and> OwnClose \<notin> set xs \<and> Signalled \<notin> set xs)"
    by (auto simp: Cons_eq_append_conv)
  ultimately show ?thesis
    using lost_broker_exits_nonzero [of ?c "conn_run ?evs ?c" ?evs "Some ''context canceled''"] by simp
qed

lemma readyz_after_closed: "\<not> cnClosing c \<Longrightarrow> readyz (cnHealth (conn_step ConnClosed c)) = (503, ''broker connection closed'')"
  by (simp add: conn_step_def notReady_def readyz_def)

lemma awaitConsumers_ready: "fst (awaitConsumers bind ss h) = None \<longleftrightarrow> (\<forall>s \<in> set ss. bind (durableFor s) = None)"
  by (induction bind ss h rule: awaitConsumers.induct) (auto split: option.splits)

text \<open>the poll delay is bounded: with a cap and a divisor, a run of turns with any draws below their bounds
  never waits longer than the cap and its share of jitter, and the first success returns to the base.\<close>

theorem backoff_bounded:
  assumes "backoff_turn cfg ok rand delay = Some d" "0 < bcJitterDivisor cfg" "\<And>n. 0 < n \<Longrightarrow> 0 \<le> rand n \<and> rand n < n"
  shows "if ok then d = bcBase cfg else d \<le> bcCap cfg + bcCap cfg div bcJitterDivisor cfg"
proof (cases ok)
  case True
  then show ?thesis using assms(1) by (simp add: backoff_turn_def nextDelay_def)
next
  case False
  let ?n = "nextDelay cfg delay False"
  have n: "?n \<le> bcCap cfg" by (simp add: nextDelay_def)
  have pos: "0 < ?n div bcJitterDivisor cfg" and d: "d = ?n + rand (?n div bcJitterDivisor cfg)"
    using assms(1,2) False by (auto simp: backoff_turn_def Let_def split: if_splits)
  have "?n div bcJitterDivisor cfg \<le> bcCap cfg div bcJitterDivisor cfg"
    using n assms(2) by (rule zdiv_mono1)
  then show ?thesis using d n assms(3) [OF pos] False by simp
qed

theorem backoff_bounded_witness:
  "\<exists>d. backoff_turn \<lparr>bcBase = second, bcCap = 8 * second, bcJitterDivisor = 2\<rparr> False (\<lambda>n. n - 1) (5 * second) = Some d \<and>
     d \<le> 12 * second"
proof -
  let ?cfg = "\<lparr>bcBase = second, bcCap = 8 * second, bcJitterDivisor = 2\<rparr>"
  have "backoff_turn ?cfg False (\<lambda>n. n - 1) (5 * second) = Some (8 * second + (4 * second - 1))"
    by (simp add: backoff_turn_def nextDelay_def)
  from backoff_bounded [OF this] this show ?thesis by simp
qed

end
