(* ===== verification/Store.thy ===== *)
theory Store
  imports Engine
begin

text \<open>
  What outlives a run: the checkpoint stores of the reason loop (\<^verbatim>\<open>src/internal/clank/store.go\<close>), the
  seal every stored object carries (\<^verbatim>\<open>src/internal/sealbox/sealbox.go\<close>) and the sealed segment sink with
  its reader (\<^verbatim>\<open>src/internal/objectstore/objectstore.go\<close>).

  The authenticated cipher is a pair of arguments under a fixed key, one that seals under a nonce and
  one that opens; what the code relies on of it, that opening reverses sealing, is a hypothesis where
  it is used. Bytes are characters. JSON encoding is an argument.
\<close>

subsection \<open>In memory\<close>

record mem_store =
  msPending :: "turn list"
  msFinished :: "string \<rightharpoonup> engine_error option"

definition newMemStore :: mem_store where
  "newMemStore = \<lparr>msPending = [], msFinished = Map.empty\<rparr>"

definition mem_checkpoint :: "bool \<Rightarrow> turn \<Rightarrow> mem_store \<Rightarrow> bool \<times> mem_store" where
  "mem_checkpoint cancelled t s = (if cancelled then (False, s) else (True, s\<lparr>msPending := msPending s @ [t]\<rparr>))"

definition mem_pending :: "bool \<Rightarrow> mem_store \<Rightarrow> bool \<times> turn list" where
  "mem_pending cancelled s =
     (if cancelled then (False, []) else (True, filter (\<lambda>t. msFinished s (tnRunID t) = None) (msPending s)))"

definition mem_finish :: "bool \<Rightarrow> string \<Rightarrow> engine_error option \<Rightarrow> mem_store \<Rightarrow> bool \<times> mem_store" where
  "mem_finish cancelled runID err s =
     (if cancelled then (False, s) else (True, s\<lparr>msFinished := (msFinished s)(runID \<mapsto> err)\<rparr>))"

subsection \<open>In a directory\<close>

text \<open>A file system as a map from paths to contents; each step of an append may fail, the write after a part.\<close>

datatype store_error = StoreCancelled | StoreMarshal string | StoreMkdir string | StoreOpen string | StoreWrite string
  | StoreSeal string string | StorePut string string

record terminal_record =
  trFinished :: bool
  trError :: string

datatype transcript_line = TurnLine turn | TerminalLine terminal_record

record append_faults =
  afMkdir :: "string option"
  afOpen :: "string option"
  afWrite :: "(nat \<times> string) option"

text \<open>The path as joined; the run's own slash makes a directory per object.\<close>

definition transcript_path :: "string \<Rightarrow> string \<Rightarrow> string" where
  "transcript_path dir runID = dir @ ''/'' @ runID @ ''.jsonl''"

definition appendLine ::
  "(transcript_line \<Rightarrow> string + string) \<Rightarrow> append_faults \<Rightarrow> string \<Rightarrow> string \<Rightarrow> transcript_line \<Rightarrow>
   (string \<rightharpoonup> string) \<Rightarrow> store_error option \<times> (string \<rightharpoonup> string)" where
  "appendLine marshal f dir runID v fs =
     (case marshal v of
        Inl e \<Rightarrow> (Some (StoreMarshal e), fs)
      | Inr b \<Rightarrow>
          (case afMkdir f of Some e \<Rightarrow> (Some (StoreMkdir e), fs)
           | None \<Rightarrow>
               (case afOpen f of Some e \<Rightarrow> (Some (StoreOpen e), fs)
                | None \<Rightarrow>
                    (let path = transcript_path dir runID; old = map_get [] fs path; line = b @ [CHR 0x0A]
                     in case afWrite f of
                          Some (n, e) \<Rightarrow> (Some (StoreWrite e), fs(path \<mapsto> old @ take n line))
                        | None \<Rightarrow> (None, fs(path \<mapsto> old @ line))))))"

definition dir_checkpoint ::
  "(transcript_line \<Rightarrow> string + string) \<Rightarrow> append_faults \<Rightarrow> string \<Rightarrow> bool \<Rightarrow> turn \<Rightarrow> (string \<rightharpoonup> string) \<Rightarrow>
   store_error option \<times> (string \<rightharpoonup> string)" where
  "dir_checkpoint marshal f dir cancelled t fs =
     (if cancelled then (Some StoreCancelled, fs) else appendLine marshal f dir (tnRunID t) (TurnLine t) fs)"

definition dir_finish ::
  "(transcript_line \<Rightarrow> string + string) \<Rightarrow> append_faults \<Rightarrow> string \<Rightarrow> bool \<Rightarrow> string \<Rightarrow> string option \<Rightarrow>
   (string \<rightharpoonup> string) \<Rightarrow> store_error option \<times> (string \<rightharpoonup> string)" where
  "dir_finish marshal f dir cancelled runID err fs =
     (if cancelled then (Some StoreCancelled, fs)
      else appendLine marshal f dir runID
             (TerminalLine \<lparr>trFinished = True, trError = (case err of None \<Rightarrow> [] | Some e \<Rightarrow> e)\<rparr>) fs)"

subsection \<open>The seal\<close>

definition nonce_size :: nat where
  "nonce_size = 12"

text \<open>The nonce is drawn afresh and leads the sealed bytes; \<open>None\<close> is a failed draw.\<close>

definition key_seal :: "(string \<Rightarrow> string \<Rightarrow> string) \<Rightarrow> string option \<Rightarrow> string \<Rightarrow> string option" where
  "key_seal gcmSeal nonce plain = map_option (\<lambda>n. n @ gcmSeal n plain) nonce"

definition key_open :: "(string \<Rightarrow> string \<Rightarrow> string option) \<Rightarrow> string \<Rightarrow> string option" where
  "key_open gcmOpen sealed =
     (if length sealed < nonce_size then None else gcmOpen (take nonce_size sealed) (drop nonce_size sealed))"

subsection \<open>In a bucket\<close>

definition turnKey :: "string \<Rightarrow> nat \<Rightarrow> string" where
  "turnKey runID step = ''transcripts/'' @ runID @ ''/'' @ show_nat step @ ''.json''"

definition finishKey :: "string \<Rightarrow> string" where
  "finishKey runID = ''transcripts/'' @ runID @ ''/finish.json''"

definition putJSON ::
  "(transcript_line \<Rightarrow> string + string) \<Rightarrow> (string \<Rightarrow> string \<Rightarrow> string) \<Rightarrow> string option \<Rightarrow> (string \<Rightarrow> string option) \<Rightarrow>
   bool \<Rightarrow> string \<Rightarrow> transcript_line \<Rightarrow> (string \<rightharpoonup> string) \<Rightarrow> store_error option \<times> (string \<rightharpoonup> string)" where
  "putJSON marshal gcmSeal nonce put cancelled key v bucket =
     (if cancelled then (Some StoreCancelled, bucket)
      else (case marshal v of
              Inl e \<Rightarrow> (Some (StoreMarshal e), bucket)
            | Inr b \<Rightarrow>
                (case key_seal gcmSeal nonce b of
                   None \<Rightarrow> (Some (StoreSeal key ''nonce''), bucket)
                 | Some sealed \<Rightarrow>
                     (case put key of
                        Some e \<Rightarrow> (Some (StorePut key e), bucket)
                      | None \<Rightarrow> (None, bucket(key \<mapsto> sealed))))))"

definition s3_checkpoint ::
  "(transcript_line \<Rightarrow> string + string) \<Rightarrow> (string \<Rightarrow> string \<Rightarrow> string) \<Rightarrow> string option \<Rightarrow> (string \<Rightarrow> string option) \<Rightarrow>
   bool \<Rightarrow> turn \<Rightarrow> (string \<rightharpoonup> string) \<Rightarrow> store_error option \<times> (string \<rightharpoonup> string)" where
  "s3_checkpoint marshal gcmSeal nonce put cancelled t =
     putJSON marshal gcmSeal nonce put cancelled (turnKey (tnRunID t) (tnStep t)) (TurnLine t)"

definition s3_finish ::
  "(transcript_line \<Rightarrow> string + string) \<Rightarrow> (string \<Rightarrow> string \<Rightarrow> string) \<Rightarrow> string option \<Rightarrow> (string \<Rightarrow> string option) \<Rightarrow>
   bool \<Rightarrow> string \<Rightarrow> string option \<Rightarrow> (string \<rightharpoonup> string) \<Rightarrow> store_error option \<times> (string \<rightharpoonup> string)" where
  "s3_finish marshal gcmSeal nonce put cancelled runID err =
     putJSON marshal gcmSeal nonce put cancelled (finishKey runID)
       (TerminalLine \<lparr>trFinished = True, trError = (case err of None \<Rightarrow> [] | Some e \<Rightarrow> e)\<rparr>)"

definition encryptingSink_put ::
  "(string \<Rightarrow> string \<Rightarrow> string) \<Rightarrow> string option \<Rightarrow> (string \<Rightarrow> string option) \<Rightarrow> string \<Rightarrow> string + string \<Rightarrow>
   (string \<rightharpoonup> string) \<Rightarrow> string option \<times> (string \<rightharpoonup> string)" where
  "encryptingSink_put gcmSeal nonce put key r bucket =
     (case r of
        Inl e \<Rightarrow> (Some e, bucket)
      | Inr b \<Rightarrow>
          (case key_seal gcmSeal nonce b of
             None \<Rightarrow> (Some ''seal'', bucket)
           | Some sealed \<Rightarrow> (case put key of Some e \<Rightarrow> (Some e, bucket) | None \<Rightarrow> (None, bucket(key \<mapsto> sealed)))))"

fun split_lines :: "string \<Rightarrow> string list" where
  "split_lines [] = [[]]"
| "split_lines (c # s) =
     (if c = CHR 0x0A then [] # split_lines s
      else (case split_lines s of [] \<Rightarrow> [[c]] | l # ls \<Rightarrow> (c # l) # ls))"

definition trim_newline :: "string \<Rightarrow> string" where
  "trim_newline s = (if s \<noteq> [] \<and> last s = CHR 0x0A then butlast s else s)"

definition unsealSegment :: "(string \<Rightarrow> string \<Rightarrow> string option) \<Rightarrow> string \<Rightarrow> string list option" where
  "unsealSegment gcmOpen sealed =
     map_option (\<lambda>plain. filter (\<lambda>l. l \<noteq> []) (split_lines (trim_newline plain))) (key_open gcmOpen sealed)"

subsection \<open>Facts\<close>

lemma mem_pending_unfinished:
  "snd (mem_pending False (snd (mem_finish False run err s))) = filter (\<lambda>t. tnRunID t \<noteq> run) (snd (mem_pending False s))"
  by (auto simp: mem_pending_def mem_finish_def intro: filter_cong)

lemma mem_pending_checkpoint:
  "snd (mem_pending False (snd (mem_checkpoint False t s))) =
     snd (mem_pending False s) @ (if msFinished s (tnRunID t) = None then [t] else [])"
  by (simp add: mem_pending_def mem_checkpoint_def)

text \<open>Splitting at the last slash recovers the run and the step of a key.\<close>

lemma takeWhile_slash: "CHR ''/'' \<notin> set us \<Longrightarrow> takeWhile (\<lambda>c. c \<noteq> CHR ''/'') (us @ CHR ''/'' # xs) = us"
  by (induction us) auto

lemma last_slash_unique:
  assumes "xs @ CHR ''/'' # us = ys @ CHR ''/'' # vs" "CHR ''/'' \<notin> set us" "CHR ''/'' \<notin> set vs"
  shows "xs = ys \<and> us = vs"
proof -
  have "rev us @ CHR ''/'' # rev xs = rev vs @ CHR ''/'' # rev ys"
    using arg_cong [OF assms(1), of rev] by simp
  then have "takeWhile (\<lambda>c. c \<noteq> CHR ''/'') (rev us @ CHR ''/'' # rev xs) = takeWhile (\<lambda>c. c \<noteq> CHR ''/'') (rev vs @ CHR ''/'' # rev ys)"
    by (rule arg_cong)
  then have "rev us = rev vs" using assms(2,3) takeWhile_slash [of "rev us"] takeWhile_slash [of "rev vs"] by simp
  then have "us = vs" by simp
  then show ?thesis using assms(1) by simp
qed

lemma show_nat_no_slash: "CHR ''/'' \<notin> set (show_nat n)"
proof
  assume "CHR ''/'' \<in> set (show_nat n)"
  then have "is_digit (CHR ''/'')" using show_nat_digits [of n] by (auto simp: list_all_iff)
  then show False by (simp add: is_digit_def)
qed

lemma keys_distinct:
  "turnKey r n = turnKey r' n' \<longleftrightarrow> r = r' \<and> n = n'" "turnKey r n \<noteq> finishKey r'" "finishKey r = finishKey r' \<longleftrightarrow> r = r'"
proof -
  show "turnKey r n = turnKey r' n' \<longleftrightarrow> r = r' \<and> n = n'"
  proof
    assume "turnKey r n = turnKey r' n'"
    then have "r @ CHR ''/'' # show_nat n @ ''.json'' = r' @ CHR ''/'' # show_nat n' @ ''.json''" by (simp add: turnKey_def)
    from last_slash_unique [OF this] show_nat_no_slash have "r = r' \<and> show_nat n = show_nat n'" by auto
    then show "r = r' \<and> n = n'" by (metis show_nat_inject)
  qed simp
  show "turnKey r n \<noteq> finishKey r'"
  proof
    assume "turnKey r n = finishKey r'"
    then have "r @ CHR ''/'' # show_nat n @ ''.json'' = r' @ CHR ''/'' # ''finish.json''" by (simp add: turnKey_def finishKey_def)
    from last_slash_unique [OF this] show_nat_no_slash have "show_nat n = ''finish''" by auto
    then show False using show_nat_digits [of n] by (simp add: is_digit_def)
  qed
  show "finishKey r = finishKey r' \<longleftrightarrow> r = r'" by (simp add: finishKey_def)
qed

text \<open>no checkpoint overwrites another: storing a turn or an end under the bucket changes one key only, and
  turns of different runs or steps, and the ends of different runs, have different keys, although a
  run's name holds a slash of its own.\<close>

theorem checkpoints_never_collide:
  "(turnKey r n = turnKey r' n' \<longleftrightarrow> r = r' \<and> n = n') \<and> turnKey r n \<noteq> finishKey r' \<and> (finishKey r = finishKey r' \<longleftrightarrow> r = r') \<and>
   (case s3_checkpoint marshal gcmSeal nonce put cancelled t bucket of
      (None, bucket') \<Rightarrow> (\<exists>sealed. bucket' = bucket(turnKey (tnRunID t) (tnStep t) \<mapsto> sealed))
    | (Some _, bucket') \<Rightarrow> bucket' = bucket)"
  using keys_distinct
  by (auto simp: s3_checkpoint_def putJSON_def split: sum.splits option.splits)

lemma split_lines_nonempty [simp]: "split_lines s \<noteq> []"
  by (induction s) (auto split: list.splits)

lemma split_lines_line: "CHR 0x0A \<notin> set l \<Longrightarrow> split_lines (l @ CHR 0x0A # s) = l # split_lines s"
  by (induction l) auto

lemma split_lines_last: "CHR 0x0A \<notin> set l \<Longrightarrow> split_lines l = [l]"
  by (induction l) auto

lemma split_lines_records:
  assumes "\<And>l. l \<in> set ls \<Longrightarrow> CHR 0x0A \<notin> set l"
  shows "split_lines (concat (map (\<lambda>l. l @ [CHR 0x0A]) ls)) = ls @ [[]]"
  using assms by (induction ls) (auto simp: split_lines_line)

lemma unseal_lines:
  assumes "\<And>l. l \<in> set ls \<Longrightarrow> l \<noteq> [] \<and> CHR 0x0A \<notin> set l"
  shows "filter (\<lambda>l. l \<noteq> []) (split_lines (trim_newline (concat (map (\<lambda>l. l @ [CHR 0x0A]) ls)))) = ls"
proof (cases ls rule: rev_cases)
  case Nil
  then show ?thesis by (simp add: trim_newline_def)
next
  case (snoc ms m)
  have "trim_newline (concat (map (\<lambda>l. l @ [CHR 0x0A]) ls)) = concat (map (\<lambda>l. l @ [CHR 0x0A]) ms) @ m"
    using snoc by (simp add: trim_newline_def butlast_append)
  moreover have "split_lines (concat (map (\<lambda>l. l @ [CHR 0x0A]) ms) @ m) = ms @ [m]"
    using assms unfolding snoc
    by (induction ms) (auto simp: split_lines_line split_lines_last)
  moreover have "filter (\<lambda>l. l \<noteq> []) (ms @ [m]) = ms @ [m]"
    using assms snoc by (intro filter_True) auto
  ultimately show ?thesis using snoc by simp
qed

text \<open>a shipped segment can be read back: with a cipher whose opening reverses its sealing, what the sealing
  sink stored of a segment unseals to exactly the records the segment was written from.\<close>

theorem sealed_segment_reads_back:
  assumes "encryptingSink_put gcmSeal (Some nonce) put key (Inr (concat (map (\<lambda>l. l @ [CHR 0x0A]) ls))) bucket = (None, bucket')"
    "length nonce = nonce_size" "\<And>plain. gcmOpen nonce (gcmSeal nonce plain) = Some plain"
    "\<And>l. l \<in> set ls \<Longrightarrow> l \<noteq> [] \<and> CHR 0x0A \<notin> set l"
  shows "\<exists>sealed. bucket' key = Some sealed \<and> unsealSegment gcmOpen sealed = Some ls"
proof -
  let ?plain = "concat (map (\<lambda>l. l @ [CHR 0x0A]) ls)"
  have "bucket' key = Some (nonce @ gcmSeal nonce ?plain)"
    using assms(1) by (auto simp: encryptingSink_put_def key_seal_def split: option.splits)
  moreover have "unsealSegment gcmOpen (nonce @ gcmSeal nonce ?plain) = Some ls"
    using assms(2,3) unseal_lines [OF assms(4)] by (simp add: unsealSegment_def key_open_def)
  ultimately show ?thesis by blast
qed

theorem sealed_segment_reads_back_witness:
  "\<exists>sealed. snd (encryptingSink_put (\<lambda>n p. rev p) (Some ''abcdefghijkl'') (\<lambda>_. None) ''seg''
     (Inr (concat (map (\<lambda>l. l @ [CHR 0x0A]) [''one'', ''two'']))) Map.empty) ''seg'' = Some sealed \<and>
   unsealSegment (\<lambda>n c. Some (rev c)) sealed = Some [''one'', ''two'']"
proof -
  let ?put = "encryptingSink_put (\<lambda>n p. rev p) (Some ''abcdefghijkl'') (\<lambda>_. None) ''seg''
     (Inr (concat (map (\<lambda>l. l @ [CHR 0x0A]) [''one'', ''two'']))) Map.empty"
  have "?put = (None, snd ?put)" by (simp add: encryptingSink_put_def key_seal_def)
  then show ?thesis
    by (rule sealed_segment_reads_back) (auto simp: nonce_size_def)
qed

lemma key_open_short: "length sealed < nonce_size \<Longrightarrow> key_open gcmOpen sealed = None"
  by (simp add: key_open_def)

end
