(* ===== verification/ApprovalRequest.thy ===== *)
theory ApprovalRequest
  imports HissTransport
begin

text \<open>
  The human side of a hold: the ApprovalRequest resource and its controller
  (\<^verbatim>\<open>src/internal/hiss/approvalrequest.go\<close>, \<^verbatim>\<open>approvalrequest_controller.go\<close>).

  The API server is a map from object names to requests. A call to it may fail, which an argument says;
  the digest in a name is an argument too. The informer hands the controller an observed object, which
  may be older than the server's, so the reconcile operations take the object they were handed. What
  a human does, a patch of the decision that admission stamps with the authenticated subject, is a
  step of the environment.
\<close>

subsection \<open>The resource\<close>

record request_spec =
  arSignalRef :: string
  arAction :: string
  arBand :: string
  arReasons :: "string list"
  arDecision :: string

record request_status =
  arPhase :: string
  arDecidedAt :: time

text \<open>A specification or status that does not decode is an error; an absent status is the zero one.\<close>

record request =
  rqName :: string
  rqSpec :: "string + request_spec"
  rqStatus :: "string + request_status"
  rqAnnotations :: "string \<rightharpoonup> string"

type_synonym cluster = "string \<rightharpoonup> request"

definition fresh_status :: request_status where
  "fresh_status = \<lparr>arPhase = [], arDecidedAt = zero_time\<rparr>"

definition approvedByAnnotation :: string where
  "approvedByAnnotation = ''thump.dev/approved-by''"

datatype request_error =
    RequestSpecError string
  | RequestStatusError string
  | CreateError string string
  | DeleteError string string
  | UnrecognizedDecision string
  | PublishApprovalError string string
  | PatchError string string

definition newApprovalRequestSpec :: "governed \<Rightarrow> request_spec" where
  "newApprovalRequestSpec held =
     \<lparr>arSignalRef = decSignalRef (govDecision held),
      arAction = contractRefFor (govSet held) (decCandidateRef (govDecision held)),
      arBand = band_string (decRequestedBand (govDecision held)),
      arReasons = decReasons (govDecision held), arDecision = []\<rparr>"

definition translateDecision :: "request_spec \<Rightarrow> string \<Rightarrow> time \<Rightarrow> request_error + approval option" where
  "translateDecision spec approvedBy now =
     (if arDecision spec = [] then Inr None
      else if arDecision spec = ''approve''
        then Inr (Some \<lparr>apSignalRef = arSignalRef spec, apApprover = approvedBy, apApprovedAt = now, apCapBand = []\<rparr>)
      else Inl (UnrecognizedDecision (arDecision spec)))"

subsection \<open>The controller\<close>

definition approvalRequestName :: "(string \<Rightarrow> string) \<Rightarrow> string \<Rightarrow> string" where
  "approvalRequestName sha signalRef = ''ar-'' @ take 16 (sha signalRef)"

text \<open>A request that already exists is a success and stays as it is.\<close>

definition request_create ::
  "(string \<Rightarrow> string) \<Rightarrow> string option \<Rightarrow> governed \<Rightarrow> cluster \<Rightarrow> request_error option \<times> cluster" where
  "request_create sha fault held cl =
     (let spec = newApprovalRequestSpec held; name = approvalRequestName sha (arSignalRef spec)
      in case fault of
           Some e \<Rightarrow> (Some (CreateError (arSignalRef spec) e), cl)
         | None \<Rightarrow>
             (case cl name of
                Some _ \<Rightarrow> (None, cl)
              | None \<Rightarrow> (None, cl(name \<mapsto> \<lparr>rqName = name, rqSpec = Inr spec, rqStatus = Inr fresh_status,
                                           rqAnnotations = Map.empty\<rparr>))))"

definition defaultRetention :: duration where
  "defaultRetention = 24 * hour"

definition request_sweep ::
  "duration \<Rightarrow> string option \<Rightarrow> time \<Rightarrow> request \<Rightarrow> cluster \<Rightarrow> (request_error + bool) \<times> cluster" where
  "request_sweep retention fault now u cl =
     (case rqStatus u of
        Inl e \<Rightarrow> (Inl (RequestStatusError e), cl)
      | Inr status \<Rightarrow>
          if arPhase status \<noteq> ''Processed'' \<or> is_zero_time (arDecidedAt status) then (Inr False, cl)
          else (let retention = (if retention \<le> 0 then defaultRetention else retention)
                in if time_sub now (arDecidedAt status) < retention then (Inr False, cl)
                   else (case fault of
                           Some e \<Rightarrow> (Inl (DeleteError (rqName u) e), cl)
                         | None \<Rightarrow> (Inr True, cl(rqName u := None)))))"

text \<open>The time of the decision is written in whole seconds. A patch of an object that is gone fails.\<close>

definition markProcessed :: "string option \<Rightarrow> time \<Rightarrow> string \<Rightarrow> cluster \<Rightarrow> request_error option \<times> cluster" where
  "markProcessed fault now name cl =
     (case fault of
        Some e \<Rightarrow> (Some (PatchError name e), cl)
      | None \<Rightarrow>
          (case cl name of
             None \<Rightarrow> (Some (PatchError name ''not found''), cl)
           | Some r \<Rightarrow> (None, cl(name \<mapsto> r\<lparr>rqStatus := Inr \<lparr>arPhase = ''Processed'',
                                     arDecidedAt = unix_seconds now * second\<rparr>\<rparr>))))"

text \<open>The faults of one reconcile and its two readings of the clock.\<close>

record reconcile_env =
  reDelete :: "string option"
  rePublish :: "approval \<Rightarrow> string option"
  rePatch :: "string option"
  reSweepNow :: time
  reAckNow :: time
  rePatchNow :: time

definition request_reconcile ::
  "reconcile_env \<Rightarrow> request \<Rightarrow> cluster \<times> approval list \<Rightarrow> request_error option \<times> cluster \<times> approval list" where
  "request_reconcile env u = (\<lambda>(cl, acks).
     (case rqSpec u of
        Inl e \<Rightarrow> (Some (RequestSpecError e), cl, acks)
      | Inr spec \<Rightarrow>
          (case rqStatus u of
             Inl e \<Rightarrow> (Some (RequestStatusError e), cl, acks)
           | Inr status \<Rightarrow>
               if arPhase status = ''Processed'' \<or> arDecision spec = [] then (None, cl, acks)
               else (let approvedBy = map_get [] (rqAnnotations u) approvedByAnnotation
                     in if approvedBy = [] then (None, cl, acks)
                        else (case translateDecision spec approvedBy (reAckNow env) of
                                Inl e \<Rightarrow> (Some e, cl, acks)
                              | Inr None \<Rightarrow> (None, cl, acks)
                              | Inr (Some ack) \<Rightarrow>
                                  (case rePublish env ack of
                                     Some e \<Rightarrow> (Some (PublishApprovalError (arSignalRef spec) e), cl, acks)
                                   | None \<Rightarrow>
                                       (case markProcessed (rePatch env) (rePatchNow env) (rqName u) cl of
                                          (err, cl') \<Rightarrow> (err, cl', acks @ [ack]))))))))"

definition reconcileObj ::
  "duration \<Rightarrow> reconcile_env \<Rightarrow> request \<Rightarrow> cluster \<times> approval list \<Rightarrow> cluster \<times> approval list" where
  "reconcileObj retention env u = (\<lambda>(cl, acks).
     (case request_sweep retention (reDelete env) (reSweepNow env) u cl of
        (Inl _, cl') \<Rightarrow> (cl', acks)
      | (Inr True, cl') \<Rightarrow> (cl', acks)
      | (Inr False, cl') \<Rightarrow> snd (request_reconcile env u (cl', acks))))"

subsection \<open>Runs\<close>

text \<open>A human's patch, admitted: the decision is written and the subject of the request is stamped.\<close>

definition human_patch :: "string \<Rightarrow> string \<Rightarrow> request \<Rightarrow> request" where
  "human_patch who decision u =
     u\<lparr>rqSpec := map_sum id (\<lambda>s. s\<lparr>arDecision := decision\<rparr>) (rqSpec u),
       rqAnnotations := (rqAnnotations u)(approvedByAnnotation \<mapsto> who)\<rparr>"

text \<open>The server's objects, every version of one the informer may still hand out, and the published acks;
  \<open>users\<close> are the subjects that can authenticate.\<close>

inductive request_run :: "(string \<Rightarrow> string) \<Rightarrow> duration \<Rightarrow> string set \<Rightarrow> cluster \<Rightarrow> request set \<Rightarrow> approval list \<Rightarrow> bool"
  for sha retention users where
  start: "request_run sha retention users Map.empty {} []"
| create: "request_run sha retention users cl seen acks \<Longrightarrow> request_create sha fault held cl = (err, cl') \<Longrightarrow>
    request_run sha retention users cl' (seen \<union> ran cl') acks"
| patch: "request_run sha retention users cl seen acks \<Longrightarrow> cl name = Some u \<Longrightarrow> who \<in> users \<Longrightarrow>
    request_run sha retention users (cl(name \<mapsto> human_patch who decision u)) (insert (human_patch who decision u) seen) acks"
| reconcile: "request_run sha retention users cl seen acks \<Longrightarrow> u \<in> seen \<Longrightarrow>
    reconcileObj retention env u (cl, acks) = (cl', acks') \<Longrightarrow>
    request_run sha retention users cl' (seen \<union> ran cl') acks'"

definition stamped_by :: "string set \<Rightarrow> request \<Rightarrow> bool" where
  "stamped_by users u \<longleftrightarrow> (\<forall>who. rqAnnotations u approvedByAnnotation = Some who \<longrightarrow> who \<in> users)"

definition attributed :: "string set \<Rightarrow> request set \<Rightarrow> approval \<Rightarrow> bool" where
  "attributed users seen a \<longleftrightarrow> apApprover a \<in> users \<and> apApprover a \<noteq> [] \<and>
     (\<exists>u spec. u \<in> seen \<and> rqSpec u = Inr spec \<and> arDecision spec = ''approve'' \<and> arSignalRef spec = apSignalRef a \<and>
        rqAnnotations u approvedByAnnotation = Some (apApprover a))"

lemma markProcessed_annotations:
  "markProcessed fault now name cl = (err, cl') \<Longrightarrow> u \<in> ran cl' \<Longrightarrow> \<exists>v \<in> ran cl. rqAnnotations u = rqAnnotations v"
  by (auto simp: markProcessed_def ran_def split: option.splits if_splits) blast+

lemma reconcileObj_cases:
  assumes "reconcileObj retention env u (cl, acks) = (cl', acks')"
  shows "(\<forall>v \<in> ran cl'. \<exists>w \<in> ran cl. rqAnnotations v = rqAnnotations w) \<and>
    (acks' = acks \<or> (\<exists>spec who. rqSpec u = Inr spec \<and> arDecision spec = ''approve'' \<and>
       rqAnnotations u approvedByAnnotation = Some who \<and> who \<noteq> [] \<and>
       acks' = acks @ [\<lparr>apSignalRef = arSignalRef spec, apApprover = who, apApprovedAt = reAckNow env, apCapBand = []\<rparr>]))"
proof -
  obtain res cl1 where sw: "request_sweep retention (reDelete env) (reSweepNow env) u cl = (res, cl1)" by fastforce
  have sub: "ran cl1 \<subseteq> ran cl"
    using sw by (auto simp: request_sweep_def Let_def ran_def split: sum.splits option.splits if_splits)
  obtain err cl2 acks2 where rec: "request_reconcile env u (cl1, acks) = (err, cl2, acks2)" by (rule prod_cases3)
  have rc: "(\<forall>v \<in> ran cl2. \<exists>w \<in> ran cl1. rqAnnotations v = rqAnnotations w) \<and>
    (acks2 = acks \<or> (\<exists>spec who. rqSpec u = Inr spec \<and> arDecision spec = ''approve'' \<and>
       rqAnnotations u approvedByAnnotation = Some who \<and> who \<noteq> [] \<and>
       acks2 = acks @ [\<lparr>apSignalRef = arSignalRef spec, apApprover = who, apApprovedAt = reAckNow env, apCapBand = []\<rparr>]))"
    using rec
    by (auto simp: request_reconcile_def translateDecision_def Let_def map_get_def
        split: sum.splits option.splits if_splits prod.splits dest: markProcessed_annotations)
  have ran2: "\<forall>v \<in> ran cl2. \<exists>w \<in> ran cl. rqAnnotations v = rqAnnotations w" using rc sub by blast
  have ran1: "\<forall>v \<in> ran cl1. \<exists>w \<in> ran cl. rqAnnotations v = rqAnnotations w" using sub by blast
  consider "(cl', acks') = (cl1, acks)" | "(cl', acks') = (cl2, acks2)"
    using assms sw rec by (auto simp: reconcileObj_def split: sum.splits bool.splits)
  then show ?thesis using ran1 ran2 rc by cases auto
qed

lemma request_run_attributed:
  "request_run sha retention users cl seen acks \<Longrightarrow>
     (\<forall>u \<in> seen. stamped_by users u) \<and> (\<forall>u \<in> ran cl. stamped_by users u) \<and> (\<forall>a \<in> set acks. attributed users seen a)"
proof (induction rule: request_run.induct)
  case (create cl seen acks fault held err cl')
  have "u \<in> ran cl' \<Longrightarrow> u \<in> ran cl \<or> rqAnnotations u = Map.empty" for u
    using create.hyps(2) by (auto simp: request_create_def Let_def ran_def split: option.splits if_splits)
  then have "\<forall>u \<in> ran cl'. stamped_by users u" using create.IH by (fastforce simp: stamped_by_def)
  then show ?case using create.IH by (fastforce simp: attributed_def)
next
  case (patch cl seen acks name u who decision)
  have "stamped_by users (human_patch who decision u)" using patch.hyps by (simp add: stamped_by_def human_patch_def)
  then show ?case using patch.IH by (fastforce simp: attributed_def ran_def split: if_splits)
next
  case (reconcile cl seen acks u env cl' acks')
  note c = reconcileObj_cases [OF reconcile.hyps(3)]
  have cl': "\<forall>v \<in> ran cl'. stamped_by users v" using c reconcile.IH by (fastforce simp: stamped_by_def)
  have mono: "attributed users seen a \<Longrightarrow> attributed users (seen \<union> ran cl') a" for a by (auto simp: attributed_def)
  have "\<forall>a \<in> set acks'. attributed users (seen \<union> ran cl') a"
    using c
  proof (elim conjE disjE exE)
    assume "acks' = acks"
    then show ?thesis using reconcile.IH mono by blast
  next
    fix spec who
    assume spec: "rqSpec u = Inr spec" "arDecision spec = ''approve''" "rqAnnotations u approvedByAnnotation = Some who"
      "who \<noteq> []" "acks' = acks @ [\<lparr>apSignalRef = arSignalRef spec, apApprover = who, apApprovedAt = reAckNow env, apCapBand = []\<rparr>]"
    have "who \<in> users" using reconcile.IH reconcile.hyps(2) spec(3) by (auto simp: stamped_by_def)
    then have "attributed users (seen \<union> ran cl') \<lparr>apSignalRef = arSignalRef spec, apApprover = who, apApprovedAt = reAckNow env, apCapBand = []\<rparr>"
      using spec reconcile.hyps(2) unfolding attributed_def by auto
    then show ?thesis using spec(5) reconcile.IH mono by auto
  qed
  then show ?case using cl' reconcile.IH by blast
qed simp

text \<open>no approval without an authenticated human: whatever holds are created, whatever requests are patched
  by the subjects that can authenticate, whatever the API server refuses and however old the objects
  the informer hands out, every published approval names such a subject, who wrote the decision to
  approve into a request for that very signal.\<close>

theorem approvals_attributed:
  assumes "request_run sha retention users cl seen acks" "a \<in> set acks"
  shows "apApprover a \<in> users \<and> apApprover a \<noteq> [] \<and>
    (\<exists>u spec. u \<in> seen \<and> rqSpec u = Inr spec \<and> arDecision spec = ''approve'' \<and> arSignalRef spec = apSignalRef a \<and>
       rqAnnotations u approvedByAnnotation = Some (apApprover a))"
  using request_run_attributed [OF assms(1)] assms(2) by (auto simp: attributed_def)

text \<open>a processed request is silent: once the object handed out is marked processed no reconcile publishes
  again, whatever a later patch writes into its decision.\<close>

theorem processed_request_silent:
  assumes "rqStatus u = Inr st" "arPhase st = ''Processed''"
  shows "snd (reconcileObj retention env (human_patch who decision u) (cl, acks)) = acks"
proof -
  have "rqStatus (human_patch who decision u) = Inr st" using assms(1) by (simp add: human_patch_def)
  then show ?thesis
    using assms(2)
    by (auto simp: reconcileObj_def request_sweep_def request_reconcile_def Let_def split: sum.splits option.splits if_splits)
qed

lemma request_create_existing: "cl (approvalRequestName sha (decSignalRef (govDecision held))) = Some r \<Longrightarrow>
    request_create sha None held cl = (None, cl)"
  by (simp add: request_create_def newApprovalRequestSpec_def Let_def)

text \<open>A second set held under a fingerprint whose request exists: the request still shows the first.\<close>

lemma second_hold_shows_first:
  assumes "decSignalRef (govDecision g1) = decSignalRef (govDecision g2)"
    "cl (approvalRequestName sha (decSignalRef (govDecision g1))) = None"
  shows "\<exists>u. request_create sha None g2 (snd (request_create sha None g1 cl)) = (None, snd (request_create sha None g1 cl)) \<and>
    snd (request_create sha None g1 cl) (approvalRequestName sha (decSignalRef (govDecision g2))) = Some u \<and>
    rqName u = approvalRequestName sha (decSignalRef (govDecision g2)) \<and>
    rqSpec u = Inr (newApprovalRequestSpec g1) \<and> rqStatus u = Inr fresh_status"
  using assms by (simp add: request_create_def newApprovalRequestSpec_def Let_def)

text \<open>an approval can release a set the human did not see: when a second set is held under a fingerprint
  whose request is still open, the request keeps showing the first set's action, band and reasons;
  the approval a human gives on reading it releases the second set.\<close>

theorem approval_releases_unseen_set:
  assumes "decSignalRef (govDecision g1) = fp" "decSignalRef (govDecision g2) = fp" "cl (approvalRequestName sha fp) = None"
    and "who \<noteq> []" "env = \<lparr>reDelete = None, rePublish = (\<lambda>_. None), rePatch = None, reSweepNow = t, reAckNow = t, rePatchNow = t\<rparr>"
    and "cl2 = snd (request_create sha None g2 (snd (request_create sha None g1 cl)))"
    and "htHolds tr = Some (holds_record g2 (holds_record g1 h))" "\<And>g. hpPublish ports g = None"
    and "decision_auditable (reissue pol \<lparr>apSignalRef = fp, apApprover = who, apApprovedAt = t, apCapBand = []\<rparr> t t (govDecision g2)) = None"
  shows "\<exists>u ack. cl2 (approvalRequestName sha fp) = Some u \<and> rqSpec u = Inr (newApprovalRequestSpec g1) \<and>
    snd (reconcileObj retention env (human_patch who ''approve'' u) (cl2, [])) = [ack] \<and>
    map govSet (htPublished (snd (approveHandler pol ports t t ack tr))) = map govSet (htPublished tr) @ [govSet g2]"
proof -
  obtain u where u: "cl2 (approvalRequestName sha fp) = Some u" "rqSpec u = Inr (newApprovalRequestSpec g1)"
    "rqStatus u = Inr fresh_status" "rqName u = approvalRequestName sha fp"
    using second_hold_shows_first [of g1 g2 cl sha] assms(1-3,6) by auto
  let ?ack = "\<lparr>apSignalRef = fp, apApprover = who, apApprovedAt = t, apCapBand = []\<rparr>"
  have "snd (reconcileObj retention env (human_patch who ''approve'' u) (cl2, [])) = [?ack]"
    using u assms(1,4,5)
    by (simp add: reconcileObj_def request_sweep_def fresh_status_def human_patch_def request_reconcile_def map_get_def
        translateDecision_def newApprovalRequestSpec_def markProcessed_def Let_def)
  moreover have "map govSet (htPublished (snd (approveHandler pol ports t t ?ack tr))) = map govSet (htPublished tr) @ [govSet g2]"
    using assms(2,7,8,9) by (simp add: approveHandler_def holds_take_def holds_record_def Let_def)
  ultimately show ?thesis using u by blast
qed

subsection \<open>A concrete request\<close>

definition sample_held :: governed where
  "sample_held = \<lparr>govDecision = evaluate example_set example_policy 150, govSet = example_set\<rparr>"

definition calm_env :: reconcile_env where
  "calm_env = \<lparr>reDelete = None, rePublish = (\<lambda>_. None), rePatch = None, reSweepNow = 160, reAckNow = 160, rePatchNow = 160\<rparr>"

definition sample_request :: request where
  "sample_request = human_patch ''alice'' ''approve'' \<lparr>rqName = ''ar-'', rqSpec = Inr (newApprovalRequestSpec sample_held),
     rqStatus = Inr fresh_status, rqAnnotations = Map.empty\<rparr>"

lemma sample_run:
  "\<exists>cl seen acks a. request_run (\<lambda>_. []) 0 {''alice''} cl seen acks \<and> a \<in> set acks"
proof -
  let ?u = "\<lparr>rqName = ''ar-'', rqSpec = Inr (newApprovalRequestSpec sample_held), rqStatus = Inr fresh_status, rqAnnotations = Map.empty\<rparr>"
  have made: "request_create (\<lambda>_. []) None sample_held Map.empty = (None, [''ar-'' \<mapsto> ?u])"
    by (simp add: request_create_def approvalRequestName_def Let_def)
  have r1: "request_run (\<lambda>_. []) 0 {''alice''} [''ar-'' \<mapsto> ?u] ({} \<union> ran [''ar-'' \<mapsto> ?u]) []"
    by (rule request_run.create [OF request_run.start made])
  have r2: "request_run (\<lambda>_. []) 0 {''alice''} ([''ar-'' \<mapsto> ?u](''ar-'' \<mapsto> sample_request))
      (insert sample_request ({} \<union> ran [''ar-'' \<mapsto> ?u])) []"
    unfolding sample_request_def by (rule request_run.patch [OF r1]) simp_all
  obtain cl acks where rec: "reconcileObj 0 calm_env sample_request ([''ar-'' \<mapsto> ?u](''ar-'' \<mapsto> sample_request), []) = (cl, acks)"
    by fastforce
  have "acks \<noteq> []"
    using rec
    by (auto simp: reconcileObj_def request_sweep_def fresh_status_def human_patch_def request_reconcile_def map_get_def
        translateDecision_def newApprovalRequestSpec_def markProcessed_def Let_def calm_env_def sample_request_def)
  moreover have "request_run (\<lambda>_. []) 0 {''alice''} cl (insert sample_request ({} \<union> ran [''ar-'' \<mapsto> ?u]) \<union> ran cl) acks"
    by (rule request_run.reconcile [OF r2 _ rec]) simp
  ultimately show ?thesis by (meson list.set_sel(1))
qed

theorem approvals_attributed_witness:
  "\<exists>cl seen acks a. request_run (\<lambda>_. []) 0 {''alice''} cl seen acks \<and> a \<in> set acks \<and> apApprover a = ''alice''"
proof -
  obtain cl seen acks a where run: "request_run (\<lambda>_. []) 0 {''alice''} cl seen acks" "a \<in> set acks"
    using sample_run by blast
  from approvals_attributed [OF run] run show ?thesis by blast
qed

theorem processed_request_silent_witness:
  "snd (reconcileObj 0 calm_env (human_patch ''alice'' ''approve''
     (sample_request\<lparr>rqStatus := Inr \<lparr>arPhase = ''Processed'', arDecidedAt = 0\<rparr>\<rparr>)) (Map.empty, [])) = []"
  by (rule processed_request_silent [where st = "\<lparr>arPhase = ''Processed'', arDecidedAt = 0\<rparr>"]) simp_all

theorem approval_releases_unseen_set_witness:
  "\<exists>(u :: request) (ack :: approval) (tr :: hiss_transport). rqSpec u = Inr (newApprovalRequestSpec (sample_held\<lparr>govSet := example_set\<lparr>psName := ''older''\<rparr>\<rparr>)) \<and>
     map govSet (htPublished (snd (approveHandler example_policy quiet_ports 160 160 ack tr))) = [example_set]"
proof -
  let ?g1 = "sample_held\<lparr>govSet := example_set\<lparr>psName := ''older''\<rparr>\<rparr>"
  let ?tr = "(buildTransport [] [])\<lparr>htHolds := Some (holds_record sample_held (holds_record ?g1 newPendingHolds))\<rparr>"
  have fp: "decSignalRef (govDecision ?g1) = ''fp''" "decSignalRef (govDecision sample_held) = ''fp''"
    by (simp_all add: sample_held_def example_set_def)
  have aud: "decision_auditable (reissue example_policy \<lparr>apSignalRef = ''fp'', apApprover = ''alice'', apApprovedAt = 160, apCapBand = []\<rparr>
      160 160 (govDecision sample_held)) = None"
    by (simp add: decision_auditable_None_iff zero_time_def sample_held_def) (simp add: example_policy_def)
  have "\<exists>u ack. (snd (request_create (\<lambda>_. []) None sample_held (snd (request_create (\<lambda>_. []) None ?g1 Map.empty))))
      (approvalRequestName (\<lambda>_. []) ''fp'') = Some u \<and> rqSpec u = Inr (newApprovalRequestSpec ?g1) \<and>
    snd (reconcileObj 0 calm_env (human_patch ''alice'' ''approve'' u)
      (snd (request_create (\<lambda>_. []) None sample_held (snd (request_create (\<lambda>_. []) None ?g1 Map.empty))), [])) = [ack] \<and>
    map govSet (htPublished (snd (approveHandler example_policy quiet_ports 160 160 ack ?tr))) =
      map govSet (htPublished ?tr) @ [govSet sample_held]"
    by (rule approval_releases_unseen_set [OF fp _ _ _ refl _ _ aud, where h = newPendingHolds])
      (simp_all add: calm_env_def quiet_ports_def)
  then obtain u :: request and ack :: approval where "rqSpec u = Inr (newApprovalRequestSpec ?g1)"
    "map govSet (htPublished (snd (approveHandler example_policy quiet_ports 160 160 ack ?tr))) =
      map govSet (htPublished ?tr) @ [govSet sample_held]"
    by blast
  moreover have "map govSet (htPublished ?tr) @ [govSet sample_held] = [example_set]"
    by (simp add: sample_held_def buildTransport_def)
  ultimately show ?thesis by metis
qed

end
