(* ===== verification/Validate.thy ===== *)
theory Validate
  imports Actuate Authority Rattle
begin

text \<open>
  The profile validator (\<^verbatim>\<open>src/internal/validate/validate.go\<close>) with the failure class document of
  \<^verbatim>\<open>src/internal/contract/failureclass.go\<close>: which authored profiles it accepts, and what acceptance
  guarantees of the catalog, the policy and the watch list that the beats then run on.

  A profile is what was found of it: each document is absent, failed to load, or loaded. Loading the
  catalog, the policy, the watch list is modelled where those live.
\<close>

subsection \<open>One action\<close>

definition canonicalFailureClasses :: "failure_class list" where
  "canonicalFailureClasses = [''dependency_saturation'', ''traffic_shift'', ''resource_exhaustion'',
     ''redundancy_degraded'', ''service_failure'', ClassUnknown]"

definition canonicalVerbs :: "string list" where
  "canonicalVerbs = [''scale'', ''restart'', ''flagVariant'', ''exec'']"

definition canonicalBands :: "band list" where
  "canonicalBands = [BandObserve, BandActReversible, BandActDisruptive]"

datatype contract_fault =
    EmptyName
  | NoFailureClasses
  | UnknownClass failure_class
  | NoTiers
  | UnknownBlastTier
  | ReversalIncomplete
  | NoForward
  | NoReverse
  | ForwardVerb nat string
  | ReverseVerb nat string
  | NoMetric
  | WindowNotPositive
  | ReductionOutOfRange real

definition verb_faults :: "(nat \<Rightarrow> string \<Rightarrow> contract_fault) \<Rightarrow> exec_step list \<Rightarrow> contract_fault list" where
  "verb_faults mk steps =
     map (\<lambda>(i, s). mk i (stpVerb s)) (filter (\<lambda>(i, s). stpVerb s \<notin> set canonicalVerbs) (List.enumerate 0 steps))"

definition validateActionContract :: "action_contract \<Rightarrow> contract_fault list" where
  "validateActionContract act =
     (let sc = acSuccessCriteria act; ex = acExecution act in
      (if acName act = [] then [EmptyName] else []) @
      (if acApplicableFailureClasses act = [] then [NoFailureClasses] else []) @
      map UnknownClass (filter (\<lambda>fc. fc \<notin> set canonicalFailureClasses) (acApplicableFailureClasses act)) @
      (if acApplicableTiers act = [] then [NoTiers] else []) @
      (if acBlastTier act \<notin> {BlastLow, BlastMed, BlastHigh} then [UnknownBlastTier] else []) @
      (if rvMethod (acReversal act) = [] \<or> rvFallback (acReversal act) = [] then [ReversalIncomplete] else []) @
      (if exForward ex = [] then [NoForward] else []) @
      (if exReverse ex = [] then [NoReverse] else []) @
      verb_faults ForwardVerb (exForward ex) @
      verb_faults ReverseVerb (exReverse ex) @
      (if scMetric sc = [] then [NoMetric] else []) @
      (if scWindow sc \<le> 0 then [WindowNotPositive] else []) @
      (if scSeverityReductionPct sc \<noteq> 0 \<and> (scSeverityReductionPct sc < 0 \<or> 1 < scSeverityReductionPct sc)
       then [ReductionOutOfRange (scSeverityReductionPct sc)] else []))"

subsection \<open>A profile\<close>

record failure_class_definition =
  fcClass :: failure_class
  fcDescription :: string

datatype profile_fault =
    CatalogMissing
  | CatalogLoad string
  | ActionFault string contract_fault
  | ClassesLoad string
  | EmptyDescription failure_class
  | UndefinedClass string failure_class
  | PolicyMissing
  | PolicyLoad string
  | PolicyVersion
  | MaxBandMissing string string
  | AutoBandMissing string string
  | FloorsMissing string string
  | FloorMissing string failure_class string
  | FloorTooHigh real string failure_class
  | EvidenceLoad string
  | EvidenceQueryIncomplete
  | WatchLoad string
  | WatchZero
  | SLOIncomplete string
  | ObjectiveOutOfRange string real

record profile_docs =
  pdCatalog :: "(string + static_catalog) option"
  pdClasses :: "(string + failure_class_definition list) option"
  pdPolicy :: "(string + policy) option"
  pdEvidence :: "(string + (string \<times> string) list) option"
  pdWatch :: "(string + slo list) option"

definition is_space :: "char \<Rightarrow> bool" where
  "is_space c \<longleftrightarrow> c \<in> {CHR '' '', CHR 0x09, CHR 0x0A, CHR 0x0B, CHR 0x0C, CHR 0x0D}"

definition catalog_faults :: "profile_docs \<Rightarrow> profile_fault list" where
  "catalog_faults d =
     (case pdCatalog d of
        None \<Rightarrow> [CatalogMissing]
      | Some (Inl e) \<Rightarrow> [CatalogLoad e]
      | Some (Inr acts) \<Rightarrow> concat (map (\<lambda>act. map (ActionFault (acName act)) (validateActionContract act)) acts))"

text \<open>The catalog as far as it was loaded.\<close>

definition loaded_catalog :: "profile_docs \<Rightarrow> static_catalog" where
  "loaded_catalog d = (case pdCatalog d of Some (Inr acts) \<Rightarrow> acts | _ \<Rightarrow> [])"

definition class_faults :: "profile_docs \<Rightarrow> profile_fault list" where
  "class_faults d =
     (case pdClasses d of
        None \<Rightarrow> []
      | Some (Inl e) \<Rightarrow> [ClassesLoad e]
      | Some (Inr classes) \<Rightarrow>
          map (EmptyDescription \<circ> fcClass) (filter (\<lambda>fc. list_all is_space (fcDescription fc)) classes) @
          concat (map (\<lambda>act. map (UndefinedClass (acName act))
              (filter (\<lambda>c. c \<notin> fcClass ` set classes) (acApplicableFailureClasses act))) (loaded_catalog d)))"

definition floor_faults :: "policy \<Rightarrow> action_contract \<Rightarrow> string \<Rightarrow> profile_fault list" where
  "floor_faults pol act tier =
     concat (map (\<lambda>fc.
       (case polFloors pol tier of
          None \<Rightarrow> [FloorsMissing tier (acName act)]
        | Some tierFloors \<Rightarrow>
            (case tierFloors fc of
               None \<Rightarrow> [FloorMissing tier fc (acName act)]
             | Some flr \<Rightarrow>
                 if flr \<le> 0 then [FloorMissing tier fc (acName act)]
                 else if 1 < flr then [FloorTooHigh flr tier fc] else [])))
       (acApplicableFailureClasses act))"

definition band_missing :: "(string \<rightharpoonup> band) \<Rightarrow> string \<Rightarrow> bool" where
  "band_missing bands tier \<longleftrightarrow>
     bands \<noteq> Map.empty \<and> (case bands tier of None \<Rightarrow> True | Some b \<Rightarrow> b \<notin> set canonicalBands)"

definition tier_faults :: "policy \<Rightarrow> action_contract \<Rightarrow> string \<Rightarrow> profile_fault list" where
  "tier_faults pol act tier =
     (if band_missing (polMaxBand pol) tier then [MaxBandMissing tier (acName act)] else []) @
     (if band_missing (polAutoBand pol) tier then [AutoBandMissing tier (acName act)] else []) @
     floor_faults pol act tier"

definition policy_faults :: "profile_docs \<Rightarrow> profile_fault list" where
  "policy_faults d =
     (case pdPolicy d of
        None \<Rightarrow> [PolicyMissing]
      | Some (Inl e) \<Rightarrow> [PolicyLoad e]
      | Some (Inr pol) \<Rightarrow>
          (if polVersion pol = [] then [PolicyVersion] else []) @
          concat (map (\<lambda>act. concat (map (tier_faults pol act) (acApplicableTiers act))) (loaded_catalog d)))"

definition evidence_faults :: "profile_docs \<Rightarrow> profile_fault list" where
  "evidence_faults d =
     (case pdEvidence d of
        None \<Rightarrow> []
      | Some (Inl e) \<Rightarrow> [EvidenceLoad e]
      | Some (Inr qs) \<Rightarrow> map (\<lambda>_. EvidenceQueryIncomplete) (filter (\<lambda>(n, q). n = [] \<or> q = []) qs))"

definition slo_faults :: "slo \<Rightarrow> profile_fault list" where
  "slo_faults s =
     (if sloID s = [] \<or> sloObject s = [] \<or> sloTier s = [] \<or> sloContractRef s = [] then [SLOIncomplete (sloID s)] else []) @
     (if sloObjective s \<le> 0 \<or> 1 < sloObjective s then [ObjectiveOutOfRange (sloID s) (sloObjective s)] else [])"

definition watch_faults :: "profile_docs \<Rightarrow> profile_fault list" where
  "watch_faults d =
     (case pdWatch d of
        None \<Rightarrow> []
      | Some (Inl e) \<Rightarrow> [WatchLoad e]
      | Some (Inr slos) \<Rightarrow> (if slos = [] then [WatchZero] else []) @ concat (map slo_faults slos))"

definition profile_faults :: "profile_docs \<Rightarrow> profile_fault list" where
  "profile_faults d = catalog_faults d @ class_faults d @ policy_faults d @ evidence_faults d @ watch_faults d"

text \<open>The first candidate path that exists, the empty string when none does.\<close>

definition findFile :: "(string \<Rightarrow> bool) \<Rightarrow> string \<Rightarrow> string list \<Rightarrow> string" where
  "findFile exists_at dir candidates =
     (case List.find (\<lambda>c. exists_at (dir @ ''/'' @ c)) candidates of None \<Rightarrow> [] | Some c \<Rightarrow> dir @ ''/'' @ c)"

text \<open>The exit code of the command over the profiles it was pointed at.\<close>

definition validate_exit :: "profile_docs list \<Rightarrow> nat" where
  "validate_exit ds = (if list_all (\<lambda>d. profile_faults d = []) ds then 0 else 1)"

subsection \<open>What acceptance guarantees\<close>

lemma verb_faults_Nil: "verb_faults mk steps = [] \<longleftrightarrow> (\<forall>s \<in> set steps. stpVerb s \<in> set canonicalVerbs)"
proof -
  have "set steps = snd ` set (List.enumerate 0 steps)" by (metis map_snd_enumerate set_map)
  then show ?thesis by (force simp: verb_faults_def filter_empty_conv)
qed

lemma accepted_catalog: "profile_faults d = [] \<Longrightarrow> pdCatalog d = Some (Inr (loaded_catalog d))"
  by (auto simp: profile_faults_def catalog_faults_def loaded_catalog_def split: option.splits sum.splits)

lemma accepted_policy: "profile_faults d = [] \<Longrightarrow> \<exists>pol. pdPolicy d = Some (Inr pol) \<and> polVersion pol \<noteq> []"
  by (auto simp: profile_faults_def policy_faults_def split: option.splits sum.splits if_splits)

lemma accepted_floor:
  assumes "profile_faults d = []" "pdPolicy d = Some (Inr pol)" "act \<in> set (loaded_catalog d)"
    "tier \<in> set (acApplicableTiers act)" "fc \<in> set (acApplicableFailureClasses act)"
  shows "0 < policy_floor pol tier fc \<and> policy_floor pol tier fc \<le> 1"
proof -
  have "tier_faults pol act tier = []"
    using assms(1-4) by (auto simp: profile_faults_def policy_faults_def)
  then have "floor_faults pol act tier = []" by (simp add: tier_faults_def)
  then have none: "(case polFloors pol tier of
          None \<Rightarrow> [FloorsMissing tier (acName act)]
        | Some tierFloors \<Rightarrow>
            (case tierFloors fc of
               None \<Rightarrow> [FloorMissing tier fc (acName act)]
             | Some flr \<Rightarrow>
                 if flr \<le> 0 then [FloorMissing tier fc (acName act)]
                 else if 1 < flr then [FloorTooHigh flr tier fc] else [])) = []"
    using assms(5) unfolding floor_faults_def by simp
  obtain floors where floors: "polFloors pol tier = Some floors" using none by (cases "polFloors pol tier") auto
  obtain flr where flr: "floors fc = Some flr" using none floors by (cases "floors fc") auto
  show ?thesis using none floors flr by (simp add: policy_floor_def map_get_def split: if_splits)
qed


definition example_docs :: "action_contract list \<Rightarrow> policy \<Rightarrow> profile_docs" where
  "example_docs acts pol = \<lparr>pdCatalog = Some (Inr acts), pdClasses = None, pdPolicy = Some (Inr pol), pdEvidence = None,
     pdWatch = Some (Inr [sample_slo ''cart''])\<rparr>"

lemma example_contract_valid: "validateActionContract (example_contract n v) = (if n = [] then [EmptyName] else [])"
  by (simp add: validateActionContract_def example_contract_def example_step_def verb_faults_def canonicalVerbs_def
      canonicalFailureClasses_def Let_def)

lemma example_docs_accepted:
  assumes "polVersion pol \<noteq> []" "polFloors pol = [''tier1'' \<mapsto> [''service_failure'' \<mapsto> 1/2]]"
    "\<not> band_missing (polMaxBand pol) ''tier1''" "\<not> band_missing (polAutoBand pol) ''tier1''"
  shows "profile_faults (example_docs [example_contract ''flip'' ''off''] pol) = []"
  using assms
  by (simp add: profile_faults_def example_docs_def catalog_faults_def class_faults_def policy_faults_def evidence_faults_def
      watch_faults_def example_contract_valid loaded_catalog_def slo_faults_def sample_slo_def)
    (simp add: example_contract_def tier_faults_def floor_faults_def)


text \<open>a profile whose policy leaves out the bands is accepted, and then an action with no undo and a high
  blast tier is approved unattended at the disruptive band.\<close>

theorem bandless_profile_accepted:
  "(let pol = example_policy\<lparr>polMaxBand := Map.empty, polAutoBand := Map.empty, polFreezeWindows := [], polRequireReversal := False\<rparr>;
        c = example_candidate\<lparr>cndReversalPath := None, cndBlastTier := BlastHigh,
              cndGovernanceLevel := Some \<lparr>glBand = ''act_disruptive'', glThresholdApplied = 0\<rparr>\<rparr>;
        ps = example_set\<lparr>psProposals := [c]\<rparr>
    in profile_faults (example_docs [example_contract ''flip'' ''off''] pol) = [] \<and>
       decVerdict (evaluate ps pol 150) = VerdictApproved \<and> decGrantedBand (evaluate ps pol 150) = BandActDisruptive)"
proof -
  have "profile_faults (example_docs [example_contract ''flip'' ''off'']
      (example_policy\<lparr>polMaxBand := Map.empty, polAutoBand := Map.empty, polFreezeWindows := [], polRequireReversal := False\<rparr>)) = []"
    by (rule example_docs_accepted) (simp_all add: example_policy_def band_missing_def)
  then show ?thesis
    by (simp add: Let_def evaluate_def decision_updates example_defs verdict_defs)
qed

text \<open>validation and binding disagree on verbs: a step that releases a maintenance change binds where the
  forge is wired but is refused by the validator, and an exec step without a target is accepted by the
  validator but does not bind.\<close>

theorem validator_disagrees_with_binding:
  "(let rel = (example_contract ''flip'' ''off'')\<lparr>acExecution := \<lparr>
          exForward = [(example_step ''off'')\<lparr>stpVerb := ''maintenanceRelease'', stpPath := ''flags.yaml''\<rparr>],
          exReverse = [example_step ''on'']\<rparr>\<rparr>;
        run = (example_contract ''flip'' ''off'')\<lparr>acExecution := \<lparr>
          exForward = [(example_step ''off'')\<lparr>stpVerb := ''exec''\<rparr>], exReverse = [example_step ''on'']\<rparr>\<rparr>
    in (\<exists>b. bind_catalog [rel] True = Inr b) \<and> validateActionContract rel = [ForwardVerb 0 ''maintenanceRelease''] \<and>
       (\<exists>e. bind_catalog [run] True = Inl e) \<and> validateActionContract run = [])"
  by (simp add: Let_def bind_catalog_def bindingFor_def mechanismFor_def example_contract_def example_step_def
      validateActionContract_def verb_faults_def canonicalVerbs_def canonicalFailureClasses_def)

end
