(* ===== verification/Environment.thy ===== *)
theory Environment
  imports Prelude "HOL-Library.State_Monad"
begin

text \<open>
  The typed environment of every binary (\<^verbatim>\<open>src/internal/config/config.go\<close>). The loader is mutated by
  every accessor, so each load function is a program of the state monad over the errors gathered so
  far, run from none; it yields its record together with the joined errors.

  The environment is a function from names to values, the empty string where a name is unset. Parsing
  a duration and decoding base64 are arguments; \<open>urlOK\<close> says whether the rest of a URL, behind its
  scheme, parses.
\<close>

subsection \<open>The loader\<close>

datatype env_error =
    Required string
  | InvalidDuration string string
  | BadScheme string "string list" string
  | InvalidBool string string
  | InvalidBase64 string
  | KeyLength string nat nat
  | NotInEnum string "string list" string
  | PromRequiredForWhir
  | PromRequiredForGraph

type_synonym 'a loader = "(env_error list, 'a) state"

record env_reader =
  erGetenv :: "string \<Rightarrow> string"
  erDuration :: "string \<Rightarrow> duration option"
  erBase64 :: "string \<Rightarrow> string option"
  erUrlOK :: "string \<Rightarrow> bool"

definition fail_with :: "env_error \<Rightarrow> unit loader" where
  "fail_with e = State (\<lambda>errs. ((), errs @ [e]))"

definition env_require :: "env_reader \<Rightarrow> string \<Rightarrow> string loader" where
  "env_require r name = State (\<lambda>errs.
     (erGetenv r name, if erGetenv r name = [] then errs @ [Required name] else errs))"

definition env_optional :: "env_reader \<Rightarrow> string \<Rightarrow> string loader" where
  "env_optional r name = State_Monad.return (erGetenv r name)"

definition env_optionalDuration :: "env_reader \<Rightarrow> string \<Rightarrow> duration \<Rightarrow> duration loader" where
  "env_optionalDuration r name def = State (\<lambda>errs.
     (let v = erGetenv r name
      in if v = [] then (def, errs)
         else (case erDuration r v of
                 None \<Rightarrow> (def, errs @ [InvalidDuration name v])
               | Some d \<Rightarrow> (d, errs))))"

text \<open>The scheme of a URL: a letter, then letters, digits and three signs, up to the colon, in lower case. No
  colon, or another character before it, is no scheme; a leading colon is an error.\<close>

definition is_letter :: "char \<Rightarrow> bool" where
  "is_letter c \<longleftrightarrow> (65 \<le> (of_char c :: nat) \<and> (of_char c :: nat) \<le> 90) \<or> (97 \<le> (of_char c :: nat) \<and> (of_char c :: nat) \<le> 122)"

definition lower :: "char \<Rightarrow> char" where
  "lower c = (if 65 \<le> (of_char c :: nat) \<and> (of_char c :: nat) \<le> 90 then char_of ((of_char c :: nat) + 32) else c)"

fun scan_scheme :: "bool \<Rightarrow> string \<Rightarrow> string \<Rightarrow> string option" where
  "scan_scheme first acc [] = Some []"
| "scan_scheme first acc (c # s) =
     (if is_letter c then scan_scheme False (acc @ [c]) s
      else if is_digit c \<or> c \<in> {CHR ''+'', CHR ''-'', CHR ''.''} then (if first then Some [] else scan_scheme False (acc @ [c]) s)
      else if c = CHR '':'' then (if first then None else Some (map lower acc))
      else Some [])"

definition url_scheme :: "env_reader \<Rightarrow> string \<Rightarrow> string option" where
  "url_scheme r v = (if erUrlOK r v then scan_scheme True [] v else None)"

definition checkScheme :: "env_reader \<Rightarrow> string \<Rightarrow> string \<Rightarrow> string list \<Rightarrow> unit loader" where
  "checkScheme r name v allowed =
     (case url_scheme r v of
        Some s \<Rightarrow> if s \<in> set allowed then State_Monad.return () else fail_with (BadScheme name allowed v)
      | None \<Rightarrow> fail_with (BadScheme name allowed v))"

definition env_requireURL :: "env_reader \<Rightarrow> string \<Rightarrow> string list \<Rightarrow> string loader" where
  "env_requireURL r name allowed = do {
     v \<leftarrow> env_require r name;
     (if v = [] then State_Monad.return v else do { checkScheme r name v allowed; State_Monad.return v })
   }"

definition env_optionalURL :: "env_reader \<Rightarrow> string \<Rightarrow> string list \<Rightarrow> string loader" where
  "env_optionalURL r name allowed = do {
     v \<leftarrow> env_optional r name;
     (if v = [] then State_Monad.return v else do { checkScheme r name v allowed; State_Monad.return v })
   }"

definition parse_bool :: "string \<Rightarrow> bool option" where
  "parse_bool s =
     (if s \<in> {''1'', ''t'', ''T'', ''TRUE'', ''true'', ''True''} then Some True
      else if s \<in> {''0'', ''f'', ''F'', ''FALSE'', ''false'', ''False''} then Some False else None)"

definition env_optionalBool :: "env_reader \<Rightarrow> string \<Rightarrow> bool loader" where
  "env_optionalBool r name = State (\<lambda>errs.
     (let v = erGetenv r name
      in if v = [] then (False, errs)
         else (case parse_bool v of None \<Rightarrow> (False, errs @ [InvalidBool name v]) | Some b \<Rightarrow> (b, errs))))"

definition env_requireBase64Key :: "env_reader \<Rightarrow> string \<Rightarrow> nat \<Rightarrow> string loader" where
  "env_requireBase64Key r name n = do {
     v \<leftarrow> env_require r name;
     (if v = [] then State_Monad.return []
      else (case erBase64 r v of
              None \<Rightarrow> do { fail_with (InvalidBase64 name); State_Monad.return [] }
            | Some b \<Rightarrow> if length b \<noteq> n then do { fail_with (KeyLength name n (length b)); State_Monad.return [] }
                        else State_Monad.return b))
   }"

definition env_optionalEnum :: "env_reader \<Rightarrow> string \<Rightarrow> string \<Rightarrow> string list \<Rightarrow> string loader" where
  "env_optionalEnum r name def allowed = State (\<lambda>errs.
     (let v = erGetenv r name
      in if v = [] then (def, errs)
         else if v \<notin> set allowed then (def, errs @ [NotInEnum name allowed v]) else (v, errs)))"

subsection \<open>The environments\<close>

record broker_store =
  bsWALDir :: string
  bsWALConfig :: string
  bsS3Endpoint :: string
  bsS3Bucket :: string
  bsS3AccessKey :: string
  bsS3SecretKey :: string
  bsTLSCertFile :: string
  bsTLSKeyFile :: string
  bsTLSCAFile :: string
  bsSealKey :: string

definition zero_store :: broker_store where
  "zero_store = \<lparr>bsWALDir = [], bsWALConfig = [], bsS3Endpoint = [], bsS3Bucket = [], bsS3AccessKey = [], bsS3SecretKey = [],
     bsTLSCertFile = [], bsTLSKeyFile = [], bsTLSCAFile = [], bsSealKey = []\<rparr>"

definition loadBrokerStore :: "env_reader \<Rightarrow> broker_store loader" where
  "loadBrokerStore r = do {
     walDir \<leftarrow> env_require r ''WAL_DIR'';
     walConfig \<leftarrow> env_require r ''WAL_CONFIG'';
     endpoint \<leftarrow> env_requireURL r ''S3_ENDPOINT'' [''http'', ''https''];
     bucket \<leftarrow> env_require r ''S3_BUCKET'';
     access \<leftarrow> env_require r ''S3_ACCESS_KEY'';
     secret \<leftarrow> env_require r ''S3_SECRET_KEY'';
     cert \<leftarrow> env_require r ''TLS_CERT_FILE'';
     key \<leftarrow> env_require r ''TLS_KEY_FILE'';
     ca \<leftarrow> env_require r ''TLS_CA_FILE'';
     seal \<leftarrow> env_requireBase64Key r ''THUMP_SEAL_KEY'' 32;
     State_Monad.return \<lparr>bsWALDir = walDir, bsWALConfig = walConfig, bsS3Endpoint = endpoint, bsS3Bucket = bucket,
       bsS3AccessKey = access, bsS3SecretKey = secret, bsTLSCertFile = cert, bsTLSKeyFile = key, bsTLSCAFile = ca,
       bsSealKey = seal\<rparr>
   }"

record clank_env =
  ceAnthropicAPIKey :: string
  ceActionCatalog :: string
  ceFailureClasses :: string
  ceDedupeWindow :: duration
  ceNATSURL :: string
  ceOTLPEndpoint :: string
  cePromURL :: string
  ceEvidenceQueries :: string
  ceLokiURL :: string
  ceTempoURL :: string
  ceWhirCatalog :: string
  ceWhirStateQueries :: string
  ceWhirGraphQueries :: string
  ceWhirGraphWindow :: duration
  ceArgoEnabled :: bool
  ceTranscripts :: string
  ceInbox :: string
  ceOutbox :: string
  ceOutcomes :: string
  ceDeclines :: string
  ceStore :: broker_store
  ceWeights :: string
  ceLimits :: string

definition loadClank :: "env_reader \<Rightarrow> bool \<Rightarrow> clank_env loader" where
  "loadClank r broker = do {
     apiKey \<leftarrow> env_require r ''ANTHROPIC_API_KEY'';
     catalog \<leftarrow> env_require r ''ACTION_CATALOG'';
     classes \<leftarrow> env_require r ''FAILURE_CLASSES'';
     dedupe \<leftarrow> env_optionalDuration r ''DEDUPE_WINDOW'' hour;
     nats \<leftarrow> env_optionalURL r ''NATS_URL'' [''nats'', ''tls''];
     otlp \<leftarrow> env_optionalURL r ''OTEL_EXPORTER_OTLP_ENDPOINT'' [''http'', ''https''];
     prom \<leftarrow> env_optional r ''PROM_URL'';
     evidence \<leftarrow> env_optional r ''EVIDENCE_QUERIES'';
     loki \<leftarrow> env_optional r ''LOKI_URL'';
     tempo \<leftarrow> env_optional r ''TEMPO_URL'';
     whirCatalog \<leftarrow> env_optional r ''WHIR_CATALOG'';
     whirState \<leftarrow> env_optional r ''WHIR_STATE_QUERIES'';
     whirGraph \<leftarrow> env_optional r ''WHIR_GRAPH_QUERIES'';
     graphWindow \<leftarrow> env_optionalDuration r ''WHIR_GRAPH_WINDOW'' (5 * minute);
     argo \<leftarrow> env_optionalBool r ''ARGOCD_ENABLED'';
     transcripts \<leftarrow> env_optional r ''CLANK_TRANSCRIPTS'';
     weights \<leftarrow> env_require r ''CLANK_WEIGHTS'';
     limits \<leftarrow> env_require r ''CLANK_LIMITS'';
     (if whirCatalog \<noteq> [] \<and> whirState \<noteq> [] \<and> prom = [] then fail_with PromRequiredForWhir else State_Monad.return ());
     (if whirGraph \<noteq> [] \<and> prom = [] then fail_with PromRequiredForGraph else State_Monad.return ());
     inbox \<leftarrow> (if broker then env_optional r ''CLANK_INBOX'' else env_require r ''CLANK_INBOX'');
     outbox \<leftarrow> (if broker then env_optional r ''CLANK_OUTBOX'' else env_require r ''CLANK_OUTBOX'');
     outcomes \<leftarrow> (if broker then env_optional r ''CLANK_OUTCOMES'' else env_require r ''CLANK_OUTCOMES'');
     declines \<leftarrow> (if broker then env_optional r ''CLANK_DECLINES'' else env_require r ''CLANK_DECLINES'');
     store \<leftarrow> (if broker then loadBrokerStore r else State_Monad.return zero_store);
     State_Monad.return \<lparr>ceAnthropicAPIKey = apiKey, ceActionCatalog = catalog, ceFailureClasses = classes,
       ceDedupeWindow = dedupe, ceNATSURL = nats, ceOTLPEndpoint = otlp, cePromURL = prom, ceEvidenceQueries = evidence,
       ceLokiURL = loki, ceTempoURL = tempo, ceWhirCatalog = whirCatalog, ceWhirStateQueries = whirState,
       ceWhirGraphQueries = whirGraph, ceWhirGraphWindow = graphWindow, ceArgoEnabled = argo, ceTranscripts = transcripts,
       ceInbox = inbox, ceOutbox = outbox, ceOutcomes = outcomes, ceDeclines = declines, ceStore = store,
       ceWeights = weights, ceLimits = limits\<rparr>
   }"

record hiss_env =
  hePolicy :: string
  heNATSURL :: string
  heOTLPEndpoint :: string
  heInbox :: string
  heOutbox :: string
  heStore :: broker_store
  heApprovalRequestsEnabled :: bool
  heApprovalRetention :: duration

definition loadHiss :: "env_reader \<Rightarrow> bool \<Rightarrow> hiss_env loader" where
  "loadHiss r broker = do {
     policy \<leftarrow> env_require r ''HISS_POLICY'';
     nats \<leftarrow> env_optionalURL r ''NATS_URL'' [''nats'', ''tls''];
     otlp \<leftarrow> env_optionalURL r ''OTEL_EXPORTER_OTLP_ENDPOINT'' [''http'', ''https''];
     inbox \<leftarrow> (if broker then env_optional r ''HISS_INBOX'' else env_require r ''HISS_INBOX'');
     outbox \<leftarrow> (if broker then env_optional r ''HISS_OUTBOX'' else env_require r ''HISS_OUTBOX'');
     store \<leftarrow> (if broker then loadBrokerStore r else State_Monad.return zero_store);
     enabled \<leftarrow> (if broker then env_optionalBool r ''APPROVALREQUESTS_ENABLED'' else State_Monad.return False);
     retention \<leftarrow> (if broker then env_optionalDuration r ''APPROVALREQUEST_RETENTION'' (24 * hour) else State_Monad.return 0);
     State_Monad.return \<lparr>hePolicy = policy, heNATSURL = nats, heOTLPEndpoint = otlp, heInbox = inbox, heOutbox = outbox,
       heStore = store, heApprovalRequestsEnabled = enabled, heApprovalRetention = retention\<rparr>
   }"

record rattle_env =
  rePromURL :: string
  reNATSURL :: string
  reOTLPEndpoint :: string
  reWhirCatalog :: string
  reWhirStateQueries :: string
  reTraffic :: string
  reOutbox :: string
  reWatchPath :: string
  reQueryConfig :: string
  reStore :: broker_store

definition loadRattle :: "env_reader \<Rightarrow> bool \<Rightarrow> rattle_env loader" where
  "loadRattle r broker = do {
     prom \<leftarrow> env_require r ''PROM_URL'';
     nats \<leftarrow> env_optionalURL r ''NATS_URL'' [''nats'', ''tls''];
     otlp \<leftarrow> env_optionalURL r ''OTEL_EXPORTER_OTLP_ENDPOINT'' [''http'', ''https''];
     whirCatalog \<leftarrow> env_optional r ''WHIR_CATALOG'';
     whirState \<leftarrow> env_optional r ''WHIR_STATE_QUERIES'';
     watch \<leftarrow> env_require r ''RATTLE_WATCH'';
     query \<leftarrow> env_require r ''RATTLE_QUERY_CONFIG'';
     traffic \<leftarrow> env_optional r ''RATTLE_TRAFFIC'';
     outbox \<leftarrow> env_optional r ''RATTLE_OUTBOX'';
     store \<leftarrow> (if broker then loadBrokerStore r else State_Monad.return zero_store);
     State_Monad.return \<lparr>rePromURL = prom, reNATSURL = nats, reOTLPEndpoint = otlp, reWhirCatalog = whirCatalog,
       reWhirStateQueries = whirState, reTraffic = traffic, reOutbox = outbox, reWatchPath = watch,
       reQueryConfig = query, reStore = store\<rparr>
   }"

record thump_env =
  teActionCatalog :: string
  teExecutor :: string
  teKillSwitchPath :: string
  teNATSURL :: string
  teOTLPEndpoint :: string
  tePromURL :: string
  teEvidenceQueries :: string
  teSlackWebhookURL :: string
  teForgeRepo :: string
  teForgeToken :: string
  teInbox :: string
  teOutbox :: string
  teStore :: broker_store

definition loadThump :: "env_reader \<Rightarrow> bool \<Rightarrow> thump_env loader" where
  "loadThump r broker = do {
     catalog \<leftarrow> env_require r ''ACTION_CATALOG'';
     executor \<leftarrow> env_optionalEnum r ''THUMP_EXECUTOR'' ''dry'' [''dry'', ''live''];
     killSwitch \<leftarrow> env_optional r ''THUMP_KILLSWITCH'';
     nats \<leftarrow> env_optionalURL r ''NATS_URL'' [''nats'', ''tls''];
     otlp \<leftarrow> env_optionalURL r ''OTEL_EXPORTER_OTLP_ENDPOINT'' [''http'', ''https''];
     prom \<leftarrow> env_optional r ''PROM_URL'';
     evidence \<leftarrow> env_optional r ''EVIDENCE_QUERIES'';
     slack \<leftarrow> env_optional r ''SLACK_WEBHOOK_URL'';
     repo \<leftarrow> env_optional r ''FORGE_REPO'';
     token \<leftarrow> env_optional r ''FORGE_TOKEN'';
     inbox \<leftarrow> (if broker then env_optional r ''THUMP_INBOX'' else env_require r ''THUMP_INBOX'');
     outbox \<leftarrow> (if broker then env_optional r ''THUMP_OUTBOX'' else env_require r ''THUMP_OUTBOX'');
     store \<leftarrow> (if broker then loadBrokerStore r else State_Monad.return zero_store);
     State_Monad.return \<lparr>teActionCatalog = catalog, teExecutor = executor, teKillSwitchPath = killSwitch, teNATSURL = nats,
       teOTLPEndpoint = otlp, tePromURL = prom, teEvidenceQueries = evidence, teSlackWebhookURL = slack, teForgeRepo = repo,
       teForgeToken = token, teInbox = inbox, teOutbox = outbox, teStore = store\<rparr>
   }"

record bootstrap_env =
  beNATSURL :: string
  beTLSCertFile :: string
  beTLSKeyFile :: string
  beTLSCAFile :: string

definition loadBootstrap :: "env_reader \<Rightarrow> bootstrap_env loader" where
  "loadBootstrap r = do {
     nats \<leftarrow> env_requireURL r ''NATS_URL'' [''nats'', ''tls''];
     cert \<leftarrow> env_require r ''TLS_CERT_FILE'';
     key \<leftarrow> env_require r ''TLS_KEY_FILE'';
     ca \<leftarrow> env_require r ''TLS_CA_FILE'';
     State_Monad.return \<lparr>beNATSURL = nats, beTLSCertFile = cert, beTLSKeyFile = key, beTLSCAFile = ca\<rparr>
   }"

record corpus_env =
  coS3Endpoint :: string
  coS3Bucket :: string
  coS3AccessKey :: string
  coS3SecretKey :: string

definition loadCorpus :: "env_reader \<Rightarrow> corpus_env loader" where
  "loadCorpus r = do {
     endpoint \<leftarrow> env_requireURL r ''S3_ENDPOINT'' [''http'', ''https''];
     bucket \<leftarrow> env_require r ''S3_BUCKET'';
     access \<leftarrow> env_require r ''S3_ACCESS_KEY'';
     secret \<leftarrow> env_require r ''S3_SECRET_KEY'';
     State_Monad.return \<lparr>coS3Endpoint = endpoint, coS3Bucket = bucket, coS3AccessKey = access, coS3SecretKey = secret\<rparr>
   }"

record probe_env =
  prAnthropicAPIKey :: string
  prActionCatalog :: string
  prFailureClasses :: string
  prWeights :: string
  prLimits :: string
  prPromURL :: string
  prEvidenceQueries :: string
  prLokiURL :: string
  prWhirCatalog :: string
  prWhirStateQueries :: string

definition loadProbe :: "env_reader \<Rightarrow> probe_env loader" where
  "loadProbe r = do {
     apiKey \<leftarrow> env_require r ''ANTHROPIC_API_KEY'';
     catalog \<leftarrow> env_require r ''ACTION_CATALOG'';
     classes \<leftarrow> env_require r ''FAILURE_CLASSES'';
     weights \<leftarrow> env_require r ''CLANK_WEIGHTS'';
     limits \<leftarrow> env_require r ''CLANK_LIMITS'';
     prom \<leftarrow> env_optional r ''PROM_URL'';
     evidence \<leftarrow> env_optional r ''EVIDENCE_QUERIES'';
     loki \<leftarrow> env_optional r ''LOKI_URL'';
     whirCatalog \<leftarrow> env_optional r ''WHIR_CATALOG'';
     whirState \<leftarrow> env_optional r ''WHIR_STATE_QUERIES'';
     State_Monad.return \<lparr>prAnthropicAPIKey = apiKey, prActionCatalog = catalog, prFailureClasses = classes, prWeights = weights,
       prLimits = limits, prPromURL = prom, prEvidenceQueries = evidence, prLokiURL = loki, prWhirCatalog = whirCatalog,
       prWhirStateQueries = whirState\<rparr>
   }"

text \<open>A load function run from no errors: what it read, or every error it met.\<close>

definition load_env :: "'a loader \<Rightarrow> env_error list + 'a" where
  "load_env m = (case run_state m [] of (v, errs) \<Rightarrow> if errs = [] then Inr v else Inl errs)"

subsection \<open>What a load reports\<close>

text \<open>Every accessor appends the errors of its variable and nothing else, so a program's report is the
  concatenation of its accessors' reports.\<close>

definition missing :: "env_reader \<Rightarrow> string \<Rightarrow> env_error list" where
  "missing r name = (if erGetenv r name = [] then [Required name] else [])"

definition scheme_fault :: "env_reader \<Rightarrow> string \<Rightarrow> string list \<Rightarrow> env_error list" where
  "scheme_fault r name allowed =
     (let v = erGetenv r name
      in if v = [] \<or> (\<exists>s. url_scheme r v = Some s \<and> s \<in> set allowed) then [] else [BadScheme name allowed v])"

definition duration_faults :: "env_reader \<Rightarrow> string \<Rightarrow> env_error list" where
  "duration_faults r name =
     (let v = erGetenv r name in if v = [] \<or> erDuration r v \<noteq> None then [] else [InvalidDuration name v])"

definition bool_faults :: "env_reader \<Rightarrow> string \<Rightarrow> env_error list" where
  "bool_faults r name = (let v = erGetenv r name in if v = [] \<or> parse_bool v \<noteq> None then [] else [InvalidBool name v])"

definition key_faults :: "env_reader \<Rightarrow> string \<Rightarrow> nat \<Rightarrow> env_error list" where
  "key_faults r name n =
     (let v = erGetenv r name
      in if v = [] then [Required name]
         else (case erBase64 r v of
                 None \<Rightarrow> [InvalidBase64 name]
               | Some b \<Rightarrow> if length b \<noteq> n then [KeyLength name n (length b)] else []))"

definition key_value :: "env_reader \<Rightarrow> string \<Rightarrow> nat \<Rightarrow> string" where
  "key_value r name n = (if key_faults r name n = [] then the (erBase64 r (erGetenv r name)) else [])"

lemma run_checkScheme: "v \<noteq> [] \<Longrightarrow> erGetenv r name = v \<Longrightarrow>
    run_state (checkScheme r name v allowed) errs = ((), errs @ scheme_fault r name allowed)"
  by (auto simp: checkScheme_def fail_with_def scheme_fault_def Let_def split: option.split)

lemma run_env [simp]:
  "run_state (env_require r name) errs = (erGetenv r name, errs @ missing r name)"
  "run_state (env_optional r name) errs = (erGetenv r name, errs)"
  "run_state (fail_with e) errs = ((), errs @ [e])"
  by (simp_all add: env_require_def env_optional_def missing_def fail_with_def)

lemma run_env_url [simp]:
  "run_state (env_requireURL r name allowed) errs = (erGetenv r name, errs @ missing r name @ scheme_fault r name allowed)"
  "run_state (env_optionalURL r name allowed) errs = (erGetenv r name, errs @ scheme_fault r name allowed)"
  by (auto simp: env_requireURL_def env_optionalURL_def run_checkScheme) (simp_all add: scheme_fault_def missing_def)

lemma run_guard [simp]:
  "run_state (if b then fail_with e else State_Monad.return ()) errs = ((), errs @ (if b then [e] else []))"
  by (cases b) simp_all

definition duration_value :: "env_reader \<Rightarrow> string \<Rightarrow> duration \<Rightarrow> duration" where
  "duration_value r name def =
     (case erDuration r (erGetenv r name) of Some d \<Rightarrow> if erGetenv r name = [] then def else d | None \<Rightarrow> def)"

lemma run_env_other [simp]:
  "run_state (env_optionalDuration r name def) errs = (duration_value r name def, errs @ duration_faults r name)"
  "run_state (env_optionalBool r name) errs = (parse_bool (erGetenv r name) = Some True, errs @ bool_faults r name)"
  "run_state (env_requireBase64Key r name n) errs = (key_value r name n, errs @ key_faults r name n)"
  by (auto simp: env_optionalDuration_def duration_value_def duration_faults_def env_optionalBool_def bool_faults_def
      parse_bool_def env_requireBase64Key_def key_value_def key_faults_def missing_def Let_def split: option.splits)

definition store_faults :: "env_reader \<Rightarrow> env_error list" where
  "store_faults r = missing r ''WAL_DIR'' @ missing r ''WAL_CONFIG'' @ missing r ''S3_ENDPOINT'' @
     scheme_fault r ''S3_ENDPOINT'' [''http'', ''https''] @ missing r ''S3_BUCKET'' @ missing r ''S3_ACCESS_KEY'' @
     missing r ''S3_SECRET_KEY'' @ missing r ''TLS_CERT_FILE'' @ missing r ''TLS_KEY_FILE'' @ missing r ''TLS_CA_FILE'' @
     key_faults r ''THUMP_SEAL_KEY'' 32"

definition read_store :: "env_reader \<Rightarrow> broker_store" where
  "read_store r = \<lparr>bsWALDir = erGetenv r ''WAL_DIR'', bsWALConfig = erGetenv r ''WAL_CONFIG'',
     bsS3Endpoint = erGetenv r ''S3_ENDPOINT'', bsS3Bucket = erGetenv r ''S3_BUCKET'',
     bsS3AccessKey = erGetenv r ''S3_ACCESS_KEY'', bsS3SecretKey = erGetenv r ''S3_SECRET_KEY'',
     bsTLSCertFile = erGetenv r ''TLS_CERT_FILE'', bsTLSKeyFile = erGetenv r ''TLS_KEY_FILE'',
     bsTLSCAFile = erGetenv r ''TLS_CA_FILE'', bsSealKey = key_value r ''THUMP_SEAL_KEY'' 32\<rparr>"

lemma run_loadBrokerStore [simp]: "run_state (loadBrokerStore r) errs = (read_store r, errs @ store_faults r)"
  by (simp add: loadBrokerStore_def read_store_def store_faults_def)

text \<open>What the broker path needs of its store before it may run.\<close>

definition store_complete :: "broker_store \<Rightarrow> bool" where
  "store_complete s \<longleftrightarrow> bsWALDir s \<noteq> [] \<and> bsWALConfig s \<noteq> [] \<and> bsS3Endpoint s \<noteq> [] \<and> bsS3Bucket s \<noteq> [] \<and>
     bsS3AccessKey s \<noteq> [] \<and> bsS3SecretKey s \<noteq> [] \<and> bsTLSCertFile s \<noteq> [] \<and> bsTLSKeyFile s \<noteq> [] \<and>
     bsTLSCAFile s \<noteq> [] \<and> length (bsSealKey s) = 32"

lemma missing_Nil [simp]: "missing r name = [] \<longleftrightarrow> erGetenv r name \<noteq> []"
  by (simp add: missing_def)

lemma store_faults_complete: "store_faults r = [] \<Longrightarrow> store_complete (read_store r)"
  by (auto simp: store_faults_def store_complete_def read_store_def key_value_def key_faults_def Let_def split: if_splits option.splits)

lemma load_env_Inr: "load_env m = Inr v \<longleftrightarrow> run_state m [] = (v, [])"
  by (auto simp: load_env_def split: prod.splits)

lemma scheme_fault_Nil:
  "erGetenv r name \<noteq> [] \<Longrightarrow> scheme_fault r name allowed = [] \<longleftrightarrow> (\<exists>s. url_scheme r (erGetenv r name) = Some s \<and> s \<in> set allowed)"
  by (simp add: scheme_fault_def Let_def)

text \<open>no beat comes up on the broker without its durability and its keys: whatever the environment, a load in
  the broker path that reports no error holds a write-ahead log directory, a bucket with its
  credentials, the three TLS files and a seal key of exactly thirty two bytes.\<close>

theorem broker_path_complete:
  assumes "load_env (loadClank r True) = Inr c \<or> load_env (loadHiss r True) = Inr h \<or>
    load_env (loadRattle r True) = Inr ra \<or> load_env (loadThump r True) = Inr th"
  shows "store_complete (read_store r) \<and>
    (load_env (loadClank r True) = Inr c \<longrightarrow> ceStore c = read_store r) \<and>
    (load_env (loadHiss r True) = Inr h \<longrightarrow> heStore h = read_store r) \<and>
    (load_env (loadRattle r True) = Inr ra \<longrightarrow> reStore ra = read_store r) \<and>
    (load_env (loadThump r True) = Inr th \<longrightarrow> teStore th = read_store r)"
proof -
  have clank: "store_faults r = [] \<and> ceStore c = read_store r" if "load_env (loadClank r True) = Inr c"
    using that by (auto simp: load_env_Inr loadClank_def)
  have hiss: "store_faults r = [] \<and> heStore h = read_store r" if "load_env (loadHiss r True) = Inr h"
    using that by (auto simp: load_env_Inr loadHiss_def)
  have rattle: "store_faults r = [] \<and> reStore ra = read_store r" if "load_env (loadRattle r True) = Inr ra"
    using that by (auto simp: load_env_Inr loadRattle_def)
  have thump: "store_faults r = [] \<and> teStore th = read_store r" if "load_env (loadThump r True) = Inr th"
    using that by (auto simp: load_env_Inr loadThump_def env_optionalEnum_def Let_def split: if_splits)
  show ?thesis using assms clank hiss rattle thump store_faults_complete by blast
qed

text \<open>thump never comes up live by mistake: it runs the live executor exactly when the variable says so, and a
  value that is neither mode is refused.\<close>

theorem executor_mode_chosen:
  assumes "load_env (loadThump r broker) = Inr t"
  shows "teExecutor t = (if erGetenv r ''THUMP_EXECUTOR'' = ''live'' then ''live'' else ''dry'') \<and>
     erGetenv r ''THUMP_EXECUTOR'' \<in> {[], ''dry'', ''live''}"
  using assms by (auto simp: load_env_Inr loadThump_def env_optionalEnum_def Let_def split: if_splits)

text \<open>The errors of a load, all of them, in the order of the accessors.\<close>

lemma loadBootstrap_reports:
  "load_env (loadBootstrap r) =
     (let errs = missing r ''NATS_URL'' @ scheme_fault r ''NATS_URL'' [''nats'', ''tls''] @ missing r ''TLS_CERT_FILE'' @
        missing r ''TLS_KEY_FILE'' @ missing r ''TLS_CA_FILE''
      in if errs = [] then Inr \<lparr>beNATSURL = erGetenv r ''NATS_URL'', beTLSCertFile = erGetenv r ''TLS_CERT_FILE'',
           beTLSKeyFile = erGetenv r ''TLS_KEY_FILE'', beTLSCAFile = erGetenv r ''TLS_CA_FILE''\<rparr> else Inl errs)"
  by (simp add: load_env_def loadBootstrap_def)

definition sample_reader :: env_reader where
  "sample_reader = \<lparr>erGetenv = (\<lambda>n. if n = ''S3_ENDPOINT'' then ''http://s3mock:9090'' else if n = ''NATS_URL'' then ''tls://nats:4222''
       else if n = ''THUMP_EXECUTOR'' \<or> n = ''OTEL_EXPORTER_OTLP_ENDPOINT'' \<or> n = ''APPROVALREQUESTS_ENABLED'' \<or> n = ''APPROVALREQUEST_RETENTION''
         \<or> n = ''DEDUPE_WINDOW'' then [] else ''set''),
     erDuration = (\<lambda>_. None), erBase64 = (\<lambda>_. Some (replicate 32 CHR ''k'')), erUrlOK = (\<lambda>_. True)\<rparr>"

lemma sample_schemes:
  "url_scheme sample_reader ''http://s3mock:9090'' = Some ''http''" "url_scheme sample_reader ''tls://nats:4222'' = Some ''tls''"
  by (simp_all add: url_scheme_def sample_reader_def is_letter_def is_digit_def lower_def)

text \<open>a bucket endpoint in the clear is accepted: the load of a broker path with an http endpoint reports no
  error.\<close>

theorem plaintext_bucket_accepted:
  "\<exists>h. load_env (loadHiss sample_reader True) = Inr h \<and> bsS3Endpoint (heStore h) = ''http://s3mock:9090''"
proof -
  have faults: "store_faults sample_reader = []"
    using sample_schemes by (simp add: store_faults_def scheme_fault_def key_faults_def missing_def Let_def) (simp add: sample_reader_def)
  then show ?thesis
    using sample_schemes
    by (simp add: load_env_def loadHiss_def scheme_fault_def missing_def bool_faults_def duration_faults_def read_store_def Let_def)
      (simp add: sample_reader_def)
qed

theorem broker_path_complete_witness:
  "store_complete (read_store sample_reader)"
proof -
  have faults: "store_faults sample_reader = []"
    using sample_schemes by (simp add: store_faults_def scheme_fault_def key_faults_def missing_def Let_def) (simp add: sample_reader_def)
  obtain h where "load_env (loadHiss sample_reader True) = Inr h"
    using sample_schemes faults
    by (simp add: load_env_def loadHiss_def scheme_fault_def missing_def bool_faults_def duration_faults_def Let_def)
      (simp add: sample_reader_def)
  then show ?thesis using broker_path_complete [of sample_reader undefined h undefined undefined] by blast
qed

theorem executor_mode_chosen_witness:
  "\<exists>t. load_env (loadThump sample_reader False) = Inr t \<and> teExecutor t = ''dry''"
proof -
  obtain t where load: "load_env (loadThump sample_reader False) = Inr t"
    using sample_schemes
    by (simp add: load_env_def loadThump_def scheme_fault_def missing_def env_optionalEnum_def Let_def) (simp add: sample_reader_def)
  from executor_mode_chosen [OF load] load show ?thesis by (auto simp: sample_reader_def)
qed

end
