(* ===== verification/Subjects.thy ===== *)
theory Subjects
  imports Prelude "HOL-Library.List_Lexorder" "HOL-Library.Char_ord"
begin

text \<open>
  The subject index of \<^verbatim>\<open>src/internal/subjects/subjects.go\<close>: which topology node a query or a changed
  resource concerns. The evidence tools and the change sources both tag through it, and the readiness
  gate trusts the tag. The labels of a rule are the list of their pairs with distinct keys; the labels
  of a query are a map, read with the empty string where a key is absent.
\<close>

record coordinates =
  coNamespace :: string
  coKind :: string
  coName :: string
  coLabels :: "string \<rightharpoonup> string"

record subject_rule =
  ruSubject :: string
  ruPlane :: string
  ruNamespace :: string
  ruKind :: string
  ruName :: string
  ruLabels :: "(string \<times> string) list"

definition labelsCover :: "(string \<times> string) list \<Rightarrow> (string \<rightharpoonup> string) \<Rightarrow> bool" where
  "labelsCover want query \<longleftrightarrow> list_all (\<lambda>(k, v). map_get [] query k = v) want"

definition rule_matches :: "subject_rule \<Rightarrow> coordinates \<Rightarrow> bool" where
  "rule_matches r c \<longleftrightarrow>
     (ruNamespace r = [] \<or> ruNamespace r = coNamespace c) \<and>
     (ruKind r = [] \<or> ruKind r = coKind c) \<and>
     (ruName r = [] \<or> ruName r = coName c) \<and>
     labelsCover (ruLabels r) (coLabels c)"

definition constraints :: "subject_rule \<Rightarrow> nat" where
  "constraints r = length (ruLabels r) + length (filter (\<lambda>f. f \<noteq> []) [ruNamespace r, ruKind r, ruName r])"

text \<open>The scan: the best subject so far, its specificity, and whether another of the same specificity disagrees.\<close>

fun index_scan :: "coordinates \<Rightarrow> subject_rule list \<Rightarrow> string \<times> int \<times> bool \<Rightarrow> string \<times> int \<times> bool" where
  "index_scan c [] acc = acc"
| "index_scan c (r # rs) (subject, specificity, ambiguous) =
     (if \<not> rule_matches r c then index_scan c rs (subject, specificity, ambiguous)
      else if specificity < int (constraints r) then index_scan c rs (ruSubject r, int (constraints r), False)
      else if int (constraints r) = specificity \<and> ruSubject r \<noteq> subject then index_scan c rs (subject, specificity, True)
      else index_scan c rs (subject, specificity, ambiguous))"

definition index_for :: "subject_rule list \<Rightarrow> coordinates \<Rightarrow> string" where
  "index_for x c = (case index_scan c x ([], -1, False) of (subject, _, ambiguous) \<Rightarrow> if ambiguous then [] else subject)"

fun join_with :: "string \<Rightarrow> string list \<Rightarrow> string" where
  "join_with sep [] = []"
| "join_with sep [x] = x"
| "join_with sep (x # y # xs) = x @ sep @ join_with sep (y # xs)"

definition selector_line :: "subject_rule \<Rightarrow> string" where
  "selector_line r =
     (let keys = sort (map fst (ruLabels r));
          pairs = (if ruNamespace r \<noteq> [] then [''namespace='' @ ruNamespace r] else []) @
                  map (\<lambda>k. k @ ''='' @ map_get [] (map_of (ruLabels r)) k) keys
      in ruSubject r @ '': '' @ join_with '', '' pairs)"

definition selectors :: "subject_rule list \<Rightarrow> string \<Rightarrow> string list" where
  "selectors x plane =
     remdups_adj (sort (map selector_line
       (filter (\<lambda>r. \<not> (ruLabels r = [] \<or> ruPlane r \<noteq> [] \<and> ruPlane r \<noteq> plane)) x)))"

subsection \<open>Facts\<close>

text \<open>The matching rules of the greatest specificity among a list of rules.\<close>

definition best_rules :: "subject_rule list \<Rightarrow> coordinates \<Rightarrow> subject_rule set" where
  "best_rules x c = {r \<in> set x. rule_matches r c \<and> (\<forall>q \<in> set x. rule_matches q c \<longrightarrow> constraints q \<le> constraints r)}"

definition scan_ok :: "subject_rule list \<Rightarrow> coordinates \<Rightarrow> string \<times> int \<times> bool \<Rightarrow> bool" where
  "scan_ok x c = (\<lambda>(subject, specificity, ambiguous).
     if \<exists>r \<in> set x. rule_matches r c
     then (\<exists>r \<in> best_rules x c. ruSubject r = subject \<and> specificity = int (constraints r)) \<and>
          (ambiguous \<longleftrightarrow> (\<exists>r \<in> best_rules x c. ruSubject r \<noteq> subject))
     else subject = [] \<and> specificity = -1 \<and> \<not> ambiguous)"

lemma best_rules_skip: "\<not> rule_matches r c \<Longrightarrow> best_rules (x @ [r]) c = best_rules x c"
  by (auto simp: best_rules_def)

lemma scan_ok_step:
  assumes "scan_ok x c (subject, specificity, ambiguous)"
  shows "scan_ok (x @ [r]) c (index_scan c [r] (subject, specificity, ambiguous))"
proof (cases "rule_matches r c")
  case False
  then show ?thesis using assms by (auto simp: scan_ok_def best_rules_skip)
next
  case m: True
  show ?thesis
  proof (cases "\<exists>q \<in> set x. rule_matches q c")
    case False
    then have none: "subject = [] \<and> specificity = -1 \<and> \<not> ambiguous"
      using assms by (simp add: scan_ok_def split: if_splits)
    have "best_rules (x @ [r]) c = {r}" using False m by (auto simp: best_rules_def)
    then show ?thesis using none m by (simp add: scan_ok_def)
  next
    case True
    then obtain b where b: "b \<in> best_rules x c" "ruSubject b = subject" "specificity = int (constraints b)"
      and amb: "ambiguous \<longleftrightarrow> (\<exists>q \<in> best_rules x c. ruSubject q \<noteq> subject)"
      using assms by (auto simp: scan_ok_def)
    have same: "constraints q = constraints b" if "q \<in> best_rules x c" for q
      using that b(1) by (auto simp: best_rules_def intro: le_antisym)
    have le: "constraints q \<le> constraints b" if "q \<in> set x" "rule_matches q c" for q
      using that b(1) by (auto simp: best_rules_def)
    have some: "\<exists>q \<in> set (x @ [r]). rule_matches q c" using True by auto
    consider (more) "constraints b < constraints r" | (same) "constraints r = constraints b" | (less) "constraints r < constraints b"
      by linarith
    then show ?thesis
    proof cases
      case more
      then have "best_rules (x @ [r]) c = {r}"
        using m le by (fastforce simp: best_rules_def)
      then show ?thesis using more m b some by (simp add: scan_ok_def)
    next
      case same: same
      have new: "best_rules (x @ [r]) c = insert r (best_rules x c)"
        using m le same b(1) by (fastforce simp: best_rules_def)
      then show ?thesis using same m b some amb by (auto simp: scan_ok_def)
    next
      case less
      then have "best_rules (x @ [r]) c = best_rules x c"
        using m b(1) le by (fastforce simp: best_rules_def)
      then show ?thesis using less m b some amb by (auto simp: scan_ok_def)
    qed
  qed
qed

lemma index_scan_append: "index_scan c (xs @ ys) acc = index_scan c ys (index_scan c xs acc)"
  by (induction c xs acc rule: index_scan.induct) auto

lemma scan_ok_index: "scan_ok x c (index_scan c x ([], -1, False))"
proof (induction x rule: rev_induct)
  case Nil
  then show ?case by (simp add: scan_ok_def)
next
  case (snoc r x)
  then show ?case
    using scan_ok_step [of x c _ _ _ r] by (cases "index_scan c x ([], -1, False)") (simp add: index_scan_append)
qed

lemma index_for_best: "index_for x c = (if \<exists>s. ruSubject ` best_rules x c = {s} then the_elem (ruSubject ` best_rules x c) else [])"
proof -
  obtain subject specificity ambiguous where scan: "index_scan c x ([], -1, False) = (subject, specificity, ambiguous)"
    by (rule prod_cases3)
  note ok = scan_ok_index [of x c, unfolded scan]
  show ?thesis
  proof (cases "\<exists>r \<in> set x. rule_matches r c")
    case False
    then have "best_rules x c = {}" by (auto simp: best_rules_def)
    then show ?thesis using ok False scan by (simp add: index_for_def scan_ok_def)
  next
    case True
    then have b: "subject \<in> ruSubject ` best_rules x c" "ambiguous \<longleftrightarrow> (\<exists>r \<in> best_rules x c. ruSubject r \<noteq> subject)"
      using ok by (auto simp: scan_ok_def)
    show ?thesis
    proof (cases ambiguous)
      case amb: True
      then have "ruSubject ` best_rules x c \<noteq> {s}" for s using b by (metis imageI singletonD)
      then show ?thesis using amb scan by (simp add: index_for_def)
    next
      case amb: False
      then have "ruSubject ` best_rules x c = {subject}" using b by auto
      then show ?thesis using amb scan by (auto simp: index_for_def)
    qed
  qed
qed

text \<open>a tag is never invented: the index answers with a named subject exactly when a rule matches and all the
  most specific matching rules name that subject; no match and two that disagree give no tag; and the
  order in which the rules are authored does not matter.\<close>

theorem index_for_most_specific:
  "(index_for x c = s \<and> s \<noteq> []) = (ruSubject ` best_rules x c = {s} \<and> s \<noteq> []) \<and> index_for (rev x) c = index_for x c"
proof
  show "(index_for x c = s \<and> s \<noteq> []) = (ruSubject ` best_rules x c = {s} \<and> s \<noteq> [])"
    unfolding index_for_best by (metis the_elem_eq)
  have "best_rules (rev x) c = best_rules x c" by (simp add: best_rules_def)
  then show "index_for (rev x) c = index_for x c" by (simp add: index_for_best)
qed

lemma selectors_set:
  "set (selectors x plane) = selector_line ` {r \<in> set x. ruLabels r \<noteq> [] \<and> (ruPlane r = [] \<or> ruPlane r = plane)}"
  by (auto simp: selectors_def)

lemma selectors_sorted: "sorted (selectors x plane)" "distinct (selectors x plane)"
proof -
  show "sorted (selectors x plane)" unfolding selectors_def by (intro sorted_remdups_adj) simp
  have "distinct (remdups_adj ys)" if "sorted ys" for ys :: "string list"
    using that by (induction ys rule: remdups_adj.induct) (auto simp: antisym)
  then show "distinct (selectors x plane)" unfolding selectors_def by simp
qed

text \<open>a rule that asks for a label at the empty value is satisfied by a query that does not carry the label.\<close>

theorem empty_label_matches_absent:
  "labelsCover [(''component'', [])] Map.empty"
  by (simp add: labelsCover_def map_get_def)

end
