(* ===== verification/Evidence.thy ===== *)
theory Evidence
  imports Subjects Grading
begin

text \<open>
  The evidence and change planes (\<^verbatim>\<open>src/internal/evidence\<close>): the read-only tools the model may call,
  metrics, loki, traces and kube, each folding its answer into one reference tagged through the
  subject index, and the two change sources, Argo applications and cluster objects.

  A backend is an argument: a function from the rendered query to an error or the decoded answer. The
  labels of a call are the pairs of a JSON object, with distinct keys; decoding the call's arguments,
  parsing a duration and a time stamp are arguments.
\<close>

subsection \<open>References\<close>

definition tool_ref :: "string \<Rightarrow> string \<Rightarrow> string \<Rightarrow> string \<Rightarrow> string \<Rightarrow> bool \<Rightarrow> string \<Rightarrow> evidence_ref" where
  "tool_ref tool query key summary ref live subject =
     \<lparr>evTool = tool, evQuery = query, evKey = key, evSummary = summary, evRef = ref, evLive = live, evSubject = subject\<rparr>"

definition empty_ref :: evidence_ref where
  "empty_ref = tool_ref [] [] [] [] [] False []"

datatype tool_error = DecodeArgs string | BuildQuery string | DecodeValue

datatype 'b backend_answer = RequestFailed string | BadStatus string | UndecodableBody string | Answered 'b

subsection \<open>The metrics tool\<close>

record evidence_query =
  eqName :: string
  eqQuery :: string
  eqSubject :: string

datatype instant_failure = BuildFailed string | DecodeFailed string | StatusFailed string | OtherFailed string

text \<open>The answer is the list of raw values of the returned series.\<close>

definition metrics_run ::
  "(string \<Rightarrow> instant_failure + string list) \<Rightarrow> (string \<Rightarrow> string option) \<Rightarrow> (string \<rightharpoonup> evidence_query) \<Rightarrow>
   string + string \<Rightarrow> tool_error + evidence_ref" where
  "metrics_run instant asString queries args =
     (case args of
        Inl e \<Rightarrow> Inl (DecodeArgs e)
      | Inr q \<Rightarrow>
          (case queries q of
             None \<Rightarrow> Inr (tool_ref ''metrics'' q q (''no such evidence query: '' @ q) [] False [])
           | Some eq \<Rightarrow>
               (let dead = (\<lambda>summary. tool_ref ''metrics'' q q summary [] False (eqSubject eq))
                in case instant (eqQuery eq) of
                     Inl (BuildFailed e) \<Rightarrow> Inl (BuildQuery e)
                   | Inl (DecodeFailed e) \<Rightarrow> Inr empty_ref
                   | Inl (StatusFailed st) \<Rightarrow> Inr (dead (''prometheus returned status: '' @ st))
                   | Inl (OtherFailed e) \<Rightarrow> Inr (dead (''prometheus request failed: '' @ e))
                   | Inr [] \<Rightarrow> Inr (dead ''query returned no data'')
                   | Inr (raw # _) \<Rightarrow>
                       (case asString raw of
                          None \<Rightarrow> Inl DecodeValue
                        | Some v \<Rightarrow> Inr (tool_ref ''metrics'' q q (q @ '' = '' @ v) (''metrics://'' @ q) True (eqSubject eq))))))"

record evidence_config =
  ecQueries :: "string \<rightharpoonup> evidence_query"
  ecIndex :: "subject_rule list"

definition loadEvidenceConfig ::
  "(string \<Rightarrow> string + 'raw) \<Rightarrow> ('raw \<Rightarrow> string + evidence_query list \<times> subject_rule list) \<Rightarrow> string \<Rightarrow>
   string + evidence_config" where
  "loadEvidenceConfig readFile unmarshal path =
     res_bind (readFile path) (\<lambda>raw. res_bind (unmarshal raw) (\<lambda>(qs, rules).
       Inr \<lparr>ecQueries = foldl (\<lambda>m q. m(eqName q \<mapsto> q)) Map.empty qs, ecIndex = rules\<rparr>))"

subsection \<open>The log tool\<close>

record loki_input =
  liNamespace :: string
  liLabels :: "(string \<times> string) list"
  liQuery :: string
  liLimit :: int
  liLookback :: string

definition sorted_keys :: "(string \<times> string) list \<Rightarrow> string list" where
  "sorted_keys labels = sort (map fst labels)"

definition buildLogQL :: "string \<Rightarrow> (string \<times> string) list \<Rightarrow> string \<Rightarrow> string" where
  "buildLogQL namespace labels query =
     (let matchers = (''namespace='' @ go_quote namespace) #
            map (\<lambda>k. k @ ''='' @ go_quote (map_get [] (map_of labels) k)) (sorted_keys labels);
          logQL = ''{'' @ join_with '', '' matchers @ ''}''
      in if query \<noteq> [] then logQL @ '' |= '' @ go_quote query else logQL)"

definition selector_ref :: "string \<Rightarrow> string \<Rightarrow> (string \<times> string) list \<Rightarrow> string" where
  "selector_ref scheme namespace labels =
     (if labels = [] then scheme @ namespace
      else scheme @ namespace @ ''/'' @
        join_with '','' (map (\<lambda>k. k @ ''='' @ map_get [] (map_of labels) k) (sorted_keys labels)))"

definition truncateLine :: "string \<Rightarrow> nat \<Rightarrow> string" where
  "truncateLine s n = (if length s \<le> n then s else take n s @ [CHR 0xE2, CHR 0x80, CHR 0xA6])"

text \<open>The streams of the answer, each its lines in order; the last line of the last stream with lines.\<close>

definition last_line :: "string list list \<Rightarrow> string" where
  "last_line streams = foldl (\<lambda>l stream. if stream \<noteq> [] then last stream else l) [] streams"

definition loki_run ::
  "(string \<Rightarrow> duration \<Rightarrow> int \<Rightarrow> string list list backend_answer) \<Rightarrow> (string \<Rightarrow> string + duration) \<Rightarrow> subject_rule list \<Rightarrow>
   string + loki_input \<Rightarrow> tool_error + evidence_ref" where
  "loki_run search parseDuration index args =
     (case args of
        Inl e \<Rightarrow> Inl (DecodeArgs e)
      | Inr i \<Rightarrow>
          (let logQL = buildLogQL (liNamespace i) (liLabels i) (liQuery i);
               subject = index_for index \<lparr>coNamespace = liNamespace i, coKind = [], coName = [], coLabels = map_of (liLabels i)\<rparr>;
               dead = (\<lambda>summary. Inr (tool_ref ''loki'' logQL [] summary [] False subject));
               lookback = (if liLookback i = [] then ''15m'' else liLookback i);
               limit = (if liLimit i \<le> 0 then 50 else liLimit i)
           in case parseDuration lookback of
                Inl e \<Rightarrow> dead (''invalid lookback: '' @ e)
              | Inr lb \<Rightarrow>
                  (case search logQL lb limit of
                     RequestFailed e \<Rightarrow> dead (''loki request failed: '' @ e)
                   | BadStatus st \<Rightarrow> dead (''loki returned status: '' @ st)
                   | UndecodableBody e \<Rightarrow> dead (''decode loki response: '' @ e)
                   | Answered streams \<Rightarrow>
                       (let tot = length (concat streams); line = last_line streams
                        in if tot = 0 then dead ''no matching log lines''
                           else Inr (tool_ref ''loki'' logQL []
                                  (show_nat tot @ '' log line(s)'' @
                                     (if line \<noteq> [] then ''; last: '' @ truncateLine line 200 else []))
                                  (selector_ref ''loki://'' (liNamespace i) (liLabels i)) True subject)))))"

subsection \<open>The trace tool\<close>

record traces_input =
  tiNamespace :: string
  tiLabels :: "(string \<times> string) list"
  tiErrorsOnly :: bool
  tiLimit :: int
  tiLookback :: string

definition ident_start :: "char \<Rightarrow> bool" where
  "ident_start c \<longleftrightarrow> (65 \<le> (of_char c :: nat) \<and> (of_char c :: nat) \<le> 90) \<or>
     (97 \<le> (of_char c :: nat) \<and> (of_char c :: nat) \<le> 122) \<or> c = CHR ''_''"

definition trace_ident :: "string \<Rightarrow> bool" where
  "trace_ident s \<longleftrightarrow> s \<noteq> [] \<and> ident_start (hd s) \<and> list_all (\<lambda>c. ident_start c \<or> is_digit c \<or> c = CHR ''.'') (tl s)"

definition traceKey_ok :: "string \<Rightarrow> bool" where
  "traceKey_ok k \<longleftrightarrow> trace_ident k \<or> (take 9 k = ''resource.'' \<and> trace_ident (drop 9 k)) \<or>
     (take 5 k = ''span.'' \<and> trace_ident (drop 5 k))"

definition buildTraceQL :: "(string \<times> string) list \<Rightarrow> bool \<Rightarrow> string" where
  "buildTraceQL labels errorsOnly =
     (let matchers = map (\<lambda>k. k @ ''='' @ go_quote (map_get [] (map_of labels) k)) (sorted_keys labels) @
            (if errorsOnly then [''status=error''] else [])
      in if matchers = [] then ''{}'' else ''{'' @ join_with '' && '' matchers @ ''}'')"

text \<open>The root service and name of each trace found.\<close>

definition traces_run ::
  "(string \<Rightarrow> duration \<Rightarrow> int \<Rightarrow> (string \<times> string) list backend_answer) \<Rightarrow> (string \<Rightarrow> string + duration) \<Rightarrow> subject_rule list \<Rightarrow>
   string + traces_input \<Rightarrow> tool_error + evidence_ref" where
  "traces_run search parseDuration index args =
     (case args of
        Inl e \<Rightarrow> Inl (DecodeArgs e)
      | Inr i \<Rightarrow>
          (let subject = index_for index \<lparr>coNamespace = tiNamespace i, coKind = [], coName = [], coLabels = map_of (tiLabels i)\<rparr>
           in case List.find (\<lambda>k. \<not> traceKey_ok k) (map fst (tiLabels i)) of
                Some k \<Rightarrow> Inr (tool_ref ''traces'' [] [] (''invalid trace label key '' @ go_quote k @ '': must match identifier pattern'') [] False subject)
              | None \<Rightarrow>
                  (let traceQL = buildTraceQL (tiLabels i) (tiErrorsOnly i);
                       ref = selector_ref ''tempo://'' (tiNamespace i) (tiLabels i);
                       dead = (\<lambda>summary. Inr (tool_ref ''traces'' traceQL [] summary [] False subject));
                       lookback = (if tiLookback i = [] then ''15m'' else tiLookback i);
                       limit = (if tiLimit i \<le> 0 then 20 else tiLimit i)
                   in case parseDuration lookback of
                        Inl e \<Rightarrow> dead (''invalid lookback: '' @ e)
                      | Inr lb \<Rightarrow>
                          (case search traceQL lb limit of
                             RequestFailed e \<Rightarrow> dead (''tempo request failed: '' @ e)
                           | BadStatus st \<Rightarrow> dead (''tempo returned status: '' @ st)
                           | UndecodableBody e \<Rightarrow> dead (''decode tempo response: '' @ e)
                           | Answered traces \<Rightarrow>
                               if traces = [] then Inr (tool_ref ''traces'' traceQL [] ''no matching traces'' ref False subject)
                               else Inr (tool_ref ''traces'' traceQL []
                                      (show_nat (length traces) @ '' trace(s); last root: '' @ fst (last traces) @ ''/'' @ snd (last traces))
                                      ref True subject)))))"

subsection \<open>The cluster tool\<close>

record container_status =
  cstRestartCount :: "32 word"
  cstLastTerminated :: "string option"
  cstWaiting :: "string option"
  cstReady :: bool

record pod =
  podName :: string
  podPhase :: string
  podContainers :: "container_status list"

definition first_reason :: "(container_status \<Rightarrow> string option) \<Rightarrow> container_status list \<Rightarrow> string" where
  "first_reason get cs =
     (case List.find (\<lambda>c. get c \<noteq> None \<and> get c \<noteq> Some []) cs of None \<Rightarrow> [] | Some c \<Rightarrow> the (get c))"

definition podDigest :: "pod \<Rightarrow> string" where
  "podDigest p =
     (let cs = podContainers p;
          restarts = sint (sum_list (map cstRestartCount cs));
          lastReason = first_reason cstLastTerminated cs;
          waitingReason = first_reason cstWaiting cs;
          hasNotReady = list_ex (\<lambda>c. \<not> cstReady c) cs;
          clauses = [podPhase p] @
            (if 0 < restarts then [''restarts='' @ show_int restarts] else []) @
            (if lastReason \<noteq> [] then [''last: '' @ lastReason] else []) @
            (if waitingReason \<noteq> [] then [''waiting: '' @ waitingReason] else []) @
            (if hasNotReady \<and> podPhase p = ''Running'' \<and> waitingReason = [] then [''notReady''] else [])
      in podName p @ '' ('' @ join_with '', '' clauses @ '')'')"

record kube_input =
  kiResource :: string
  kiNamespace :: string
  kiSelector :: "(string \<times> string) list"

definition kube_run ::
  "(string \<Rightarrow> (string \<times> string) list \<Rightarrow> string + pod list) \<Rightarrow> subject_rule list \<Rightarrow> string \<Rightarrow> string + kube_input \<Rightarrow>
   tool_error + evidence_ref" where
  "kube_run listPods index raw args =
     (case args of
        Inl e \<Rightarrow> Inl (DecodeArgs e)
      | Inr i \<Rightarrow>
          (let subject = index_for index \<lparr>coNamespace = kiNamespace i, coKind = [], coName = [], coLabels = map_of (kiSelector i)\<rparr>;
               dead = (\<lambda>summary. Inr (tool_ref ''kube'' raw [] summary [] False subject))
           in if kiResource i \<noteq> ''pods'' then dead (''unsupported resource: '' @ kiResource i)
              else (case listPods (kiNamespace i) (kiSelector i) of
                      Inl e \<Rightarrow> dead (''failed to list pods: '' @ e)
                    | Inr [] \<Rightarrow> dead ''no pods found''
                    | Inr pods \<Rightarrow> Inr (tool_ref ''kube'' raw [] (join_with '', '' (map podDigest pods))
                                       (''kube://'' @ kiNamespace i @ ''/'' @ kiResource i) True subject))))"

subsection \<open>Changes of cluster objects\<close>

definition defaultIgnoredManagers :: "string list" where
  "defaultIgnoredManagers = [''beat'', ''thump-actuator'']"

definition defaultChangeLookback :: duration where
  "defaultChangeLookback = 2 * hour"

record deployment =
  dlNamespace :: string
  dlName :: string
  dlGeneration :: int
  dlConditions :: "(string \<times> time) list"

record config_map =
  cmNamespace :: string
  cmName :: string
  cmResourceVersion :: string
  cmManagedFields :: "(string \<times> time option) list"

definition change_of :: "string \<Rightarrow> string \<Rightarrow> string \<Rightarrow> duration \<Rightarrow> change_event" where
  "change_of cid ty target age = \<lparr>ceID = cid, ceType = ty, ceTarget = target, ceAge = age, ceCausalLikelihood = 0,
     ceRationale = [], cePredictedSignals = [], ceHistoricalStaleness = age\<rparr>"

definition deployment_events :: "subject_rule list \<Rightarrow> time \<Rightarrow> duration \<Rightarrow> deployment \<Rightarrow> change_event list" where
  "deployment_events index now lookback d =
     concat (map (\<lambda>(ty, t).
       (let age = time_sub now t;
            target = index_for index \<lparr>coNamespace = dlNamespace d, coKind = ''Deployment'', coName = dlName d, coLabels = Map.empty\<rparr>
        in if ty \<noteq> ''Progressing'' \<or> is_zero_time t \<or> age < 0 \<or> lookback < age \<or> target = [] then []
           else [change_of (''deploy/'' @ dlNamespace d @ ''/'' @ dlName d @ ''/'' @ show_int (dlGeneration d)) ''deploy'' target age]))
       (dlConditions d))"

text \<open>The latest write by a manager that is not ignored, the zero time when there is none.\<close>

definition last_write :: "string list \<Rightarrow> (string \<times> time option) list \<Rightarrow> time" where
  "last_write ignored mfs =
     foldl (\<lambda>m (mgr, t). case t of
              None \<Rightarrow> m
            | Some t \<Rightarrow> if mgr \<in> set ignored \<or> is_zero_time t then m
                        else if is_zero_time m \<or> m < t then t else m) zero_time mfs"

definition config_events :: "subject_rule list \<Rightarrow> string list \<Rightarrow> time \<Rightarrow> duration \<Rightarrow> config_map \<Rightarrow> change_event list" where
  "config_events index ignored now lookback cm =
     (let t = last_write ignored (cmManagedFields cm); age = time_sub now t;
          target = index_for index \<lparr>coNamespace = cmNamespace cm, coKind = ''ConfigMap'', coName = cmName cm, coLabels = Map.empty\<rparr>
      in if is_zero_time t \<or> age < 0 \<or> lookback < age \<or> target = [] then []
         else [change_of (''config/'' @ cmNamespace cm @ ''/'' @ cmName cm @ ''/'' @ cmResourceVersion cm) ''config'' target age])"

definition kube_namespaces :: "subject_rule list \<Rightarrow> string list" where
  "kube_namespaces index = sort (remdups (filter (\<lambda>ns. ns \<noteq> []) (map ruNamespace index)))"

datatype change_error = ListDeployments string string | ListConfigMaps string string | ListApplications string

fun kube_change_loop ::
  "(string \<Rightarrow> string + deployment list) \<Rightarrow> (string \<Rightarrow> string + config_map list) \<Rightarrow> subject_rule list \<Rightarrow> string list \<Rightarrow> time \<Rightarrow>
   duration \<Rightarrow> string list \<Rightarrow> change_error + change_event list" where
  "kube_change_loop deps cms index ignored now lookback [] = Inr []"
| "kube_change_loop deps cms index ignored now lookback (ns # nss) =
     (case deps ns of
        Inl e \<Rightarrow> Inl (ListDeployments ns e)
      | Inr ds \<Rightarrow>
          (case cms ns of
             Inl e \<Rightarrow> Inl (ListConfigMaps ns e)
           | Inr ms \<Rightarrow>
               res_bind (kube_change_loop deps cms index ignored now lookback nss) (\<lambda>evs.
                 Inr (concat (map (deployment_events index now lookback) ds) @
                      concat (map (config_events index ignored now lookback) ms) @ evs))))"

text \<open>\<open>None\<close> for the managers is the default list; a lookback that is not positive is the default.\<close>

definition kube_changes ::
  "(string \<Rightarrow> string + deployment list) \<Rightarrow> (string \<Rightarrow> string + config_map list) \<Rightarrow> subject_rule list \<Rightarrow> string list option \<Rightarrow>
   duration \<Rightarrow> time \<Rightarrow> change_error + change_event list" where
  "kube_changes deps cms index managers lookback now =
     (let lookback = (if lookback \<le> 0 then defaultChangeLookback else lookback);
          ignored = (case managers of None \<Rightarrow> defaultIgnoredManagers | Some ms \<Rightarrow> ms)
      in kube_change_loop deps cms index ignored now lookback (kube_namespaces index))"

subsection \<open>Changes of Argo applications\<close>

text \<open>A resource entry that is not an object is \<open>None\<close>, an unreadable inventory too.\<close>

record application =
  aaName :: string
  aaPhase :: string
  aaFinishedAt :: string
  aaAutomated :: bool
  aaRevision :: string
  aaResources :: "(string \<times> string \<times> string) option list option"

definition managedSubjects :: "subject_rule list \<Rightarrow> application \<Rightarrow> string list" where
  "managedSubjects index app =
     (case aaResources app of
        None \<Rightarrow> []
      | Some rs \<Rightarrow>
          rev (foldl (\<lambda>names r. case r of
                 None \<Rightarrow> names
               | Some (ns, kind, name) \<Rightarrow>
                   (let subject = index_for index \<lparr>coNamespace = ns, coKind = kind, coName = name, coLabels = Map.empty\<rparr>
                    in if subject = [] \<or> subject \<in> set names then names else subject # names)) [] rs))"

definition appEvents ::
  "(string \<Rightarrow> time option) \<Rightarrow> subject_rule list \<Rightarrow> time \<Rightarrow> duration \<Rightarrow> application \<Rightarrow> change_event list" where
  "appEvents parseTime index now lookback app =
     (if aaPhase app \<noteq> ''Succeeded'' then []
      else (case parseTime (aaFinishedAt app) of
              None \<Rightarrow> []
            | Some t \<Rightarrow>
                (let age = time_sub now t;
                     targets = managedSubjects index app;
                     targets = (if targets = [] then [aaName app] else targets)
                 in if lookback < age then []
                    else map (\<lambda>target. change_of (aaRevision app) (if aaAutomated app then ''rollback'' else ''deploy'') target age) targets)))"

definition argo_changes ::
  "(string \<Rightarrow> time option) \<Rightarrow> string + application list \<Rightarrow> subject_rule list \<Rightarrow> duration \<Rightarrow> (application \<Rightarrow> time) \<Rightarrow>
   change_error + change_event list" where
  "argo_changes parseTime apps index lookback now =
     (let lookback = (if lookback \<le> 0 then defaultChangeLookback else lookback)
      in case apps of
           Inl e \<Rightarrow> Inl (ListApplications e)
         | Inr items \<Rightarrow> Inr (concat (map (\<lambda>app. appEvents parseTime index (now app) lookback app) items)))"

subsection \<open>What a live reference means\<close>

lemma tool_ref_fields [simp]:
  "evTool (tool_ref t q k s r l sub) = t" "evLive (tool_ref t q k s r l sub) = l" "evSubject (tool_ref t q k s r l sub) = sub"
  "evQuery (tool_ref t q k s r l sub) = q"
  by (simp_all add: tool_ref_def)

lemma metrics_live:
  assumes "metrics_run instant asString queries (Inr q) = Inr ref" "evLive ref"
  shows "\<exists>eq v vs. queries q = Some eq \<and> instant (eqQuery eq) = Inr (v # vs) \<and> evSubject ref = eqSubject eq"
  using assms
  by (auto simp: metrics_run_def empty_ref_def Let_def split: option.splits sum.splits instant_failure.splits list.splits)

lemma loki_live:
  assumes "loki_run search pd index (Inr i) = Inr ref" "evLive ref"
  shows "\<exists>lb limit streams. search (evQuery ref) lb limit = Answered streams \<and> concat streams \<noteq> [] \<and>
    evSubject ref = index_for index \<lparr>coNamespace = liNamespace i, coKind = [], coName = [], coLabels = map_of (liLabels i)\<rparr>"
  using assms by (auto simp: loki_run_def Let_def split: sum.splits backend_answer.splits if_splits) blast+

lemma traces_live:
  assumes "traces_run search pd index (Inr i) = Inr ref" "evLive ref"
  shows "\<exists>lb limit traces. search (evQuery ref) lb limit = Answered traces \<and> traces \<noteq> [] \<and>
    evSubject ref = index_for index \<lparr>coNamespace = tiNamespace i, coKind = [], coName = [], coLabels = map_of (tiLabels i)\<rparr>"
  using assms by (auto simp: traces_run_def Let_def split: sum.splits backend_answer.splits if_splits option.splits) blast+

lemma kube_live:
  assumes "kube_run listPods index raw (Inr i) = Inr ref" "evLive ref"
  shows "\<exists>p ps. listPods (kiNamespace i) (kiSelector i) = Inr (p # ps) \<and>
    evSubject ref = index_for index \<lparr>coNamespace = kiNamespace i, coKind = [], coName = [], coLabels = map_of (kiSelector i)\<rparr>"
  using assms by (auto simp: kube_run_def Let_def split: sum.splits list.splits if_splits)

lemma index_for_authored: "index_for index c = s \<Longrightarrow> s \<noteq> [] \<Longrightarrow> \<exists>r \<in> set index. rule_matches r c \<and> ruSubject r = s"
proof -
  assume "index_for index c = s" "s \<noteq> []"
  then have "s \<in> ruSubject ` best_rules index c" by (auto simp: index_for_best split: if_splits)
  then show ?thesis by (auto simp: best_rules_def)
qed

subsection \<open>What a change event means\<close>

definition change_ok :: "subject_rule list \<Rightarrow> duration \<Rightarrow> change_event \<Rightarrow> bool" where
  "change_ok index lookback ev \<longleftrightarrow> 0 \<le> ceAge ev \<and> ceAge ev \<le> lookback \<and> ceHistoricalStaleness ev = ceAge ev \<and>
     (\<exists>r \<in> set index. ruSubject r = ceTarget ev \<and> ceTarget ev \<noteq> [])"

lemma change_of_ok:
  assumes "0 \<le> age" "age \<le> lookback" "index_for index c = target" "target \<noteq> []"
  shows "change_ok index lookback (change_of cid ty target age)"
  using assms index_for_authored [OF assms(3,4)] by (auto simp: change_ok_def change_of_def)

lemma deployment_events_ok: "ev \<in> set (deployment_events index now lookback d) \<Longrightarrow> change_ok index lookback ev"
  by (auto simp: deployment_events_def Let_def intro!: change_of_ok split: if_splits)

lemma config_events_ok: "ev \<in> set (config_events index ignored now lookback cm) \<Longrightarrow> change_ok index lookback ev"
  by (auto simp: config_events_def Let_def intro!: change_of_ok split: if_splits)

lemma kube_change_loop_ok:
  "kube_change_loop deps cms index ignored now lookback nss = Inr evs \<Longrightarrow> ev \<in> set evs \<Longrightarrow> change_ok index lookback ev"
  by (induction nss arbitrary: evs)
    (auto simp: res_bind_eq_Inr dest: deployment_events_ok config_events_ok split: sum.splits)

lemma last_write_step:
  "foldl (\<lambda>m (mgr, t). case t of None \<Rightarrow> m
      | Some t \<Rightarrow> if mgr \<in> set ignored \<or> is_zero_time t then m else if is_zero_time m \<or> m < t then t else m) m0 mfs = t \<Longrightarrow>
   t = m0 \<or> (\<exists>mgr. mgr \<notin> set ignored \<and> (mgr, Some t) \<in> set mfs)"
proof (induction mfs arbitrary: m0)
  case (Cons p mfs)
  obtain mgr u where p: "p = (mgr, u)" by fastforce
  show ?case using Cons.prems Cons.IH by (cases u) (auto simp: p split: if_splits)
qed simp

lemma last_write_by: "last_write ignored mfs = t \<Longrightarrow> \<not> is_zero_time t \<Longrightarrow> \<exists>mgr. mgr \<notin> set ignored \<and> (mgr, Some t) \<in> set mfs"
  using last_write_step unfolding last_write_def by (fastforce simp: is_zero_time_def)

lemma deploy_type: "ev \<in> set (deployment_events index now lookback d) \<Longrightarrow> ceType ev = ''deploy''"
  by (auto simp: deployment_events_def change_of_def Let_def split: if_splits)

lemma config_event_write:
  assumes "ev \<in> set (config_events index ignored now lookback cm)"
  shows "\<exists>mgr t. (mgr, Some t) \<in> set (cmManagedFields cm) \<and> mgr \<notin> set ignored \<and> ceAge ev = time_sub now t"
proof -
  let ?t = "last_write ignored (cmManagedFields cm)"
  from assms have "\<not> is_zero_time ?t" "ceAge ev = time_sub now ?t"
    by (auto simp: config_events_def change_of_def Let_def split: if_splits)
  with last_write_by [OF refl] show ?thesis by blast
qed

lemma kube_change_loop_writes:
  "kube_change_loop deps cms index ignored now lookback nss = Inr evs \<Longrightarrow> ev \<in> set evs \<Longrightarrow> ceType ev \<noteq> ''deploy'' \<Longrightarrow>
   \<exists>ns ms cm mgr t. cms ns = Inr ms \<and> cm \<in> set ms \<and> (mgr, Some t) \<in> set (cmManagedFields cm) \<and> mgr \<notin> set ignored \<and>
     ceAge ev = time_sub now t"
proof (induction nss arbitrary: evs)
  case (Cons ns nss)
  from Cons.prems(1) obtain ds ms rest where parts: "deps ns = Inr ds" "cms ns = Inr ms"
    "kube_change_loop deps cms index ignored now lookback nss = Inr rest"
    "evs = concat (map (deployment_events index now lookback) ds) @ concat (map (config_events index ignored now lookback) ms) @ rest"
    by (auto simp: res_bind_eq_Inr split: sum.splits)
  with Cons.prems(2,3) consider "ev \<in> set rest" | cm where "cm \<in> set ms" "ev \<in> set (config_events index ignored now lookback cm)"
    by (auto dest: deploy_type)
  then show ?case
  proof cases
    case 1 with Cons.IH parts(3) Cons.prems(3) show ?thesis by blast
  next
    case 2 with config_event_write [OF 2(2)] parts(2) show ?thesis by blast
  qed
qed simp

subsection \<open>Properties\<close>

text \<open>every change the cluster source reports is recent and about an authored node: its age is within the
  lookback and never negative, and its target is the subject of an authored rule. A reported edit of
  a config map is a write by a field manager that is not ignored.\<close>

theorem kube_changes_authored:
  assumes "kube_changes deps cms index managers lookback now = Inr evs" "ev \<in> set evs"
  shows "change_ok index (if lookback \<le> 0 then defaultChangeLookback else lookback) ev \<and>
    (ceType ev = ''deploy'' \<or>
     (\<exists>ns ms cm mgr t. cms ns = Inr ms \<and> cm \<in> set ms \<and> (mgr, Some t) \<in> set (cmManagedFields cm) \<and>
        mgr \<notin> set (case managers of None \<Rightarrow> defaultIgnoredManagers | Some ms \<Rightarrow> ms) \<and> ceAge ev = time_sub now t))"
proof -
  from assms(1) have loop: "kube_change_loop deps cms index (case managers of None \<Rightarrow> defaultIgnoredManagers | Some ms \<Rightarrow> ms) now
      (if lookback \<le> 0 then defaultChangeLookback else lookback) (kube_namespaces index) = Inr evs"
    by (simp add: kube_changes_def Let_def)
  show ?thesis
    using kube_change_loop_ok [OF loop assms(2)] kube_change_loop_writes [OF loop assms(2)] by blast
qed

definition pool_index :: "subject_rule list" where
  "pool_index = [\<lparr>ruSubject = ''pool'', ruPlane = [], ruNamespace = ''ceph'', ruKind = [], ruName = [], ruLabels = []\<rparr>]"

definition pool_config :: config_map where
  "pool_config = \<lparr>cmNamespace = ''ceph'', cmName = ''osd'', cmResourceVersion = ''7'',
     cmManagedFields = [(''kubectl'', Some 10), (''thump-actuator'', Some 90)]\<rparr>"

lemma pool_config_reported:
  "kube_changes (\<lambda>_. Inr []) (\<lambda>_. Inr [pool_config]) pool_index None 0 100 =
     Inr [change_of ''config/ceph/osd/7'' ''config'' ''pool'' 90]"
  by (simp add: kube_changes_def kube_namespaces_def pool_index_def pool_config_def config_events_def last_write_def
      defaultIgnoredManagers_def defaultChangeLookback_def is_zero_time_def zero_time_def time_sub_def index_for_def
      rule_matches_def constraints_def labelsCover_def Let_def max_duration_def min_duration_def)

theorem kube_changes_authored_witness:
  "change_ok pool_index (2 * hour) (change_of ''config/ceph/osd/7'' ''config'' ''pool'' 90)"
  using kube_changes_authored [OF pool_config_reported, of "change_of ''config/ceph/osd/7'' ''config'' ''pool'' 90"]
  by (simp add: defaultChangeLookback_def)

text \<open>the ignored field managers are consulted for config maps only: a rollout is reported whoever made it,
  so a deployment the actuator itself scaled or restarted comes back as a fresh change of that node,
  whatever list of managers is configured.\<close>

theorem own_rollout_reported:
  assumes "deps ns = Inr [d]" "cms ns = Inr []" "(''Progressing'', t) \<in> set (dlConditions d)" "\<not> is_zero_time t"
    "0 \<le> time_sub now t" "time_sub now t \<le> lookback" "0 < lookback" "kube_namespaces index = [ns]"
    "index_for index \<lparr>coNamespace = dlNamespace d, coKind = ''Deployment'', coName = dlName d, coLabels = Map.empty\<rparr> = node"
    "node \<noteq> []"
  shows "\<exists>evs. kube_changes deps cms index managers lookback now = Inr evs \<and>
    (\<exists>ev \<in> set evs. ceTarget ev = node \<and> ceAge ev = time_sub now t)"
proof -
  let ?ev = "change_of (''deploy/'' @ dlNamespace d @ ''/'' @ dlName d @ ''/'' @ show_int (dlGeneration d)) ''deploy'' node (time_sub now t)"
  have "?ev \<in> set (deployment_events index now lookback d)"
    unfolding deployment_events_def using assms(3-6,9,10) by (force simp: Let_def)
  with assms(1,2,7,8) show ?thesis
    by (auto simp: kube_changes_def res_bind_def change_of_def intro!: bexI [of _ ?ev])
qed

text \<open>the log tool quotes the values of its labels and not the keys: a key the model writes can close the
  selector and open another, so a query whose reference is tagged with one namespace's node reads
  the logs of another namespace.\<close>

definition quote_mark :: string where
  "quote_mark = [CHR 0x22]"

theorem label_key_spliced_raw:
  "buildLogQL ''app'' [(''x='' @ quote_mark @ ''1'' @ quote_mark @ ''} or {namespace'', ''kube-system'')] [] =
     ''{namespace='' @ quote_mark @ ''app'' @ quote_mark @ '', x='' @ quote_mark @ ''1'' @ quote_mark @
     ''} or {namespace='' @ quote_mark @ ''kube-system'' @ quote_mark @ ''}''"
  by (simp add: buildLogQL_def sorted_keys_def quote_mark_def go_quote_def quote_char_def)

text \<open>the trace tool resolves its subject with the namespace of the call and leaves the namespace out of
  the query: the same answer is live evidence about whichever namespace's node the call names.\<close>

theorem trace_namespace_unqueried:
  assumes "parseDuration ''15m'' = Inr lb" "search ''{status=error}'' lb 20 = Answered (tr # trs)"
    "index_for index \<lparr>coNamespace = ns, coKind = [], coName = [], coLabels = Map.empty\<rparr> = node"
  shows "\<exists>ref. traces_run search parseDuration index
      (Inr \<lparr>tiNamespace = ns, tiLabels = [], tiErrorsOnly = True, tiLimit = 0, tiLookback = []\<rparr>) = Inr ref \<and>
    evLive ref \<and> evSubject ref = node"
  using assms by (simp add: traces_run_def buildTraceQL_def sorted_keys_def Let_def)

end
