(* ===== verification/Grounding.thy ===== *)
theory Grounding
  imports Propose Evidence
begin

text \<open>
  The engine over the production evidence tools: what a gated set's grounding rests on once the tools
  the model may call are the four of \<^verbatim>\<open>src/internal/evidence\<close>. The engine copies each reference a tool returns
  into the set and stamps its citation key when the tool left it empty; nothing else writes evidence.
\<close>

record planes =
  plInstant :: "string \<Rightarrow> instant_failure + string list"
  plAsString :: "string \<Rightarrow> string option"
  plQueries :: "string \<rightharpoonup> evidence_query"
  plLogs :: "string \<Rightarrow> duration \<Rightarrow> int \<Rightarrow> string list list backend_answer"
  plTraces :: "string \<Rightarrow> duration \<Rightarrow> int \<Rightarrow> (string \<times> string) list backend_answer"
  plPods :: "string \<Rightarrow> (string \<times> string) list \<Rightarrow> string + pod list"
  plParse :: "string \<Rightarrow> string + duration"
  plIndex :: "subject_rule list"

text \<open>The references the four tools can return on these planes.\<close>

inductive gathered :: "planes \<Rightarrow> evidence_ref \<Rightarrow> bool" for pl where
  by_metrics: "metrics_run (plInstant pl) (plAsString pl) (plQueries pl) (Inr q) = Inr ref \<Longrightarrow> gathered pl ref"
| by_logs: "loki_run (plLogs pl) (plParse pl) (plIndex pl) (Inr li) = Inr ref \<Longrightarrow> gathered pl ref"
| by_traces: "traces_run (plTraces pl) (plParse pl) (plIndex pl) (Inr ti) = Inr ref \<Longrightarrow> gathered pl ref"
| by_pods: "kube_run (plPods pl) (plIndex pl) raw (Inr ki) = Inr ref \<Longrightarrow> gathered pl ref"

text \<open>The node a reference may be about: named by an authored query or by an authored rule.\<close>

definition authored_nodes :: "planes \<Rightarrow> string set" where
  "authored_nodes pl = {s. \<exists>q eq. plQueries pl q = Some eq \<and> eqSubject eq = s} \<union> ruSubject ` set (plIndex pl)"

text \<open>Some backend of the planes answered with data.\<close>

definition backend_answered :: "planes \<Rightarrow> bool" where
  "backend_answered pl \<longleftrightarrow>
     (\<exists>q v vs. plInstant pl q = Inr (v # vs)) \<or> (\<exists>q lb n ss. plLogs pl q lb n = Answered ss \<and> concat ss \<noteq> []) \<or>
     (\<exists>q lb n ts. plTraces pl q lb n = Answered ts \<and> ts \<noteq> []) \<or> (\<exists>ns sel p ps. plPods pl ns sel = Inr (p # ps))"

lemma index_subject: "\<exists>c. s = index_for (plIndex pl) c \<Longrightarrow> s = [] \<or> s \<in> authored_nodes pl"
proof -
  assume "\<exists>c. s = index_for (plIndex pl) c"
  then obtain c where "index_for (plIndex pl) c = s" by blast
  from index_for_authored [OF this] show ?thesis by (auto simp: authored_nodes_def)
qed

lemma gathered_live:
  assumes "gathered pl ref" "evLive ref"
  shows "backend_answered pl \<and> (evSubject ref = [] \<or> evSubject ref \<in> authored_nodes pl)"
  using assms(1)
proof cases
  case (by_metrics q)
  from metrics_live [OF this assms(2)] obtain eq v vs where m: "plQueries pl q = Some eq"
    "plInstant pl (eqQuery eq) = Inr (v # vs)" "eqSubject eq = evSubject ref" by auto
  then have "backend_answered pl" unfolding backend_answered_def by blast
  with m(1,3) show ?thesis unfolding authored_nodes_def by blast
next
  case (by_logs li)
  from loki_live [OF this assms(2)] have "backend_answered pl" "\<exists>c. evSubject ref = index_for (plIndex pl) c"
    unfolding backend_answered_def by blast+
  then show ?thesis using index_subject by blast
next
  case (by_traces ti)
  from traces_live [OF this assms(2)] have "backend_answered pl" "\<exists>c. evSubject ref = index_for (plIndex pl) c"
    unfolding backend_answered_def by blast+
  then show ?thesis using index_subject by blast
next
  case (by_pods raw ki)
  from kube_live [OF this assms(2)] have "backend_answered pl" "\<exists>c. evSubject ref = index_for (plIndex pl) c"
    unfolding backend_answered_def by blast+
  then show ?thesis using index_subject by blast
qed

subsection \<open>The evidence of a set is what the tools returned\<close>

text \<open>Every reference the engine's tools return satisfies the predicate.\<close>

definition tools_return :: "'w engine \<Rightarrow> (evidence_ref \<Rightarrow> bool) \<Rightarrow> bool" where
  "tools_return e P \<longleftrightarrow> (\<forall>n run args w ref w'. enTools e n = Some run \<longrightarrow> run args w = (Inr ref, w') \<longrightarrow> P ref)"

definition stamped_from :: "(evidence_ref \<Rightarrow> bool) \<Rightarrow> evidence_ref \<Rightarrow> bool" where
  "stamped_from P ref \<longleftrightarrow> (\<exists>r k. P r \<and> ref = r\<lparr>evKey := k\<rparr>)"

lemma stamped_intro: "P r \<Longrightarrow> stamped_from P r" "P r \<Longrightarrow> stamped_from P (r\<lparr>evKey := k\<rparr>)"
  unfolding stamped_from_def by (rule exI [of _ r], rule exI [of _ "evKey r"], simp, blast)

lemma dispatch_evidence:
  assumes tools: "tools_return e P"
  shows "dispatch_calls e calls results ls w = (Inr (d, rs, ls'), w') \<Longrightarrow>
    list_all (stamped_from P) (lsEvidence ls) \<Longrightarrow> list_all (stamped_from P) (lsEvidence ls')"
proof (induction calls arbitrary: results ls w)
  case (Cons call calls)
  consider (terminal) "callName call = ''propose'' \<or> callName call = ''insufficient''"
    | (unknown) "callName call \<noteq> ''propose''" "callName call \<noteq> ''insufficient''" "enTools e (callName call) = None"
    | (tool) run where "callName call \<noteq> ''propose''" "callName call \<noteq> ''insufficient''" "enTools e (callName call) = Some run"
    by blast
  then show ?case
  proof cases
    case terminal with Cons.prems show ?thesis by (auto split: sum.splits if_splits)
  next
    case unknown with Cons show ?thesis by auto
  next
    case (tool run)
    with Cons.prems(1) obtain ref w1 where ref: "run (callArgs call) w = (Inr ref, w1)"
      by (auto split: prod.splits sum.splits)
    define ref' where "ref' = (if evKey ref = [] then ref\<lparr>evKey := evidenceKey (callName call) (length (lsEvidence ls))\<rparr> else ref)"
    have "P ref" using tools tool(3) ref unfolding tools_return_def by blast
    then have "stamped_from P ref'" by (simp add: ref'_def stamped_intro)
    moreover obtain rs1 where "dispatch_calls e calls rs1 (ls\<lparr>lsEvidence := lsEvidence ls @ [ref']\<rparr>) w1 = (Inr (d, rs, ls'), w')"
      using Cons.prems(1) tool ref by (simp add: Let_def ref'_def)
    ultimately show ?thesis using Cons.IH Cons.prems(2) by fastforce
  qed
qed simp

lemma reason_loop_evidence:
  assumes "tools_return e P"
  shows "reason_loop e runID n step ls w = (Inr ls', w') \<Longrightarrow>
    list_all (stamped_from P) (lsEvidence ls) \<Longrightarrow> list_all (stamped_from P) (lsEvidence ls')"
proof (induction n arbitrary: step ls w)
  case (Suc n)
  from Suc.prems(1) obtain cm w1 where cm: "enComplete e (lsMsgs ls) w = (Inr cm, w1)"
    by (auto split: prod.splits sum.splits)
  define calls where "calls = withCallIDs (cmpToolCalls cm) step"
  define ls1 where "ls1 = ls\<lparr>lsMsgs := lsMsgs ls @ [(cmpMessage cm)\<lparr>msgToolCalls := calls\<rparr>]\<rparr>"
  have kept1: "list_all (stamped_from P) (lsEvidence ls1)" using Suc.prems(2) by (simp add: ls1_def)
  show ?case
  proof (cases "calls = []")
    case True
    with cm Suc.prems show ?thesis
      by (auto simp: Let_def calls_def ls1_def split: prod.splits option.splits)
  next
    case False
    with cm Suc.prems(1) obtain w2 d rs ls2 w3 where disp: "dispatch_calls e calls [] ls1 w2 = (Inr (d, rs, ls2), w3)"
      and rest: "(let ls3 = (if rs \<noteq> [] then ls2\<lparr>lsMsgs := lsMsgs ls2 @ [\<lparr>msgRole = ''tool'', msgContent = [],
                   msgToolCalls = [], msgToolResults = rs\<rparr>]\<rparr> else ls2)
                 in if d then (Inr ls3, w3) else reason_loop e runID n (Suc step) ls3 w3) = (Inr ls', w')"
      by (auto simp: Let_def calls_def ls1_def split: prod.splits option.splits sum.splits)
    have kept2: "list_all (stamped_from P) (lsEvidence ls2)"
      by (rule dispatch_evidence [OF assms disp kept1])
    from rest kept2 show ?thesis by (auto simp: Let_def intro: Suc.IH split: if_splits)
  qed
qed simp

lemma finish_run_evidence:
  assumes "finish_run e rd sig s ls st = (Inr (Some ps), st')"
  shows "psEvidence ps = lsEvidence ls"
proof -
  have c: "conclude e rd qs st = (Inr (Some ps), st1) \<Longrightarrow> ps = qs" for qs st1
    using conclude_cases [of e rd qs st "Inr (Some ps)" st1] by simp
  have p: "publish e qs st1 = (Inr (Some ps), st2) \<Longrightarrow> ps = qs" for qs st1 st2
    using publish_cases [of e qs st1 "Inr (Some ps)" st2] by simp
  have sel: "psEvidence (set_phase ph qs) = psEvidence qs" "psEvidence (refuse r qs) = psEvidence qs" for ph qs r
    by (simp_all add: set_phase_def set_reason_def refuse_def)
  from assms show ?thesis
    unfolding finish_run_def Let_def
    by (auto simp: sel dest!: c p split: if_splits option.splits sum.splits prod.splits)
qed

lemma propose_evidence:
  assumes tools: "tools_return e P"
    and run: "propose e rd sig st = (Inr (Some ps), st')"
  shows "list_all (stamped_from P) (psEvidence ps)"
  using run
proof (cases rule: propose_cases)
  case (run st1 w)
  then obtain s w0 ls w1 st0 where "assemble e rd sig (esWorld st) = (Inr s, w0)"
    and loop: "reason_loop e (run_id rd sig) (nat (enMaxSteps e)) 0 (initial_loop e rd sig s) w0 = (Inr ls, w1)"
    and fin: "finish_run e rd sig s ls st0 = (Inr (Some ps), st1)"
    by (auto simp: propose_run_def split: prod.splits sum.splits)
  have "lsEvidence (initial_loop e rd sig s) = []" by (simp add: initial_loop_def)
  with reason_loop_evidence [OF tools loop] finish_run_evidence [OF fin] show ?thesis by simp
qed auto

subsection \<open>Properties\<close>

text \<open>C7: what grounds a delivered set is authored and observed: with the production tools, a set that passes
  the gate rests on a live reference whose backend answered with data, whose subject is the origin
  or a node of the snapshot's topology, and that subject is one an authored query or an authored
  subject rule names. The model chooses what to ask and never what an answer is about.\<close>

theorem grounding_is_authored:
  assumes "tools_return e (gathered pl)" "propose e rd sig st = (Inr (Some ps), st')" "set_gate_passed ps"
  shows "\<exists>ref s. ref \<in> set (psEvidence ps) \<and> evLive ref \<and> psSAOSnapshot ps = Some s \<and>
    (evSubject ref = ssOriginService (saoSignal s) \<or> (\<exists>n \<in> set (topo_nodes (saoTopology s)). nsName n = evSubject ref)) \<and>
    evSubject ref \<in> authored_nodes pl \<and> backend_answered pl"
proof -
  from propose_delivery [OF assms(2)] assms(3) have "deliverable e sig ps" by simp
  then have "anyCoherentLive (recommendedEvidence ps) (psSAOSnapshot ps)"
    by (simp add: deliverable_def gate_passed_iff)
  then obtain ref s where ref: "ref \<in> set (psEvidence ps)" "evLive ref" "psSAOSnapshot ps = Some s" "evSubject ref \<noteq> []"
    "evSubject ref = ssOriginService (saoSignal s) \<or> (\<exists>n \<in> set (topo_nodes (saoTopology s)). nsName n = evSubject ref)"
    by (elim coherentLive_sound)
  from propose_evidence [OF assms(1,2)] ref(1) obtain r k where r: "gathered pl r" "ref = r\<lparr>evKey := k\<rparr>"
    by (auto simp: list_all_iff stamped_from_def)
  with gathered_live [OF r(1)] ref(2,4) have "backend_answered pl" "evSubject ref \<in> authored_nodes pl" by auto
  with ref show ?thesis by blast
qed

definition example_planes :: planes where
  "example_planes = \<lparr>plInstant = (\<lambda>_. Inr [''1'']), plAsString = Some,
     plQueries = [''up'' \<mapsto> \<lparr>eqName = ''up'', eqQuery = ''up{}'', eqSubject = ''checkout''\<rparr>],
     plLogs = (\<lambda>_ _ _. Answered []), plTraces = (\<lambda>_ _ _. Answered []), plPods = (\<lambda>_ _. Inr []),
     plParse = (\<lambda>_. Inl []), plIndex = []\<rparr>"

lemma scripted_gathers: "tools_return (scripted p r) (gathered example_planes)"
proof -
  have "gathered example_planes example_ref"
    by (rule by_metrics [of _ "''up''"]) (simp add: metrics_run_def example_planes_def tool_ref_def example_ref_def Let_def)
  then show ?thesis by (simp add: tools_return_def)
qed

theorem grounding_is_authored_witness:
  "\<exists>ps ref. esPublished (snd (propose (scripted one_proposal True) (example_readings 5) example_detection fresh_engine)) = [ps] \<and>
     ref \<in> set (psEvidence ps) \<and> evLive ref \<and> evSubject ref \<in> authored_nodes example_planes"
proof -
  obtain g st' where g: "propose (scripted one_proposal True) (example_readings 5) example_detection fresh_engine =
      (Inr (Some g), st')" "set_gate_passed g" "esPublished st' = [g]"
    using scripted_one [of True 5] by auto
  from grounding_is_authored [OF scripted_gathers g(1,2)] g(1,3) show ?thesis by auto
qed

end
