(* ===== verification/Forge.thy ===== *)
theory Forge
  imports Executor
begin

text \<open>
  Publishing a corrective release as a pull request (\<^verbatim>\<open>src/internal/forge/github/github.go\<close>), and the release
  verb of the actuator run over it.

  The server is an argument: a function from the requests already sent and the next one to a transport
  error or a response, so that every theorem holds of any server whatever. The client's state is the
  list of requests sent, oldest first. Decoding a response body is an argument.
\<close>

subsection \<open>Requests\<close>

datatype http_method = GET | POST | PUT | PATCH | DELETE

text \<open>A target is handed over as a string, or rendered from a path and a query.\<close>

datatype target = RawTarget string | UrlTarget string "(string \<times> string) list"

record request =
  rqMethod :: http_method
  rqTarget :: target
  rqBody :: "(string \<times> string) list"

record response =
  rsStatus :: nat
  rsBody :: string

record pull =
  plNumber :: int
  plState :: string
  plMergedAt :: "string option"
  plHTMLURL :: string

record github_client =
  ghRepo :: string
  ghBranch :: string

type_synonym server = "request list \<Rightarrow> request \<Rightarrow> string + response"

record body_codec =
  bcRef :: "string \<Rightarrow> string + string"
  bcContents :: "string \<Rightarrow> string + string \<times> string"
  bcPulls :: "string \<Rightarrow> string + pull list"
  bcPull :: "string \<Rightarrow> string + pull"
  bcBase64 :: "string \<Rightarrow> string + string"
  bcEncode :: "string \<Rightarrow> string"

datatype forge_error = ErrNotFound | ErrForgeStatus nat | ForgeTransport string | ForgeDecode string
  | ForgeBaseRef string forge_error

definition branchFor :: "string \<Rightarrow> string" where
  "branchFor key = ''thump/'' @ map (\<lambda>c. if c = CHR '':'' then CHR ''-'' else c) key"

definition base_branch :: "github_client \<Rightarrow> string" where
  "base_branch c = (if ghBranch c \<noteq> [] then ghBranch c else ''main'')"

definition owner :: "github_client \<Rightarrow> string" where
  "owner c = takeWhile (\<lambda>x. x \<noteq> CHR ''/'') (ghRepo c)"

definition github_do ::
  "server \<Rightarrow> http_method \<Rightarrow> target \<Rightarrow> (string \<times> string) list \<Rightarrow> request list \<Rightarrow> (forge_error + response) \<times> request list" where
  "github_do srv m t body sent =
     (let r = \<lparr>rqMethod = m, rqTarget = t, rqBody = body\<rparr>
      in (case srv sent r of Inl e \<Rightarrow> Inl (ForgeTransport e) | Inr resp \<Rightarrow> Inr resp, sent @ [r]))"

definition statusError :: "response \<Rightarrow> forge_error" where
  "statusError resp = (if rsStatus resp = 404 then ErrNotFound else ErrForgeStatus (rsStatus resp))"

text \<open>A response outside the 2xx range is an error, otherwise its body is decoded.\<close>

definition expect :: "(string \<Rightarrow> forge_error + 'a) \<Rightarrow> forge_error + response \<Rightarrow> forge_error + 'a" where
  "expect decode r = res_bind r (\<lambda>resp. if rsStatus resp div 100 \<noteq> 2 then Inl (statusError resp) else decode (rsBody resp))"

definition decoded :: "(string \<Rightarrow> string + 'a) \<Rightarrow> string \<Rightarrow> forge_error + 'a" where
  "decoded f b = (case f b of Inl e \<Rightarrow> Inl (ForgeDecode e) | Inr x \<Rightarrow> Inr x)"

definition refSHA ::
  "server \<Rightarrow> body_codec \<Rightarrow> github_client \<Rightarrow> string \<Rightarrow> request list \<Rightarrow> (forge_error + string) \<times> request list" where
  "refSHA srv bc c ref sent =
     (let (r, sent) = github_do srv GET (RawTarget (''/repos/'' @ ghRepo c @ ''/git/ref/heads/'' @ ref)) [] sent
      in (expect (decoded (bcRef bc)) r, sent))"

definition createRef ::
  "server \<Rightarrow> github_client \<Rightarrow> string \<Rightarrow> string \<Rightarrow> request list \<Rightarrow> (forge_error + unit) \<times> request list" where
  "createRef srv c branch sha sent =
     (let (r, sent) = github_do srv POST (RawTarget (''/repos/'' @ ghRepo c @ ''/git/refs''))
                        [(''ref'', ''refs/heads/'' @ branch), (''sha'', sha)] sent
      in (expect (\<lambda>_. Inr ()) r, sent))"

definition deleteRef ::
  "server \<Rightarrow> github_client \<Rightarrow> string \<Rightarrow> request list \<Rightarrow> (forge_error + unit) \<times> request list" where
  "deleteRef srv c branch sent =
     (let (r, sent) = github_do srv DELETE (RawTarget (''/repos/'' @ ghRepo c @ ''/git/refs/heads/'' @ branch)) [] sent
      in (expect (\<lambda>_. Inr ()) r, sent))"

definition blobAt ::
  "server \<Rightarrow> body_codec \<Rightarrow> github_client \<Rightarrow> string \<Rightarrow> string \<Rightarrow> request list \<Rightarrow>
   (forge_error + string \<times> string) \<times> request list" where
  "blobAt srv bc c path ref sent =
     (let (r, sent) = github_do srv GET (UrlTarget (''/repos/'' @ ghRepo c @ ''/contents/'' @ path) [(''ref'', ref)]) [] sent
      in (expect (\<lambda>b. res_bind (decoded (bcContents bc) b) (\<lambda>(content, sha).
                   res_bind (decoded (bcBase64 bc) (filter (\<lambda>x. x \<noteq> CHR 0x0A) content)) (\<lambda>plain. Inr (plain, sha)))) r,
          sent))"

definition putContents ::
  "server \<Rightarrow> body_codec \<Rightarrow> github_client \<Rightarrow> string \<Rightarrow> string \<Rightarrow> string \<Rightarrow> string \<Rightarrow> request list \<Rightarrow>
   (forge_error + unit) \<times> request list" where
  "putContents srv bc c path branch content sha sent =
     (let (r, sent) = github_do srv PUT (RawTarget (''/repos/'' @ ghRepo c @ ''/contents/'' @ path))
                        ([(''message'', ''thump: '' @ branch), (''content'', bcEncode bc content), (''branch'', branch)] @
                         (if sha \<noteq> [] then [(''sha'', sha)] else [])) sent
      in (expect (\<lambda>_. Inr ()) r, sent))"

definition findPull ::
  "server \<Rightarrow> body_codec \<Rightarrow> github_client \<Rightarrow> string \<Rightarrow> string \<Rightarrow> request list \<Rightarrow>
   (forge_error + pull option) \<times> request list" where
  "findPull srv bc c branch state sent =
     (let (r, sent) = github_do srv GET (UrlTarget (''/repos/'' @ ghRepo c @ ''/pulls'')
                        [(''head'', owner c @ '':'' @ branch), (''state'', state)]) [] sent
      in (expect (\<lambda>b. res_bind (decoded (bcPulls bc) b) (\<lambda>ps. Inr (case ps of [] \<Rightarrow> None | p # _ \<Rightarrow> Some p))) r, sent))"

definition createPull ::
  "server \<Rightarrow> body_codec \<Rightarrow> github_client \<Rightarrow> string \<Rightarrow> string \<Rightarrow> string \<Rightarrow> request list \<Rightarrow>
   (forge_error + string) \<times> request list" where
  "createPull srv bc c branch bas notes sent =
     (let (r, sent) = github_do srv POST (RawTarget (''/repos/'' @ ghRepo c @ ''/pulls''))
                        [(''title'', branch), (''head'', branch), (''base'', bas), (''body'', notes)] sent
      in (expect (\<lambda>b. res_bind (decoded (bcPull bc) b) (\<lambda>p. Inr (plHTMLURL p))) r, sent))"

definition closePull ::
  "server \<Rightarrow> github_client \<Rightarrow> int \<Rightarrow> request list \<Rightarrow> (forge_error + unit) \<times> request list" where
  "closePull srv c number sent =
     (let (r, sent) = github_do srv PATCH (RawTarget (''/repos/'' @ ghRepo c @ ''/pulls/'' @ show_int number))
                        [(''state'', ''closed'')] sent
      in (expect (\<lambda>_. Inr ()) r, sent))"

definition forge_read ::
  "server \<Rightarrow> body_codec \<Rightarrow> github_client \<Rightarrow> string \<Rightarrow> request list \<Rightarrow> (forge_error + string) \<times> request list" where
  "forge_read srv bc c path sent =
     (let (r, sent) = blobAt srv bc c path (base_branch c) sent in (res_bind r (\<lambda>(content, _). Inr content), sent))"

text \<open>The branch is made from the base when it is not there yet.\<close>

definition ensure_branch ::
  "server \<Rightarrow> body_codec \<Rightarrow> github_client \<Rightarrow> string \<Rightarrow> request list \<Rightarrow> (forge_error + unit) \<times> request list" where
  "ensure_branch srv bc c branch sent =
     (case refSHA srv bc c branch sent of
        (Inr _, sent) \<Rightarrow> (Inr (), sent)
      | (Inl e, sent) \<Rightarrow>
          if e \<noteq> ErrNotFound then (Inl e, sent)
          else (case refSHA srv bc c (base_branch c) sent of
                  (Inl e, sent) \<Rightarrow> (Inl (ForgeBaseRef (base_branch c) e), sent)
                | (Inr sha, sent) \<Rightarrow> createRef srv c branch sha sent))"

text \<open>The file is committed unless the branch already holds the same bytes.\<close>

definition ensure_content ::
  "server \<Rightarrow> body_codec \<Rightarrow> github_client \<Rightarrow> release \<Rightarrow> string \<Rightarrow> request list \<Rightarrow> (forge_error + unit) \<times> request list" where
  "ensure_content srv bc c rel branch sent =
     (case blobAt srv bc c (relPath rel) branch sent of
        (r, sent) \<Rightarrow>
          (case r of
             Inl e \<Rightarrow> if e \<noteq> ErrNotFound then (Inl e, sent)
                      else if relContent rel \<noteq> [] then putContents srv bc c (relPath rel) branch (relContent rel) [] sent
                      else (Inr (), sent)
           | Inr (current, sha) \<Rightarrow>
               if current \<noteq> relContent rel then putContents srv bc c (relPath rel) branch (relContent rel) sha sent
               else (Inr (), sent)))"

definition forge_cut ::
  "server \<Rightarrow> body_codec \<Rightarrow> github_client \<Rightarrow> release \<Rightarrow> request list \<Rightarrow> (forge_error + string) \<times> request list" where
  "forge_cut srv bc c rel sent =
     (let branch = branchFor (relKey rel)
      in case ensure_branch srv bc c branch sent of
           (Inl e, sent) \<Rightarrow> (Inl e, sent)
         | (Inr _, sent) \<Rightarrow>
             (case ensure_content srv bc c rel branch sent of
                (Inl e, sent) \<Rightarrow> (Inl e, sent)
              | (Inr _, sent) \<Rightarrow>
                  (case findPull srv bc c branch ''open'' sent of
                     (Inl e, sent) \<Rightarrow> (Inl e, sent)
                   | (Inr (Some pr), sent) \<Rightarrow> (Inr (plHTMLURL pr), sent)
                   | (Inr None, sent) \<Rightarrow> createPull srv bc c branch (base_branch c) (relNotes rel) sent)))"

definition forge_withdraw ::
  "server \<Rightarrow> body_codec \<Rightarrow> github_client \<Rightarrow> string \<Rightarrow> request list \<Rightarrow> (forge_error + bool) \<times> request list" where
  "forge_withdraw srv bc c key sent =
     (let branch = branchFor key
      in case findPull srv bc c branch ''all'' sent of
           (Inl e, sent) \<Rightarrow> (Inl e, sent)
         | (Inr None, sent) \<Rightarrow> (Inr False, sent)
         | (Inr (Some pr), sent) \<Rightarrow>
             if plMergedAt pr \<noteq> None then (Inr True, sent)
             else if plState pr = ''open'' then
               (case closePull srv c (plNumber pr) sent of
                  (Inl e, sent) \<Rightarrow> (Inl e, sent)
                | (Inr _, sent) \<Rightarrow>
                    (case deleteRef srv c branch sent of
                       (Inl e, sent) \<Rightarrow> (Inl e, sent)
                     | (Inr _, sent) \<Rightarrow> (Inr False, sent)))
             else (Inr False, sent))"

text \<open>The client as the actuator's forge; \<open>show_err\<close> renders an error.\<close>

definition github_forge :: "(forge_error \<Rightarrow> string) \<Rightarrow> server \<Rightarrow> body_codec \<Rightarrow> github_client \<Rightarrow> request list forge" where
  "github_forge show_err srv bc c =
     \<lparr>forgeRead = (\<lambda>path sent. apfst (map_sum show_err (\<lambda>x. x)) (forge_read srv bc c path sent)),
      forgeCut = (\<lambda>rel sent. apfst (map_sum show_err (\<lambda>x. x)) (forge_cut srv bc c rel sent))\<rparr>"

subsection \<open>What a call may send\<close>

fun target_path :: "target \<Rightarrow> string" where
  "target_path (RawTarget p) = p"
| "target_path (UrlTarget p _) = p"

definition within_repo :: "github_client \<Rightarrow> request \<Rightarrow> bool" where
  "within_repo c r \<longleftrightarrow> (\<exists>rest. target_path (rqTarget r) = ''/repos/'' @ ghRepo c @ ''/'' @ rest)"

definition create_request :: "github_client \<Rightarrow> string \<Rightarrow> string \<Rightarrow> request" where
  "create_request c branch sha =
     \<lparr>rqMethod = POST, rqTarget = RawTarget (''/repos/'' @ ghRepo c @ ''/git/refs''),
      rqBody = [(''ref'', ''refs/heads/'' @ branch), (''sha'', sha)]\<rparr>"

definition open_request :: "github_client \<Rightarrow> string \<Rightarrow> string \<Rightarrow> request" where
  "open_request c branch notes =
     \<lparr>rqMethod = POST, rqTarget = RawTarget (''/repos/'' @ ghRepo c @ ''/pulls''),
      rqBody = [(''title'', branch), (''head'', branch), (''base'', base_branch c), (''body'', notes)]\<rparr>"

definition commits_to :: "github_client \<Rightarrow> string \<Rightarrow> string \<Rightarrow> request \<Rightarrow> bool" where
  "commits_to c branch path r \<longleftrightarrow>
     rqMethod r = PUT \<and> rqTarget r = RawTarget (''/repos/'' @ ghRepo c @ ''/contents/'' @ path) \<and>
     map_of (rqBody r) ''branch'' = Some branch"

definition writes :: "request list \<Rightarrow> request list" where
  "writes rs = filter (\<lambda>r. rqMethod r \<noteq> GET) rs"

text \<open>The calls that only read, and what each of the others sends.\<close>

definition reads_only :: "github_client \<Rightarrow> request list \<Rightarrow> request list \<Rightarrow> bool" where
  "reads_only c sent sent' \<longleftrightarrow> (\<exists>r. sent' = sent @ [r] \<and> rqMethod r = GET \<and> within_repo c r)"

lemma reading_calls:
  "reads_only c sent (snd (refSHA srv bc c ref sent))" "reads_only c sent (snd (blobAt srv bc c path ref sent))"
  "reads_only c sent (snd (findPull srv bc c branch state sent))"
  by (simp_all add: reads_only_def refSHA_def blobAt_def findPull_def github_do_def Let_def within_repo_def)

lemma reading_calls_eq:
  "refSHA srv bc c ref sent = (r, sent') \<Longrightarrow> reads_only c sent sent'"
  "blobAt srv bc c path ref sent = (r2, sent') \<Longrightarrow> reads_only c sent sent'"
  "findPull srv bc c branch state sent = (r3, sent') \<Longrightarrow> reads_only c sent sent'"
  using reading_calls by (metis snd_conv)+

lemma writing_calls:
  "snd (createRef srv c branch sha sent) = sent @ [create_request c branch sha]"
  "\<exists>r. snd (putContents srv bc c path branch content sha sent) = sent @ [r] \<and> commits_to c branch path r"
  "snd (createPull srv bc c branch (base_branch c) notes sent) = sent @ [open_request c branch notes]"
  by (simp_all add: createRef_def putContents_def createPull_def github_do_def Let_def create_request_def open_request_def commits_to_def)

text \<open>What a cut may leave behind: at most one new branch, one commit on it, one pull request from it, in this order.\<close>

definition cut_trace :: "github_client \<Rightarrow> release \<Rightarrow> request list \<Rightarrow> bool" where
  "cut_trace c rel new \<longleftrightarrow>
     list_all (within_repo c) new \<and> length new \<le> 7 \<and>
     (\<exists>a b d. writes new = a @ b @ d \<and>
        (a = [] \<or> (\<exists>sha. a = [create_request c (branchFor (relKey rel)) sha])) \<and>
        (b = [] \<or> (\<exists>r. b = [r] \<and> commits_to c (branchFor (relKey rel)) (relPath rel) r)) \<and>
        (d = [] \<or> d = [open_request c (branchFor (relKey rel)) (relNotes rel)]))"

lemma write_within:
  "within_repo c (create_request c branch sha)" "within_repo c (open_request c branch notes)"
  "commits_to c branch path r \<Longrightarrow> within_repo c r"
  by (simp_all add: within_repo_def create_request_def open_request_def commits_to_def)

lemma write_methods [simp]:
  "rqMethod (create_request c branch sha) = POST" "rqMethod (open_request c branch notes) = POST"
  by (simp_all add: create_request_def open_request_def)

lemma commit_method: "commits_to c branch path r \<Longrightarrow> rqMethod r = PUT"
  by (simp add: commits_to_def)

lemma ensure_branch_trace:
  assumes "ensure_branch srv bc c branch sent = (res, sent')"
  shows "\<exists>new. sent' = sent @ new \<and> list_all (within_repo c) new \<and> length new \<le> 3 \<and>
    (writes new = [] \<or> (\<exists>sha. writes new = [create_request c branch sha]))"
proof -
  obtain r1 s1 where 1: "refSHA srv bc c branch sent = (r1, s1)" by fastforce
  obtain r2 s2 where 2: "refSHA srv bc c (base_branch c) s1 = (r2, s2)" by fastforce
  obtain q1 q2 where q: "s1 = sent @ [q1]" "s2 = s1 @ [q2]" "rqMethod q1 = GET" "rqMethod q2 = GET" "within_repo c q1" "within_repo c q2"
    using reading_calls_eq(1) [OF 1] reading_calls_eq(1) [OF 2] by (auto simp: reads_only_def)
  consider "sent' = s1" | "sent' = s2" | sha where "sent' = snd (createRef srv c branch sha s2)"
    using assms 1 2 by (auto simp: ensure_branch_def split: sum.splits if_splits) (metis snd_conv)
  then show ?thesis
    by cases (use q in \<open>auto simp: writing_calls(1) writes_def write_within\<close>)
qed

lemma ensure_content_trace:
  assumes "ensure_content srv bc c rel branch sent = (res, sent')"
  shows "\<exists>new. sent' = sent @ new \<and> list_all (within_repo c) new \<and> length new \<le> 2 \<and>
    (writes new = [] \<or> (\<exists>r. writes new = [r] \<and> commits_to c branch (relPath rel) r))"
proof -
  obtain r1 s1 where 1: "blobAt srv bc c (relPath rel) branch sent = (r1, s1)" by fastforce
  obtain q1 where q: "s1 = sent @ [q1]" "rqMethod q1 = GET" "within_repo c q1"
    using reading_calls_eq(2) [OF 1] by (auto simp: reads_only_def)
  consider "sent' = s1" | sha where "sent' = snd (putContents srv bc c (relPath rel) branch (relContent rel) sha s1)"
    using assms 1 by (auto simp: ensure_content_def split: sum.splits if_splits prod.splits) (metis snd_conv)+
  then show ?thesis
  proof cases
    case (2 sha)
    then obtain r where "sent' = s1 @ [r]" "commits_to c branch (relPath rel) r" using writing_calls(2) by metis
    with q show ?thesis using write_within(3) commit_method by (force simp: writes_def)
  qed (use q in \<open>simp add: writes_def\<close>)
qed

lemma cut_traceI:
  assumes "list_all (within_repo c) n1" "length n1 \<le> 3"
    "writes n1 = [] \<or> (\<exists>sha. writes n1 = [create_request c (branchFor (relKey rel)) sha])"
    "list_all (within_repo c) n2" "length n2 \<le> 2"
    "writes n2 = [] \<or> (\<exists>r. writes n2 = [r] \<and> commits_to c (branchFor (relKey rel)) (relPath rel) r)"
    "list_all (within_repo c) n3" "length n3 \<le> 2"
    "writes n3 = [] \<or> writes n3 = [open_request c (branchFor (relKey rel)) (relNotes rel)]"
  shows "cut_trace c rel (n1 @ n2 @ n3)"
proof -
  have "writes (n1 @ n2 @ n3) = writes n1 @ writes n2 @ writes n3" by (simp add: writes_def)
  then show ?thesis unfolding cut_trace_def using assms by (intro conjI exI) auto
qed

lemma cut_sends:
  assumes "forge_cut srv bc c rel sent = (res, sent')"
  shows "\<exists>new. sent' = sent @ new \<and> cut_trace c rel new"
proof -
  let ?br = "branchFor (relKey rel)"
  obtain r1 s1 where 1: "ensure_branch srv bc c ?br sent = (r1, s1)" by fastforce
  obtain r2 s2 where 2: "ensure_content srv bc c rel ?br s1 = (r2, s2)" by fastforce
  obtain r3 s3 where 3: "findPull srv bc c ?br ''open'' s2 = (r3, s3)" by fastforce
  obtain n1 where n1: "s1 = sent @ n1" "list_all (within_repo c) n1" "length n1 \<le> 3"
      "writes n1 = [] \<or> (\<exists>sha. writes n1 = [create_request c ?br sha])"
    using ensure_branch_trace [OF 1] by blast
  obtain n2 where n2: "s2 = s1 @ n2" "list_all (within_repo c) n2" "length n2 \<le> 2"
      "writes n2 = [] \<or> (\<exists>r. writes n2 = [r] \<and> commits_to c ?br (relPath rel) r)"
    using ensure_content_trace [OF 2] by blast
  obtain q3 where q3: "s3 = s2 @ [q3]" "rqMethod q3 = GET" "within_repo c q3"
    using reading_calls_eq(3) [OF 3] by (auto simp: reads_only_def)
  consider "sent' = s1" | "sent' = s2" | "sent' = s3" | "sent' = s3 @ [open_request c ?br (relNotes rel)]"
  proof -
    have "sent' \<in> {s1, s2, s3, snd (createPull srv bc c ?br (base_branch c) (relNotes rel) s3)}"
      using assms 1 2 3 by (auto simp: forge_cut_def Let_def split: sum.splits option.splits)
    then show thesis using that by (auto simp: writing_calls(3))
  qed
  then show ?thesis
  proof cases
    case 1
    then show ?thesis using n1 cut_traceI [OF n1(2-4), of "[]" "[]"] by (simp add: writes_def)
  next
    case 2
    then show ?thesis using n1(1) n2(1) cut_traceI [OF n1(2-4) n2(2-4), of "[]"] by (simp add: writes_def)
  next
    case 3
    then show ?thesis using n1(1) n2(1) q3 cut_traceI [OF n1(2-4) n2(2-4), of "[q3]"] by (simp add: writes_def)
  next
    case 4
    then show ?thesis using n1(1) n2(1) q3 write_within(2)
        cut_traceI [OF n1(2-4) n2(2-4), of "[q3, open_request c ?br (relNotes rel)]"] by (simp add: writes_def)
  qed
qed

text \<open>The writes of a release, one request at a time.\<close>

definition release_write :: "github_client \<Rightarrow> string \<Rightarrow> request \<Rightarrow> bool" where
  "release_write c branch r \<longleftrightarrow>
     (\<exists>sha. r = create_request c branch sha) \<or> (\<exists>path. commits_to c branch path r) \<or> (\<exists>notes. r = open_request c branch notes)"

definition released :: "github_client \<Rightarrow> string \<Rightarrow> request list \<Rightarrow> request list \<Rightarrow> bool" where
  "released c branch sent sent' \<longleftrightarrow>
     (\<exists>new. sent' = sent @ new \<and> list_all (\<lambda>r. within_repo c r \<and> (rqMethod r = GET \<or> release_write c branch r)) new)"

lemma released_refl [simp]: "released c branch sent sent"
  by (simp add: released_def)

lemma released_trans: "released c branch s t \<Longrightarrow> released c branch t u \<Longrightarrow> released c branch s u"
  by (auto simp: released_def)

lemma cut_released:
  assumes "forge_cut srv bc c rel sent = (res, sent')"
  shows "released c (branchFor (relKey rel)) sent sent'"
proof -
  obtain new a b d where new: "sent' = sent @ new" "list_all (within_repo c) new" and w: "writes new = a @ b @ d"
    and abd: "a = [] \<or> (\<exists>sha. a = [create_request c (branchFor (relKey rel)) sha])"
      "b = [] \<or> (\<exists>r. b = [r] \<and> commits_to c (branchFor (relKey rel)) (relPath rel) r)"
      "d = [] \<or> d = [open_request c (branchFor (relKey rel)) (relNotes rel)]"
    using cut_sends [OF assms] unfolding cut_trace_def by blast
  have "release_write c (branchFor (relKey rel)) r" if "r \<in> set new" "rqMethod r \<noteq> GET" for r
  proof -
    have "r \<in> set (writes new)" using that by (simp add: writes_def)
    then show ?thesis unfolding w release_write_def using abd by auto
  qed
  then show ?thesis using new by (auto simp: released_def list_all_iff)
qed

lemma read_released: "forge_read srv bc c path sent = (res, sent') \<Longrightarrow> released c branch sent sent'"
  using reading_calls(2) [of c sent srv bc path "base_branch c"]
  by (auto simp: forge_read_def reads_only_def released_def split: prod.splits)

subsection \<open>The forge as the actuator relies on it\<close>

text \<open>A cluster client that leaves the forge's state alone.\<close>

definition silent_kube :: "'w kube \<Rightarrow> bool" where
  "silent_kube k \<longleftrightarrow> (\<forall>ns sel cmd w. snd (kubeExec k ns sel cmd w) = w) \<and>
     (\<forall>g v r ns n j w. snd (kubePatch k g v r ns n j w) = w) \<and> (\<forall>ns cm key w. snd (kubeGetConfigMapKey k ns cm key w) = w)"

lemma silent_flag: "silent_kube (dspKube d) \<Longrightarrow> snd (do_flagVariant ns cm key flag variant d w) = w"
  by (auto simp: do_flagVariant_def silent_kube_def split: prod.splits sum.splits) (metis snd_conv)+

text \<open>
  The contract of a forge: what a read may change any release may, and a cut changes only what its
  own key may. Every operation of a contract then stays within the key of its reference and direction.
\<close>

locale confined_forge =
  fixes frg :: "'w forge" and reach :: "string \<Rightarrow> 'w \<Rightarrow> 'w \<Rightarrow> bool"
  assumes reach_refl: "reach key w w"
    and reach_trans: "reach key u v \<Longrightarrow> reach key v w \<Longrightarrow> reach key u w"
    and read_confined: "reach key w (snd (forgeRead frg path w))"
    and cut_confined: "reach (relKey rel) w (snd (forgeCut frg rel w))"
begin

lemma release_confined:
  assumes "dspForge d = Some frg"
  shows "reach (releaseKey (dspRef d) (dspReverse d)) w (snd (do_maintenanceRelease path flag variant d w))"
proof -
  let ?rel = "\<lambda>u. \<lparr>relKey = releaseKey (dspRef d) (dspReverse d), relPath = path, relContent = u, relNotes = dspNotes d\<rparr>"
  obtain r1 w1 where 1: "forgeRead frg path w = (r1, w1)" by fastforce
  have rd: "reach (releaseKey (dspRef d) (dspReverse d)) w w1" using read_confined [of _ w path] 1 by simp
  show ?thesis
  proof (cases "\<exists>cur u. r1 = Inr cur \<and> setDefaultVariant (dspParse d) (dspRender d) cur flag variant = Inr u")
    case True
    then obtain cur u where u: "r1 = Inr cur" "setDefaultVariant (dspParse d) (dspRender d) cur flag variant = Inr u" by blast
    have "snd (do_maintenanceRelease path flag variant d w) = snd (forgeCut frg (?rel u) w1)"
      using u 1 assms by (simp add: do_maintenanceRelease_def split: prod.splits sum.splits)
    then show ?thesis using reach_trans [OF rd] cut_confined [of "?rel u" w1] by simp
  next
    case False
    then have "snd (do_maintenanceRelease path flag variant d w) = w1"
      using 1 assms by (auto simp: do_maintenanceRelease_def split: sum.splits)
    then show ?thesis using rd by simp
  qed
qed

lemma op_confined:
  assumes "dspForge d = Some frg" "silent_kube (dspKube d)"
  shows "reach (releaseKey (dspRef d) (dspReverse d)) w (snd (op_do x d w))"
    "reach (releaseKey (dspRef d) (dspReverse d)) w (snd (seq_do xs d w))"
  using assms
proof (induction x d w and xs d w rule: op_do_seq_do.induct)
  case (8 x xs d w)
  show ?case
  proof (cases "op_do x d w")
    case (Pair r w1)
    show ?thesis
    proof (cases r)
      case None
      with 8 Pair have "reach (releaseKey (dspRef d) (dspReverse d)) w w1"
        "reach (releaseKey (dspRef d) (dspReverse d)) w1 (snd (seq_do xs d w1))" by simp_all
      with None Pair show ?thesis using reach_trans by simp
    qed (use 8 Pair in simp)
  qed
qed (simp_all add: silent_kube_def silent_flag [unfolded silent_kube_def] release_confined reach_refl)

lemma run_confined:
  assumes "runner_run parse rend stamp \<lparr>rnKube = k, rnForge = Some frg, rnBindings = b\<rparr> ref reverse notes w = (res, w')" "silent_kube k"
  shows "reach (releaseKey ref reverse) w w'"
proof (cases "b ref")
  case (Some bd)
  let ?d = "\<lparr>dspKube = k, dspForge = Some frg, dspRef = ref, dspReverse = reverse,
              dspNotes = notes, dspParse = parse, dspRender = rend, dspStamp = stamp\<rparr>"
  have "w' = snd (op_do (if reverse then bdReverse bd else bdForward bd) ?d w)"
    using assms(1) Some by (auto simp: runner_run_def Let_def split: prod.splits option.splits)
  then show ?thesis using op_confined(1) [of ?d w] assms(2) by simp
qed (use assms(1) reach_refl in \<open>simp add: runner_run_def\<close>)

end

lemma cut_released_snd: "released c (branchFor (relKey rel)) sent (snd (forge_cut srv bc c rel sent))"
  using cut_released [of srv bc c rel sent] by (cases "forge_cut srv bc c rel sent") simp

lemma read_released_snd: "released c branch sent (snd (forge_read srv bc c path sent))"
  using read_released [of srv bc c path sent] by (cases "forge_read srv bc c path sent") simp

interpretation gh: confined_forge "github_forge show_err srv bc c" "\<lambda>key. released c (branchFor key)" for show_err srv bc c
  by unfold_locales
    (simp_all add: github_forge_def cut_released_snd read_released_snd released_trans [of c])

lemma branch_not_base: "take 6 (base_branch c) \<noteq> ''thump/'' \<Longrightarrow> branchFor key \<noteq> base_branch c"
proof
  assume "take 6 (base_branch c) \<noteq> ''thump/''" "branchFor key = base_branch c"
  then have "take 6 (branchFor key) \<noteq> ''thump/''" by simp
  then show False by (simp add: branchFor_def)
qed


definition close_request :: "github_client \<Rightarrow> pull \<Rightarrow> request" where
  "close_request c pr =
     \<lparr>rqMethod = PATCH, rqTarget = RawTarget (''/repos/'' @ ghRepo c @ ''/pulls/'' @ show_int (plNumber pr)),
      rqBody = [(''state'', ''closed'')]\<rparr>"

definition delete_request :: "github_client \<Rightarrow> string \<Rightarrow> request" where
  "delete_request c branch =
     \<lparr>rqMethod = DELETE, rqTarget = RawTarget (''/repos/'' @ ghRepo c @ ''/git/refs/heads/'' @ branch), rqBody = []\<rparr>"

lemma withdraw_calls:
  "snd (closePull srv c (plNumber pr) sent) = sent @ [close_request c pr]"
  "snd (deleteRef srv c branch sent) = sent @ [delete_request c branch]"
  by (simp_all add: closePull_def deleteRef_def github_do_def Let_def close_request_def delete_request_def)

text \<open>withdrawing a release is safe and exact: it reports the release accepted exactly when the pull request it
  finds is merged, and then it sends nothing but the lookup; it writes only against an open, unmerged
  pull request, closing that one first and deleting its branch only once the close succeeded.\<close>

theorem withdraw_spares_merged:
  fixes srv bc c key sent
  defines "found \<equiv> fst (findPull srv bc c (branchFor key) ''all'' sent)"
  assumes "forge_withdraw srv bc c key sent = (res, sent')"
  shows "(res = Inr True \<longleftrightarrow> (\<exists>pr. found = Inr (Some pr) \<and> plMergedAt pr \<noteq> None)) \<and>
    (\<exists>q new. sent' = sent @ q # new \<and> rqMethod q = GET \<and>
      (new = [] \<and> (\<forall>pr. found = Inr (Some pr) \<longrightarrow> plMergedAt pr \<noteq> None \<or> plState pr \<noteq> ''open'') \<or>
       (\<exists>pr. found = Inr (Some pr) \<and> plMergedAt pr = None \<and> plState pr = ''open'' \<and>
          (if isl (fst (closePull srv c (plNumber pr) (sent @ [q]))) then new = [close_request c pr]
           else new = [close_request c pr, delete_request c (branchFor key)]))))"
proof -
  let ?br = "branchFor key"
  obtain r1 s1 where 1: "findPull srv bc c ?br ''all'' sent = (r1, s1)" by fastforce
  obtain q where q: "s1 = sent @ [q]" "rqMethod q = GET" using reading_calls_eq(3) [OF 1] by (auto simp: reads_only_def)
  have f: "found = r1" using 1 by (simp add: found_def)
  consider (quiet) "\<nexists>pr. r1 = Inr (Some pr)" | (over) pr where "r1 = Inr (Some pr)" "plMergedAt pr \<noteq> None \<or> plState pr \<noteq> ''open''"
    | (live) pr where "r1 = Inr (Some pr)" "plMergedAt pr = None" "plState pr = ''open''" by blast
  then show ?thesis
  proof cases
    case quiet
    then have "sent' = s1 \<and> res \<noteq> Inr True" using assms(2) 1 by (auto simp: forge_withdraw_def split: sum.splits option.splits)
    with quiet show ?thesis unfolding f using q by auto
  next
    case over
    then have "sent' = s1 \<and> (res = Inr True \<longleftrightarrow> plMergedAt pr \<noteq> None)"
      using assms(2) 1 by (auto simp: forge_withdraw_def split: if_splits)
    with over show ?thesis unfolding f using q by auto
  next
    case live
    obtain r2 s2 where 2: "closePull srv c (plNumber pr) s1 = (r2, s2)" by fastforce
    obtain r3 s3 where 3: "deleteRef srv c ?br s2 = (r3, s3)" by fastforce
    have s: "s2 = s1 @ [close_request c pr]" "s3 = s2 @ [delete_request c ?br]"
      using withdraw_calls(1) [of srv c pr s1] withdraw_calls(2) [of srv c ?br s2] 2 3 by simp_all
    have "res \<noteq> Inr True \<and> sent' = (if isl r2 then s2 else s3)"
      using assms(2) 1 2 3 live by (auto simp: forge_withdraw_def split: sum.splits)
    with live s q 2 show ?thesis unfolding f by auto
  qed
qed

text \<open>a redelivered release touches nothing: when the release branch exists, holds the same bytes and has an open
  pull request, cutting the release again sends three reads and no write, and returns that pull request.\<close>

theorem cut_redelivery_reads_only:
  assumes "refSHA srv bc c (branchFor (relKey rel)) sent = (Inr sha, s1)"
    "blobAt srv bc c (relPath rel) (branchFor (relKey rel)) s1 = (Inr (relContent rel, blob), s2)"
    "findPull srv bc c (branchFor (relKey rel)) ''open'' s2 = (Inr (Some pr), s3)"
  shows "forge_cut srv bc c rel sent = (Inr (plHTMLURL pr), s3) \<and> (\<exists>new. s3 = sent @ new \<and> length new = 3 \<and> writes new = [])"
proof -
  have "forge_cut srv bc c rel sent = (Inr (plHTMLURL pr), s3)"
    using assms by (simp add: forge_cut_def Let_def ensure_branch_def ensure_content_def)
  moreover obtain q1 q2 q3 where "s3 = sent @ [q1, q2, q3]" "rqMethod q1 = GET" "rqMethod q2 = GET" "rqMethod q3 = GET"
    using reading_calls_eq(1) [OF assms(1)] reading_calls_eq(2) [OF assms(2)] reading_calls_eq(3) [OF assms(3)]
    by (auto simp: reads_only_def)
  ultimately show ?thesis by (auto simp: writes_def)
qed

subsection \<open>A server\<close>

text \<open>A server on which the branch exists, holds \<open>x\<close>, and its pull request is open until it is closed; deleting fails.\<close>

definition example_pull :: "string \<Rightarrow> pull" where
  "example_pull st = \<lparr>plNumber = 7, plState = st, plMergedAt = None, plHTMLURL = ''url''\<rparr>"

definition example_client :: github_client where
  "example_client = \<lparr>ghRepo = ''o/r'', ghBranch = []\<rparr>"

definition example_codec :: body_codec where
  "example_codec = \<lparr>bcRef = (\<lambda>_. Inr ''sha''), bcContents = (\<lambda>_. Inr (''x'', ''blob'')),
     bcPulls = (\<lambda>b. Inr [example_pull b]), bcPull = (\<lambda>b. Inr (example_pull b)), bcBase64 = Inr, bcEncode = (\<lambda>s. s)\<rparr>"

definition example_server :: server where
  "example_server sent r =
     (if rqMethod r = DELETE then Inr \<lparr>rsStatus = 500, rsBody = []\<rparr>
      else Inr \<lparr>rsStatus = 200,
                rsBody = (if list_ex (\<lambda>q. rqMethod q = PATCH) sent then ''closed'' else ''open'')\<rparr>)"

lemmas example_eval = example_server_def example_codec_def example_client_def example_pull_def refSHA_def blobAt_def findPull_def
  closePull_def deleteRef_def createRef_def putContents_def createPull_def github_do_def expect_def decoded_def Let_def statusError_def
  base_branch_def owner_def branchFor_def

theorem cut_redelivery_reads_only_witness:
  "\<exists>s3. forge_cut example_server example_codec example_client
      \<lparr>relKey = ''k'', relPath = ''p'', relContent = ''x'', relNotes = []\<rparr> [] = (Inr ''url'', s3) \<and>
    (\<exists>new. s3 = [] @ new \<and> length new = 3 \<and> writes new = [])"
proof -
  let ?rel = "\<lparr>relKey = ''k'', relPath = ''p'', relContent = ''x'', relNotes = []\<rparr>"
  obtain s1 where 1: "refSHA example_server example_codec example_client (branchFor (relKey ?rel)) [] = (Inr ''sha'', s1)"
      "list_all (\<lambda>q. rqMethod q = GET) s1" by (simp add: example_eval)
  obtain s2 where 2: "blobAt example_server example_codec example_client (relPath ?rel) (branchFor (relKey ?rel)) s1 =
      (Inr (relContent ?rel, ''blob''), s2)" "list_all (\<lambda>q. rqMethod q = GET) s2" using 1(2) by (simp add: example_eval)
  have "\<not> list_ex (\<lambda>q. rqMethod q = PATCH) s2" using 2(2) by (auto simp: list_ex_iff list_all_iff)
  then obtain s3 where 3: "findPull example_server example_codec example_client (branchFor (relKey ?rel)) ''open'' s2 =
      (Inr (Some (example_pull ''open'')), s3)" by (simp add: example_eval)
  from cut_redelivery_reads_only [OF 1(1) 2(1) 3] show ?thesis by (simp add: example_pull_def)
qed

theorem withdraw_spares_merged_witness:
  "\<exists>q new. snd (forge_withdraw example_server example_codec example_client ''k'' []) = [] @ q # new \<and> rqMethod q = GET \<and>
    new = [close_request example_client (example_pull ''open''), delete_request example_client (branchFor ''k'')]"
proof -
  let ?w = "forge_withdraw example_server example_codec example_client ''k'' []"
  have found: "fst (findPull example_server example_codec example_client (branchFor ''k'') ''all'' []) = Inr (Some (example_pull ''open''))"
    by (simp add: example_eval)
  have closed: "\<not> isl (fst (closePull example_server example_client (plNumber (example_pull ''open'')) sent))" for sent
    by (simp add: example_eval)
  have "?w = (fst ?w, snd ?w)" by simp
  from withdraw_spares_merged [OF this] show ?thesis unfolding found using closed by (auto simp: example_pull_def)
qed

definition silent_cluster :: "request list kube" where
  "silent_cluster = \<lparr>kubeExec = (\<lambda>ns sel cmd w. (None, w)), kubePatch = (\<lambda>_ _ _ _ _ _ w. (None, w)),
     kubeGetConfigMapKey = (\<lambda>_ _ _ w. (Inl ''none'', w))\<rparr>"

definition example_release_runner :: "request list runner" where
  "example_release_runner = \<lparr>rnKube = silent_cluster,
     rnForge = Some (github_forge (\<lambda>_. ''err'') example_server example_codec example_client),
     rnBindings = [''fix'' \<mapsto> \<lparr>bdForward = MaintenanceReleaseOp ''p'' ''cartFailure'' ''on'',
                               bdReverse = MaintenanceReleaseOp ''p'' ''cartFailure'' ''off''\<rparr>]\<rparr>"


text \<open>the branch of a withdrawn release can be stranded: where the pull request closes and the deletion of its branch
  fails, a second withdrawal finds the pull request closed, reports success and never deletes the branch;
  the next release under the key then reuses the old branch.\<close>

theorem withdrawn_branch_stranded:
  "\<exists>s1 s2 s3. forge_withdraw example_server example_codec example_client ''k'' [] = (Inl (ErrForgeStatus 500), s1) \<and>
     forge_withdraw example_server example_codec example_client ''k'' s1 = (Inr False, s2) \<and>
     ensure_branch example_server example_codec example_client (branchFor ''k'') s2 = (Inr (), s3) \<and>
     length (writes s1) = 2 \<and> writes s3 = writes s1"
  by (simp add: forge_withdraw_def ensure_branch_def writes_def example_eval)

text \<open>two releases can share a branch: the undo of one contract and the forward release of another whose name ends
  in \<open>-revert\<close> have different keys and the same branch.\<close>

theorem release_branches_collide:
  "releaseKey ref True \<noteq> releaseKey (ref @ ''-revert'') False \<and>
   branchFor (releaseKey ref True) = branchFor (releaseKey (ref @ ''-revert'') False)"
  by (simp add: releaseKey_def branchFor_def)

end
