(* ===== verification/Breaker.thy ===== *)
theory Breaker
  imports Prelude
begin

text \<open>
  The circuit breaker in front of the metrics exporter (\<^verbatim>\<open>src/internal/otelx/otlpbreaker.go\<close>): once a failure
  proves permanent, exports are skipped until the next probe.

  One export at a time, as the periodic reader calls it; the wrapped exporter's answer and the two
  clock readings, before the call and after a permanent failure, are arguments.
\<close>

datatype grpc_code = CodeOK | CodeCanceled | CodeUnknown | CodeInvalidArgument | CodeDeadlineExceeded | CodeNotFound
  | CodeAlreadyExists | CodePermissionDenied | CodeResourceExhausted | CodeFailedPrecondition | CodeAborted
  | CodeOutOfRange | CodeUnimplemented | CodeInternal | CodeUnavailable | CodeDataLoss | CodeUnauthenticated

definition permanentGRPCFailure :: "grpc_code \<Rightarrow> bool" where
  "permanentGRPCFailure c \<longleftrightarrow>
     c \<notin> {CodeCanceled, CodeDeadlineExceeded, CodeAborted, CodeOutOfRange, CodeUnavailable, CodeDataLoss, CodeResourceExhausted, CodeOK}"

definition probeInterval :: duration where
  "probeInterval = 5 * 60 * second"

record breaker =
  bkOpen :: bool
  bkNextProbe :: time

record export_call =
  ecNow :: time
  ecAnswer :: "grpc_code option"
  ecAfter :: time

text \<open>What an export returns, whether it called through, and the breaker after it; \<open>None\<close> is no error.\<close>

definition breaker_export :: "export_call \<Rightarrow> breaker \<Rightarrow> grpc_code option \<times> bool \<times> breaker" where
  "breaker_export c b =
     (if bkOpen b \<and> ecNow c < bkNextProbe b then (None, False, b)
      else (ecAnswer c, True,
            (case ecAnswer c of
               None \<Rightarrow> b\<lparr>bkOpen := False\<rparr>
             | Some e \<Rightarrow> if permanentGRPCFailure e then b\<lparr>bkOpen := True, bkNextProbe := ecAfter c + probeInterval\<rparr> else b)))"

fun calls_through :: "export_call list \<Rightarrow> breaker \<Rightarrow> export_call list" where
  "calls_through [] b = []"
| "calls_through (c # cs) b =
     (case breaker_export c b of (_, through, b') \<Rightarrow> (if through then [c] else []) @ calls_through cs b')"

text \<open>A clock that does not run backwards across the exports, nor within one.\<close>

fun ordered_calls :: "time \<Rightarrow> export_call list \<Rightarrow> bool" where
  "ordered_calls t [] \<longleftrightarrow> True"
| "ordered_calls t (c # cs) \<longleftrightarrow> t \<le> ecNow c \<and> ecNow c \<le> ecAfter c \<and> ordered_calls (ecAfter c) cs"

lemma calls_through_subset: "set (calls_through cs b) \<subseteq> set cs"
  by (induction cs arbitrary: b) (auto simp: breaker_export_def split: if_splits)

lemma calls_through_open:
  assumes "bkOpen b" "c \<in> set (calls_through cs b)" "ordered_calls t cs"
  shows "bkNextProbe b \<le> ecNow c"
  using assms
proof (induction cs arbitrary: t)
  case (Cons d cs)
  show ?case
  proof (cases "ecNow d < bkNextProbe b")
    case True
    then have "c \<in> set (calls_through cs b)" using Cons.prems by (simp add: breaker_export_def)
    then show ?thesis using Cons by auto
  next
    case False
    have "ecNow d \<le> ecNow c"
    proof -
      have "c \<in> set (d # cs)" using Cons.prems(2) calls_through_subset by blast
      moreover have "ecAfter d \<le> ecNow e" if "e \<in> set cs" for e
      proof -
        have "ordered_calls s xs \<Longrightarrow> e \<in> set xs \<Longrightarrow> s \<le> ecNow e" for s xs
          by (induction xs arbitrary: s) fastforce+
        then show ?thesis using Cons.prems(3) that by auto
      qed
      ultimately show ?thesis using Cons.prems(3) by fastforce
    qed
    then show ?thesis using False by simp
  qed
qed simp

text \<open>a broken collector is not hammered: after a call that failed for good, the next export that calls through
  comes no earlier than the probe interval after that failure, however often the reader exports.\<close>

theorem breaker_spaces_probes:
  assumes "ordered_calls t (c # cs)" "fst (snd (breaker_export c b))" "ecAnswer c = Some e" "permanentGRPCFailure e"
    "d \<in> set (calls_through cs (snd (snd (breaker_export c b))))"
  shows "ecAfter c + probeInterval \<le> ecNow d"
proof -
  let ?b = "snd (snd (breaker_export c b))"
  have "bkOpen ?b" "bkNextProbe ?b = ecAfter c + probeInterval"
    using assms(2-4) by (auto simp: breaker_export_def split: if_splits)
  then show ?thesis using calls_through_open [of ?b d cs "ecAfter c"] assms(1,5) by simp
qed

definition example_call :: "time \<Rightarrow> export_call" where
  "example_call t = \<lparr>ecNow = t, ecAnswer = Some CodeUnimplemented, ecAfter = t + 1\<rparr>"

theorem breaker_spaces_probes_witness:
  "example_call (400 * second) \<in> set (calls_through [example_call second, example_call (400 * second)]
      (snd (snd (breaker_export (example_call 0) \<lparr>bkOpen = False, bkNextProbe = 0\<rparr>)))) \<and>
   ecAfter (example_call 0) + probeInterval \<le> ecNow (example_call (400 * second))"
proof -
  have "example_call (400 * second) \<in> set (calls_through [example_call second, example_call (400 * second)]
      (snd (snd (breaker_export (example_call 0) \<lparr>bkOpen = False, bkNextProbe = 0\<rparr>))))"
    by (simp add: example_call_def breaker_export_def permanentGRPCFailure_def probeInterval_def)
  moreover from breaker_spaces_probes [OF _ _ _ _ this, of 0 CodeUnimplemented]
  have "ecAfter (example_call 0) + probeInterval \<le> ecNow (example_call (400 * second))"
    by (simp add: example_call_def breaker_export_def permanentGRPCFailure_def)
  ultimately show ?thesis by simp
qed

text \<open>the breaker recovers: the first export at or after the probe time calls through, and if it succeeds the
  next export calls through as well, at any time.\<close>

theorem breaker_recovers:
  assumes "bkNextProbe b \<le> ecNow c" "ecAnswer c = None"
  shows "fst (snd (breaker_export c b)) \<and> fst (snd (breaker_export d (snd (snd (breaker_export c b)))))"
  using assms by (simp add: breaker_export_def)

end
