(* ===== verification/Incident.thy ===== *)
theory Incident
  imports HissTransport
begin

text \<open>
  The operator's side: the read model that folds the boundary objects of the stream into one record per
  fingerprint (\<^verbatim>\<open>src/internal/incident\<close>), its two sources, the broker's history and the offline
  directories, and the two commands that write back, approve and the break-glass force
  (\<^verbatim>\<open>src/internal/calipers\<close>).

  The dynamic type of a folded object is a constructor of \<open>boundary_obj\<close>, with a pointer as an option.
  The histories of the four subjects, the files and their decoding, the publisher and the clock are
  arguments. Rendering is not modelled.
\<close>

subsection \<open>The fold\<close>

datatype stage = StageDetected | StageProposed | StageDecided | StageApplied | StageSettled | StageOther string

record incident =
  inFingerprint :: string
  inStage :: stage
  inService :: string
  inUpdatedAt :: time
  inGoverned :: "governed option"
  inSeverity :: "real option"

datatype boundary_obj =
    ObjDetection detection
  | ObjSet proposal_set
  | ObjGoverned governed
  | ObjDecision decision
  | ObjOutcome outcome
  | PtrDetection "detection option"
  | PtrSet "proposal_set option"
  | PtrGoverned "governed option"
  | PtrDecision "decision option"
  | PtrOutcome "outcome option"
  | ObjOther

fun fold_incident :: "incident \<Rightarrow> boundary_obj \<Rightarrow> incident" where
  "fold_incident prior (ObjDetection v) =
     prior\<lparr>inFingerprint := detFingerprint v, inService := detOriginService v, inStage := StageDetected,
           inUpdatedAt := detDetectedAt v\<rparr>"
| "fold_incident prior (ObjSet v) =
     prior\<lparr>inFingerprint := psSignalRef v, inStage := StageProposed,
           inUpdatedAt := (case psSAOSnapshot v of Some s \<Rightarrow> saoAssembledAt s | None \<Rightarrow> inUpdatedAt prior)\<rparr>"
| "fold_incident prior (ObjGoverned v) =
     prior\<lparr>inFingerprint := decSignalRef (govDecision v), inUpdatedAt := decEvaluatedAt (govDecision v),
           inStage := StageDecided, inGoverned := Some v\<rparr>"
| "fold_incident prior (ObjOutcome v) =
     prior\<lparr>inFingerprint := outSignalRef v, inUpdatedAt := outExecutedAt v, inSeverity := outObservedSeverity v,
           inStage := (if outResult v = ResultApplied then StageApplied else StageSettled)\<rparr>"
| "fold_incident prior _ = prior"

record incident_record =
  irIncident :: incident
  irDetected :: "detection option"
  irProposed :: "proposal_set option"
  irDecided :: "decision option"
  irSettled :: "outcome list"

definition zero_record :: incident_record where
  "zero_record = \<lparr>irIncident = \<lparr>inFingerprint = [], inStage = StageOther [], inService = [], inUpdatedAt = zero_time,
       inGoverned = None, inSeverity = None\<rparr>,
     irDetected = None, irProposed = None, irDecided = None, irSettled = []\<rparr>"

definition foldRecord :: "incident_record \<Rightarrow> boundary_obj \<Rightarrow> incident_record" where
  "foldRecord prior obj =
     (let nxt = prior\<lparr>irIncident := fold_incident (irIncident prior) obj\<rparr>
      in case obj of
           ObjDetection v \<Rightarrow> nxt\<lparr>irDetected := Some v\<rparr>
         | PtrDetection (Some v) \<Rightarrow> nxt\<lparr>irDetected := Some v\<rparr>
         | ObjSet v \<Rightarrow> nxt\<lparr>irProposed := Some v\<rparr>
         | PtrSet (Some v) \<Rightarrow> nxt\<lparr>irProposed := Some v\<rparr>
         | ObjGoverned v \<Rightarrow> nxt\<lparr>irDecided := Some (govDecision v)\<rparr>
         | PtrGoverned (Some v) \<Rightarrow> nxt\<lparr>irDecided := Some (govDecision v)\<rparr>
         | ObjDecision v \<Rightarrow> nxt\<lparr>irDecided := Some v\<rparr>
         | PtrDecision (Some v) \<Rightarrow> nxt\<lparr>irDecided := Some v\<rparr>
         | ObjOutcome v \<Rightarrow> nxt\<lparr>irSettled := irSettled prior @ [v]\<rparr>
         | PtrOutcome (Some v) \<Rightarrow> nxt\<lparr>irSettled := irSettled prior @ [v]\<rparr>
         | _ \<Rightarrow> nxt)"

subsection \<open>The projection\<close>

type_synonym projection = "string \<rightharpoonup> incident_record"

fun fingerprintOf :: "boundary_obj \<Rightarrow> string \<times> bool" where
  "fingerprintOf (ObjDetection v) = (detFingerprint v, detFingerprint v \<noteq> [])"
| "fingerprintOf (ObjSet v) = (psSignalRef v, psSignalRef v \<noteq> [])"
| "fingerprintOf (ObjGoverned v) = (decSignalRef (govDecision v), decSignalRef (govDecision v) \<noteq> [])"
| "fingerprintOf (ObjOutcome v) = (outSignalRef v, outSignalRef v \<noteq> [])"
| "fingerprintOf _ = ([], False)"

definition newProjection :: projection where
  "newProjection = Map.empty"

datatype projection_error = ErrNoFingerprint boundary_obj

definition projection_apply :: "boundary_obj \<Rightarrow> projection \<Rightarrow> projection_error option \<times> projection" where
  "projection_apply obj p =
     (case fingerprintOf obj of
        (fp, False) \<Rightarrow> (Some (ErrNoFingerprint obj), p)
      | (fp, True) \<Rightarrow> (None, p(fp \<mapsto> foldRecord (map_get zero_record p fp) obj)))"

definition projection_get :: "string \<Rightarrow> projection \<Rightarrow> incident option" where
  "projection_get fp p = map_option irIncident (p fp)"

fun apply_all :: "boundary_obj list \<Rightarrow> projection \<Rightarrow> projection_error + projection" where
  "apply_all [] p = Inr p"
| "apply_all (x # xs) p =
     (case projection_apply x p of
        (Some e, _) \<Rightarrow> Inl e
      | (None, p') \<Rightarrow> apply_all xs p')"

datatype snapshot_error = SnapshotDrain string | SnapshotApply projection_error

text \<open>
  The history of each subject is an error or its messages with their stored times; \<open>sorter\<close> is Go's
  sort by time, which need not be stable.
\<close>

definition snapshotBroker ::
  "((time \<times> boundary_obj) list \<Rightarrow> (time \<times> boundary_obj) list) \<Rightarrow> string + (time \<times> detection) list \<Rightarrow>
   string + (time \<times> proposal_set) list \<Rightarrow> string + (time \<times> governed) list \<Rightarrow> string + (time \<times> outcome) list \<Rightarrow>
   snapshot_error + projection" where
  "snapshotBroker sorter dets sets govs outs =
     (case dets of Inl e \<Rightarrow> Inl (SnapshotDrain e) | Inr ds \<Rightarrow>
     (case sets of Inl e \<Rightarrow> Inl (SnapshotDrain e) | Inr ps \<Rightarrow>
     (case govs of Inl e \<Rightarrow> Inl (SnapshotDrain e) | Inr gs \<Rightarrow>
     (case outs of Inl e \<Rightarrow> Inl (SnapshotDrain e) | Inr os \<Rightarrow>
        (case apply_all (map snd (sorter (map (apsnd ObjDetection) ds @ map (apsnd ObjSet) ps @
                                          map (apsnd ObjGoverned) gs @ map (apsnd ObjOutcome) os))) newProjection of
           Inl e \<Rightarrow> Inl (SnapshotApply e)
         | Inr p \<Rightarrow> Inr p)))))"

subsection \<open>The offline directories\<close>

datatype calipers_error = CalipersRead string string | CalipersQuarantine string string | CalipersArchive string string

fun tickDir ::
  "(string \<Rightarrow> string + 'raw) \<Rightarrow> ('raw \<Rightarrow> boundary_obj option) \<Rightarrow> (string \<Rightarrow> string \<Rightarrow> string option) \<Rightarrow> string list \<Rightarrow>
   projection \<times> moves \<Rightarrow> calipers_error option \<times> projection \<times> moves" where
  "tickDir read_file unmarshal rename [] (p, moved) = (None, p, moved)"
| "tickDir read_file unmarshal rename (path # paths) (p, moved) =
     (case read_file path of
        Inl e \<Rightarrow> (Some (CalipersRead path e), p, moved)
      | Inr raw \<Rightarrow>
          (case unmarshal raw of
             None \<Rightarrow>
               (case disposition rename path ''quarantine'' moved of
                  (Some e, m) \<Rightarrow> (Some (CalipersQuarantine path e), p, m)
                | (None, m) \<Rightarrow> tickDir read_file unmarshal rename paths (p, m))
           | Some v \<Rightarrow>
               (case projection_apply v p of
                  (Some _, p') \<Rightarrow>
                    (case disposition rename path ''quarantine'' moved of
                       (Some e, m) \<Rightarrow> (Some (CalipersQuarantine path e), p', m)
                     | (None, m) \<Rightarrow> tickDir read_file unmarshal rename paths (p', m))
                | (None, p') \<Rightarrow>
                    (case disposition rename path ''processed'' moved of
                       (Some e, m) \<Rightarrow> (Some (CalipersArchive path e), p', m)
                     | (None, m) \<Rightarrow> tickDir read_file unmarshal rename paths (p', m)))))"

text \<open>The read-only pass over a list of files: what does not decode or fold is skipped.\<close>

fun snapshotDir ::
  "(string \<Rightarrow> string + 'raw) \<Rightarrow> ('raw \<Rightarrow> boundary_obj option) \<Rightarrow> string list \<Rightarrow> projection \<Rightarrow> calipers_error + projection" where
  "snapshotDir read_file unmarshal [] p = Inr p"
| "snapshotDir read_file unmarshal (path # paths) p =
     (case read_file path of
        Inl e \<Rightarrow> Inl (CalipersRead path e)
      | Inr raw \<Rightarrow>
          (case unmarshal raw of
             None \<Rightarrow> snapshotDir read_file unmarshal paths p
           | Some v \<Rightarrow> snapshotDir read_file unmarshal paths (snd (projection_apply v p))))"

text \<open>
  The four directories in order, each with its own decoder: the files that arrived, then those already
  archived.
\<close>

definition disk_snapshot ::
  "(string \<Rightarrow> string + 'raw) \<Rightarrow> ('raw \<Rightarrow> boundary_obj option) list \<Rightarrow> (string list \<times> string list) list \<Rightarrow>
   calipers_error + projection" where
  "disk_snapshot read_file decoders dirs =
     foldl (\<lambda>r (unmarshal, fresh, processed). res_bind r (\<lambda>p. snapshotDir read_file unmarshal (fresh @ processed) p))
       (Inr newProjection) (zip decoders dirs)"

subsection \<open>The commands\<close>

definition shiftPositional :: "string list \<Rightarrow> (string \<times> string list) option" where
  "shiftPositional args = (case args of [] \<Rightarrow> None | a # rest \<Rightarrow> if take 1 a = ''-'' then None else Some (a, rest))"

text \<open>The process exit code with what was published.\<close>

definition runApprove ::
  "(string list \<Rightarrow> (string \<times> nat) option) \<Rightarrow> string option \<Rightarrow> (approval \<Rightarrow> string option) \<Rightarrow> time \<Rightarrow> string list \<Rightarrow>
   nat \<times> approval list" where
  "runApprove parseFlags connect publish now args =
     (case shiftPositional args of
        None \<Rightarrow> (2, [])
      | Some (fp, rest) \<Rightarrow>
          (case parseFlags rest of
             None \<Rightarrow> (2, [])
           | Some (approver, nargs) \<Rightarrow>
               if nargs \<noteq> 0 then (2, [])
               else (let a = \<lparr>apSignalRef = fp, apApprover = approver, apApprovedAt = now, apCapBand = []\<rparr>
                     in if approval_auditable a \<noteq> None then (1, [])
                        else if connect \<noteq> None then (1, [])
                        else if publish a \<noteq> None then (1, [])
                        else (0, [a]))))"

definition forced :: "string \<Rightarrow> string \<Rightarrow> time \<Rightarrow> time \<Rightarrow> decision \<Rightarrow> decision" where
  "forced fp operator t1 t2 d =
     d\<lparr>decID := ''dec:'' @ fp @ '':force:'' @ show_int (unix_seconds t1),
       decVerdict := VerdictApproved,
       decGrantedBand := decRequestedBand d,
       decReasons := [],
       decForced := True,
       decOperator := operator,
       decEvaluatedAt := t2\<rparr>"

text \<open>\<open>parseFlags\<close> answers with the operator and the number of arguments left over.\<close>

definition runForce ::
  "(string list \<Rightarrow> (string \<times> nat) option) \<Rightarrow> string + projection \<Rightarrow> string option \<Rightarrow> (governed \<Rightarrow> string option) \<Rightarrow>
   time \<Rightarrow> time \<Rightarrow> string list \<Rightarrow> nat \<times> governed list" where
  "runForce parseFlags proj connect publish t1 t2 args =
     (case shiftPositional args of
        None \<Rightarrow> (2, [])
      | Some (fp, rest) \<Rightarrow>
          (case parseFlags rest of
             None \<Rightarrow> (2, [])
           | Some (operator, nargs) \<Rightarrow>
               if nargs \<noteq> 0 then (2, [])
               else (case proj of
                       Inl _ \<Rightarrow> (1, [])
                     | Inr p \<Rightarrow>
                         (case Option.bind (projection_get fp p) inGoverned of
                            None \<Rightarrow> (1, [])
                          | Some held \<Rightarrow>
                              if \<not> awaitsApproval (decVerdict (govDecision held)) then (1, [])
                              else (let g = held\<lparr>govDecision := forced fp operator t1 t2 (govDecision held)\<rparr>
                                    in if decision_auditable (govDecision g) \<noteq> None then (1, [])
                                       else if connect \<noteq> None then (1, [])
                                       else if publish g \<noteq> None then (1, [])
                                       else (0, [g]))))))"

subsection \<open>One record per fingerprint\<close>

definition about :: "string \<Rightarrow> boundary_obj list \<Rightarrow> boundary_obj list" where
  "about fp xs = filter (\<lambda>x. fingerprintOf x = (fp, True)) xs"

lemma about_simps [simp]:
  "about fp [] = []" "about fp (xs @ ys) = about fp xs @ about fp ys"
  "about fp (x # xs) = (if fingerprintOf x = (fp, True) then x # about fp xs else about fp xs)"
  by (simp_all add: about_def)

lemma apply_all_get:
  "apply_all xs p = Inr p' \<Longrightarrow>
     p' fp = (if about fp xs = [] then p fp else Some (foldl foldRecord (map_get zero_record p fp) (about fp xs)))"
proof (induction xs arbitrary: p)
  case (Cons x xs)
  obtain f ok where f: "fingerprintOf x = (f, ok)" by fastforce
  with Cons.prems have ok: "ok" and rest: "apply_all xs (p(f \<mapsto> foldRecord (map_get zero_record p f) x)) = Inr p'"
    by (auto simp: projection_apply_def split: bool.splits)
  from Cons.IH [OF rest] f ok show ?case by (auto simp: map_get_def)
qed simp

lemma apply_all_total: "(\<exists>p'. apply_all xs p = Inr p') \<longleftrightarrow> list_all (\<lambda>x. snd (fingerprintOf x)) xs"
proof (induction xs arbitrary: p)
  case (Cons x xs)
  obtain f ok where "fingerprintOf x = (f, ok)" by fastforce
  with Cons show ?case by (cases ok) (auto simp: projection_apply_def)
qed simp

subsection \<open>The record is the stream\<close>

definition governed_of :: "boundary_obj list \<Rightarrow> governed list" where
  "governed_of xs = List.map_filter (\<lambda>x. case x of ObjGoverned g \<Rightarrow> Some g | _ \<Rightarrow> None) xs"

definition outcomes_of :: "boundary_obj list \<Rightarrow> outcome list" where
  "outcomes_of xs = List.map_filter (\<lambda>x. case x of ObjOutcome v \<Rightarrow> Some v | _ \<Rightarrow> None) xs"

definition last_option :: "'a list \<Rightarrow> 'a option" where
  "last_option xs = (if xs = [] then None else Some (last xs))"

fun stage_of :: "boundary_obj \<Rightarrow> stage" where
  "stage_of (ObjDetection _) = StageDetected"
| "stage_of (ObjSet _) = StageProposed"
| "stage_of (ObjGoverned _) = StageDecided"
| "stage_of (ObjOutcome v) = (if outResult v = ResultApplied then StageApplied else StageSettled)"
| "stage_of _ = StageOther []"

lemma of_simps [simp]:
  "governed_of [] = []" "governed_of (xs @ ys) = governed_of xs @ governed_of ys" "governed_of [ObjGoverned g] = [g]"
  "governed_of [ObjDetection d] = []" "governed_of [ObjSet q] = []" "governed_of [ObjOutcome v] = []"
  "outcomes_of [] = []" "outcomes_of (xs @ ys) = outcomes_of xs @ outcomes_of ys" "outcomes_of [ObjOutcome v] = [v]"
  "outcomes_of [ObjDetection d] = []" "outcomes_of [ObjSet q] = []" "outcomes_of [ObjGoverned g] = []"
  by (simp_all add: governed_of_def outcomes_of_def map_filter_def)

lemma last_option_snoc [simp]: "last_option [] = None" "last_option (xs @ [x]) = Some x"
  by (simp_all add: last_option_def)

text \<open>A fingerprinted object is one of the four values.\<close>

lemma fingerprinted_cases:
  assumes "fingerprintOf x = (fp, True)"
  obtains d where "x = ObjDetection d" | q where "x = ObjSet q" | g where "x = ObjGoverned g" "decSignalRef (govDecision g) = fp"
    | v where "x = ObjOutcome v"
  using assms by (cases x) auto

lemma fold_about:
  assumes "list_all (\<lambda>x. fingerprintOf x = (fp, True)) xs"
  shows "let r = foldl foldRecord zero_record xs in
    inGoverned (irIncident r) = last_option (governed_of xs) \<and>
    irDecided r = map_option govDecision (last_option (governed_of xs)) \<and>
    irSettled r = outcomes_of xs \<and>
    (xs \<noteq> [] \<longrightarrow> inStage (irIncident r) = stage_of (last xs) \<and> inFingerprint (irIncident r) = fp)"
  using assms
proof (induction xs rule: rev_induct)
  case Nil
  then show ?case by (simp add: zero_record_def)
next
  case (snoc x xs)
  then have ih: "list_all (\<lambda>x. fingerprintOf x = (fp, True)) xs" and x: "fingerprintOf x = (fp, True)" by simp_all
  from x show ?case
    by (cases rule: fingerprinted_cases) (use snoc.IH [OF ih] x in \<open>simp_all add: foldRecord_def Let_def\<close>)
qed

lemma about_all: "list_all (\<lambda>x. fingerprintOf x = (fp, True)) (about fp xs)"
  by (simp add: about_def list_all_iff)

lemma governed_of_set: "g \<in> set (governed_of xs) \<longleftrightarrow> ObjGoverned g \<in> set xs"
proof (induction xs)
  case (Cons x xs)
  then show ?case by (cases x) (auto simp: governed_of_def map_filter_def)
qed simp

lemma governed_of_about: "g \<in> set (governed_of (about fp xs)) \<longleftrightarrow>
    ObjGoverned g \<in> set xs \<and> decSignalRef (govDecision g) = fp \<and> fp \<noteq> []"
  unfolding governed_of_set by (auto simp: about_def)

definition stream_events ::
  "(time \<times> detection) list \<Rightarrow> (time \<times> proposal_set) list \<Rightarrow> (time \<times> governed) list \<Rightarrow> (time \<times> outcome) list \<Rightarrow>
   (time \<times> boundary_obj) list" where
  "stream_events ds ps gs os = map (apsnd ObjDetection) ds @ map (apsnd ObjSet) ps @
     map (apsnd ObjGoverned) gs @ map (apsnd ObjOutcome) os"

lemma snapshot_get:
  assumes "snapshotBroker sorter (Inr ds) (Inr ps) (Inr gs) (Inr os) = Inr p"
  defines "xs \<equiv> map snd (sorter (stream_events ds ps gs os))"
  shows "p fp = (if about fp xs = [] then None else Some (foldl foldRecord zero_record (about fp xs)))"
proof -
  from assms(1) have "apply_all xs newProjection = Inr p"
    by (auto simp: snapshotBroker_def xs_def stream_events_def split: sum.splits)
  from apply_all_get [OF this, of fp] show ?thesis by (simp add: newProjection_def map_get_def)
qed

text \<open>The last decision on a fingerprint is the latest by time, for a sorter that sorts.\<close>

definition sorts :: "((time \<times> 'a) list \<Rightarrow> (time \<times> 'a) list) \<Rightarrow> bool" where
  "sorts sorter \<longleftrightarrow> (\<forall>xs. mset (sorter xs) = mset xs \<and> sorted (map fst (sorter xs)))"

lemma last_governed_split:
  assumes "governed_of (about fp xs) \<noteq> []"
  shows "\<exists>ys zs. xs = ys @ ObjGoverned (last (governed_of (about fp xs))) # zs \<and> governed_of (about fp zs) = []"
  using assms
proof (induction xs rule: rev_induct)
  case (snoc x xs)
  show ?case
  proof (cases "governed_of (about fp [x]) = []")
    case True
    with snoc.prems have ne: "governed_of (about fp xs) \<noteq> []" by simp
    from snoc.IH [OF ne] obtain ys zs where split: "xs = ys @ ObjGoverned (last (governed_of (about fp xs))) # zs"
      "governed_of (about fp zs) = []" by blast
    have "xs @ [x] = ys @ ObjGoverned (last (governed_of (about fp (xs @ [x])))) # (zs @ [x])"
      using split(1) True ne by (simp del: about_simps(3))
    moreover have "governed_of (about fp (zs @ [x])) = []" using split(2) True by (simp del: about_simps(3))
    ultimately show ?thesis by blast
  next
    case False
    then have x: "fingerprintOf x = (fp, True)" by (auto split: if_splits)
    then have "governed_of [x] \<noteq> []" using False by simp
    with x obtain g where g: "x = ObjGoverned g" by (cases rule: fingerprinted_cases) simp_all
    have one: "about fp [x] = [x]" using x by simp
    then have "governed_of (about fp (xs @ [x])) = governed_of (about fp xs) @ [g]"
      using g by (simp del: about_simps(3))
    then have "xs @ [x] = xs @ ObjGoverned (last (governed_of (about fp (xs @ [x])))) # []" using g by simp
    then show ?thesis by (intro exI [of _ xs] exI [of _ "[]"]) simp
  qed
qed simp

lemma latest_decision:
  assumes sorter: "sorts sorter" and ne: "governed_of (about fp (map snd (sorter evs))) \<noteq> []"
    and g: "g = last (governed_of (about fp (map snd (sorter evs))))"
  shows "\<exists>t. (t, ObjGoverned g) \<in> set evs \<and>
    (\<forall>t' g'. (t', ObjGoverned g') \<in> set evs \<longrightarrow> decSignalRef (govDecision g') = fp \<longrightarrow> t' \<le> t)"
proof -
  from last_governed_split [OF ne] obtain ys zs where split: "map snd (sorter evs) = ys @ ObjGoverned g # zs"
    "governed_of (about fp zs) = []" unfolding g by blast
  from split(1) obtain as t bs where s: "sorter evs = as @ (t, ObjGoverned g) # bs" "map snd bs = zs"
    by (auto simp: map_eq_append_conv map_eq_Cons_conv)
  have set: "set (sorter evs) = set evs" using sorter by (metis sorts_def set_mset_mset)
  have sorted: "sorted (map fst (sorter evs))" using sorter by (simp add: sorts_def)
  have "g \<in> set (governed_of (about fp (map snd (sorter evs))))" using ne by (simp add: g)
  then have fp: "fp \<noteq> []" unfolding governed_of_about by blast
  have "t' \<le> t" if ev: "(t', ObjGoverned g') \<in> set evs" and f: "decSignalRef (govDecision g') = fp" for t' g'
  proof -
    have "ObjGoverned g' \<notin> set zs" using split(2) f fp governed_of_about [of g' fp zs] by simp
    then have "(t', ObjGoverned g') \<notin> set bs" using s(2) by force
    moreover have "(t', ObjGoverned g') \<in> set (as @ (t, ObjGoverned g) # bs)" using ev set s(1) by metis
    ultimately have "(t', ObjGoverned g') \<in> set as \<or> t' = t" by auto
    with sorted s(1) show ?thesis by (fastforce simp: sorted_append)
  qed
  moreover have "(t, ObjGoverned g) \<in> set evs" using s(1) set by (metis in_set_conv_decomp)
  ultimately show ?thesis by blast
qed

subsection \<open>Properties\<close>

text \<open>C35: the read model never disagrees with the stream: for every fingerprint the projection built from the
  broker's history has a record exactly when some object names it; its stage is that of the last such
  object, its decision the last decision, and its settlements every outcome in order. No object of
  another fingerprint has any effect on it.\<close>

theorem read_model_is_the_stream:
  assumes "snapshotBroker sorter (Inr ds) (Inr ps) (Inr gs) (Inr os) = Inr p"
  shows "case p fp of
      None \<Rightarrow> about fp (map snd (sorter (stream_events ds ps gs os))) = []
    | Some r \<Rightarrow> (let xs = about fp (map snd (sorter (stream_events ds ps gs os))) in
        xs \<noteq> [] \<and> inStage (irIncident r) = stage_of (last xs) \<and> inFingerprint (irIncident r) = fp \<and>
        inGoverned (irIncident r) = last_option (governed_of xs) \<and>
        irDecided r = map_option govDecision (last_option (governed_of xs)) \<and> irSettled r = outcomes_of xs)"
  using snapshot_get [OF assms, of fp] fold_about [OF about_all, of fp "map snd (sorter (stream_events ds ps gs os))"]
  by (simp add: Let_def split: if_splits)

definition held_governed :: governed where
  "held_governed = example_governed\<lparr>govDecision := example_decision\<lparr>decVerdict := VerdictHold, decReasons := [''risk_ceiling''],
     decGrantedBand := BandOther []\<rparr>\<rparr>"

lemma example_snapshot:
  "\<exists>p r. snapshotBroker (sort_key fst) (Inr []) (Inr [(10, example_set)]) (Inr [(20, held_governed)]) (Inr []) = Inr p \<and>
     p ''fp'' = Some r \<and> inGoverned (irIncident r) = Some held_governed"
  by (simp add: snapshotBroker_def projection_apply_def newProjection_def held_governed_def example_governed_def
      example_decision_def example_set_def foldRecord_def Let_def map_get_def)

theorem read_model_is_the_stream_witness:
  "\<exists>p r. snapshotBroker (sort_key fst) (Inr []) (Inr [(10, example_set)]) (Inr [(20, held_governed)]) (Inr []) = Inr p \<and>
     p ''fp'' = Some r \<and> inStage (irIncident r) = StageDecided \<and> irDecided r = Some (govDecision held_governed)"
proof -
  from example_snapshot obtain p r where p: "snapshotBroker (sort_key fst) (Inr []) (Inr [(10, example_set)])
      (Inr [(20, held_governed)]) (Inr []) = Inr p" "p ''fp'' = Some r" by blast
  have sig: "psSignalRef example_set = ''fp''" "decSignalRef (govDecision held_governed) = ''fp''"
    by (simp_all add: example_set_def held_governed_def example_governed_def example_decision_def)
  from read_model_is_the_stream [OF p(1), of "''fp''"] p(2)
  have "inStage (irIncident r) = StageDecided" "irDecided r = Some (govDecision held_governed)"
    by (simp_all add: stream_events_def sig last_option_def governed_of_def map_filter_def)
  with p show ?thesis by blast
qed

text \<open>C29: break-glass forces only what is held: a force that exits with success published one decision, it is
  the latest decision of the stream on the named fingerprint, that decision was waiting for a human,
  and what was published is the same set approved at the band it asked for, marked as forced and
  carrying the operator's name.\<close>

theorem force_acts_on_latest_hold:
  assumes "sorts sorter" "snapshotBroker sorter (Inr ds) (Inr ps) (Inr gs) (Inr os) = Inr p"
    "runForce parseFlags (Inr p) connect publish t1 t2 args = (0, out)"
  shows "\<exists>fp rest operator t held. shiftPositional args = Some (fp, rest) \<and> parseFlags rest = Some (operator, 0) \<and>
    (t, held) \<in> set gs \<and> decSignalRef (govDecision held) = fp \<and> awaitsApproval (decVerdict (govDecision held)) \<and>
    (\<forall>(t', g') \<in> set gs. decSignalRef (govDecision g') = fp \<longrightarrow> t' \<le> t) \<and>
    out = [held\<lparr>govDecision := forced fp operator t1 t2 (govDecision held)\<rparr>] \<and>
    decision_auditable (forced fp operator t1 t2 (govDecision held)) = None"
proof -
  from assms(3) obtain fp rest operator held where run: "shiftPositional args = Some (fp, rest)"
    "parseFlags rest = Some (operator, 0)" "Option.bind (projection_get fp p) inGoverned = Some held"
    "awaitsApproval (decVerdict (govDecision held))" "out = [held\<lparr>govDecision := forced fp operator t1 t2 (govDecision held)\<rparr>]"
    "decision_auditable (forced fp operator t1 t2 (govDecision held)) = None"
    by (auto simp: runForce_def Let_def split: option.splits prod.splits if_splits)
  let ?xs = "map snd (sorter (stream_events ds ps gs os))"
  from run(3) obtain r where r: "p fp = Some r" "inGoverned (irIncident r) = Some held"
    by (auto simp: projection_get_def bind_eq_Some_conv)
  with snapshot_get [OF assms(2), of fp] have "r = foldl foldRecord zero_record (about fp ?xs)"
    by (simp split: if_splits)
  with r(2) fold_about [OF about_all, of fp ?xs] have l: "last_option (governed_of (about fp ?xs)) = Some held"
    by (simp add: Let_def)
  then have ne: "governed_of (about fp ?xs) \<noteq> []" and held: "held = last (governed_of (about fp ?xs))"
    by (auto simp: last_option_def split: if_splits)
  then have "held \<in> set (governed_of (about fp ?xs))" by simp
  then have fp: "decSignalRef (govDecision held) = fp" unfolding governed_of_about by blast
  have gov: "(t, ObjGoverned g) \<in> set (stream_events ds ps gs os) \<longleftrightarrow> (t, g) \<in> set gs" for t g
    by (auto simp: stream_events_def image_iff) force
  from latest_decision [OF assms(1) ne held] obtain t where "(t, held) \<in> set gs"
    "\<forall>t' g'. (t', g') \<in> set gs \<longrightarrow> decSignalRef (govDecision g') = fp \<longrightarrow> t' \<le> t"
    unfolding gov by blast
  with run fp show ?thesis by blast
qed

lemma sort_key_sorts: "sorts (sort_key fst)"
  by (simp add: sorts_def)

lemma forced_run:
  assumes "p ''fp'' = Some r" "inGoverned (irIncident r) = Some held_governed"
  shows "runForce (\<lambda>_. Some (operator, 0)) (Inr p) None (\<lambda>_. None) 100 100 [''fp''] =
    (0, [held_governed\<lparr>govDecision := forced ''fp'' operator 100 100 (govDecision held_governed)\<rparr>])"
  using assms
  by (simp add: runForce_def shiftPositional_def projection_get_def Let_def held_governed_def example_governed_def
      example_decision_def forced_def decision_auditable_def is_zero_time_def zero_time_def)

theorem force_acts_on_latest_hold_witness:
  "\<exists>p g. snapshotBroker (sort_key fst) (Inr []) (Inr [(10, example_set)]) (Inr [(20, held_governed)]) (Inr []) = Inr p \<and>
     runForce (\<lambda>_. Some (''ops'', 0)) (Inr p) None (\<lambda>_. None) 100 100 [''fp''] = (0, [g]) \<and>
     govSet g = example_set \<and> decOperator (govDecision g) = ''ops'' \<and> decVerdict (govDecision g) = VerdictApproved"
proof -
  from example_snapshot obtain p r where p: "snapshotBroker (sort_key fst) (Inr []) (Inr [(10, example_set)])
      (Inr [(20, held_governed)]) (Inr []) = Inr p" "p ''fp'' = Some r" "inGoverned (irIncident r) = Some held_governed" by blast
  note run = forced_run [of p r "''ops''", OF p(2,3)]
  from force_acts_on_latest_hold [OF sort_key_sorts p(1) run]
  obtain fp operator held where "shiftPositional [''fp''] = Some (fp, [])" "operator = ''ops''" "held = held_governed"
    by (auto simp: shiftPositional_def)
  with p(1) run show ?thesis by (auto simp: forced_def held_governed_def example_governed_def)
qed

text \<open>the break-glass path accepts no name: with an empty operator, which is what an unset user variable
  gives, a held set is forced and the decision on the stream names nobody.\<close>

theorem anonymous_force_published:
  "\<exists>g. runForce (\<lambda>_. Some ([], 0)) (Inr [''fp'' \<mapsto> foldRecord zero_record (ObjGoverned held_governed)]) None (\<lambda>_. None) 100 100
       [''fp''] = (0, [g]) \<and> decForced (govDecision g) \<and> decOperator (govDecision g) = []"
proof -
  have "inGoverned (irIncident (foldRecord zero_record (ObjGoverned held_governed))) = Some held_governed"
    by (simp add: foldRecord_def Let_def)
  from forced_run [of "[''fp'' \<mapsto> foldRecord zero_record (ObjGoverned held_governed)]"
      "foldRecord zero_record (ObjGoverned held_governed)" "[]", OF _ this] show ?thesis
    by (simp add: forced_def)
qed

text \<open>a forced set is still held: the force goes past the governor, whose hold stays, so an approval of the
  same fingerprint afterwards releases the same set a second time under another decision.\<close>

theorem forced_set_released_again:
  assumes "htHolds tr = Some h" "h fp = Some held" "decSignalRef (govDecision held) = fp" "hpPublish ports = (\<lambda>_. None)"
    "apSignalRef a = fp" "polVersion pol \<noteq> []" "t2 \<noteq> zero_time"
  shows "\<exists>tr' g. approveHandler pol ports t1 t2 a tr = (None, tr') \<and> htPublished tr' = htPublished tr @ [g] \<and>
    govSet g = govSet (held\<lparr>govDecision := forced fp operator t1 t2 (govDecision held)\<rparr>) \<and>
    decVerdict (govDecision g) = VerdictApproved \<and> decID (govDecision g) \<noteq> decID (forced fp operator t1 t2 (govDecision held))"
proof -
  have ids: "decision_id fp t1 \<noteq> ''dec:'' @ fp @ '':force:'' @ show_int (unix_seconds t1)"
    by (simp add: decision_id_def)
  have "decision_auditable (reissue pol a t1 t2 (govDecision held)) = None"
    using assms(6,7) by (simp add: decision_auditable_None_iff reissue_def)
  with assms ids show ?thesis
    by (auto simp: approveHandler_def holds_take_def reissue_def forced_def record_and_publish_def Let_def)
qed

text \<open>one object without a fingerprint anywhere in the broker's history makes every snapshot fail, so
  neither the incident list nor the force command answers for any fingerprint; the offline snapshot
  skips such an object.\<close>

theorem nameless_object_blinds:
  assumes "sorts sorter" "(t, v) \<in> set os" "outSignalRef v = []"
  shows "\<exists>e. snapshotBroker sorter (Inr ds) (Inr ps) (Inr gs) (Inr os) = Inl e"
proof -
  let ?xs = "map snd (sorter (stream_events ds ps gs os))"
  have "set (sorter (stream_events ds ps gs os)) = set (stream_events ds ps gs os)"
    using assms(1) by (metis sorts_def set_mset_mset)
  moreover have "(t, ObjOutcome v) \<in> apsnd ObjOutcome ` set os" using assms(2) by (rule rev_image_eqI) simp
  then have "(t, ObjOutcome v) \<in> set (stream_events ds ps gs os)" by (simp add: stream_events_def)
  ultimately have "(t, ObjOutcome v) \<in> set (sorter (stream_events ds ps gs os))" by simp
  then have "ObjOutcome v \<in> set ?xs" by (metis image_eqI list.set_map snd_conv)
  then have "\<not> list_all (\<lambda>x. snd (fingerprintOf x)) ?xs" using assms(3) by (fastforce simp only: list_all_iff fingerprintOf.simps snd_conv simp_thms)
  then have "\<nexists>p. apply_all ?xs newProjection = Inr p" using apply_all_total by blast
  then obtain e where "apply_all ?xs newProjection = Inl e" by (cases "apply_all ?xs newProjection") auto
  then show ?thesis by (simp add: snapshotBroker_def stream_events_def)
qed

text \<open>the offline snapshot folds by directory and not by time: a fingerprint detected again after it was
  settled is shown as settled, at the time of the old settlement.\<close>

theorem disk_snapshot_ignores_time:
  "\<exists>p r. disk_snapshot Inr [\<lambda>raw. Some (ObjDetection (d\<lparr>detFingerprint := ''fp'', detDetectedAt := 900\<rparr>)),
       \<lambda>raw. Some (ObjOutcome (v\<lparr>outSignalRef := ''fp'', outExecutedAt := 100, outResult := ResultSuccess\<rparr>))]
       [([''fp.yaml''], []), ([''fp.yaml''], [])] = Inr p \<and>
     p ''fp'' = Some r \<and> inStage (irIncident r) = StageSettled \<and> inUpdatedAt (irIncident r) = 100"
  by (simp add: disk_snapshot_def res_bind_def projection_apply_def newProjection_def foldRecord_def Let_def map_get_def)

end
