(* ===== verification/Corpus.thy ===== *)
theory Corpus
  imports Click Store Incident "HOL-Library.List_Lexorder" "HOL-Library.Char_ord"
begin

text \<open>
  The calibration record: joining the recorded sets and outcomes into settled cases
  (\<^verbatim>\<open>src/internal/clank/corpus.go\<close>), reading labels off them (\<^verbatim>\<open>src/internal/grade/grade.go\<close>), and mining
  and merging the committed artifact from the sealed segments (\<^verbatim>\<open>src/internal/corpus\<close>).

  Go's sort need not be stable: \<open>sorter\<close> is an argument. The object store's pages and objects, the
  JSON decoders and the clock are arguments.
\<close>

subsection \<open>The record\<close>

record corpus =
  cpVersion :: int
  cpCases :: "learned_case list"
  cpMinedAt :: time
  cpSegments :: "string list"

definition corpusVersion :: int where
  "corpusVersion = 3"

record floor_support =
  fsClass :: failure_class
  fsFloor :: real
  fsAdmittedTotal :: nat
  fsAdmittedWins :: nat
  fsRefusedTotal :: nat
  fsRefusedWins :: nat

definition floorSupport :: "learned_case list \<Rightarrow> failure_class \<Rightarrow> real \<Rightarrow> floor_support" where
  "floorSupport cases cls flr =
     foldl (\<lambda>fs c.
       if lcFailureClass c \<noteq> cls \<or> lcResult c = ResultRendered \<or> lcResult c = ResultApplied then fs
       else (let win = lcResult c = ResultSuccess
             in if flr \<le> lcConfidence c
                then fs\<lparr>fsAdmittedTotal := fsAdmittedTotal fs + 1,
                        fsAdmittedWins := fsAdmittedWins fs + (if win then 1 else 0)\<rparr>
                else fs\<lparr>fsRefusedTotal := fsRefusedTotal fs + 1,
                        fsRefusedWins := fsRefusedWins fs + (if win then 1 else 0)\<rparr>))
       \<lparr>fsClass = cls, fsFloor = flr, fsAdmittedTotal = 0, fsAdmittedWins = 0, fsRefusedTotal = 0, fsRefusedWins = 0\<rparr> cases"

definition latestSetBefore :: "proposal_set list \<Rightarrow> time \<Rightarrow> proposal_set option" where
  "latestSetBefore sets at_time =
     foldl (\<lambda>best s. case psStatus s of
              None \<Rightarrow> best
            | Some st \<Rightarrow>
                if at_time < stObservedAt st then best
                else (case best of
                        None \<Rightarrow> Some s
                      | Some b \<Rightarrow> if (case psStatus b of None \<Rightarrow> True | Some bt \<Rightarrow> stObservedAt bt < stObservedAt st)
                                  then Some s else best)) None sets"

type_synonym incident_key = "string \<times> string"

definition case_key :: "learned_case \<Rightarrow> incident_key" where
  "case_key c = (lcSignalRef c, lcDecisionRef c)"

definition collapse_step ::
  "incident_key list \<times> (incident_key \<rightharpoonup> learned_case) \<Rightarrow> learned_case \<Rightarrow> incident_key list \<times> (incident_key \<rightharpoonup> learned_case)" where
  "collapse_step st c =
     (let (order, best) = st; key = case_key c;
          order = (if key \<in> set order then order else order @ [key])
      in if lcResult c = ResultApplied then (order, best)
         else (case best key of
                 None \<Rightarrow> (order, best(key \<mapsto> c))
               | Some cur \<Rightarrow> (order, if lcObservedAt cur < lcObservedAt c then best(key \<mapsto> c) else best)))"

definition collapseCases :: "learned_case list \<Rightarrow> learned_case list" where
  "collapseCases cases = (let (order, best) = foldl collapse_step ([], Map.empty) cases in List.map_filter best order)"

definition mineCorpus ::
  "(learned_case list \<Rightarrow> learned_case list) \<Rightarrow> proposal_set list \<Rightarrow> outcome list \<Rightarrow> learned_case list" where
  "mineCorpus sorter sets outcomes =
     sorter (collapseCases (List.map_filter (\<lambda>oc.
       map_option (\<lambda>s. newCase s oc)
         (latestSetBefore (filter (\<lambda>s. psSignalRef s = outSignalRef oc) sets) (outExecutedAt oc))) outcomes))"

subsection \<open>Labels\<close>

datatype label_source = SourceConverged | SourceReversed | SourceApproved | SourceDenied

record label =
  lbRunID :: string
  lbCorrect :: bool
  lbSource :: label_source

definition fromRecord :: "proposal_set \<Rightarrow> decision \<Rightarrow> outcome \<Rightarrow> label option" where
  "fromRecord ps dec oc =
     (if outResult oc \<noteq> ResultOther [] \<and> outResult oc \<noteq> ResultRendered \<and> outResult oc \<noteq> ResultApplied
      then (let win = outResult oc = ResultSuccess
            in Some \<lparr>lbRunID = psRunID ps, lbCorrect = win, lbSource = (if win then SourceConverged else SourceReversed)\<rparr>)
      else if decVerdict dec = VerdictEscalate \<and> decApprover dec \<noteq> []
      then Some \<lparr>lbRunID = psRunID ps, lbCorrect = True, lbSource = SourceApproved\<rparr>
      else None)"

text \<open>The zero values a mined case is labelled with.\<close>

definition zero_set :: proposal_set where
  "zero_set = \<lparr>psName = [], psRunID = [], psSignalRef = [], psSLORef = [], psSAOSnapshot = None, psFailureClass = [],
     psCausalScores = [], psHypotheses = [], psEvidence = [], psServiceTier = [], psGate = None, psProposals = [],
     psRecommended = [], psRankingRationale = None, psStatus = None\<rparr>"

definition zero_decision :: decision where
  "zero_decision = \<lparr>decID = [], decProposalRef = [], decSignalRef = [], decSLORef = [], decCandidateRef = [],
     decVerdict = VerdictOther [], decReasons = [], decRequestedBand = BandOther [], decGrantedBand = BandOther [],
     decRiskBand = BandOther [], decFloorApplied = 0, decPolicyVersion = [], decEvaluatedAt = zero_time,
     decForced = False, decOperator = [], decApprover = []\<rparr>"

definition zero_outcome :: outcome where
  "zero_outcome = \<lparr>outID = [], outDecisionRef = [], outSignalRef = [], outContractRef = [], outMode = ModeOther [],
     outResult = ResultOther [], outError = [], outExecutedAt = zero_time, outObservedSeverity = None\<rparr>"

definition labels :: "learned_case list \<Rightarrow> (string \<rightharpoonup> label)" where
  "labels cases =
     foldl (\<lambda>m c. if lcRunID c = [] then m
                  else (case fromRecord (zero_set\<lparr>psRunID := lcRunID c\<rparr>) zero_decision (zero_outcome\<lparr>outResult := lcResult c\<rparr>) of
                          None \<Rightarrow> m
                        | Some l \<Rightarrow> m(lcRunID c \<mapsto> l))) Map.empty cases"

definition inFlightCount :: "outcome list \<Rightarrow> nat" where
  "inFlightCount outcomes =
     card {k \<in> set (map (\<lambda>oc. (outSignalRef oc, outDecisionRef oc)) outcomes).
             \<forall>oc \<in> set outcomes. (outSignalRef oc, outDecisionRef oc) = k \<longrightarrow> outResult oc = ResultApplied}"

definition declinedCount :: "proposal_set list \<Rightarrow> nat" where
  "declinedCount journaled =
     length (filter (\<lambda>s. map_option stPhase (psStatus s) = Some PhaseDeclined) journaled)"

subsection \<open>The artifact\<close>

fun first_by :: "('a \<Rightarrow> 'k) \<Rightarrow> 'k set \<Rightarrow> 'a list \<Rightarrow> 'a list" where
  "first_by key seen [] = []"
| "first_by key seen (x # xs) =
     (if key x \<in> seen then first_by key seen xs else x # first_by key (insert (key x) seen) xs)"

definition mergeCorpus :: "(learned_case list \<Rightarrow> learned_case list) \<Rightarrow> corpus \<Rightarrow> corpus \<Rightarrow> corpus" where
  "mergeCorpus sorter existing mined =
     \<lparr>cpVersion = corpusVersion,
      cpCases = sorter (collapseCases (first_by lcOutcomeRef {} (cpCases existing @ cpCases mined))),
      cpMinedAt = cpMinedAt mined,
      cpSegments = sort (first_by id {} (cpSegments existing @ cpSegments mined))\<rparr>"

definition cut_prefix :: "string \<Rightarrow> string \<Rightarrow> string option" where
  "cut_prefix pre s = (if take (length pre) s = pre then Some (drop (length pre) s) else None)"

definition before_last :: "char \<Rightarrow> string \<Rightarrow> string option" where
  "before_last c s = (if c \<in> set s then Some (rev (tl (dropWhile (\<lambda>x. x \<noteq> c) (rev s)))) else None)"

definition signalRefFromDecisionRef :: "string \<Rightarrow> string" where
  "signalRefFromDecisionRef ref =
     (case cut_prefix ''dec:'' ref of
        None \<Rightarrow> []
      | Some rest \<Rightarrow> (case before_last (CHR '':'') rest of None \<Rightarrow> [] | Some s \<Rightarrow> s))"

record legacy_case =
  lgFingerprint :: string
  lgSignalRef :: string
  lgDecisionRef :: string
  lgOutcomeRef :: string
  lgContractRef :: string
  lgFailureClass :: failure_class
  lgConfidence :: real
  lgMode :: mode
  lgResult :: result
  lgObservedAt :: time

definition migrate_case :: "legacy_case \<Rightarrow> learned_case" where
  "migrate_case lc =
     \<lparr>lcRunID = [],
      lcSignalRef = (if lgSignalRef lc \<noteq> [] then lgSignalRef lc
                     else if lgFingerprint lc \<noteq> [] then lgFingerprint lc
                     else signalRefFromDecisionRef (lgDecisionRef lc)),
      lcDecisionRef = lgDecisionRef lc, lcOutcomeRef = lgOutcomeRef lc, lcContractRef = lgContractRef lc,
      lcFailureClass = lgFailureClass lc, lcConfidence = lgConfidence lc, lcMode = lgMode lc, lcResult = lgResult lc,
      lcObservedAt = lgObservedAt lc\<rparr>"

datatype corpus_error =
    CorpusOpen string string
  | CorpusDecode string
  | ErrUnknownCorpusVersion int
  | CorpusList string string
  | EverySegmentFailed string nat

text \<open>\<open>None\<close> is a file that does not exist.\<close>

definition readCorpus ::
  "(string + 'raw) option \<Rightarrow> ('raw \<Rightarrow> string + int) \<Rightarrow> ('raw \<Rightarrow> string + legacy_case list \<times> time \<times> string list) \<Rightarrow>
   ('raw \<Rightarrow> string + corpus) \<Rightarrow> string \<Rightarrow> corpus_error + corpus" where
  "readCorpus contents probe decodeLegacy decode path =
     (case contents of
        None \<Rightarrow> Inr \<lparr>cpVersion = corpusVersion, cpCases = [], cpMinedAt = zero_time, cpSegments = []\<rparr>
      | Some (Inl e) \<Rightarrow> Inl (CorpusOpen path e)
      | Some (Inr raw) \<Rightarrow>
          (case probe raw of
             Inl e \<Rightarrow> Inl (CorpusDecode e)
           | Inr v \<Rightarrow>
               if v = 0 then
                 (case decodeLegacy raw of
                    Inl e \<Rightarrow> Inl (CorpusDecode e)
                  | Inr (cases, minedAt, segs) \<Rightarrow>
                      Inr \<lparr>cpVersion = corpusVersion, cpCases = map migrate_case cases, cpMinedAt = minedAt, cpSegments = segs\<rparr>)
               else if corpusVersion < v then Inl (ErrUnknownCorpusVersion v)
               else (case decode raw of Inl e \<Rightarrow> Inl (CorpusDecode e) | Inr c \<Rightarrow> Inr c)))"

text \<open>
  A walk over the pages of a listing, each an error or its keys; \<open>getSegment\<close> answers with the lines
  of a sealed object or an error.
\<close>

fun walk_pages ::
  "(string \<Rightarrow> string + string list) \<Rightarrow> string \<Rightarrow> (string + string list) list \<Rightarrow> string list \<times> string list \<times> nat \<times> nat \<Rightarrow>
   corpus_error + (string list \<times> string list \<times> nat \<times> nat)" where
  "walk_pages getSegment prefix [] acc = Inr acc"
| "walk_pages getSegment prefix (Inl e # pages) acc = Inl (CorpusList prefix e)"
| "walk_pages getSegment prefix (Inr keys # pages) acc =
     walk_pages getSegment prefix pages
       (foldl (\<lambda>(segs, lines, tot, failed) k.
          case getSegment k of
            Inl _ \<Rightarrow> (segs, lines, tot + 1, failed + 1)
          | Inr ls \<Rightarrow> (segs @ [k], lines @ ls, tot + 1, failed)) acc keys)"

definition walk ::
  "(string \<Rightarrow> string + string list) \<Rightarrow> string \<Rightarrow> (string + string list) list \<Rightarrow> corpus_error + (string list \<times> string list)" where
  "walk getSegment prefix pages =
     (case walk_pages getSegment prefix pages ([], [], 0, 0) of
        Inl e \<Rightarrow> Inl e
      | Inr (segs, lines, tot, failed) \<Rightarrow>
          if 0 < tot \<and> failed = tot then Inl (EverySegmentFailed prefix tot) else Inr (segs, lines))"

fun decodeEach :: "(string \<Rightarrow> string + 'a) \<Rightarrow> string list \<Rightarrow> string + 'a list" where
  "decodeEach unmarshal [] = Inr []"
| "decodeEach unmarshal (l # ls) = res_bind (unmarshal l) (\<lambda>v. res_bind (decodeEach unmarshal ls) (\<lambda>vs. Inr (v # vs)))"

subsection \<open>One case per incident\<close>

definition settled_case :: "learned_case \<Rightarrow> bool" where
  "settled_case c \<longleftrightarrow> lcResult c \<noteq> ResultApplied"

definition pick :: "learned_case option \<Rightarrow> learned_case \<Rightarrow> learned_case option" where
  "pick b c = (case b of None \<Rightarrow> Some c | Some cur \<Rightarrow> if lcObservedAt cur < lcObservedAt c then Some c else b)"

definition best_of :: "incident_key \<Rightarrow> learned_case list \<Rightarrow> learned_case option" where
  "best_of k cs = foldl pick None (filter (\<lambda>c. case_key c = k \<and> settled_case c) cs)"

lemma best_of_snoc:
  "best_of k (cs @ [c]) = (if case_key c = k \<and> settled_case c then pick (best_of k cs) c else best_of k cs)"
  by (simp add: best_of_def)

lemma collapse_step_eq:
  "collapse_step (order, best) c =
     (if case_key c \<in> set order then order else order @ [case_key c],
      if settled_case c then best(case_key c := pick (best (case_key c)) c) else best)"
  by (auto simp: collapse_step_def settled_case_def pick_def fun_upd_idem Let_def split: option.split)

lemma collapse_state:
  "\<exists>order best. foldl collapse_step ([], Map.empty) cs = (order, best) \<and> set order = case_key ` set cs \<and> distinct order \<and>
     (\<forall>k. best k = best_of k cs)"
proof (induction cs rule: rev_induct)
  case (snoc c cs)
  then obtain order best where st: "foldl collapse_step ([], Map.empty) cs = (order, best)" "set order = case_key ` set cs"
    "distinct order" "\<forall>k. best k = best_of k cs" by blast
  then show ?case by (simp add: collapse_step_eq best_of_snoc insert_absorb)
qed (simp add: best_of_def)

lemma foldl_pick_Some:
  "foldl pick b xs = Some c \<Longrightarrow> (b = Some c \<or> c \<in> set xs) \<and> (\<forall>x \<in> set xs. lcObservedAt x \<le> lcObservedAt c) \<and>
     (\<forall>y. b = Some y \<longrightarrow> lcObservedAt y \<le> lcObservedAt c)"
proof (induction xs arbitrary: b)
  case (Cons x xs)
  from Cons.IH [of "pick b x"] Cons.prems show ?case
    by (cases b) (auto simp: pick_def split: if_splits)
qed auto

lemma foldl_pick_None: "foldl pick b xs = None \<longleftrightarrow> b = None \<and> xs = []"
proof (induction xs arbitrary: b)
  case (Cons x xs)
  then show ?case by (cases b) (auto simp: pick_def)
qed auto

lemma foldl_pick_keep: "(\<And>x. x \<in> set xs \<Longrightarrow> lcObservedAt x \<le> lcObservedAt c) \<Longrightarrow> foldl pick (Some c) xs = Some c"
  by (induction xs) (fastforce simp: pick_def)+

lemma best_of_Some:
  assumes "best_of k cs = Some c"
  shows "c \<in> set cs" "case_key c = k" "settled_case c"
    "\<And>d. d \<in> set cs \<Longrightarrow> case_key d = k \<Longrightarrow> settled_case d \<Longrightarrow> lcObservedAt d \<le> lcObservedAt c"
  using foldl_pick_Some [OF assms [unfolded best_of_def]] by auto

lemma best_of_None: "best_of k cs = None \<longleftrightarrow> (\<forall>d \<in> set cs. case_key d = k \<longrightarrow> \<not> settled_case d)"
  by (auto simp: best_of_def foldl_pick_None filter_empty_conv)

lemma perm_distinct_map: "mset xs = mset ys \<Longrightarrow> distinct (map f ys) \<Longrightarrow> distinct (map f xs)"
  using mset_eq_imp_distinct_iff [of "map f xs" "map f ys"] by simp

lemma map_filter_mem: "c \<in> set (List.map_filter f ks) \<longleftrightarrow> (\<exists>k \<in> set ks. f k = Some c)"
  by (induction ks) (auto simp: map_filter_simps split: option.split)

lemma collapse_mem: "c \<in> set (collapseCases cs) \<longleftrightarrow> best_of (case_key c) cs = Some c"
proof -
  obtain order best where st: "foldl collapse_step ([], Map.empty) cs = (order, best)" "set order = case_key ` set cs"
    "\<forall>k. best k = best_of k cs" using collapse_state by blast
  have "c \<in> set (collapseCases cs) \<longleftrightarrow> (\<exists>k \<in> set order. best_of k cs = Some c)"
    by (simp add: collapseCases_def st(1,3) map_filter_mem)
  also have "\<dots> \<longleftrightarrow> best_of (case_key c) cs = Some c"
    unfolding st(2) using best_of_Some(1,2) [of _ cs c] by (metis (no_types) image_iff)
  finally show ?thesis .
qed

lemma map_filter_distinct:
  assumes "distinct ks" "\<And>k c. f k = Some c \<Longrightarrow> g c = k"
  shows "distinct (map g (List.map_filter f ks))"
proof -
  have "map g (List.map_filter f ks) = filter (\<lambda>k. f k \<noteq> None) ks"
    using assms(2) by (induction ks) (auto simp: map_filter_def)
  then show ?thesis using assms(1) by simp
qed

lemma collapse_distinct: "distinct (map case_key (collapseCases cs))"
proof -
  obtain order best where st: "foldl collapse_step ([], Map.empty) cs = (order, best)" "distinct order"
    "\<forall>k. best k = best_of k cs" using collapse_state by blast
  then show ?thesis
    unfolding collapseCases_def by (auto intro!: map_filter_distinct dest: best_of_Some(2))
qed

lemma latestSetBefore_Some:
  assumes "latestSetBefore sets t = Some s"
  shows "s \<in> set sets \<and> (\<exists>st. psStatus s = Some st \<and> stObservedAt st \<le> t \<and>
    (\<forall>s' \<in> set sets. \<forall>st'. psStatus s' = Some st' \<longrightarrow> stObservedAt st' \<le> t \<longrightarrow> stObservedAt st' \<le> stObservedAt st))"
  using assms
proof (induction sets arbitrary: s rule: rev_induct)
  case (snoc x sets)
  show ?case
  proof (cases "latestSetBefore sets t")
    case None
    have "\<forall>s' \<in> set sets. \<forall>st'. psStatus s' = Some st' \<longrightarrow> t < stObservedAt st'" using None
    proof (induction sets rule: rev_induct)
      case (snoc y ys)
      then show ?case by (cases "latestSetBefore ys t") (auto simp: latestSetBefore_def split: option.splits if_splits)
    qed simp
    with snoc.prems None show ?thesis by (auto simp: latestSetBefore_def split: option.splits if_splits)
  next
    case (Some b)
    from snoc.IH [OF Some] obtain bt where b: "b \<in> set sets" "psStatus b = Some bt" "stObservedAt bt \<le> t"
      "\<forall>s' \<in> set sets. \<forall>st'. psStatus s' = Some st' \<longrightarrow> stObservedAt st' \<le> t \<longrightarrow> stObservedAt st' \<le> stObservedAt bt" by blast
    have "latestSetBefore (sets @ [x]) t = (case psStatus x of None \<Rightarrow> Some b
        | Some st \<Rightarrow> if t < stObservedAt st then Some b else if stObservedAt bt < stObservedAt st then Some x else Some b)"
      using Some b(2) by (cases "psStatus x") (simp_all add: latestSetBefore_def)
    with snoc.prems b show ?thesis by (auto split: option.splits if_splits)
  qed
qed (simp add: latestSetBefore_def)

subsection \<open>Merging\<close>

lemma first_by_mem: "x \<in> set (first_by key seen xs) \<Longrightarrow> x \<in> set xs \<and> key x \<notin> seen"
  by (induction key seen xs rule: first_by.induct) (auto split: if_splits)

lemma first_by_covers: "y \<in> set xs \<Longrightarrow> key y \<notin> seen \<Longrightarrow> \<exists>x \<in> set (first_by key seen xs). key x = key y"
proof (induction key seen xs rule: first_by.induct)
  case (2 key seen x xs)
  show ?case
  proof (cases "key x \<in> seen \<or> key y = key x")
    case True
    with 2 show ?thesis by auto
  next
    case False
    with 2 have "\<exists>z \<in> set (first_by key (insert (key x) seen) xs). key z = key y" by auto
    with False show ?thesis by auto
  qed
qed simp

lemma first_by_distinct: "distinct (map key (first_by key seen xs)) \<and> key ` set (first_by key seen xs) \<inter> seen = {}"
  by (induction key seen xs rule: first_by.induct) (auto dest: first_by_mem)

lemma first_by_append: "first_by key seen (xs @ ys) = first_by key seen xs @ first_by key (seen \<union> key ` set xs) ys"
  by (induction key seen xs rule: first_by.induct) (auto simp: insert_absorb)

lemma first_by_all: "distinct (map key xs) \<Longrightarrow> key ` set xs \<inter> seen = {} \<Longrightarrow> first_by key seen xs = xs"
  by (induction key seen xs rule: first_by.induct) auto

text \<open>Two cases that record the same fact of the same outcome; a case mined before runs were named may differ in that.\<close>

definition same_fact :: "learned_case \<Rightarrow> learned_case \<Rightarrow> bool" where
  "same_fact c d \<longleftrightarrow> case_key c = case_key d \<and> lcObservedAt c = lcObservedAt d \<and> lcResult c = lcResult d"

definition refs_agree :: "learned_case list \<Rightarrow> bool" where
  "refs_agree cs \<longleftrightarrow> (\<forall>c \<in> set cs. \<forall>d \<in> set cs. lcOutcomeRef c = lcOutcomeRef d \<longrightarrow> same_fact c d)"

lemma filter_unique_key: "distinct (map f xs) \<Longrightarrow> c \<in> set xs \<Longrightarrow> P c \<Longrightarrow> filter (\<lambda>x. f x = f c \<and> P x) xs = [c]"
proof (induction xs)
  case (Cons x xs)
  show ?case
  proof (cases "x = c")
    case True
    have "f y \<noteq> f c" if "y \<in> set xs" for y using Cons.prems(1) that True by (metis distinct.simps(2) image_eqI list.set_map list.simps(9))
    then have "filter (\<lambda>x. f x = f c \<and> P x) xs = []" by (simp add: filter_empty_conv)
    with True Cons.prems(3) show ?thesis by simp
  next
    case False
    with Cons.prems have "c \<in> set xs" "f x \<noteq> f c" by auto
    with Cons show ?thesis by simp
  qed
qed simp

lemma best_of_again:
  assumes agree: "refs_agree (es @ ms)" and D: "D = first_by lcOutcomeRef {} (es @ ms)"
    and C: "mset C = mset (collapseCases D)"
  shows "best_of k (first_by lcOutcomeRef {} (C @ ms)) = best_of k D"
proof -
  have setC: "set C = set (collapseCases D)" using C by (metis set_mset_mset)
  have "distinct (map case_key C)" by (rule perm_distinct_map [OF C collapse_distinct])
  have inD: "c \<in> set D" if "c \<in> set C" for c using that best_of_Some(1) unfolding setC collapse_mem by blast
  have dC: "distinct C" using \<open>distinct (map case_key C)\<close> by (simp add: distinct_map)
  have "inj_on lcOutcomeRef (set D)" using first_by_distinct [of lcOutcomeRef "{}" "es @ ms"] D by (simp add: distinct_map)
  then have refs: "distinct (map lcOutcomeRef C)" using dC inD by (auto simp: distinct_map intro: inj_on_subset)
  have D2: "first_by lcOutcomeRef {} (C @ ms) = C @ first_by lcOutcomeRef (lcOutcomeRef ` set C) ms"
    using first_by_all [OF refs, of "{}"] by (simp add: first_by_append)
  have known: "\<exists>y \<in> set D. same_fact x y" if "x \<in> set ms" for x
  proof -
    from that first_by_covers [of x "es @ ms" lcOutcomeRef "{}"] obtain y where y: "y \<in> set D" "lcOutcomeRef y = lcOutcomeRef x"
      unfolding D by auto
    moreover have "y \<in> set (es @ ms)" using first_by_mem y(1) unfolding D by fastforce
    ultimately show ?thesis using agree that unfolding refs_agree_def by fastforce
  qed
  show ?thesis
  proof (cases "best_of k D")
    case None
    have "\<not> settled_case x" if "x \<in> set (C @ ms)" "case_key x = k" for x
    proof -
      have "\<exists>y \<in> set D. same_fact x y" using that(1) inD known by (auto simp: same_fact_def)
      then show ?thesis using None that(2) unfolding best_of_None by (auto simp: same_fact_def settled_case_def)
    qed
    then have "best_of k (first_by lcOutcomeRef {} (C @ ms)) = None"
      unfolding best_of_None using first_by_mem [of _ lcOutcomeRef "{}" "C @ ms"] by blast
    then show ?thesis using None by simp
  next
    case (Some c)
    note c = best_of_Some [OF Some]
    have cC: "c \<in> set C" unfolding setC collapse_mem using Some c(2) by simp
    have one: "filter (\<lambda>x. case_key x = k \<and> settled_case x) C = [c]"
      using filter_unique_key [of case_key C c settled_case, OF \<open>distinct (map case_key C)\<close> cC c(3)] c(2) by simp
    have "lcObservedAt x \<le> lcObservedAt c"
      if "x \<in> set (filter (\<lambda>x. case_key x = k \<and> settled_case x) (first_by lcOutcomeRef (lcOutcomeRef ` set C) ms))" for x
    proof -
      from that have x: "x \<in> set ms" "case_key x = k" "settled_case x" using first_by_mem by fastforce+
      from known [OF x(1)] obtain y where "y \<in> set D" "same_fact x y" by blast
      with c(4) [of y] x(2,3) show ?thesis by (auto simp: same_fact_def settled_case_def)
    qed
    then show ?thesis unfolding D2 Some by (simp add: best_of_def one pick_def foldl_pick_keep del: set_filter)
  qed
qed

subsection \<open>Properties\<close>

definition permutes_cases :: "(learned_case list \<Rightarrow> learned_case list) \<Rightarrow> bool" where
  "permutes_cases sorter \<longleftrightarrow> (\<forall>cs. mset (sorter cs) = mset cs)"

text \<open>mining twice adds nothing: merging the same mined corpus into the artifact again leaves its cases and
  its segments as they are, whenever two records of one outcome agree on what happened. The artifact
  can be rebuilt from the bucket any number of times.\<close>

theorem merge_idempotent:
  assumes "permutes_cases sorter" "refs_agree (cpCases existing @ cpCases mined)"
  shows "let once = mergeCorpus sorter existing mined; again = mergeCorpus sorter once mined
    in set (cpCases again) = set (cpCases once) \<and> cpSegments again = cpSegments once"
proof -
  let ?D = "first_by lcOutcomeRef {} (cpCases existing @ cpCases mined)"
  let ?C = "sorter (collapseCases ?D)"
  have C: "mset ?C = mset (collapseCases ?D)" using assms(1) by (simp add: permutes_cases_def)
  then have setC: "set ?C = set (collapseCases ?D)" by (metis set_mset_mset)
  have "set (sorter (collapseCases (first_by lcOutcomeRef {} (?C @ cpCases mined)))) =
      set (collapseCases (first_by lcOutcomeRef {} (?C @ cpCases mined)))"
    using assms(1) by (metis permutes_cases_def set_mset_mset)
  also have "\<dots> = set ?C"
    unfolding setC by (auto simp: collapse_mem best_of_again [OF assms(2) refl C])
  finally have cases: "set (cpCases (mergeCorpus sorter (mergeCorpus sorter existing mined) mined)) =
      set (cpCases (mergeCorpus sorter existing mined))" by (simp add: mergeCorpus_def)
  let ?S = "first_by id {} (cpSegments existing @ cpSegments mined)"
  have d: "distinct (sort ?S)" using first_by_distinct [of id "{}" "cpSegments existing @ cpSegments mined"] by simp
  have sub: "set (cpSegments mined) \<subseteq> set (sort ?S)"
    using first_by_covers [of _ "cpSegments existing @ cpSegments mined" id "{}"] by fastforce
  have "first_by id (id ` set (sort ?S)) (cpSegments mined) = []"
    using sub first_by_mem [of _ id "id ` set (sort ?S)" "cpSegments mined"]
    by (cases "first_by id (id ` set (sort ?S)) (cpSegments mined)") auto
  then have "sort (first_by id {} (sort ?S @ cpSegments mined)) = sort ?S"
    using first_by_all [of id "sort ?S" "{}"] d by (simp add: first_by_append sorted_sort_id)
  then have "cpSegments (mergeCorpus sorter (mergeCorpus sorter existing mined) mined) =
      cpSegments (mergeCorpus sorter existing mined)" by (simp add: mergeCorpus_def)
  with cases show ?thesis by (simp add: Let_def)
qed

definition sample_case :: learned_case where
  "sample_case = \<lparr>lcRunID = ''fp/1'', lcSignalRef = ''fp'', lcDecisionRef = ''dec:fp:1'', lcOutcomeRef = ''out:1'',
     lcContractRef = ''flip'', lcFailureClass = ''service_failure'', lcConfidence = 8/10, lcMode = ModeLive,
     lcResult = ResultSuccess, lcObservedAt = 10\<rparr>"

definition sample_corpus :: "learned_case list \<Rightarrow> corpus" where
  "sample_corpus cs = \<lparr>cpVersion = 3, cpCases = cs, cpMinedAt = 5, cpSegments = [''seg'']\<rparr>"

theorem merge_idempotent_witness:
  "let once = mergeCorpus id (sample_corpus [sample_case\<lparr>lcRunID := []\<rparr>]) (sample_corpus [sample_case])
   in set (cpCases (mergeCorpus id once (sample_corpus [sample_case]))) = set (cpCases once)"
proof -
  have "permutes_cases id" by (simp add: permutes_cases_def)
  moreover have "refs_agree (cpCases (sample_corpus [sample_case\<lparr>lcRunID := []\<rparr>]) @ cpCases (sample_corpus [sample_case]))"
    by (simp add: refs_agree_def same_fact_def case_key_def sample_corpus_def)
  ultimately show ?thesis using merge_idempotent by (fastforce simp: Let_def)
qed

text \<open>every mined case is a settled judgement on one run: it joins an outcome to a set of the same signal
  that had reached its status by then, the latest such set, it is not the mere acknowledgement of an
  action, and no two mined cases answer to the same signal and decision.\<close>

theorem mined_cases_settle:
  assumes "permutes_cases sorter" "c \<in> set (mineCorpus sorter sets outcomes)"
  shows "distinct (map case_key (mineCorpus sorter sets outcomes)) \<and> lcResult c \<noteq> ResultApplied \<and>
    (\<exists>ps oc st. ps \<in> set sets \<and> oc \<in> set outcomes \<and> c = newCase ps oc \<and> psSignalRef ps = outSignalRef oc \<and>
       psStatus ps = Some st \<and> stObservedAt st \<le> outExecutedAt oc \<and>
       (\<forall>q \<in> set sets. psSignalRef q = outSignalRef oc \<longrightarrow>
          (\<forall>qt. psStatus q = Some qt \<longrightarrow> stObservedAt qt \<le> outExecutedAt oc \<longrightarrow> stObservedAt qt \<le> stObservedAt st)))"
proof -
  let ?join = "\<lambda>oc. map_option (\<lambda>s. newCase s oc) (latestSetBefore (filter (\<lambda>s. psSignalRef s = outSignalRef oc) sets) (outExecutedAt oc))"
  let ?cs = "List.map_filter ?join outcomes"
  have perm: "mset (mineCorpus sorter sets outcomes) = mset (collapseCases ?cs)"
    using assms(1) by (simp add: mineCorpus_def permutes_cases_def)
  have "distinct (map case_key (mineCorpus sorter sets outcomes))"
    by (rule perm_distinct_map [OF perm collapse_distinct])
  moreover have mem: "c \<in> set (collapseCases ?cs)" using mset_eq_setD [OF perm] assms(2) by simp
  from mem have c: "c \<in> set ?cs" "settled_case c"
    unfolding collapse_mem by (rule best_of_Some(1), rule best_of_Some(3))
  from c(1) obtain oc ps where join: "oc \<in> set outcomes" "c = newCase ps oc"
    "latestSetBefore (filter (\<lambda>s. psSignalRef s = outSignalRef oc) sets) (outExecutedAt oc) = Some ps"
    unfolding map_filter_mem by auto
  from latestSetBefore_Some [OF join(3)] obtain st where st: "ps \<in> set sets" "psSignalRef ps = outSignalRef oc"
    "psStatus ps = Some st" "stObservedAt st \<le> outExecutedAt oc"
    "\<forall>q \<in> set sets. psSignalRef q = outSignalRef oc \<longrightarrow>
       (\<forall>qt. psStatus q = Some qt \<longrightarrow> stObservedAt qt \<le> outExecutedAt oc \<longrightarrow> stObservedAt qt \<le> stObservedAt st)"
    by (elim conjE exE) (simp only: set_filter mem_Collect_eq ball_simps, blast)
  ultimately show ?thesis using c(2) join(1,2) st
    by (intro conjI exI [of _ ps] exI [of _ oc] exI [of _ st]) (simp_all add: settled_case_def)
qed

theorem mined_cases_settle_witness:
  "\<exists>c. mineCorpus id [example_set\<lparr>psStatus := Some zero_status\<rparr>]
       [zero_outcome\<lparr>outSignalRef := ''fp'', outResult := ResultSuccess, outExecutedAt := 5\<rparr>] = [c] \<and>
     lcRunID c = ''fp/1'' \<and> lcResult c \<noteq> ResultApplied"
proof -
  let ?set = "example_set\<lparr>psStatus := Some zero_status\<rparr>"
  let ?oc = "zero_outcome\<lparr>outSignalRef := ''fp'', outResult := ResultSuccess, outExecutedAt := 5\<rparr>"
  have m: "mineCorpus id [?set] [?oc] = [newCase ?set ?oc]"
    by (simp add: mineCorpus_def map_filter_simps latestSetBefore_def example_set_def zero_status_def zero_outcome_def
        zero_time_def collapseCases_def collapse_step_def newCase_def case_key_def Let_def)
  have "permutes_cases id" by (simp add: permutes_cases_def)
  from mined_cases_settle [OF this, of "newCase ?set ?oc" "[?set]" "[?oc]"] m
  have "lcResult (newCase ?set ?oc) \<noteq> ResultApplied" by simp
  moreover have "lcRunID (newCase ?set ?oc) = ''fp/1''" by (simp add: newCase_def example_set_def)
  ultimately show ?thesis using m by blast
qed

text \<open>The tally of a floor, by counting.\<close>

definition counted :: "failure_class \<Rightarrow> learned_case \<Rightarrow> bool" where
  "counted cls c \<longleftrightarrow> lcFailureClass c = cls \<and> lcResult c \<noteq> ResultRendered \<and> lcResult c \<noteq> ResultApplied"

lemma floorSupport_counts:
  "fsAdmittedTotal (floorSupport cs cls flr) = length (filter (\<lambda>c. counted cls c \<and> flr \<le> lcConfidence c) cs)"
  "fsAdmittedWins (floorSupport cs cls flr) =
     length (filter (\<lambda>c. counted cls c \<and> flr \<le> lcConfidence c \<and> lcResult c = ResultSuccess) cs)"
  "fsRefusedTotal (floorSupport cs cls flr) = length (filter (\<lambda>c. counted cls c \<and> \<not> flr \<le> lcConfidence c) cs)"
  "fsRefusedWins (floorSupport cs cls flr) =
     length (filter (\<lambda>c. counted cls c \<and> \<not> flr \<le> lcConfidence c \<and> lcResult c = ResultSuccess) cs)"
  by (induction cs rule: rev_induct) (auto simp: floorSupport_def counted_def Let_def)

lemma filter_length_mono: "(\<And>x. P x \<Longrightarrow> Q x) \<Longrightarrow> length (filter P xs) \<le> length (filter Q xs)"
  by (induction xs) (auto intro: le_SucI)

lemma filter_length_split: "length (filter (\<lambda>x. P x \<and> Q x) xs) + length (filter (\<lambda>x. P x \<and> \<not> Q x) xs) = length (filter P xs)"
  by (induction xs) auto

text \<open>the support of a floor is a partition of the settled cases of its class: every one is admitted or
  refused, wins are counted within each side, and raising the floor only moves cases from the admitted
  to the refused side.\<close>

theorem floor_support_partitions:
  assumes "lo \<le> hi"
  shows "(let a = floorSupport cs cls lo; b = floorSupport cs cls hi in
    fsAdmittedTotal a + fsRefusedTotal a = length (filter (counted cls) cs) \<and>
    fsAdmittedWins a \<le> fsAdmittedTotal a \<and> fsRefusedWins a \<le> fsRefusedTotal a \<and>
    fsAdmittedTotal b \<le> fsAdmittedTotal a \<and> fsRefusedTotal a \<le> fsRefusedTotal b \<and>
    fsAdmittedWins a + fsRefusedWins a = fsAdmittedWins b + fsRefusedWins b)"
proof -
  have wins: "length (filter (\<lambda>c. counted cls c \<and> f \<le> lcConfidence c \<and> lcResult c = ResultSuccess) cs) +
      length (filter (\<lambda>c. counted cls c \<and> \<not> f \<le> lcConfidence c \<and> lcResult c = ResultSuccess) cs) =
      length (filter (\<lambda>c. counted cls c \<and> lcResult c = ResultSuccess) cs)" for f
    using filter_length_split [of "\<lambda>c. counted cls c \<and> lcResult c = ResultSuccess" "\<lambda>c. f \<le> lcConfidence c" cs]
    by (simp add: conj_ac)
  show ?thesis
    unfolding Let_def floorSupport_counts wins
    using assms by (auto simp: filter_length_split intro!: filter_length_mono)
qed

theorem floor_support_partitions_witness:
  "fsAdmittedTotal (floorSupport [sample_case] ''service_failure'' (9/10)) \<le>
   fsAdmittedTotal (floorSupport [sample_case] ''service_failure'' (1/2))"
  using floor_support_partitions [of "1/2" "9/10" "[sample_case]" "''service_failure''"] by (simp add: Let_def)

lemma before_last_split: "c \<notin> set b \<Longrightarrow> before_last c (a @ c # b) = Some a"
proof -
  assume "c \<notin> set b"
  then have "dropWhile (\<lambda>x. x \<noteq> c) (rev b @ c # rev a) = c # rev a"
    by (subst dropWhile_append2) auto
  then show ?thesis by (simp add: before_last_def)
qed

lemma show_int_no_colon: "CHR '':'' \<notin> set (show_int i)"
proof -
  have "CHR '':'' \<notin> set (show_nat n)" for n
  proof
    assume "CHR '':'' \<in> set (show_nat n)"
    then have "is_digit (CHR '':'')" using show_nat_digits [of n] by (auto simp: list_all_iff)
    then show False by (simp add: is_digit_def)
  qed
  then show ?thesis by (simp add: show_int_def)
qed

lemma cut_prefix_append [simp]: "cut_prefix pre (pre @ s) = Some s"
  by (simp add: cut_prefix_def)

text \<open>the signal of a decision can be read back from the decision's identifier, colons of its own included;
  the identifier of a forced decision reads back with a word that is not part of the signal.\<close>

theorem decision_ref_roundtrip:
  "signalRefFromDecisionRef (decision_id fp now) = fp \<and>
   signalRefFromDecisionRef (decID (forced fp operator t1 t2 d)) = fp @ '':force''"
proof -
  have "before_last (CHR '':'') (fp @ CHR '':'' # show_int n) = Some fp" for n
    by (rule before_last_split) (rule show_int_no_colon)
  moreover have "before_last (CHR '':'') ((fp @ '':force'') @ CHR '':'' # show_int n) = Some (fp @ '':force'')" for n
    by (rule before_last_split) (rule show_int_no_colon)
  ultimately show ?thesis
    using cut_prefix_append [of "''dec:''"]
    by (simp add: signalRefFromDecisionRef_def decision_id_def forced_def cut_prefix_def)
qed

text \<open>one unreadable segment blocks nothing: over the pages of a listing that answered, a walk returns the
  lines of every segment that unseals, in listing order, and fails only when segments were listed and
  none of them unseals.\<close>

theorem unreadable_segment_skipped:
  "walk getSegment prefix (map Inr kss) =
     (let keys = concat kss; readable = filter (\<lambda>k. \<not> isl (getSegment k)) keys
      in if keys \<noteq> [] \<and> readable = [] then Inl (EverySegmentFailed prefix (length keys))
         else Inr (readable, concat (map (\<lambda>k. projr (getSegment k)) readable)))"
proof -
  let ?r = "\<lambda>ks. filter (\<lambda>k. \<not> isl (getSegment k)) ks" and ?f = "\<lambda>ks. filter (\<lambda>k. isl (getSegment k)) ks"
  have step: "foldl (\<lambda>(segs, lines, tot, failed) k. case getSegment k of Inl _ \<Rightarrow> (segs, lines, tot + 1, failed + 1)
          | Inr ls \<Rightarrow> (segs @ [k], lines @ ls, tot + 1, failed)) (a, b, t, f) ks =
      (a @ ?r ks, b @ concat (map (\<lambda>k. projr (getSegment k)) (?r ks)), t + length ks, f + length (?f ks))"
    for a b t f ks
    by (induction ks arbitrary: a b t f) (auto split: sum.split)
  have pages: "walk_pages getSegment prefix (map Inr kss) (a, b, t, f) =
      Inr (a @ ?r (concat kss), b @ concat (map (\<lambda>k. projr (getSegment k)) (?r (concat kss))), t + length (concat kss),
           f + length (?f (concat kss)))" for a b t f
    by (induction kss arbitrary: a b t f) (simp_all add: step)
  have "length (?f ks) = length ks \<longleftrightarrow> ?r ks = []" for ks :: "string list"
    using sum_length_filter_compl [of "\<lambda>k. isl (getSegment k)" ks] by (metis add_0_right add_left_cancel length_0_conv)
  then show ?thesis by (auto simp: walk_def pages Let_def)
qed

end
