(* ===== verification/Transcript.thy ===== *)
theory Transcript
  imports Corpus Propose
begin

text \<open>
  Exporting recorded runs (\<^verbatim>\<open>src/internal/transcript/transcript.go\<close>): the turns a run checkpointed under its
  prefix of the bucket, the set it produced, and the bulk export of every run.

  A listing is a function from a prefix to its pages, each an error or its keys. Opening and decoding an
  object and writing a pair of files are arguments. Go's sort by step is the argument \<open>sorter\<close>.
\<close>

definition trim_prefix :: "string \<Rightarrow> string \<Rightarrow> string" where
  "trim_prefix pre s = (if take (length pre) s = pre then drop (length pre) s else s)"

definition trim_suffix :: "string \<Rightarrow> string \<Rightarrow> string" where
  "trim_suffix suf s = rev (trim_prefix (rev suf) (rev s))"

text \<open>Go's decimal integers: an optional sign and digits, within 64 bits.\<close>

definition atoi :: "string \<Rightarrow> int option" where
  "atoi s =
     (let (sgn, ds) = (if take 1 s = ''-'' then (-1, tl s) else if take 1 s = ''+'' then (1, tl s) else (1, s));
          v = sgn * int (digits_value ds)
      in if ds = [] \<or> \<not> list_all is_digit ds \<or> v < - (2 ^ 63) \<or> 2 ^ 63 \<le> v then None else Some v)"

datatype transcript_error = ListTurns string string | GetTurn string | FindSet string | WritePair string

text \<open>One object: fetched, opened under the key, decoded.\<close>

definition getTurn ::
  "(string \<Rightarrow> string + string) \<Rightarrow> (string \<Rightarrow> string \<Rightarrow> string option) \<Rightarrow> (string \<Rightarrow> string + turn) \<Rightarrow> string \<Rightarrow> string + turn" where
  "getTurn get gcmOpen unmarshal objKey =
     (case get objKey of
        Inl e \<Rightarrow> Inl (''get '' @ objKey @ '': '' @ e)
      | Inr sealed \<Rightarrow>
          (case key_open gcmOpen sealed of
             None \<Rightarrow> Inl (''unseal '' @ objKey)
           | Some raw \<Rightarrow>
               (case unmarshal raw of Inl e \<Rightarrow> Inl (''decode '' @ objKey @ '': '' @ e) | Inr t \<Rightarrow> Inr t)))"

fun collect_keys :: "string \<Rightarrow> (string + string list) list \<Rightarrow> (string list \<Rightarrow> transcript_error + 'a) \<Rightarrow> string list \<Rightarrow>
   transcript_error + 'a" where
  "collect_keys prefix [] k acc = k acc"
| "collect_keys prefix (Inl e # pages) k acc = Inl (ListTurns prefix e)"
| "collect_keys prefix (Inr keys # pages) k acc = collect_keys prefix pages k (acc @ keys)"

text \<open>The objects of one page list; an object that is not a numbered turn is passed over before it is fetched.\<close>

fun page_turns ::
  "(string \<Rightarrow> string + turn) \<Rightarrow> string \<Rightarrow> string list \<Rightarrow> (int \<times> turn) list \<Rightarrow> transcript_error + (int \<times> turn) list" where
  "page_turns fetch prefix [] found = Inr found"
| "page_turns fetch prefix (k # ks) found =
     (case atoi (trim_suffix ''.json'' (trim_prefix prefix k)) of
        None \<Rightarrow> page_turns fetch prefix ks found
      | Some step \<Rightarrow>
          (case fetch k of
             Inl e \<Rightarrow> Inl (GetTurn e)
           | Inr t \<Rightarrow> page_turns fetch prefix ks (found @ [(step, t)])))"

fun walk_turn_pages ::
  "(string \<Rightarrow> string + turn) \<Rightarrow> string \<Rightarrow> (string + string list) list \<Rightarrow> (int \<times> turn) list \<Rightarrow>
   transcript_error + (int \<times> turn) list" where
  "walk_turn_pages fetch prefix [] found = Inr found"
| "walk_turn_pages fetch prefix (Inl e # pages) found = Inl (ListTurns prefix e)"
| "walk_turn_pages fetch prefix (Inr keys # pages) found =
     res_bind (page_turns fetch prefix keys found) (walk_turn_pages fetch prefix pages)"

definition walkTurns ::
  "((int \<times> turn) list \<Rightarrow> (int \<times> turn) list) \<Rightarrow> (string \<Rightarrow> (string + string list) list) \<Rightarrow> (string \<Rightarrow> string + turn) \<Rightarrow> string \<Rightarrow>
   transcript_error + turn list" where
  "walkTurns sorter listing fetch runID =
     (let prefix = ''transcripts/'' @ runID @ ''/''
      in res_bind (walk_turn_pages fetch prefix (listing prefix) []) (\<lambda>found. Inr (map snd (sorter found))))"

definition listed_run :: "string \<Rightarrow> string option" where
  "listed_run k =
     (let rest = trim_prefix ''transcripts/'' k; runID = takeWhile (\<lambda>c. c \<noteq> CHR ''/'') rest
      in if CHR ''/'' \<notin> set rest \<or> runID = [] then None else Some runID)"

definition listRunIDs :: "(string \<Rightarrow> (string + string list) list) \<Rightarrow> transcript_error + string list" where
  "listRunIDs listing =
     collect_keys ''transcripts/'' (listing ''transcripts/'')
       (\<lambda>keys. Inr (sort (remdups (List.map_filter listed_run keys)))) []"

text \<open>The published sets first, then the reasoning journal; each lookup is an error or the decoded sets.\<close>

fun findSet :: "(string + proposal_set list) list \<Rightarrow> string \<Rightarrow> transcript_error + proposal_set option" where
  "findSet [] runID = Inr None"
| "findSet (Inl e # srcs) runID = Inl (FindSet e)"
| "findSet (Inr sets # srcs) runID =
     (case List.find (\<lambda>s. psRunID s = runID) sets of Some s \<Rightarrow> Inr (Some s) | None \<Rightarrow> findSet srcs runID)"

record export =
  xpWritten :: "string list"
  xpSkipped :: "(string \<times> string) list"
  xpFiles :: "(string \<times> turn list \<times> proposal_set) list"

fun export_runs ::
  "(string \<Rightarrow> transcript_error + turn list) \<Rightarrow> (string \<Rightarrow> transcript_error + proposal_set option) \<Rightarrow> (string \<Rightarrow> string option) \<Rightarrow>
   string list \<Rightarrow> export \<Rightarrow> transcript_error + export" where
  "export_runs turns_of set_of write [] x = Inr x"
| "export_runs turns_of set_of write (r # rs) x =
     (case turns_of r of
        Inl e \<Rightarrow> Inl e
      | Inr ts \<Rightarrow>
          if ts = [] then export_runs turns_of set_of write rs (x\<lparr>xpSkipped := xpSkipped x @ [(r, ''no checkpointed turns'')]\<rparr>)
          else (case set_of r of
                  Inl e \<Rightarrow> Inl e
                | Inr None \<Rightarrow> export_runs turns_of set_of write rs
                                (x\<lparr>xpSkipped := xpSkipped x @ [(r, ''no proposal.Set found (can lag turns by up to MaxAge + ShipInterval before shipping; retry after ~11 minutes)'')]\<rparr>)
                | Inr (Some s) \<Rightarrow>
                    (case write r of
                       Some e \<Rightarrow> Inl (WritePair e)
                     | None \<Rightarrow> export_runs turns_of set_of write rs
                                 (x\<lparr>xpWritten := xpWritten x @ [r], xpFiles := xpFiles x @ [(r, ts, s)]\<rparr>))))"

definition writeAll ::
  "((int \<times> turn) list \<Rightarrow> (int \<times> turn) list) \<Rightarrow> (string \<Rightarrow> (string + string list) list) \<Rightarrow> (string \<Rightarrow> string + turn) \<Rightarrow>
   (string + proposal_set list) list \<Rightarrow> (string \<Rightarrow> string option) \<Rightarrow> transcript_error + export" where
  "writeAll sorter listing fetch sources write =
     res_bind (listRunIDs listing) (\<lambda>runIDs.
       export_runs (walkTurns sorter listing fetch) (findSet sources) write runIDs
         \<lparr>xpWritten = [], xpSkipped = [], xpFiles = []\<rparr>)"

subsection \<open>What a name under a run's prefix is\<close>

text \<open>A listing of exactly these keys, without an error.\<close>

definition lists :: "string list \<Rightarrow> (string \<Rightarrow> (string + string list) list) \<Rightarrow> bool" where
  "lists keys listing \<longleftrightarrow> (\<forall>p. \<exists>kss. listing p = map Inr kss \<and> concat kss = filter (\<lambda>k. take (length p) k = p) keys)"

definition store_keys :: "string list \<Rightarrow> bool" where
  "store_keys keys \<longleftrightarrow> (\<forall>k \<in> set keys. \<exists>r. (\<exists>n. n < 2 ^ 63 \<and> k = turnKey r n) \<or> k = finishKey r)"

lemma trim_prefix_append [simp]: "trim_prefix p (p @ s) = s"
  by (simp add: trim_prefix_def)

lemma trim_suffix_append [simp]: "trim_suffix suf (s @ suf) = s"
  by (simp add: trim_suffix_def)

lemma atoi_show_nat: "n < 2 ^ 63 \<Longrightarrow> atoi (show_nat n) = Some (int n)"
proof -
  assume n: "n < 2 ^ 63"
  obtain c cs where s: "show_nat n = c # cs" using show_nat_nonempty by (cases "show_nat n") auto
  then have c: "is_digit c" using show_nat_digits [of n] by simp
  then have sign: "c \<noteq> CHR ''-''" "c \<noteq> CHR ''+''" by (auto simp: is_digit_def)
  have "int n < int (2 ^ 63)" using n by (simp only: of_nat_less_iff)
  then have "int n < 2 ^ 63" by simp
  then show ?thesis using sign s show_nat_digits [of n] digits_value_show_nat [of n]
    by (simp add: atoi_def)
qed

lemma atoi_slash: "CHR ''/'' \<in> set s \<Longrightarrow> atoi s = None"
proof -
  assume slash: "CHR ''/'' \<in> set s"
  have no: "\<not> list_all is_digit ds" if "CHR ''/'' \<in> set ds" for ds
  proof
    assume "list_all is_digit ds"
    with that have "is_digit (CHR ''/'')" by (simp add: list_all_iff)
    then show False by (simp add: is_digit_def)
  qed
  show ?thesis
  proof (cases s)
    case (Cons c cs)
    with slash no [of s] no [of cs] show ?thesis by (auto simp: atoi_def Let_def is_digit_def)
  qed (use slash in simp)
qed

lemma pages_keys:
  "page_turns fetch prefix (ks @ ks') found = res_bind (page_turns fetch prefix ks found) (page_turns fetch prefix ks')"
  by (induction ks arbitrary: found) (auto simp: res_bind_def split: option.splits sum.splits)

lemma walk_pages_concat:
  "walk_turn_pages fetch prefix (map Inr kss) found = page_turns fetch prefix (concat kss) found"
proof (induction kss arbitrary: found)
  case (Cons ks kss)
  have "walk_turn_pages fetch prefix (map Inr kss) = page_turns fetch prefix (concat kss)" using Cons by (rule ext)
  then show ?case by (simp add: pages_keys)
qed simp

lemma collect_keys_concat: "collect_keys prefix (map Inr kss) k acc = k (acc @ concat kss)"
  by (induction kss arbitrary: acc) simp_all

lemma page_turns_eq:
  assumes "\<And>k. k \<in> set ks \<Longrightarrow> name k = atoi (trim_suffix ''.json'' (trim_prefix prefix k))"
    "\<And>k n. k \<in> set ks \<Longrightarrow> name k = Some n \<Longrightarrow> fetch k = Inr (T n)"
  shows "page_turns fetch prefix ks found = Inr (found @ map (\<lambda>n. (n, T n)) (List.map_filter name ks))"
  using assms
proof (induction ks arbitrary: found)
  case (Cons k ks)
  have IH: "page_turns fetch prefix ks found' = Inr (found' @ map (\<lambda>n. (n, T n)) (List.map_filter name ks))" for found'
    using Cons.IH Cons.prems by simp
  show ?case
  proof (cases "name k")
    case None
    with Cons.prems(1) [of k] show ?thesis by (simp add: IH map_filter_simps)
  next
    case (Some n)
    with Cons.prems(1) [of k] have "atoi (trim_suffix ''.json'' (trim_prefix prefix k)) = Some n" by simp
    with Some Cons.prems(2) [of k n] show ?thesis by (simp add: IH map_filter_simps)
  qed
qed (simp add: map_filter_simps)

text \<open>Under the prefix of a run, its own turns are the only numbered names.\<close>

lemma own_turn_name:
  "n < 2 ^ 63 \<Longrightarrow> atoi (trim_suffix ''.json'' (trim_prefix (''transcripts/'' @ r @ ''/'') (turnKey r n))) = Some (int n)"
  using trim_prefix_append [of "''transcripts/'' @ r @ ''/''" "show_nat n @ ''.json''"] trim_suffix_append [of "''.json''" "show_nat n"]
  by (simp add: turnKey_def atoi_show_nat)

lemma other_name:
  assumes "store_keys [k]" "take (length (''transcripts/'' @ r @ ''/'')) k = ''transcripts/'' @ r @ ''/''" "\<And>n. k \<noteq> turnKey r n"
  shows "atoi (trim_suffix ''.json'' (trim_prefix (''transcripts/'' @ r @ ''/'') k)) = None"
proof -
  let ?p = "''transcripts/'' @ r @ ''/''"
  from assms(2) obtain rest where k: "k = ?p @ rest" by (metis append_take_drop_id)
  have fin: "CHR ''/'' \<notin> set ''finish''" by simp
  from assms(1) obtain q t where q: "k = (''transcripts/'' @ q) @ CHR ''/'' # (t @ ''.json'')" "CHR ''/'' \<notin> set t"
      "(\<exists>n. t = show_nat n) \<or> t = ''finish''"
    using show_nat_no_slash fin by (fastforce simp: store_keys_def turnKey_def finishKey_def)
  have t: "CHR ''/'' \<notin> set (t @ ''.json'')" using q(2) by simp
  show ?thesis
  proof (cases "CHR ''/'' \<in> set rest")
    case True
    then obtain a b where ab: "rest = a @ CHR ''/'' # b" "CHR ''/'' \<notin> set b" by (meson split_list_last)
    have "(''transcripts/'' @ q) @ CHR ''/'' # (t @ ''.json'') = (?p @ a) @ CHR ''/'' # b" using q(1) k ab(1) by simp
    from last_slash_unique [OF this t ab(2)] have "rest = (a @ CHR ''/'' # t) @ ''.json''" using ab(1) by simp
    then have "trim_suffix ''.json'' (trim_prefix ?p k) = a @ CHR ''/'' # t"
      using k trim_prefix_append [of ?p rest] trim_suffix_append [of "''.json''" "a @ CHR ''/'' # t"] by metis
    then show ?thesis by (simp add: atoi_slash)
  next
    case False
    have "(''transcripts/'' @ q) @ CHR ''/'' # (t @ ''.json'') = (''transcripts/'' @ r) @ CHR ''/'' # rest" using q(1) k by simp
    from last_slash_unique [OF this t False] have qr: "q = r" "rest = t @ ''.json''" by auto
    have "t = ''finish''" using q(1,3) qr assms(3) by (auto simp: turnKey_def)
    moreover have "trim_suffix ''.json'' (trim_prefix ?p k) = t"
      using k qr(2) trim_prefix_append [of ?p rest] trim_suffix_append [of "''.json''" t] by metis
    moreover have "atoi ''finish'' = None" by (simp add: atoi_def is_digit_def)
    ultimately show ?thesis by simp
  qed
qed

lemma set_numbered: "set (List.map_filter f xs) = {y. \<exists>x \<in> set xs. f x = Some y}"
  by (induction xs) (auto simp: map_filter_simps split: option.splits)

lemma distinct_numbered:
  assumes "distinct xs" "\<And>x y i. x \<in> set xs \<Longrightarrow> y \<in> set xs \<Longrightarrow> f x = Some i \<Longrightarrow> f y = Some i \<Longrightarrow> x = y"
  shows "distinct (List.map_filter f xs)"
  using assms
proof (induction xs)
  case (Cons x xs)
  have IH: "distinct (List.map_filter f xs)" using Cons.IH Cons.prems by simp
  show ?case
  proof (cases "f x")
    case (Some i)
    have "i \<notin> set (List.map_filter f xs)"
    proof
      assume "i \<in> set (List.map_filter f xs)"
      then obtain y where "y \<in> set xs" "f y = Some i" by (auto simp: set_numbered)
      with Cons.prems(2) [of x y i] Some Cons.prems(1) show False by auto
    qed
    with Some IH show ?thesis by (simp add: map_filter_simps)
  qed (use IH in \<open>simp add: map_filter_simps\<close>)
qed (simp add: map_filter_simps)

lemma sorter_steps:
  assumes "sorts sorter" "distinct js" "set js = int ` S" "finite S"
  shows "sorter (map (\<lambda>i. (i, T (nat i))) js) = map (\<lambda>n. (int n, T n)) (sorted_list_of_set S)" (is "sorter ?found = ?sorted")
proof (rule map_sorted_distinct_set_unique [where f = fst])
  have m: "mset (sorter ?found) = mset ?found" using assms(1) by (simp add: sorts_def)
  then have set: "set (sorter ?found) = set ?found" by (rule mset_eq_setD)
  show "sorted (map fst (sorter ?found))" using assms(1) by (simp add: sorts_def)
  have "mset (map fst (sorter ?found)) = mset js" using m by (simp add: multiset.map_comp comp_def)
  then show "distinct (map fst (sorter ?found))" using assms(2) mset_eq_imp_distinct_iff by blast
  show same: "set (sorter ?found) = set ?sorted" unfolding set using assms(3,4) by auto
  show "inj_on fst (set (sorter ?found) \<union> set ?sorted)" unfolding same by (auto simp: inj_on_def)
  show "sorted (map fst ?sorted)" using sorted_sorted_list_of_set [of S] by (simp add: comp_def sorted_map)
  show "distinct (map fst ?sorted)" by (simp add: comp_def distinct_map)
qed

text \<open>The turns under a run's prefix are fetched once each and returned in step order.\<close>

lemma walkTurns_eq:
  assumes "sorts sorter" "lists keys listing" "store_keys keys" "distinct keys"
    "\<And>n. turnKey r n \<in> set keys \<Longrightarrow> n < 2 ^ 63 \<and> fetch (turnKey r n) = Inr (T n)"
  shows "walkTurns sorter listing fetch r = Inr (map T (sorted_list_of_set {n. turnKey r n \<in> set keys}))"
proof -
  let ?p = "''transcripts/'' @ r @ ''/''" and ?S = "{n. turnKey r n \<in> set keys}"
  define name where "name k = atoi (trim_suffix ''.json'' (trim_prefix ?p k))" for k
  define ks where "ks = filter (\<lambda>k. take (length ?p) k = ?p) keys"
  from assms(2) obtain kss where kss: "listing ?p = map Inr kss" "concat kss = ks" unfolding lists_def ks_def by metis
  have under: "take (length ?p) (turnKey r n) = ?p" for n by (simp add: turnKey_def)
  have own: "name (turnKey r n) = Some (int n)" if "turnKey r n \<in> set keys" for n
    using own_turn_name assms(5) that by (simp add: name_def)
  have step: "\<exists>n. k = turnKey r n \<and> i = int n" if "k \<in> set ks" "name k = Some i" for k i
  proof -
    have "store_keys [k]" using assms(3) that(1) by (auto simp: store_keys_def ks_def)
    moreover have "take (length ?p) k = ?p" using that(1) unfolding ks_def by simp
    ultimately have "\<exists>n. k = turnKey r n" using other_name that(2) unfolding name_def by (metis option.distinct(1))
    then obtain n where "k = turnKey r n" by blast
    then show ?thesis using own [of n] that unfolding ks_def by auto
  qed
  define found where "found = map (\<lambda>i. (i, T (nat i))) (List.map_filter name ks)"
  have "page_turns fetch ?p ks [] = Inr ([] @ found)" unfolding found_def
  proof (rule page_turns_eq)
    fix k i assume k: "k \<in> set ks" "name k = Some i"
    from step [OF k] obtain n where "k = turnKey r n" "i = int n" by blast
    then show "fetch k = Inr (T (nat i))" using assms(5) k(1) by (simp add: ks_def)
  qed (simp add: name_def)
  then have walk: "walkTurns sorter listing fetch r = Inr (map snd (sorter found))"
    using kss by (simp add: walkTurns_def Let_def walk_pages_concat)
  have names: "set (List.map_filter name ks) = int ` ?S"
  proof (intro equalityI subsetI)
    fix i assume "i \<in> set (List.map_filter name ks)"
    then obtain k where k: "k \<in> set ks" "name k = Some i" by (auto simp: set_numbered)
    then show "i \<in> int ` ?S" using step [OF k] by (auto simp: ks_def)
  next
    fix i assume "i \<in> int ` ?S"
    then obtain n where n: "i = int n" "turnKey r n \<in> set keys" by blast
    then have "turnKey r n \<in> set ks" using under unfolding ks_def by simp
    with own [OF n(2)] n(1) show "i \<in> set (List.map_filter name ks)" by (auto simp: set_numbered)
  qed
  have once: "distinct (List.map_filter name ks)"
  proof (rule distinct_numbered)
    show "distinct ks" using assms(4) by (simp add: ks_def)
    show "x = y" if "x \<in> set ks" "y \<in> set ks" "name x = Some i" "name y = Some i" for x y i
      using step [OF that(1,3)] step [OF that(2,4)] by auto
  qed
  have "finite ?S" using names by (metis List.finite_set finite_imageD inj_on_of_nat)
  then have "sorter found = map (\<lambda>n. (int n, T n)) (sorted_list_of_set ?S)"
    unfolding found_def using sorter_steps [OF assms(1) once names] by blast
  then show ?thesis using walk by (simp add: comp_def)
qed

subsection \<open>From the checkpoints to the export\<close>

text \<open>A bucket filled by the reason loop's store: turns and ends, each sealed under its own nonce.\<close>

datatype store_put = PutTurn string turn | PutEnd string string "string option"

definition store_step ::
  "(transcript_line \<Rightarrow> string + string) \<Rightarrow> (string \<Rightarrow> string \<Rightarrow> string) \<Rightarrow> store_put \<Rightarrow> (string \<rightharpoonup> string) \<Rightarrow> (string \<rightharpoonup> string)" where
  "store_step marshal gcmSeal p b =
     (case p of
        PutTurn nonce t \<Rightarrow> snd (s3_checkpoint marshal gcmSeal (Some nonce) (\<lambda>_. None) False t b)
      | PutEnd nonce r e \<Rightarrow> snd (s3_finish marshal gcmSeal (Some nonce) (\<lambda>_. None) False r e b))"

definition put_turns :: "store_put list \<Rightarrow> turn list" where
  "put_turns ps = List.map_filter (\<lambda>p. case p of PutTurn _ t \<Rightarrow> Some t | PutEnd _ _ _ \<Rightarrow> None) ps"

definition bucket_get :: "(string \<rightharpoonup> string) \<Rightarrow> string \<Rightarrow> string + string" where
  "bucket_get b k = (case b k of None \<Rightarrow> Inl ''NoSuchKey'' | Some v \<Rightarrow> Inr v)"

lemma put_turns_simps [simp]:
  "put_turns [] = []" "put_turns (ps @ qs) = put_turns ps @ put_turns qs"
  "put_turns (PutTurn nonce t # ps) = t # put_turns ps" "put_turns (PutEnd nonce r e # ps) = put_turns ps"
  by (simp_all add: put_turns_def map_filter_def)

lemma in_put_turns: "t \<in> set (put_turns ps) \<longleftrightarrow> (\<exists>nonce. PutTurn nonce t \<in> set ps)"
  by (induction ps) (auto simp: put_turns_def map_filter_simps split: store_put.splits)

lemma store_step_put:
  assumes "\<And>v. marshal v = Inr (m v)"
  shows "store_step marshal gcmSeal (PutTurn nonce t) b = b(turnKey (tnRunID t) (tnStep t) \<mapsto> nonce @ gcmSeal nonce (m (TurnLine t)))"
    "store_step marshal gcmSeal (PutEnd nonce r e) b =
       b(finishKey r \<mapsto> nonce @ gcmSeal nonce (m (TerminalLine \<lparr>trFinished = True, trError = (case e of None \<Rightarrow> [] | Some e \<Rightarrow> e)\<rparr>)))"
  by (simp_all add: store_step_def s3_checkpoint_def s3_finish_def putJSON_def assms key_seal_def)

lemma stored_keys:
  assumes "\<And>v. marshal v = Inr (m v)" "fold (store_step marshal gcmSeal) ps Map.empty k = Some v"
  shows "(\<exists>t \<in> set (put_turns ps). k = turnKey (tnRunID t) (tnStep t)) \<or> (\<exists>r. k = finishKey r)"
  using assms(2)
proof (induction ps arbitrary: v rule: rev_induct)
  case (snoc p ps)
  show ?case
  proof (cases p)
    case (PutTurn nonce t)
    then show ?thesis using snoc store_step_put(1) [OF assms(1)] by (auto split: if_splits)
  next
    case (PutEnd nonce r e)
    then show ?thesis using snoc store_step_put(2) [OF assms(1)] by (auto split: if_splits)
  qed
qed simp

lemma stored_turn:
  assumes "\<And>v. marshal v = Inr (m v)" "distinct (map (\<lambda>t. (tnRunID t, tnStep t)) (put_turns ps))" "PutTurn nonce t \<in> set ps"
  shows "fold (store_step marshal gcmSeal) ps Map.empty (turnKey (tnRunID t) (tnStep t)) = Some (nonce @ gcmSeal nonce (m (TurnLine t)))"
  using assms(2,3)
proof (induction ps rule: rev_induct)
  case (snoc p ps)
  show ?case
  proof (cases p)
    case (PutTurn nonce' t')
    show ?thesis
    proof (cases "PutTurn nonce t \<in> set ps")
      case True
      then have "t \<in> set (put_turns ps)" by (auto simp: in_put_turns)
      with snoc.prems(1) PutTurn have "(tnRunID t, tnStep t) \<noteq> (tnRunID t', tnStep t')" by (auto simp: image_iff)
      then show ?thesis using snoc True PutTurn store_step_put(1) [OF assms(1)] by (auto simp: keys_distinct)
    next
      case False
      then show ?thesis using snoc.prems PutTurn store_step_put(1) [OF assms(1)] by simp
    qed
  next
    case (PutEnd nonce' r e)
    then show ?thesis using snoc store_step_put(2) [OF assms(1)] by (simp add: keys_distinct)
  qed
qed simp

lemma listed_by_key:
  fixes f :: "'a \<Rightarrow> nat"
  assumes "distinct xs" "\<And>x. x \<in> set xs \<Longrightarrow> T (f x) = x"
  shows "mset (map T (sorted_list_of_set (f ` set xs))) = mset xs"
    "map f (map T (sorted_list_of_set (f ` set xs))) = sorted_list_of_set (f ` set xs)"
proof -
  let ?L = "sorted_list_of_set (f ` set xs)"
  have inv: "f (T n) = n" if "n \<in> set ?L" for n using that assms(2) by auto
  then have "inj_on T (set ?L)" by (metis inj_onI)
  then have "distinct (map T ?L)" by (simp add: distinct_map)
  moreover have "set (map T ?L) = set xs" using assms(2) by (force simp: image_iff)
  ultimately show "mset (map T ?L) = mset xs" using assms(1) set_eq_iff_mset_eq_distinct by blast
  show "map f (map T ?L) = ?L" unfolding map_map using inv by (intro map_idI) simp
qed

text \<open>C34: a recorded run exports as it was checkpointed: over a bucket the reason loop's store filled with the turns
  and ends of any runs, in any order, under a cipher whose opening reverses its sealing and a decoder
  that reverses the encoder, exporting a run returns exactly its turns, in step order, none of another
  run's and not its end marker.\<close>

theorem recorded_run_exports:
  assumes "sorts sorter" "lists keys listing" "distinct keys"
    "set keys = dom (fold (store_step marshal gcmSeal) ps Map.empty)"
    "\<And>v. marshal v = Inr (m v)" "\<And>t. t \<in> set (put_turns ps) \<Longrightarrow> unmarshal (m (TurnLine t)) = Inr t \<and> tnStep t < 2 ^ 63"
    "\<And>nonce t. PutTurn nonce t \<in> set ps \<Longrightarrow> length nonce = nonce_size" "\<And>nonce plain. gcmOpen nonce (gcmSeal nonce plain) = Some plain"
    "distinct (map (\<lambda>t. (tnRunID t, tnStep t)) (put_turns ps))"
  shows "\<exists>ts. walkTurns sorter listing
      (getTurn (bucket_get (fold (store_step marshal gcmSeal) ps Map.empty)) gcmOpen unmarshal) r = Inr ts \<and>
    mset ts = mset (filter (\<lambda>t. tnRunID t = r) (put_turns ps)) \<and> sorted_wrt (<) (map tnStep ts)"
proof -
  let ?b = "fold (store_step marshal gcmSeal) ps Map.empty"
  let ?fetch = "getTurn (bucket_get ?b) gcmOpen unmarshal" and ?S = "{n. turnKey r n \<in> set keys}"
  let ?own = "filter (\<lambda>t. tnRunID t = r) (put_turns ps)"
  have fetched: "?fetch (turnKey (tnRunID t) (tnStep t)) = Inr t" if "t \<in> set (put_turns ps)" for t
  proof -
    from that obtain nonce where n: "PutTurn nonce t \<in> set ps" by (auto simp: in_put_turns)
    from stored_turn [OF assms(5,9) n] assms(6) [OF that] assms(7) [OF n] assms(8) show ?thesis
      by (simp add: getTurn_def bucket_get_def key_open_def)
  qed
  have stored: "\<exists>t \<in> set ?own. tnStep t = n" if "turnKey r n \<in> set keys" for n
  proof -
    from that assms(4) obtain v where "?b (turnKey r n) = Some v" by auto
    from stored_keys [OF assms(5) this] show ?thesis by (auto simp: keys_distinct)
  qed
  have key: "turnKey r (tnStep t) \<in> set keys" if "t \<in> set ?own" for t
  proof -
    from that obtain nonce where n: "PutTurn nonce t \<in> set ps" "tnRunID t = r" by (auto simp: in_put_turns)
    from stored_turn [OF assms(5,9) n(1)] n(2) show ?thesis using assms(4) by auto
  qed
  define T where "T n = projr (?fetch (turnKey r n))" for n
  have T: "T (tnStep t) = t" if "t \<in> set ?own" for t using fetched [of t] that by (auto simp: T_def)
  have S: "?S = tnStep ` set ?own" using stored key by auto
  have "walkTurns sorter listing ?fetch r = Inr (map T (sorted_list_of_set ?S))"
  proof (rule walkTurns_eq [OF assms(1,2) _ assms(3)])
    show "store_keys keys" unfolding store_keys_def
    proof
      fix k assume "k \<in> set keys"
      then obtain v where "?b k = Some v" using assms(4) by auto
      from stored_keys [OF assms(5) this] show "\<exists>r. (\<exists>n < 2 ^ 63. k = turnKey r n) \<or> k = finishKey r"
        using assms(6) by blast
    qed
    show "n < 2 ^ 63 \<and> ?fetch (turnKey r n) = Inr (T n)" if "turnKey r n \<in> set keys" for n
    proof -
      from stored [OF that] obtain t where t: "t \<in> set ?own" "tnStep t = n" by blast
      then have "?fetch (turnKey r n) = Inr t" using fetched [of t] by auto
      then show ?thesis using T [OF t(1)] assms(6) [of t] t by simp
    qed
  qed
  moreover have "distinct ?own" using assms(9) by (simp add: distinct_map)
  then have "mset (map T (sorted_list_of_set ?S)) = mset ?own" "map tnStep (map T (sorted_list_of_set ?S)) = sorted_list_of_set ?S"
    unfolding S using listed_by_key [OF _ T] by blast+
  ultimately show ?thesis by (intro exI [of _ "map T (sorted_list_of_set ?S)"]) (simp add: strict_sorted_list_of_set)
qed

definition example_turn :: "nat \<Rightarrow> turn" where
  "example_turn n = \<lparr>tnRunID = ''fp/7'', tnStep = n, tnMsgs = []\<rparr>"

definition example_puts :: "store_put list" where
  "example_puts = [PutTurn ''abcdefghijkl'' (example_turn 1), PutEnd ''abcdefghijkl'' ''fp/7'' None,
     PutTurn ''abcdefghijkl'' (example_turn 0)]"

fun example_marshal :: "transcript_line \<Rightarrow> string" where
  "example_marshal (TurnLine t) = show_nat (tnStep t)"
| "example_marshal (TerminalLine r) = ''end''"

definition example_listing :: "string \<Rightarrow> (string + string list) list" where
  "example_listing p = [Inr (filter (\<lambda>k. take (length p) k = p) [turnKey ''fp/7'' 0, turnKey ''fp/7'' 1, finishKey ''fp/7''])]"

lemma example_lists: "lists [turnKey ''fp/7'' 0, turnKey ''fp/7'' 1, finishKey ''fp/7''] example_listing"
proof -
  have "\<exists>kss. [Inr ks] = map Inr kss \<and> concat kss = ks" for ks :: "string list"
    by (rule exI [of _ "[ks]"]) simp
  then show ?thesis unfolding lists_def example_listing_def by blast
qed

theorem recorded_run_exports_witness:
  "\<exists>ts. walkTurns (sort_key fst) example_listing
      (getTurn (bucket_get (fold (store_step (\<lambda>v. Inr (example_marshal v)) (\<lambda>n p. rev p)) example_puts Map.empty))
        (\<lambda>n c. Some (rev c)) (\<lambda>s. Inr (example_turn (digits_value s)))) ''fp/7'' = Inr ts \<and>
    mset ts = mset (filter (\<lambda>t. tnRunID t = ''fp/7'') (put_turns example_puts)) \<and> sorted_wrt (<) (map tnStep ts)"
proof (rule recorded_run_exports [OF sort_key_sorts example_lists, where m = example_marshal])
  show "set [turnKey ''fp/7'' 0, turnKey ''fp/7'' 1, finishKey ''fp/7''] =
      dom (fold (store_step (\<lambda>v. Inr (example_marshal v)) (\<lambda>n p. rev p)) example_puts Map.empty)"
    by (auto simp: example_puts_def example_turn_def store_step_put(1) [where m = example_marshal] store_step_put(2) [where m = example_marshal])
qed (auto simp: keys_distinct example_puts_def example_turn_def nonce_size_def)

text \<open>The names the bulk export reads off the bucket stop at the first slash.\<close>

lemma listed_run_no_slash: "listed_run k = Some a \<Longrightarrow> CHR ''/'' \<notin> set a"
  by (auto simp: listed_run_def Let_def split: if_splits dest: set_takeWhileD)

lemma export_none:
  assumes "\<And>r. r \<in> set rs \<Longrightarrow> turns_of r = Inr []"
  shows "export_runs turns_of set_of write rs x =
    Inr (x\<lparr>xpSkipped := xpSkipped x @ map (\<lambda>r. (r, ''no checkpointed turns'')) rs\<rparr>)"
  using assms by (induction rs arbitrary: x) simp_all

text \<open>the bulk export writes nothing: over any bucket whose objects are turns and ends of runs named the way the
  engine names them, exporting every run writes no run at all, whatever the objects hold, and reports each
  fingerprint as one without checkpointed turns.\<close>

theorem bulk_export_writes_nothing:
  assumes "sorts sorter" "lists keys listing" "distinct keys"
    "\<And>k. k \<in> set keys \<Longrightarrow> \<exists>rd sig. (\<exists>n. n < 2 ^ 63 \<and> k = turnKey (run_id rd sig) n) \<or> k = finishKey (run_id rd sig)"
  shows "\<exists>runIDs. listRunIDs listing = Inr runIDs \<and>
    writeAll sorter listing fetch sources write =
      Inr \<lparr>xpWritten = [], xpSkipped = map (\<lambda>r. (r, ''no checkpointed turns'')) runIDs, xpFiles = []\<rparr>"
proof -
  from assms(2) obtain kss where "listing ''transcripts/'' = map Inr kss" unfolding lists_def by blast
  then obtain ks where runs: "listRunIDs listing = Inr (sort (remdups (List.map_filter listed_run ks)))"
    by (simp add: listRunIDs_def collect_keys_concat)
  have "store_keys keys" unfolding store_keys_def using assms(4) by blast
  have "walkTurns sorter listing fetch r = Inr []" if "CHR ''/'' \<notin> set r" for r
  proof -
    have none: "turnKey r n \<notin> set keys" for n
    proof
      assume "turnKey r n \<in> set keys"
      then obtain rd sig where "r = run_id rd sig" using assms(4) by (metis keys_distinct(1,2))
      then show False using that by (simp add: run_id_def)
    qed
    then show ?thesis using walkTurns_eq [OF assms(1,2) \<open>store_keys keys\<close> assms(3), of r fetch undefined] by simp
  qed
  then have "walkTurns sorter listing fetch r = Inr []" if "r \<in> set (sort (remdups (List.map_filter listed_run ks)))" for r
    using that listed_run_no_slash by (auto simp: set_numbered)
  then have "export_runs (walkTurns sorter listing fetch) (findSet sources) write (sort (remdups (List.map_filter listed_run ks))) x =
      Inr (x\<lparr>xpSkipped := xpSkipped x @
        map (\<lambda>r. (r, ''no checkpointed turns'')) (sort (remdups (List.map_filter listed_run ks)))\<rparr>)" for x
    by (intro export_none)
  with runs show ?thesis by (simp add: writeAll_def)
qed

theorem bulk_export_writes_nothing_witness:
  "\<exists>runIDs. listRunIDs example_listing = Inr runIDs \<and>
    writeAll (sort_key fst) example_listing (\<lambda>_. Inr (example_turn 0)) [] (\<lambda>_. None) =
      Inr \<lparr>xpWritten = [], xpSkipped = map (\<lambda>r. (r, ''no checkpointed turns'')) runIDs, xpFiles = []\<rparr>"
proof (rule bulk_export_writes_nothing [OF sort_key_sorts example_lists])
  fix k assume "k \<in> set [turnKey ''fp/7'' 0, turnKey ''fp/7'' 1, finishKey ''fp/7'']"
  moreover have "''fp/7'' = run_id (example_readings 0\<lparr>rdRunNanos := 7\<rparr>) (example_detection\<lparr>detFingerprint := ''fp''\<rparr>)"
    by (simp add: run_id_def) code_simp
  moreover have "(0::nat) < 2 ^ 63" "(1::nat) < 2 ^ 63" by simp_all
  ultimately show "\<exists>rd sig. (\<exists>n. n < 2 ^ 63 \<and> k = turnKey (run_id rd sig) n) \<or> k = finishKey (run_id rd sig)"
    unfolding list.set insert_iff empty_iff by metis
qed (simp add: keys_distinct)

end
