(* ===== verification/Harvest.thy ===== *)
theory Harvest
  imports Transcript
begin

text \<open>
  Firing one calibration scenario at a live rig: waiting for the incident to end
  (\<^verbatim>\<open>src/internal/harvest/settle.go\<close>) and running the scenario from its preconditions to its restore
  (\<^verbatim>\<open>src/internal/harvest/harvest.go\<close>).

  The select over the legs is resolved by a list of events in the order the loop takes them, so that a
  theorem about every list holds of every interleaving. The shell is a function from the commands already
  run and the next one to its error. Clock readings are arguments.
\<close>

subsection \<open>Waiting for the end\<close>

record terminal =
  tmVerdict :: string
  tmResult :: "result option"
  tmContractRef :: string
  tmDecisionRef :: string
  tmObservedSeverity :: "real option"
  tmRunID :: string
  tmEmittedConfidence :: real
  tmComputedConfidence :: real
  tmCeilingBound :: bool

definition bare_terminal :: "string \<Rightarrow> terminal" where
  "bare_terminal verdict = \<lparr>tmVerdict = verdict, tmResult = None, tmContractRef = [], tmDecisionRef = [], tmObservedSeverity = None,
     tmRunID = [], tmEmittedConfidence = 0, tmComputedConfidence = 0, tmCeilingBound = False\<rparr>"

definition enrichFromSet :: "terminal \<Rightarrow> proposal_set option \<Rightarrow> terminal" where
  "enrichFromSet t matched =
     (case matched of
        None \<Rightarrow> t
      | Some s \<Rightarrow>
          (case psProposals s of
             [] \<Rightarrow> t\<lparr>tmRunID := psRunID s\<rparr>
           | c # _ \<Rightarrow> t\<lparr>tmRunID := psRunID s, tmEmittedConfidence := cndConfidence c,
                          tmComputedConfidence := cndComputedConfidence c,
                          tmCeilingBound := cndConfidenceCeilingBound c\<rparr>))"

definition isTerminal :: "result \<Rightarrow> bool" where
  "isTerminal r \<longleftrightarrow> r \<in> {ResultSuccess, ResultFailure, ResultPartialNonConverging, ResultBlocked, ResultUnknown, ResultRendered}"

definition runIDGrace :: duration where
  "runIDGrace = 5 * second"

definition runIDFresh :: "string \<Rightarrow> time \<Rightarrow> bool" where
  "runIDFresh runID since =
     (if CHR ''/'' \<notin> set runID then True
      else (case atoi (rev (takeWhile (\<lambda>c. c \<noteq> CHR ''/'') (rev runID))) of
              None \<Rightarrow> True
            | Some ns \<Rightarrow> \<not> ns < since - runIDGrace))"

datatype leg_event = WindowElapsed | GraceElapsed | LegClosed
  | OutcomeSeen outcome | DeclineSeen decision | HeldSeen governed | DetectionSeen detection | SetSeen proposal_set

record settle_state =
  slArmed :: bool
  slDetected :: bool
  slMatched :: "proposal_set option"

datatype settle_error = ErrSettleTimeout string | WatchFailed string

text \<open>One turn of the loop: it ends with a result or goes on in the next state.\<close>

fun settle_step :: "string \<Rightarrow> time \<Rightarrow> leg_event \<Rightarrow> settle_state \<Rightarrow> (settle_error + terminal) + settle_state" where
  "settle_step ref since WindowElapsed st = Inl (Inl (ErrSettleTimeout ref))"
| "settle_step ref since GraceElapsed st = (if slArmed st then Inl (Inr (bare_terminal ''refused'')) else Inr st)"
| "settle_step ref since LegClosed st = Inr st"
| "settle_step ref since (OutcomeSeen o') st =
     (if outSignalRef o' \<noteq> ref \<or> \<not> isTerminal (outResult o') then Inr st
      else Inl (Inr (enrichFromSet ((bare_terminal ''approved'')\<lparr>tmResult := Some (outResult o'), tmContractRef := outContractRef o',
                  tmDecisionRef := outDecisionRef o', tmObservedSeverity := outObservedSeverity o'\<rparr>) (slMatched st))))"
| "settle_step ref since (DeclineSeen d) st =
     (if decSignalRef d \<noteq> ref then Inr st
      else Inl (Inr (enrichFromSet ((bare_terminal ''declined'')\<lparr>tmDecisionRef := decID d\<rparr>) (slMatched st))))"
| "settle_step ref since (HeldSeen g) st =
     (if decSignalRef (govDecision g) \<noteq> ref then Inr st
      else Inl (Inr (enrichFromSet ((bare_terminal ''held'')\<lparr>
                  tmContractRef := contractRefFor (govSet g) (decCandidateRef (govDecision g)),
                  tmDecisionRef := decID (govDecision g)\<rparr>) (slMatched st))))"
| "settle_step ref since (DetectionSeen det) st =
     (if detFingerprint det \<noteq> ref \<or> slDetected st then Inr st else Inr (st\<lparr>slDetected := True, slArmed := True\<rparr>))"
| "settle_step ref since (SetSeen s) st =
     (if psSignalRef s \<noteq> ref \<or> \<not> runIDFresh (psRunID s) since then Inr st
      else Inr (st\<lparr>slArmed := False, slMatched := (case slMatched st of None \<Rightarrow> Some s | Some m \<Rightarrow> Some m)\<rparr>))"

text \<open>\<open>None\<close> is a wait that goes on.\<close>

fun settle_loop :: "string \<Rightarrow> time \<Rightarrow> leg_event list \<Rightarrow> settle_state \<Rightarrow> (settle_error + terminal) option" where
  "settle_loop ref since [] st = None"
| "settle_loop ref since (e # es) st =
     (case settle_step ref since e st of Inl r \<Rightarrow> Some r | Inr st' \<Rightarrow> settle_loop ref since es st')"

definition settle_init :: settle_state where
  "settle_init = \<lparr>slArmed = False, slDetected = False, slMatched = None\<rparr>"

text \<open>\<open>opens\<close> are the answers of opening the legs, in order: an error or nothing.\<close>

definition settle :: "string option list \<Rightarrow> time \<Rightarrow> string \<Rightarrow> leg_event list \<Rightarrow> (settle_error + terminal) option" where
  "settle opens startedAt ref es =
     (case List.find (\<lambda>o'. o' \<noteq> None) opens of
        Some (Some e) \<Rightarrow> Some (Inl (WatchFailed e))
      | _ \<Rightarrow> settle_loop ref startedAt es settle_init)"

subsection \<open>Running a scenario\<close>

record action =
  acnPath :: string
  acnApply :: string
  acnArgs :: "string list"

record rig_precondition =
  pcnName :: string
  pcnSet :: string
  pcnRestore :: string

record scenario =
  scName :: string
  scSignalRef :: string
  scFault :: action
  scPreconditions :: "rig_precondition list"
  scRestore :: action

type_synonym command = "string \<times> string list"

type_synonym shell = "command list \<Rightarrow> command \<Rightarrow> string option"

definition run_command :: "shell \<Rightarrow> command \<Rightarrow> command list \<Rightarrow> string option \<times> command list" where
  "run_command sh cmd past = (sh past cmd, past @ [cmd])"

definition action_command :: "action \<Rightarrow> command option" where
  "action_command a =
     (if acnApply a = ''kubectl'' then Some (''kubectl'', [''apply'', ''-f'', acnPath a] @ acnArgs a)
      else if acnApply a = ''kubectl-delete'' then Some (''kubectl'', [''delete'', ''-f'', acnPath a] @ acnArgs a)
      else if acnApply a = ''exec'' then Some (acnPath a, acnArgs a)
      else None)"

definition applyAction :: "shell \<Rightarrow> action \<Rightarrow> command list \<Rightarrow> string option \<times> command list" where
  "applyAction sh a past =
     (case action_command a of
        None \<Rightarrow> (Some (''harvest: unknown apply verb: '' @ go_quote (acnApply a)), past)
      | Some cmd \<Rightarrow> run_command sh cmd past)"

definition shell_command :: "string \<Rightarrow> command" where
  "shell_command s = (''/bin/sh'', [''-c'', s])"

datatype harvest_error = PreconditionFailed string string | BrokerUnreachable string string | FaultFailed string
  | SettleFailed settle_error

fun set_preconditions :: "shell \<Rightarrow> rig_precondition list \<Rightarrow> command list \<Rightarrow> harvest_error option \<times> command list" where
  "set_preconditions sh [] past = (None, past)"
| "set_preconditions sh (p # ps) past =
     (case run_command sh (shell_command (pcnSet p)) past of
        (Some e, past) \<Rightarrow> (Some (PreconditionFailed (pcnName p) e), past)
      | (None, past) \<Rightarrow> set_preconditions sh ps past)"

fun restore_preconditions :: "shell \<Rightarrow> rig_precondition list \<Rightarrow> command list \<Rightarrow> string list \<times> command list" where
  "restore_preconditions sh [] past = ([], past)"
| "restore_preconditions sh (p # ps) past =
     (let (e, past) = run_command sh (shell_command (pcnRestore p)) past;
          (es, past) = restore_preconditions sh ps past
      in ((case e of None \<Rightarrow> [] | Some x \<Rightarrow> [''precondition '' @ pcnName p @ '' restore: '' @ x]) @ es, past))"

definition harvest_restore :: "shell \<Rightarrow> scenario \<Rightarrow> command list \<Rightarrow> string list \<times> command list" where
  "harvest_restore sh sc past =
     (let (e, past) = applyAction sh (scRestore sc) past;
          (es, past) = restore_preconditions sh (rev (scPreconditions sc)) past
      in ((case e of None \<Rightarrow> [] | Some x \<Rightarrow> [''fault restore: '' @ x]) @ es, past))"

text \<open>\<open>live\<close> is the broker probe's answer, \<open>settled\<close> what the wait returned.\<close>

definition harvest_body ::
  "shell \<Rightarrow> string option \<Rightarrow> settle_error + terminal \<Rightarrow> scenario \<Rightarrow> command list \<Rightarrow> (harvest_error + terminal) \<times> command list" where
  "harvest_body sh live settled sc past =
     (case set_preconditions sh (scPreconditions sc) past of
        (Some e, past) \<Rightarrow> (Inl e, past)
      | (None, past) \<Rightarrow>
          (case live of
             Some e \<Rightarrow> (Inl (BrokerUnreachable (scName sc) e), past)
           | None \<Rightarrow>
               (case applyAction sh (scFault sc) past of
                  (Some e, past) \<Rightarrow> (Inl (FaultFailed e), past)
                | (None, past) \<Rightarrow> (case settled of Inl e \<Rightarrow> Inl (SettleFailed e) | Inr t \<Rightarrow> Inr t, past))))"

text \<open>The result of a run: how it ended and what its restore could not undo; the run failed unless it ended
  with a terminal state and nothing was left.\<close>

definition harvest_run ::
  "shell \<Rightarrow> string option \<Rightarrow> settle_error + terminal \<Rightarrow> scenario \<Rightarrow> command list \<Rightarrow>
   ((harvest_error + terminal) \<times> string list) \<times> command list" where
  "harvest_run sh live settled sc past =
     (let (r, past) = harvest_body sh live settled sc past;
          (left, past) = harvest_restore sh sc past
      in ((r, left), past))"

subsection \<open>What ended the wait\<close>

definition fresh_set :: "string \<Rightarrow> time \<Rightarrow> proposal_set \<Rightarrow> bool" where
  "fresh_set ref since s \<longleftrightarrow> psSignalRef s = ref \<and> runIDFresh (psRunID s) since"

text \<open>What the state of the loop says of the events behind it.\<close>

definition settle_inv :: "string \<Rightarrow> time \<Rightarrow> leg_event list \<Rightarrow> settle_state \<Rightarrow> bool" where
  "settle_inv ref since pre st \<longleftrightarrow>
     (slArmed st \<longrightarrow> (\<exists>p1 det p2. pre = p1 @ DetectionSeen det # p2 \<and> detFingerprint det = ref \<and>
        (\<forall>s. SetSeen s \<in> set p2 \<longrightarrow> \<not> fresh_set ref since s))) \<and>
     (\<forall>s. slMatched st = Some s \<longrightarrow> SetSeen s \<in> set pre \<and> fresh_set ref since s)"

lemma settle_inv_init: "settle_inv ref since [] settle_init"
  by (simp add: settle_inv_def settle_init_def)

lemma settle_inv_keep:
  assumes "settle_inv ref since pre st" "\<And>s. e = SetSeen s \<Longrightarrow> \<not> fresh_set ref since s"
  shows "settle_inv ref since (pre @ [e]) st"
proof -
  have "\<exists>p1 det p2. pre @ [e] = p1 @ DetectionSeen det # p2 \<and> detFingerprint det = ref \<and>
      (\<forall>s. SetSeen s \<in> set p2 \<longrightarrow> \<not> fresh_set ref since s)" if armed: "slArmed st"
  proof -
    from assms(1) armed obtain p1 det p2 where p: "pre = p1 @ DetectionSeen det # p2" "detFingerprint det = ref"
        "\<forall>s. SetSeen s \<in> set p2 \<longrightarrow> \<not> fresh_set ref since s" unfolding settle_inv_def by blast
    show ?thesis
      by (rule exI [of _ p1], rule exI [of _ det], rule exI [of _ "p2 @ [e]"]) (use p assms(2) in auto)
  qed
  then show ?thesis using assms(1) by (simp add: settle_inv_def)
qed

lemma settle_inv_step:
  assumes inv: "settle_inv ref since pre st" and step: "settle_step ref since e st = Inr st'"
  shows "settle_inv ref since (pre @ [e]) st'"
proof (cases e)
  case (DetectionSeen det)
  show ?thesis
  proof (cases "detFingerprint det \<noteq> ref \<or> slDetected st")
    case True
    then have "st' = st" using step DetectionSeen by simp
    then show ?thesis using settle_inv_keep [OF inv, of e] DetectionSeen by simp
  next
    case False
    then have st': "st' = st\<lparr>slDetected := True, slArmed := True\<rparr>" using step DetectionSeen by simp
    have "\<exists>p1 d p2. pre @ [e] = p1 @ DetectionSeen d # p2 \<and> detFingerprint d = ref \<and>
        (\<forall>s. SetSeen s \<in> set p2 \<longrightarrow> \<not> fresh_set ref since s)"
      by (rule exI [of _ pre], rule exI [of _ det], rule exI [of _ "[]"]) (use DetectionSeen False in simp)
    then show ?thesis using st' inv by (simp add: settle_inv_def)
  qed
next
  case (SetSeen s)
  show ?thesis
  proof (cases "fresh_set ref since s")
    case True
    then have st': "st' = st\<lparr>slArmed := False, slMatched := (case slMatched st of None \<Rightarrow> Some s | Some m \<Rightarrow> Some m)\<rparr>"
      using step SetSeen by (simp add: fresh_set_def)
    show ?thesis using True SetSeen inv unfolding st' by (cases "slMatched st") (simp_all add: settle_inv_def)
  next
    case False
    then have "st' = st" using step SetSeen by (simp add: fresh_set_def split: if_splits)
    then show ?thesis using settle_inv_keep [OF inv, of e] SetSeen False by simp
  qed
qed (use step settle_inv_keep [OF inv, of e] in \<open>simp_all split: if_splits\<close>)

lemma settle_loop_ends:
  assumes "settle_loop ref since es st = Some r" "settle_inv ref since pre st"
  shows "\<exists>mid e post st'. es = mid @ e # post \<and> settle_inv ref since (pre @ mid) st' \<and> settle_step ref since e st' = Inl r"
  using assms
proof (induction es arbitrary: pre st)
  case (Cons e es)
  show ?case
  proof (cases "settle_step ref since e st")
    case (Inl r')
    then show ?thesis using Cons.prems by (intro exI [of _ "[]"] exI [of _ e] exI [of _ es] exI [of _ st]) simp
  next
    case (Inr st')
    then have "settle_loop ref since es st' = Some r" using Cons.prems(1) by simp
    from Cons.IH [OF this settle_inv_step [OF Cons.prems(2) Inr]] obtain mid e' post st'' where
      "es = mid @ e' # post" "settle_inv ref since ((pre @ [e]) @ mid) st''" "settle_step ref since e' st'' = Inl r" by blast
    then show ?thesis by (intro exI [of _ "e # mid"] exI [of _ e'] exI [of _ post] exI [of _ st'']) simp
  qed
qed simp

lemma enrich_verdict [simp]:
  "tmVerdict (enrichFromSet t m) = tmVerdict t" "tmResult (enrichFromSet t m) = tmResult t"
  "tmDecisionRef (enrichFromSet t m) = tmDecisionRef t" "tmContractRef (enrichFromSet t m) = tmContractRef t"
  "tmRunID (enrichFromSet t m) = (case m of None \<Rightarrow> tmRunID t | Some s \<Rightarrow> psRunID s)"
  by (auto simp: enrichFromSet_def split: option.splits list.splits)

lemma bare_terminal_sel [simp]:
  "tmVerdict (bare_terminal v) = v" "tmRunID (bare_terminal v) = []" "tmResult (bare_terminal v) = None"
  by (simp_all add: bare_terminal_def)

lemma settle_ends:
  assumes "settle opens since ref es = Some (Inr tm)"
  shows "\<exists>pre e post st. es = pre @ e # post \<and> settle_inv ref since pre st \<and> settle_step ref since e st = Inl (Inr tm)"
proof -
  have "settle_loop ref since es settle_init = Some (Inr tm)"
    using assms by (auto simp: settle_def split: option.splits)
  from settle_loop_ends [OF this settle_inv_init] show ?thesis by simp
qed

text \<open>What each verdict was read from, given the events before the deciding one.\<close>

definition decided_by :: "string \<Rightarrow> time \<Rightarrow> leg_event list \<Rightarrow> leg_event \<Rightarrow> terminal \<Rightarrow> bool" where
  "decided_by ref since pre e tm \<longleftrightarrow>
     (\<exists>o'. e = OutcomeSeen o' \<and> outSignalRef o' = ref \<and> isTerminal (outResult o') \<and>
        tmVerdict tm = ''approved'' \<and> tmResult tm = Some (outResult o') \<and> tmDecisionRef tm = outDecisionRef o') \<or>
     (\<exists>d. e = DeclineSeen d \<and> decSignalRef d = ref \<and> tmVerdict tm = ''declined'' \<and> tmResult tm = None \<and> tmDecisionRef tm = decID d) \<or>
     (\<exists>g. e = HeldSeen g \<and> decSignalRef (govDecision g) = ref \<and> tmVerdict tm = ''held'' \<and> tmResult tm = None \<and>
        tmDecisionRef tm = decID (govDecision g)) \<or>
     (\<exists>p1 det p2. e = GraceElapsed \<and> pre = p1 @ DetectionSeen det # p2 \<and> detFingerprint det = ref \<and>
        (\<forall>s. SetSeen s \<in> set p2 \<longrightarrow> \<not> fresh_set ref since s) \<and> tmVerdict tm = ''refused'' \<and> tmResult tm = None \<and> tmRunID tm = [])"

text \<open>C33: a harvested verdict is read from the incident it names: under every interleaving of the legs, the wait ends
  approved only on a settled outcome of that incident, declined or held only on governance's word on it,
  and refused only once a detection of it was followed by no fresh set until the grace past out; a run
  named in the result belongs to a set of that incident no older than the wait.\<close>

theorem settled_verdict_observed:
  assumes "settle opens since ref es = Some (Inr tm)"
  shows "\<exists>pre e post. es = pre @ e # post \<and> decided_by ref since pre e tm \<and>
    (tmRunID tm \<noteq> [] \<longrightarrow> (\<exists>s. SetSeen s \<in> set pre \<and> fresh_set ref since s \<and> tmRunID tm = psRunID s))"
proof -
  obtain pre e post st where es: "es = pre @ e # post" and inv: "settle_inv ref since pre st"
    and step: "settle_step ref since e st = Inl (Inr tm)" using settle_ends [OF assms] by blast
  have "decided_by ref since pre e tm"
  proof (cases e)
    case GraceElapsed
    then have "slArmed st" "tm = bare_terminal ''refused''" using step by (auto split: if_splits)
    moreover from this obtain p1 det p2 where "pre = p1 @ DetectionSeen det # p2" "detFingerprint det = ref"
        "\<forall>s. SetSeen s \<in> set p2 \<longrightarrow> \<not> fresh_set ref since s" using inv unfolding settle_inv_def by blast
    ultimately show ?thesis unfolding decided_by_def using GraceElapsed bare_terminal_sel by blast
  qed (use step in \<open>auto simp: decided_by_def split: if_splits\<close>)
  moreover have "\<exists>s. SetSeen s \<in> set pre \<and> fresh_set ref since s \<and> tmRunID tm = psRunID s" if "tmRunID tm \<noteq> []"
  proof -
    have "\<exists>s. slMatched st = Some s \<and> tmRunID tm = psRunID s"
      using step that by (cases e) (auto split: if_splits option.splits)
    then show ?thesis using inv unfolding settle_inv_def by blast
  qed
  ultimately show ?thesis using es by blast
qed

text \<open>the wait always ends: once the window elapses, or earlier on a deciding event, whatever else the legs
  deliver, in any order, and whichever of them close, the wait returns.\<close>

theorem settle_always_ends:
  assumes "WindowElapsed \<in> set es"
  shows "\<exists>r. settle opens since ref es = Some r"
proof -
  have "\<exists>r. settle_loop ref since es st = Some r" for st
    using assms by (induction es arbitrary: st) (auto split: sum.splits)
  then show ?thesis by (auto simp: settle_def split: option.splits)
qed

text \<open>a proposed incident can be reported refused: where the set of an incident is taken off its leg before the
  detection, the later detection arms the refusal all the same, and the wait ends refused, naming no run,
  although clank had proposed.\<close>

theorem proposed_reported_refused:
  assumes "psSignalRef s = ref" "runIDFresh (psRunID s) since" "detFingerprint det = ref"
  shows "settle [] since ref [SetSeen s, DetectionSeen det, GraceElapsed] = Some (Inr (bare_terminal ''refused''))"
  using assms by (simp add: settle_def settle_init_def)

subsection \<open>What a run leaves behind\<close>

definition fault_commands :: "action \<Rightarrow> command list" where
  "fault_commands a = (case action_command a of None \<Rightarrow> [] | Some c \<Rightarrow> [c])"

lemma apply_runs: "snd (applyAction sh a past) = past @ fault_commands a"
  by (simp add: applyAction_def fault_commands_def run_command_def split: option.splits)

lemma restore_preconditions_runs:
  "snd (restore_preconditions sh ps past) = past @ map (\<lambda>p. shell_command (pcnRestore p)) ps"
  by (induction ps arbitrary: past) (simp_all add: run_command_def Let_def case_prod_beta)

lemma restore_runs:
  "snd (harvest_restore sh sc past) =
     past @ fault_commands (scRestore sc) @ map (\<lambda>p. shell_command (pcnRestore p)) (rev (scPreconditions sc))"
  by (simp add: harvest_restore_def Let_def case_prod_beta apply_runs restore_preconditions_runs)

lemma set_preconditions_runs:
  "set_preconditions sh ps past = (r, past') \<Longrightarrow>
   \<exists>n. past' = past @ take n (map (\<lambda>p. shell_command (pcnSet p)) ps) \<and> (r = None \<longrightarrow> n = length ps) \<and> n \<le> length ps"
proof (induction ps arbitrary: past)
  case (Cons p ps)
  show ?case
  proof (cases "sh past (shell_command (pcnSet p))")
    case None
    then have "set_preconditions sh ps (past @ [shell_command (pcnSet p)]) = (r, past')" using Cons.prems by (simp add: run_command_def)
    from Cons.IH [OF this] obtain n where "past' = (past @ [shell_command (pcnSet p)]) @ take n (map (\<lambda>p. shell_command (pcnSet p)) ps)"
      "r = None \<longrightarrow> n = length ps" "n \<le> length ps" by blast
    then show ?thesis by (intro exI [of _ "Suc n"]) simp
  next
    case (Some e)
    then show ?thesis using Cons.prems by (intro exI [of _ 1]) (auto simp: run_command_def)
  qed
qed simp

lemma body_runs:
  assumes "harvest_body sh live settled sc past = (r, past')"
  shows "\<exists>n. past' = past @ take n (map (\<lambda>p. shell_command (pcnSet p)) (scPreconditions sc) @ fault_commands (scFault sc)) \<and>
    (length (scPreconditions sc) < n \<longrightarrow> live = None) \<and> (\<not> isl r \<longrightarrow> length (scPreconditions sc) < n \<and> settled = Inr (projr r))"
proof -
  let ?sets = "map (\<lambda>p. shell_command (pcnSet p)) (scPreconditions sc)"
  obtain r1 p1 where 1: "set_preconditions sh (scPreconditions sc) past = (r1, p1)" by fastforce
  from set_preconditions_runs [OF 1] obtain n where
    n: "p1 = past @ take n ?sets" "r1 = None \<longrightarrow> n = length (scPreconditions sc)" "n \<le> length (scPreconditions sc)" by blast
  obtain r2 p2 where 2: "applyAction sh (scFault sc) p1 = (r2, p2)" by fastforce
  have p2: "p2 = p1 @ fault_commands (scFault sc)" using apply_runs [of sh "scFault sc" p1] 2 by simp
  show ?thesis
  proof (cases "r1 = None \<and> live = None")
    case True
    have "past' = p2 \<and> (\<not> isl r \<longrightarrow> settled = Inr (projr r))"
      using assms 1 2 True by (auto simp: harvest_body_def split: option.splits sum.splits)
    moreover have "p2 = past @ take (Suc (length ?sets)) (?sets @ fault_commands (scFault sc))"
      using p2 n True by (simp add: fault_commands_def split: option.splits)
    ultimately show ?thesis using True by (intro exI [of _ "Suc (length ?sets)"]) simp
  next
    case False
    then have "past' = p1 \<and> isl r" using assms 1 by (auto simp: harvest_body_def split: option.splits)
    then show ?thesis using n by (intro exI [of _ n]) auto
  qed
qed

text \<open>a run always puts the rig back: however the shell, the broker probe and the wait answer, the commands of a
  run are an initial part of the preconditions and the fault, in order, followed by every restore step, the
  fault's own and then each precondition's, last first; the fault fires only after the broker answered,
  and a run reports a terminal state only once it fired.\<close>

theorem harvest_always_restores:
  assumes "harvest_run sh live settled sc past = ((r, left), past')"
  shows "\<exists>n. past' = past @ take n (map (\<lambda>p. shell_command (pcnSet p)) (scPreconditions sc) @ fault_commands (scFault sc)) @
      fault_commands (scRestore sc) @ map (\<lambda>p. shell_command (pcnRestore p)) (rev (scPreconditions sc)) \<and>
    (length (scPreconditions sc) < n \<longrightarrow> live = None) \<and>
    (\<not> isl r \<longrightarrow> length (scPreconditions sc) < n \<and> settled = Inr (projr r))"
proof -
  obtain r1 p1 where 1: "harvest_body sh live settled sc past = (r1, p1)" by fastforce
  then have "r = r1 \<and> past' = snd (harvest_restore sh sc p1)"
    using assms by (auto simp: harvest_run_def Let_def split: prod.splits)
  with body_runs [OF 1] show ?thesis by (auto simp: restore_runs)
qed

subsection \<open>Examples\<close>

definition example_scenario :: scenario where
  "example_scenario = \<lparr>scName = ''cart'', scSignalRef = ''fp'',
     scFault = \<lparr>acnPath = ''f.yaml'', acnApply = ''kubectl'', acnArgs = []\<rparr>,
     scPreconditions = [\<lparr>pcnName = ''a'', pcnSet = ''s1'', pcnRestore = ''r1''\<rparr>, \<lparr>pcnName = ''b'', pcnSet = ''s2'', pcnRestore = ''r2''\<rparr>],
     scRestore = \<lparr>acnPath = ''f.yaml'', acnApply = ''kubectl-delete'', acnArgs = []\<rparr>\<rparr>"

text \<open>A shell on which every command fails.\<close>

theorem harvest_always_restores_witness:
  "\<exists>n. snd (harvest_run (\<lambda>_ _. Some ''exit 1'') None (Inl (ErrSettleTimeout ''fp'')) example_scenario []) =
     [] @ take n (map (\<lambda>p. shell_command (pcnSet p)) (scPreconditions example_scenario) @ fault_commands (scFault example_scenario)) @
     [(''kubectl'', [''delete'', ''-f'', ''f.yaml'']), shell_command ''r2'', shell_command ''r1'']"
proof -
  let ?run = "harvest_run (\<lambda>_ _. Some ''exit 1'') None (Inl (ErrSettleTimeout ''fp'')) example_scenario []"
  have "?run = ((fst (fst ?run), snd (fst ?run)), snd ?run)" by simp
  from harvest_always_restores [OF this] show ?thesis
    by (auto simp: example_scenario_def fault_commands_def action_command_def)
qed

theorem settle_always_ends_witness:
  "WindowElapsed \<in> set [LegClosed, GraceElapsed, WindowElapsed] \<and>
   (\<exists>r. settle [None, None] 0 ''fp'' [LegClosed, GraceElapsed, WindowElapsed] = Some r)"
  using settle_always_ends [of "[LegClosed, GraceElapsed, WindowElapsed]" "[None, None]" 0 "''fp''"] by simp

theorem settled_verdict_observed_witness:
  "\<exists>pre e post. [DetectionSeen (example_detection\<lparr>detFingerprint := ''fp''\<rparr>), LegClosed, GraceElapsed, WindowElapsed] = pre @ e # post \<and>
    decided_by ''fp'' 0 pre e (bare_terminal ''refused'')"
proof -
  have "settle [] 0 ''fp'' [DetectionSeen (example_detection\<lparr>detFingerprint := ''fp''\<rparr>), LegClosed, GraceElapsed, WindowElapsed] =
      Some (Inr (bare_terminal ''refused''))" by (simp add: settle_def settle_init_def)
  from settled_verdict_observed [OF this] show ?thesis by blast
qed

end
