(* ===== verification/Text.thy ===== *)
theory Text
  imports Converge
begin

text \<open>
  The functions of Go's \<^verbatim>\<open>strings\<close> and \<^verbatim>\<open>bytes\<close> packages that the offline tools share: searching a text
  for another and trimming white space.
\<close>

fun contains :: "string \<Rightarrow> string \<Rightarrow> bool" where
  "contains sub [] \<longleftrightarrow> sub = []"
| "contains sub (c # s) \<longleftrightarrow> take (length sub) (c # s) = sub \<or> contains sub s"

definition trim_space :: "string \<Rightarrow> string" where
  "trim_space s = rev (dropWhile Converge.is_space (rev (dropWhile Converge.is_space s)))"

lemma contains_append: "contains sub (pre @ sub @ post)"
proof (induction pre)
  case Nil
  have "take (length sub) (sub @ post) = sub" by simp
  then show ?case by (cases "sub @ post"; simp only: append_Nil contains.simps; simp)
next
  case (Cons c pre)
  then show ?case by simp
qed

lemma contains_iff: "contains sub s \<longleftrightarrow> (\<exists>pre post. s = pre @ sub @ post)"
proof
  show "contains sub s \<Longrightarrow> \<exists>pre post. s = pre @ sub @ post"
  proof (induction s)
    case (Cons c s)
    then show ?case
    proof (cases "take (length sub) (c # s) = sub")
      case True
      then have "c # s = [] @ sub @ drop (length sub) (c # s)" by (metis append_Nil append_take_drop_id)
      then show ?thesis by blast
    next
      case False
      with Cons obtain pre post where "s = pre @ sub @ post" by auto
      then have "c # s = (c # pre) @ sub @ post" by simp
      then show ?thesis by blast
    qed
  qed simp
qed (auto simp: contains_append)

end
