(* ===== verification/Scenario.thy ===== *)
theory Scenario
  imports Harvest ConfigFile Text
begin

text \<open>
  The scenario table of a calibration harvest and the loop that fires it: validating and loading the table
  (\<^verbatim>\<open>src/internal/harvest/scenario.go\<close>), the result of one run, the repeat loop, the cluster check and the
  exit code (\<^verbatim>\<open>src/internal/harvest/harvest.go\<close>).

  Reading and decoding the file and parsing a duration are arguments. What the world answers to the \<open>n\<close>-th
  run of a harvest (cancellation before it and during its cool-down, the broker probe, the wait, the
  writing of its result) is a record of functions of \<open>n\<close>. The clock stamps of a result are left out.
\<close>

subsection \<open>The table\<close>

record expects =
  exFailureClass :: failure_class
  exContractRef :: string
  exVerdict :: string

record table_scenario = scenario +
  scDomain :: string
  scExpects :: expects
  scSettleWindow :: duration

record scenario_stage =
  ssgName :: string
  ssgDomain :: string
  ssgSignalRef :: string
  ssgFault :: action
  ssgPreconditions :: "rig_precondition list"
  ssgExpects :: expects
  ssgSettleWindow :: string
  ssgRestore :: action

record scenarios_file =
  sfVersion :: int
  sfRig :: string
  sfScenarios :: "scenario_stage list"

record scenario_table =
  tbRig :: string
  tbScenarios :: "table_scenario list"

definition validApply :: "string \<Rightarrow> bool" where
  "validApply s \<longleftrightarrow> s \<in> {''kubectl'', ''kubectl-delete'', ''exec''}"

definition validVerdict :: "string \<Rightarrow> bool" where
  "validVerdict s \<longleftrightarrow> s \<in> {''approved'', ''held'', ''declined'', ''refused''}"

definition action_validate :: "action \<Rightarrow> string + action" where
  "action_validate a =
     (if acnPath a = [] then Inl ''path is empty''
      else if \<not> validApply (acnApply a) then Inl (''apply '' @ go_quote (acnApply a) @ '' not one of kubectl, kubectl-delete, exec'')
      else Inr a)"

fun validate_preconditions :: "rig_precondition list \<Rightarrow> string + rig_precondition list" where
  "validate_preconditions [] = Inr []"
| "validate_preconditions (p # ps) =
     (if pcnSet p = [] \<or> pcnRestore p = [] then Inl (''precondition '' @ go_quote (pcnName p) @ '' must have both set and restore'')
      else (case validate_preconditions ps of Inl e \<Rightarrow> Inl e | Inr qs \<Rightarrow> Inr (p # qs)))"

definition scenario_validate :: "(string \<Rightarrow> string + duration) \<Rightarrow> scenario_stage \<Rightarrow> string + table_scenario" where
  "scenario_validate parseDuration s =
     (if ssgName s = [] then Inl ''scenario has no name''
      else case action_validate (ssgFault s) of
        Inl e \<Rightarrow> Inl (''fault: '' @ e)
      | Inr flt \<Rightarrow>
     (case action_validate (ssgRestore s) of
        Inl e \<Rightarrow> Inl (''restore: '' @ e)
      | Inr rst \<Rightarrow>
     if acnPath rst = [] then Inl ''no restore - a harvest that cannot restore is a rig teardown''
     else if \<not> validVerdict (exVerdict (ssgExpects s))
     then Inl (''expects.verdict '' @ go_quote (exVerdict (ssgExpects s)) @ '' not one of approved, held, declined, refused'')
     else if exVerdict (ssgExpects s) \<noteq> ''refused'' \<and> exContractRef (ssgExpects s) = [] then Inl ''expects.contractRef is empty''
     else if ssgSignalRef s = []
     then Inl ''no signalRef - a scenario that names no signal waits out its whole window on an outcome that can never match''
     else case parseDuration (ssgSettleWindow s) of
        Inl e \<Rightarrow> Inl (''settleWindow '' @ go_quote (ssgSettleWindow s) @ '': '' @ e)
      | Inr window \<Rightarrow>
     if window \<le> 0 then Inl (''settleWindow '' @ go_quote (ssgSettleWindow s) @ '' must be positive'')
     else case validate_preconditions (ssgPreconditions s) of
        Inl e \<Rightarrow> Inl e
      | Inr ps \<Rightarrow>
          Inr \<lparr>scName = ssgName s, scSignalRef = ssgSignalRef s, scFault = flt, scPreconditions = ps, scRestore = rst,
               scDomain = ssgDomain s, scExpects = ssgExpects s, scSettleWindow = window\<rparr>))"

datatype table_error = TableConfig config_error | NoRig | InvalidScenario string string

fun validate_scenarios :: "(string \<Rightarrow> string + duration) \<Rightarrow> scenario_stage list \<Rightarrow> table_error + table_scenario list" where
  "validate_scenarios parseDuration [] = Inr []"
| "validate_scenarios parseDuration (s # ss) =
     (case scenario_validate parseDuration s of
        Inl e \<Rightarrow> Inl (InvalidScenario (ssgName s) e)
      | Inr sc \<Rightarrow> (case validate_scenarios parseDuration ss of Inl e \<Rightarrow> Inl e | Inr scs \<Rightarrow> Inr (sc # scs)))"

definition loadScenarios ::
  "(string \<Rightarrow> string + 'r) \<Rightarrow> ('r \<Rightarrow> string + scenarios_file) \<Rightarrow> (string \<Rightarrow> string + duration) \<Rightarrow> string \<Rightarrow> table_error + scenario_table" where
  "loadScenarios readFile unmarshal parseDuration path =
     (case ConfigFile.stage readFile unmarshal path ''scenario table'' of
        Inl e \<Rightarrow> Inl (TableConfig e)
      | Inr sf \<Rightarrow>
          if sfRig sf = [] then Inl NoRig
          else (case validate_scenarios parseDuration (sfScenarios sf) of
                  Inl e \<Rightarrow> Inl e
                | Inr scs \<Rightarrow> Inr \<lparr>tbRig = sfRig sf, tbScenarios = scs\<rparr>))"

subsection \<open>The result of a run\<close>

record run_result =
  rrScenarioName :: string
  rrExpectedClass :: failure_class
  rrExpectedContract :: string
  rrExpectedVerdict :: string
  rrActualVerdict :: string
  rrActualContract :: string
  rrActualResult :: "result option"
  rrEmittedConfidence :: real
  rrComputedConfidence :: real
  rrCeilingBound :: bool
  rrObservedSeverity :: "real option"
  rrRunID :: string
  rrRunIndex :: int
  rrErr :: string

definition expected_result :: "table_scenario \<Rightarrow> run_result" where
  "expected_result sc =
     \<lparr>rrScenarioName = scName sc, rrExpectedClass = exFailureClass (scExpects sc), rrExpectedContract = exContractRef (scExpects sc),
      rrExpectedVerdict = exVerdict (scExpects sc), rrActualVerdict = [], rrActualContract = [], rrActualResult = None,
      rrEmittedConfidence = 0, rrComputedConfidence = 0, rrCeilingBound = False, rrObservedSeverity = None, rrRunID = [],
      rrRunIndex = 0, rrErr = []\<rparr>"

text \<open>The text of an error: the answer of opening a leg begins with the name of the leg.\<close>

fun settle_error_text :: "settle_error \<Rightarrow> string" where
  "settle_error_text (ErrSettleTimeout ref) = ''harvest: settle window elapsed with no terminal outcome: '' @ ref"
| "settle_error_text (WatchFailed e) = ''harvest: watch '' @ e"

fun harvest_error_text :: "harvest_error \<Rightarrow> string" where
  "harvest_error_text (PreconditionFailed n e) = ''precondition '' @ n @ '': '' @ e"
| "harvest_error_text (BrokerUnreachable n e) =
     ''preflight: scenario '' @ n @ '': harvest: NATS broker unreachable before fault injection: '' @ e"
| "harvest_error_text (FaultFailed e) = ''fault: '' @ e"
| "harvest_error_text (SettleFailed e) = settle_error_text e"

text \<open>The deferred restore amends the error of the body.\<close>

fun run_error :: "(harvest_error + terminal) \<times> string list \<Rightarrow> string option" where
  "run_error (Inr t, []) = None"
| "run_error (Inl e, []) = Some (harvest_error_text e)"
| "run_error (Inl e, l # ls) = Some (harvest_error_text e @ '' (restore also failed: '' @ join [CHR 0x0A] (l # ls) @ '')'')"
| "run_error (Inr t, l # ls) = Some (''restore failed: '' @ join [CHR 0x0A] (l # ls))"

definition result_of :: "table_scenario \<Rightarrow> (harvest_error + terminal) \<times> string list \<Rightarrow> run_result" where
  "result_of sc o' =
     (let res = (case fst o' of
            Inl (SettleFailed e) \<Rightarrow> (expected_result sc)\<lparr>rrActualResult := Some ResultUnknown\<rparr>
          | Inl e \<Rightarrow> expected_result sc
          | Inr t \<Rightarrow> (expected_result sc)\<lparr>rrActualVerdict := tmVerdict t, rrActualContract := tmContractRef t,
                rrActualResult := tmResult t, rrRunID := tmRunID t, rrEmittedConfidence := tmEmittedConfidence t,
                rrComputedConfidence := tmComputedConfidence t, rrCeilingBound := tmCeilingBound t,
                rrObservedSeverity := tmObservedSeverity t\<rparr>)
      in res\<lparr>rrErr := (case run_error o' of None \<Rightarrow> [] | Some e \<Rightarrow> e)\<rparr>)"

subsection \<open>The loop over the table\<close>

record harvest_world =
  hwCancelled :: "nat \<Rightarrow> bool"
  hwCooling :: "nat \<Rightarrow> bool"
  hwLive :: "nat \<Rightarrow> string option"
  hwSettled :: "nat \<Rightarrow> settle_error + terminal"
  hwEncode :: "nat \<Rightarrow> string option"

definition exitCode :: "bool \<Rightarrow> nat" where
  "exitCode failed = (if failed then 1 else 0)"

text \<open>\<open>todo\<close> pairs each pass with its rows, \<open>n\<close> counts the runs so far; the results are those written out.\<close>

fun harvest_loop ::
  "shell \<Rightarrow> harvest_world \<Rightarrow> bool \<Rightarrow> nat \<Rightarrow> (int \<times> table_scenario) list \<Rightarrow> nat \<Rightarrow> bool \<Rightarrow> command list \<Rightarrow>
   nat \<times> run_result list \<times> command list" where
  "harvest_loop sh w asJSON tot [] n failed past = (exitCode failed, [], past)"
| "harvest_loop sh w asJSON tot ((i, sc) # todo) n failed past =
     (if hwCancelled w n then (exitCode failed, [], past)
      else
        (let (o', past) = harvest_run sh (hwLive w n) (hwSettled w n) (scenario.truncate sc) past;
             res = (result_of sc o')\<lparr>rrRunIndex := i\<rparr>;
             failed = (failed \<or> run_error o' \<noteq> None)
         in if asJSON \<and> hwEncode w n \<noteq> None then (1, [], past)
            else if n + 1 < tot \<and> hwCooling w n then (exitCode failed, [res], past)
            else (let (code, rest, past) = harvest_loop sh w asJSON tot todo (n + 1) failed past in (code, res # rest, past))))"

definition harvest_rows :: "scenario_table \<Rightarrow> string \<Rightarrow> table_scenario list" where
  "harvest_rows table only = filter (\<lambda>sc. only = [] \<or> contains only (scName sc)) (tbScenarios table)"

definition harvest_all ::
  "shell \<Rightarrow> harvest_world \<Rightarrow> scenario_table \<Rightarrow> string \<Rightarrow> bool \<Rightarrow> nat \<Rightarrow> nat \<times> run_result list \<times> command list" where
  "harvest_all sh w table only asJSON repeat =
     (let rows = harvest_rows table only
      in harvest_loop sh w asJSON (repeat * length rows) (concat (map (\<lambda>i. map (Pair (int i)) rows) [0..<repeat])) 0 False [])"

definition verifyKubeContext :: "string \<Rightarrow> string + string \<Rightarrow> string option" where
  "verifyKubeContext want current =
     (case current of
        Inl e \<Rightarrow> Some e
      | Inr got \<Rightarrow>
          if got \<noteq> want
          then Some (''active kubectl context is '' @ go_quote got @ '', want '' @ go_quote want @
                 '' '' @ [CHR 0xE2, CHR 0x80, CHR 0x94] @ '' switch context or drop --kube-context to fire without this check'')
          else None)"

subsection \<open>What loading guarantees\<close>

definition action_ok :: "action \<Rightarrow> bool" where
  "action_ok a \<longleftrightarrow> acnPath a \<noteq> [] \<and> action_command a \<noteq> None"

definition scenario_ok :: "table_scenario \<Rightarrow> bool" where
  "scenario_ok sc \<longleftrightarrow> scName sc \<noteq> [] \<and> scSignalRef sc \<noteq> [] \<and> 0 < scSettleWindow sc \<and> action_ok (scFault sc) \<and> action_ok (scRestore sc) \<and>
     validVerdict (exVerdict (scExpects sc)) \<and> (exVerdict (scExpects sc) = ''refused'' \<or> exContractRef (scExpects sc) \<noteq> []) \<and>
     list_all (\<lambda>p. pcnSet p \<noteq> [] \<and> pcnRestore p \<noteq> []) (scPreconditions sc)"

lemma validApply_command: "validApply (acnApply a) \<longleftrightarrow> action_command a \<noteq> None"
  by (auto simp: validApply_def action_command_def)

lemma action_validate_Inr: "action_validate a = Inr b \<longleftrightarrow> a = b \<and> action_ok a"
  by (auto simp: action_validate_def action_ok_def validApply_command)

lemma validate_preconditions_ok:
  "validate_preconditions ps = Inr qs \<Longrightarrow> list_all (\<lambda>p. pcnSet p \<noteq> [] \<and> pcnRestore p \<noteq> []) qs"
  by (induction ps arbitrary: qs) (simp, force split: if_splits sum.splits)

lemma scenario_validate_ok: "scenario_validate pd s = Inr sc \<Longrightarrow> scenario_ok sc"
  unfolding scenario_validate_def
  by (drule sym) (simp add: scenario_ok_def action_validate_Inr validate_preconditions_ok split: if_split_asm sum.split_asm)

lemma validate_scenarios_ok: "validate_scenarios pd ss = Inr scs \<Longrightarrow> list_all scenario_ok scs"
  by (induction ss arbitrary: scs) (auto split: sum.splits dest: scenario_validate_ok)

lemma loaded_ok: "loadScenarios rf um pd path = Inr t \<Longrightarrow> tbRig t \<noteq> [] \<and> list_all scenario_ok (tbScenarios t)"
  by (auto simp: loadScenarios_def split: sum.splits if_splits dest: validate_scenarios_ok)

subsection \<open>What the loop leaves behind\<close>

definition set_commands :: "table_scenario \<Rightarrow> command list" where
  "set_commands sc = map (\<lambda>p. shell_command (pcnSet p)) (scPreconditions sc) @ fault_commands (scFault sc)"

definition restore_commands :: "table_scenario \<Rightarrow> command list" where
  "restore_commands sc = fault_commands (scRestore sc) @ map (\<lambda>p. shell_command (pcnRestore p)) (rev (scPreconditions sc))"

definition run_commands :: "table_scenario \<times> nat \<Rightarrow> command list" where
  "run_commands r = take (snd r) (set_commands (fst r)) @ restore_commands (fst r)"

lemma run_runs:
  assumes "harvest_run sh live settled (scenario.truncate sc) past = (o', past')"
  shows "\<exists>n. past' = past @ run_commands (sc, n)"
proof -
  obtain r1 p1 where 1: "harvest_body sh live settled (scenario.truncate sc) past = (r1, p1)" by fastforce
  then have "past' = snd (harvest_restore sh (scenario.truncate sc) p1)"
    using assms by (auto simp: harvest_run_def Let_def split: prod.splits)
  with body_runs [OF 1] show ?thesis
    by (auto simp: restore_runs run_commands_def set_commands_def restore_commands_def scenario.truncate_def)
qed

lemma settle_error_text_nonempty: "settle_error_text e \<noteq> []"
  by (cases e) simp_all

lemma harvest_error_text_nonempty: "harvest_error_text e \<noteq> []"
  by (cases e) (simp_all add: settle_error_text_nonempty)

lemma run_error_nonempty: "run_error o' \<noteq> Some []"
  by (cases o' rule: run_error.cases) (simp_all add: harvest_error_text_nonempty)

lemma result_err: "rrErr (result_of sc o') = [] \<longleftrightarrow> run_error o' = None"
  using run_error_nonempty [of o'] by (cases "run_error o'") (simp_all add: result_of_def Let_def)

lemma harvest_loop_runs:
  "harvest_loop sh w asJSON tot todo n failed past = (code, results, past') \<Longrightarrow>
   \<exists>runs. fst ` set runs \<subseteq> snd ` set todo \<and> past' = past @ concat (map run_commands runs) \<and>
     length results \<le> length runs \<and> length runs \<le> length todo \<and>
     (code = 0 \<longleftrightarrow> \<not> failed \<and> length results = length runs \<and> list_all (\<lambda>r. rrErr r = []) results)"
proof (induction todo arbitrary: n failed past code results past')
  case Nil
  then show ?case by (intro exI [of _ "[]"]) (auto simp: exitCode_def)
next
  case (Cons x todo)
  obtain i sc where x: "x = (i, sc)" by fastforce
  obtain o' p1 where run: "harvest_run sh (hwLive w n) (hwSettled w n) (scenario.truncate sc) past = (o', p1)" by fastforce
  obtain m where m: "p1 = past @ run_commands (sc, m)" using run_runs [OF run] by blast
  obtain c2 rs2 p2 where rest: "harvest_loop sh w asJSON tot todo (n + 1) (failed \<or> run_error o' \<noteq> None) p1 = (c2, rs2, p2)"
    by (metis prod_cases3)
  consider "hwCancelled w n" | "\<not> hwCancelled w n" "asJSON \<and> hwEncode w n \<noteq> None"
    | "\<not> hwCancelled w n" "\<not> (asJSON \<and> hwEncode w n \<noteq> None)" "n + 1 < tot \<and> hwCooling w n"
    | "\<not> hwCancelled w n" "\<not> (asJSON \<and> hwEncode w n \<noteq> None)" "\<not> (n + 1 < tot \<and> hwCooling w n)" by blast
  then show ?case
  proof cases
    case 1
    then show ?thesis using Cons.prems x by (intro exI [of _ "[]"]) (auto simp: exitCode_def)
  next
    case 2
    then show ?thesis using Cons.prems x run m by (intro exI [of _ "[(sc, m)]"]) auto
  next
    case 3
    then have "code = exitCode (failed \<or> run_error o' \<noteq> None)" "results = [(result_of sc o')\<lparr>rrRunIndex := i\<rparr>]" "past' = p1"
      using Cons.prems x run by auto
    then show ?thesis using x m by (intro exI [of _ "[(sc, m)]"]) (cases "run_error o'"; simp add: exitCode_def result_err)
  next
    case 4
    then have "code = c2 \<and> results = (result_of sc o')\<lparr>rrRunIndex := i\<rparr> # rs2 \<and> past' = p2"
      using Cons.prems x run rest by auto
    moreover from Cons.IH [OF rest] obtain runs where
      "fst ` set runs \<subseteq> snd ` set todo" "p2 = p1 @ concat (map run_commands runs)" "length rs2 \<le> length runs" "length runs \<le> length todo"
      "c2 = 0 \<longleftrightarrow> \<not> (failed \<or> run_error o' \<noteq> None) \<and> length rs2 = length runs \<and> list_all (\<lambda>r. rrErr r = []) rs2" by blast
    ultimately show ?thesis using x m by (intro exI [of _ "(sc, m) # runs"]) (auto simp: result_err)
  qed
qed

lemma passes_length: "length (concat (map (\<lambda>i. map (Pair (int i)) rows) [0..<k])) = k * length rows"
  by (induction k) simp_all


subsection \<open>Examples\<close>

definition example_stage :: scenario_stage where
  "example_stage = \<lparr>ssgName = scName example_scenario, ssgDomain = ''ceph'', ssgSignalRef = scSignalRef example_scenario,
     ssgFault = scFault example_scenario, ssgPreconditions = scPreconditions example_scenario,
     ssgExpects = \<lparr>exFailureClass = ''service_failure'', exContractRef = ''flip'', exVerdict = ''approved''\<rparr>,
     ssgSettleWindow = ''10m'', ssgRestore = scRestore example_scenario\<rparr>"

definition example_row :: table_scenario where
  "example_row = scenario.extend example_scenario
     (table_scenario.fields ''ceph'' \<lparr>exFailureClass = ''service_failure'', exContractRef = ''flip'', exVerdict = ''approved''\<rparr> (600 * second))"

definition example_file :: scenarios_file where
  "example_file = \<lparr>sfVersion = 1, sfRig = ''lab'', sfScenarios = [example_stage]\<rparr>"

definition example_table :: scenario_table where
  "example_table = \<lparr>tbRig = ''lab'', tbScenarios = [example_row]\<rparr>"

definition example_world :: harvest_world where
  "example_world = \<lparr>hwCancelled = (\<lambda>n. n = 1), hwCooling = (\<lambda>_. False), hwLive = (\<lambda>_. Some ''no route''),
     hwSettled = (\<lambda>_. Inr (bare_terminal ''refused'')), hwEncode = (\<lambda>_. None)\<rparr>"

lemma example_loads: "loadScenarios (\<lambda>_. Inr ()) (\<lambda>_. Inr example_file) (\<lambda>_. Inr (600 * second)) ''scenarios.yaml'' = Inr example_table"
  by (simp add: loadScenarios_def ConfigFile.stage_def example_file_def example_stage_def example_table_def example_row_def
      example_scenario_def scenario_validate_def action_validate_def validApply_def validVerdict_def
      scenario.defs table_scenario.defs)


end
