(* ===== verification/Scorecard.thy ===== *)
theory Scorecard
  imports Scenario
begin

text \<open>
  Grading a harvest's results against the rows' own expectations
  (\<^verbatim>\<open>src/internal/scorecard/grade.go\<close>), and what a harvest's error text is read as.

  The lines of the input are its text up to each newline; decoding one is an argument, and so is whether
  the scanner fails at the end. A row keeps the fields grading reads; it is what decoding the written result
  of a run gives back, field by field.
\<close>

subsection \<open>One row\<close>

record row =
  rwScenarioName :: string
  rwExpectedContract :: string
  rwExpectedVerdict :: string
  rwActualVerdict :: string
  rwActualContract :: string
  rwActualResult :: "result option"
  rwRunID :: string
  rwRunIndex :: int
  rwErr :: string

datatype reason = Hit | RefusedWrongBeat | NoDetection | WrongContract | WrongVerdict | NonConverging
  | RestoreFailure | HarnessError | HarnessLivenessFailure

definition failedReason :: "string \<Rightarrow> reason" where
  "failedReason msg =
     (if contains ''restore'' msg then RestoreFailure
      else if contains ''broker unreachable'' msg then HarnessLivenessFailure
      else if contains ''settle window elapsed'' msg then NoDetection
      else HarnessError)"

definition grade_row :: "row \<Rightarrow> reason" where
  "grade_row r =
     (if rwErr r \<noteq> [] then failedReason (rwErr r)
      else if rwActualVerdict r = ''refused'' \<and> rwExpectedVerdict r \<noteq> ''refused'' then RefusedWrongBeat
      else if rwExpectedVerdict r = ''refused'' \<and> rwActualVerdict r \<noteq> ''refused'' then RefusedWrongBeat
      else if rwActualVerdict r \<noteq> rwExpectedVerdict r then WrongVerdict
      else if rwExpectedVerdict r = ''refused'' then Hit
      else if rwActualContract r \<noteq> rwExpectedContract r then WrongContract
      else if rwExpectedVerdict r = ''approved'' \<and> rwActualResult r \<noteq> Some ResultSuccess then NonConverging
      else Hit)"

subsection \<open>The report\<close>

record tally =
  tlHits :: nat
  tlN :: nat

record miss =
  mzScenarioName :: string
  mzRunIndex :: int
  mzRunID :: string
  mzReason :: reason

record score_report =
  rpN :: nat
  rpHits :: nat
  rpByScenario :: "string \<rightharpoonup> tally"
  rpByRunIndex :: "int \<rightharpoonup> tally"
  rpReasons :: "reason \<rightharpoonup> nat"
  rpMisses :: "miss list"
  rpHarnessExcluded :: nat

definition empty_report :: score_report where
  "empty_report = \<lparr>rpN = 0, rpHits = 0, rpByScenario = Map.empty, rpByRunIndex = Map.empty, rpReasons = Map.empty,
     rpMisses = [], rpHarnessExcluded = 0\<rparr>"

definition zero_tally :: tally where
  "zero_tally = \<lparr>tlHits = 0, tlN = 0\<rparr>"

definition miss_of :: "row \<Rightarrow> miss" where
  "miss_of r = \<lparr>mzScenarioName = rwScenarioName r, mzRunIndex = rwRunIndex r, mzRunID = rwRunID r, mzReason = grade_row r\<rparr>"

definition bump :: "bool \<Rightarrow> tally \<Rightarrow> tally" where
  "bump won t = t\<lparr>tlN := tlN t + 1, tlHits := tlHits t + (if won then 1 else 0)\<rparr>"

definition count_row :: "row \<Rightarrow> score_report \<Rightarrow> score_report" where
  "count_row r rpt =
     (let g = grade_row r;
          reasons = (rpReasons rpt)(g \<mapsto> map_get 0 (rpReasons rpt) g + 1)
      in if g = HarnessLivenessFailure then
           rpt\<lparr>rpHarnessExcluded := rpHarnessExcluded rpt + 1, rpReasons := reasons, rpMisses := rpMisses rpt @ [miss_of r]\<rparr>
         else
           (let rpt = rpt\<lparr>rpN := rpN rpt + 1,
                  rpByScenario := (rpByScenario rpt)(rwScenarioName r \<mapsto>
                    bump (g = Hit) (map_get zero_tally (rpByScenario rpt) (rwScenarioName r))),
                  rpByRunIndex := (rpByRunIndex rpt)(rwRunIndex r \<mapsto>
                    bump (g = Hit) (map_get zero_tally (rpByRunIndex rpt) (rwRunIndex r)))\<rparr>
            in if g = Hit then rpt\<lparr>rpHits := rpHits rpt + 1\<rparr>
               else rpt\<lparr>rpReasons := reasons, rpMisses := rpMisses rpt @ [miss_of r]\<rparr>))"

fun grade_lines :: "(string \<Rightarrow> string + row) \<Rightarrow> string option \<Rightarrow> string list \<Rightarrow> score_report \<Rightarrow> string + score_report" where
  "grade_lines decode scan_err [] rpt = (case scan_err of Some e \<Rightarrow> Inl (''scorecard: read results: '' @ e) | None \<Rightarrow> Inr rpt)"
| "grade_lines decode scan_err (l # ls) rpt =
     (let line = trim_space l
      in if line = [] then grade_lines decode scan_err ls rpt
         else (case decode line of
                 Inl e \<Rightarrow> Inl (''scorecard: decode result: '' @ e)
               | Inr r \<Rightarrow> grade_lines decode scan_err ls (count_row r rpt)))"

definition grade_results :: "(string \<Rightarrow> string + row) \<Rightarrow> string option \<Rightarrow> string list \<Rightarrow> string + score_report" where
  "grade_results decode scan_err ls = grade_lines decode scan_err ls empty_report"

subsection \<open>The report as counts\<close>

definition trial :: "row \<Rightarrow> bool" where
  "trial r \<longleftrightarrow> grade_row r \<noteq> HarnessLivenessFailure"

definition tally_of :: "row list \<Rightarrow> tally option" where
  "tally_of rs = (if rs = [] then None else Some \<lparr>tlHits = length (filter (\<lambda>r. grade_row r = Hit) rs), tlN = length rs\<rparr>)"

definition report_of :: "row list \<Rightarrow> score_report" where
  "report_of rs =
     \<lparr>rpN = length (filter trial rs), rpHits = length (filter (\<lambda>r. grade_row r = Hit) rs),
      rpByScenario = (\<lambda>n. tally_of (filter (\<lambda>r. trial r \<and> rwScenarioName r = n) rs)),
      rpByRunIndex = (\<lambda>i. tally_of (filter (\<lambda>r. trial r \<and> rwRunIndex r = i) rs)),
      rpReasons = (\<lambda>g. let n = length (filter (\<lambda>r. grade_row r = g) rs) in if g = Hit \<or> n = 0 then None else Some n),
      rpMisses = map miss_of (filter (\<lambda>r. grade_row r \<noteq> Hit) rs),
      rpHarnessExcluded = length (filter (\<lambda>r. \<not> trial r) rs)\<rparr>"

lemma tally_of_snoc: "tally_of (rs @ [r]) = Some (bump (grade_row r = Hit) (map_get zero_tally (\<lambda>_::unit. tally_of rs) ()))"
  by (simp add: tally_of_def bump_def map_get_def zero_tally_def)

lemma report_of_Nil: "report_of [] = empty_report"
  by (simp add: report_of_def empty_report_def tally_of_def Let_def)

lemma by_key_snoc:
  "(\<lambda>n. tally_of (filter (\<lambda>x. trial x \<and> key x = n) (rs @ [r]))) =
   (if trial r then (\<lambda>n. tally_of (filter (\<lambda>x. trial x \<and> key x = n) rs))
       (key r \<mapsto> bump (grade_row r = Hit) (map_get zero_tally (\<lambda>n. tally_of (filter (\<lambda>x. trial x \<and> key x = n) rs)) (key r)))
    else (\<lambda>n. tally_of (filter (\<lambda>x. trial x \<and> key x = n) rs)))"
  by (auto simp: tally_of_snoc map_get_def fun_eq_iff)

lemma report_of_snoc: "report_of (rs @ [r]) = count_row r (report_of rs)"
proof -
  have reasons: "(\<lambda>g. let n = length (filter (\<lambda>x. grade_row x = g) (rs @ [r])) in if g = Hit \<or> n = 0 then None else Some n) =
      (if grade_row r = Hit then rpReasons (report_of rs)
       else (rpReasons (report_of rs))(grade_row r \<mapsto> map_get 0 (rpReasons (report_of rs)) (grade_row r) + 1))"
    by (auto simp: report_of_def map_get_def fun_eq_iff Let_def)
  show ?thesis
    unfolding report_of_def [of "rs @ [r]"] by_key_snoc reasons
    by (cases "grade_row r = Hit"; cases "grade_row r = HarnessLivenessFailure")
      (simp_all add: count_row_def Let_def trial_def report_of_def)
qed

lemma grade_lines_report:
  "grade_lines decode scan_err ls (report_of rs) = Inr rpt \<Longrightarrow>
   scan_err = None \<and> (\<exists>new. map decode (filter (\<lambda>l. l \<noteq> []) (map trim_space ls)) = map Inr new \<and> rpt = report_of (rs @ new))"
proof (induction ls arbitrary: rs)
  case Nil
  then show ?case by (simp split: option.splits)
next
  case (Cons l ls)
  show ?case
  proof (cases "trim_space l = []")
    case True
    then show ?thesis using Cons by simp
  next
    case False
    then obtain r where r: "decode (trim_space l) = Inr r" "grade_lines decode scan_err ls (report_of (rs @ [r])) = Inr rpt"
      using Cons.prems by (auto simp: Let_def report_of_snoc split: sum.splits)
    from Cons.IH [OF r(2)] obtain new where
      "scan_err = None" "map decode (filter (\<lambda>l. l \<noteq> []) (map trim_space ls)) = map Inr new" "rpt = report_of (rs @ r # new)" by auto
    with False r show ?thesis by (intro conjI exI [of _ "r # new"]) simp_all
  qed
qed

text \<open>the scorecard is exact: grading a results file that can be read to its end gives the report of its rows
  by their counts, every non-blank line one row, so that what it prints as trials, hits, misses and exclusions
  adds up.\<close>

theorem scorecard_counts:
  assumes "grade_results decode scan_err ls = Inr rpt"
  shows "\<exists>rs. map decode (filter (\<lambda>l. l \<noteq> []) (map trim_space ls)) = map Inr rs \<and> rpt = report_of rs \<and>
    rpN rpt + rpHarnessExcluded rpt = length rs \<and> rpHits rpt + length (rpMisses rpt) = length rs \<and> rpHits rpt \<le> rpN rpt"
proof -
  obtain rs where rs: "map decode (filter (\<lambda>l. l \<noteq> []) (map trim_space ls)) = map Inr rs" "rpt = report_of rs"
    using assms grade_lines_report [of decode scan_err ls "[]" rpt] by (auto simp: grade_results_def report_of_Nil)
  have "length (filter (\<lambda>r. grade_row r = Hit) rs) \<le> length (filter trial rs)"
    by (induction rs) (auto simp: trial_def)
  moreover have "length (filter (\<lambda>r. grade_row r = Hit) rs) + length (filter (\<lambda>r. grade_row r \<noteq> Hit) rs) = length rs"
    "length (filter trial rs) + length (filter (\<lambda>r. \<not> trial r) rs) = length rs"
    by (rule sum_length_filter_compl)+
  ultimately show ?thesis using rs by (intro exI [of _ rs]) (simp add: report_of_def)
qed

subsection \<open>Grading a run\<close>

definition row_of :: "run_result \<Rightarrow> row" where
  "row_of res = \<lparr>rwScenarioName = rrScenarioName res, rwExpectedContract = rrExpectedContract res,
     rwExpectedVerdict = rrExpectedVerdict res, rwActualVerdict = rrActualVerdict res, rwActualContract = rrActualContract res,
     rwActualResult = rrActualResult res, rwRunID = rrRunID res, rwRunIndex = rrRunIndex res, rwErr = rrErr res\<rparr>"

lemma failedReason_not_hit: "failedReason e \<noteq> Hit"
  by (simp add: failedReason_def)

lemma hit_iff:
  "grade_row r = Hit \<longleftrightarrow> rwErr r = [] \<and> rwActualVerdict r = rwExpectedVerdict r \<and>
     (rwExpectedVerdict r = ''refused'' \<or>
      rwActualContract r = rwExpectedContract r \<and> (rwExpectedVerdict r = ''approved'' \<longrightarrow> rwActualResult r = Some ResultSuccess))"
  by (auto simp: grade_row_def failedReason_not_hit)

lemma run_error_None: "run_error o' = None \<longleftrightarrow> (\<exists>t. o' = (Inr t, []))"
  by (cases o' rule: run_error.cases) auto

text \<open>a run counts as a hit exactly when it was carried out, left nothing unrestored and met what its row
  expects: the wait ended with the expected verdict and, unless a refusal was expected, with the expected
  contract, which for an approval also succeeded.\<close>

theorem hit_means_expected:
  assumes "harvest_run sh live settled (scenario.truncate sc) past = (o', past')"
  shows "grade_row (row_of ((result_of sc o')\<lparr>rrRunIndex := i\<rparr>)) = Hit \<longleftrightarrow>
    (\<exists>t. o' = (Inr t, []) \<and> settled = Inr t \<and> tmVerdict t = exVerdict (scExpects sc) \<and>
       (exVerdict (scExpects sc) = ''refused'' \<or>
        tmContractRef t = exContractRef (scExpects sc) \<and>
        (exVerdict (scExpects sc) = ''approved'' \<longrightarrow> tmResult t = Some ResultSuccess)))"
proof -
  have settled: "settled = Inr t" if "o' = (Inr t, left)" for t left
  proof -
    obtain r1 p1 where 1: "harvest_body sh live settled (scenario.truncate sc) past = (r1, p1)" by fastforce
    then have "r1 = Inr t" using assms that by (auto simp: harvest_run_def Let_def split: prod.splits)
    with body_runs [OF 1] show ?thesis by auto
  qed
  show ?thesis
  proof (cases "run_error o' = None")
    case True
    then obtain t where t: "o' = (Inr t, [])" by (auto simp: run_error_None)
    with settled show ?thesis by (auto simp: t hit_iff row_of_def result_of_def Let_def expected_result_def)
  next
    case False
    then have "rwErr (row_of ((result_of sc o')\<lparr>rrRunIndex := i\<rparr>)) \<noteq> []" by (simp add: row_of_def result_err)
    then show ?thesis using False by (auto simp: hit_iff)
  qed
qed

text \<open>A run whose broker did not answer fired no fault. When its restore fails as well, its error text has the
  word the reader looks for first, so the row is counted as a trial that missed.\<close>

lemma set_preconditions_error: "set_preconditions sh ps past = (Some x, past') \<Longrightarrow> \<exists>n e. x = PreconditionFailed n e"
  by (induction ps arbitrary: past) (auto simp: run_command_def split: option.splits)

theorem dead_broker_counted:
  assumes "harvest_run sh live settled (scenario.truncate sc) past = ((Inl (BrokerUnreachable n e), l # ls), past')"
  shows "live = Some e \<and> trial (row_of (result_of sc (Inl (BrokerUnreachable n e), l # ls))) \<and>
    grade_row (row_of (result_of sc (Inl (BrokerUnreachable n e), l # ls))) = RestoreFailure"
proof -
  let ?res = "result_of sc (Inl (BrokerUnreachable n e), l # ls)"
  have live: "live = Some e"
    using assms by (auto simp: harvest_run_def harvest_body_def Let_def
      dest: set_preconditions_error split: prod.splits option.splits sum.splits)
  have split: "rrErr ?res = (harvest_error_text (BrokerUnreachable n e) @ '' ('') @ ''restore'' @
      ('' also failed: '' @ join [CHR 0x0A] (l # ls) @ '')'')"
    by (simp add: result_of_def Let_def)
  then have "contains ''restore'' (rrErr ?res)" by (simp only: contains_append)
  moreover have "rrErr ?res \<noteq> []" by (simp only: result_err) simp
  ultimately show ?thesis using live by (simp add: grade_row_def row_of_def failedReason_def trial_def)
qed

subsection \<open>Examples\<close>

definition example_grade :: row where
  "example_grade = \<lparr>rwScenarioName = ''cart'', rwExpectedContract = ''flip'', rwExpectedVerdict = ''approved'', rwActualVerdict = ''approved'',
     rwActualContract = ''flip'', rwActualResult = Some ResultSuccess, rwRunID = ''run'', rwRunIndex = 0, rwErr = []\<rparr>"

text \<open>A file of a hit, a blank line and a run that missed.\<close>

theorem scorecard_counts_witness:
  "\<exists>rpt. grade_results (\<lambda>l. Inr (if l = ''hit'' then example_grade else example_grade\<lparr>rwActualVerdict := ''held''\<rparr>)) None
      ['' hit'', '' '', ''miss''] = Inr rpt \<and> rpHits rpt + length (rpMisses rpt) = 2 \<and> rpHits rpt \<le> rpN rpt"
proof -
  let ?dec = "\<lambda>l. Inr (if l = ''hit'' then example_grade else example_grade\<lparr>rwActualVerdict := ''held''\<rparr>) :: string + row"
  obtain rpt where rpt: "grade_results ?dec None ['' hit'', '' '', ''miss''] = Inr rpt"
    by (simp add: grade_results_def Let_def trim_space_def Converge.is_space_def)
  from scorecard_counts [OF rpt] obtain rs where
    "map ?dec (filter (\<lambda>l. l \<noteq> []) (map trim_space ['' hit'', '' '', ''miss''])) = map Inr rs"
    "rpHits rpt + length (rpMisses rpt) = length rs" "rpHits rpt \<le> rpN rpt" by (elim exE conjE)
  moreover have "length (filter (\<lambda>l. l \<noteq> []) (map trim_space ['' hit'', '' '', ''miss''])) = 2"
    by (simp add: trim_space_def Converge.is_space_def)
  ultimately show ?thesis using rpt by (metis length_map)
qed

theorem hit_means_expected_witness:
  "grade_row (row_of ((result_of example_row (Inr ((bare_terminal ''approved'')\<lparr>tmContractRef := ''flip'', tmResult := Some ResultSuccess\<rparr>), []))
     \<lparr>rrRunIndex := 0\<rparr>)) = Hit"
proof -
  let ?t = "(bare_terminal ''approved'')\<lparr>tmContractRef := ''flip'', tmResult := Some ResultSuccess\<rparr>"
  obtain past' where "harvest_run (\<lambda>_ _. None) None (Inr ?t) (scenario.truncate example_row) [] = ((Inr ?t, []), past')"
    by (simp add: harvest_run_def harvest_body_def harvest_restore_def applyAction_def action_command_def run_command_def Let_def
        example_row_def example_scenario_def scenario.defs table_scenario.defs)
  from hit_means_expected [OF this, of 0] show ?thesis
    by (simp add: example_row_def bare_terminal_def scenario.defs table_scenario.defs)
qed

end
