(* ===== verification/Replay.thy ===== *)
theory Replay
  imports Propose Store Click Corpus Text "HOL-Library.Sublist"
begin

text \<open>
  Re-running a recorded run through the engine (\<^verbatim>\<open>src/internal/replay\<close>): the model and the tools that answer
  from the recording, the detection rebuilt from the emitted set, the replay itself, and reading a recording.

  The world of a replay is how far the recording has been read and the store the engine writes its turns to.
  The catalog file, the decoders of the two terminal tools and the seed prompt are a configuration; the
  clock readings of the run are an argument.
\<close>

subsection \<open>The recording\<close>

record transcript =
  tcRunID :: string
  tcCompletions :: "completion list"
  tcSet :: proposal_set
  tcPath :: string

definition completionsFrom :: "message list \<Rightarrow> completion list" where
  "completionsFrom msgs =
     map (\<lambda>m. \<lparr>cmpMessage = m, cmpToolCalls = msgToolCalls m\<rparr>) (filter (\<lambda>m. msgRole m = ''assistant'') msgs)"

datatype load_transcript_error = OpenTranscript string string | DecodeLine string | ReadTranscript string string
  | NoTurn string | OpenSet string string | DecodeSet string string

text \<open>A line that carries no run is the terminal record.\<close>

fun last_turn :: "(string \<Rightarrow> string + turn) \<Rightarrow> string list \<Rightarrow> turn option \<Rightarrow> load_transcript_error + turn option" where
  "last_turn decode [] acc = Inr acc"
| "last_turn decode (l # ls) acc =
     (let line = trim_space l
      in if line = [] then last_turn decode ls acc
         else (case decode line of
                 Inl e \<Rightarrow> Inl (DecodeLine e)
               | Inr t \<Rightarrow> last_turn decode ls (if tnRunID t = [] then acc else Some t)))"

text \<open>Opening the recording gives its lines and how scanning them ended. Reading the set answers \<open>None\<close> when
  there is none.\<close>

definition loadTranscript ::
  "(string \<Rightarrow> string + string list \<times> string option) \<Rightarrow> (string \<Rightarrow> string + string option) \<Rightarrow> (string \<Rightarrow> string + turn) \<Rightarrow>
   (string \<Rightarrow> string + proposal_set) \<Rightarrow> string \<Rightarrow> string \<Rightarrow> load_transcript_error + transcript" where
  "loadTranscript openLines readSet decodeTurn decodeSet jsonlPath setPath =
     (case openLines jsonlPath of
        Inl e \<Rightarrow> Inl (OpenTranscript jsonlPath e)
      | Inr (ls, scan_err) \<Rightarrow>
     (case last_turn decodeTurn ls None of
        Inl e \<Rightarrow> Inl e
      | Inr newest \<Rightarrow>
     (case scan_err of
        Some e \<Rightarrow> Inl (ReadTranscript jsonlPath e)
      | None \<Rightarrow>
     (case newest of
        None \<Rightarrow> Inl (NoTurn jsonlPath)
      | Some t \<Rightarrow>
     (case (case readSet setPath of
              Inl e \<Rightarrow> Inl (OpenSet setPath e)
            | Inr None \<Rightarrow> Inr zero_set
            | Inr (Some raw) \<Rightarrow> (case decodeSet raw of Inl e \<Rightarrow> Inl (DecodeSet setPath e) | Inr s \<Rightarrow> Inr s)) of
        Inl e \<Rightarrow> Inl e
      | Inr s \<Rightarrow>
          Inr \<lparr>tcRunID = tnRunID t, tcCompletions = completionsFrom (tnMsgs t), tcSet = s, tcPath = jsonlPath\<rparr>)))))"

subsection \<open>The model and the tools\<close>

record replay_world =
  rwPos :: nat
  rwToolPos :: "string \<Rightarrow> nat"
  rwStore :: mem_store

definition transcript_exhausted :: string where
  "transcript_exhausted = ''replay: the loop asked for a turn this transcript does not hold''"

definition replay_complete :: "completion list \<Rightarrow> message list \<Rightarrow> replay_world \<Rightarrow> (string + completion) \<times> replay_world" where
  "replay_complete cs msgs w =
     (if length cs \<le> rwPos w then (Inl transcript_exhausted, w) else (Inr (cs ! rwPos w), w\<lparr>rwPos := rwPos w + 1\<rparr>))"

definition recorded_run ::
  "string \<Rightarrow> evidence_ref list \<Rightarrow> string \<Rightarrow> replay_world \<Rightarrow> (string + evidence_ref) \<times> replay_world" where
  "recorded_run name refs args w =
     (if length refs \<le> rwToolPos w name then (Inl (transcript_exhausted @ '': tool '' @ go_quote name), w)
      else (Inr (refs ! rwToolPos w name), w\<lparr>rwToolPos := (rwToolPos w)(name := rwToolPos w name + 1)\<rparr>))"

definition buildTools :: "proposal_set \<Rightarrow> string \<Rightarrow> (string \<Rightarrow> replay_world \<Rightarrow> (string + evidence_ref) \<times> replay_world) option" where
  "buildTools s name =
     (case filter (\<lambda>r. evTool r = name) (psEvidence s) of [] \<Rightarrow> None | refs \<Rightarrow> Some (recorded_run name refs))"

subsection \<open>The replay\<close>

definition detectionFrom :: "proposal_set \<Rightarrow> detection" where
  "detectionFrom s =
     \<lparr>detName = [], detFingerprint = psSignalRef s,
      detOriginService = (case psSAOSnapshot s of None \<Rightarrow> [] | Some o' \<Rightarrow> ssOriginService (saoSignal o')),
      detServiceTier = psServiceTier s, detDetectorType = [],
      detDivergence = \<lparr>divMetric = [], divObserved = 0, divBaseline = 0,
        divConfidence = (case psSAOSnapshot s of None \<Rightarrow> 0 | Some o' \<Rightarrow> ssConfidence (saoSignal o')), divTrajectory = []\<rparr>,
      detTopology = \<lparr>tcUpstream = [], tcDownstream = []\<rparr>,
      detTraffic = \<lparr>trAffectedPct = 0, trBaseline = 0, trBaselineWindow = []\<rparr>,
      detImpact = \<lparr>impSeverity = \<lparr>sevDegradationPct = 0, sevTrajectory = []\<rparr>,
        impBlastRadius = \<lparr>brAffectedPct = 0, brVelocity = [], brDownstreamConsumers = 0\<rparr>\<rparr>,
      detContractRef = [], detSLORef = psSLORef s, detDetectedAt = zero_time\<rparr>"

definition replayTopology :: "proposal_set \<Rightarrow> topology_snapshot" where
  "replayTopology s = (case psSAOSnapshot s of None \<Rightarrow> \<lparr>tsUpstream = [], tsDownstream = []\<rparr> | Some o' \<Rightarrow> saoTopology o')"

definition replayChange :: "proposal_set \<Rightarrow> change_snapshot" where
  "replayChange s = (case psSAOSnapshot s of None \<Rightarrow> \<lparr>chEvents = []\<rparr> | Some o' \<Rightarrow> saoChange o')"

record replay_config =
  rcReadCatalog :: "string + string"
  rcUnmarshalCatalog :: "string \<Rightarrow> string + action_contract list"
  rcFailureClasses :: "string option"
  rcSeedPrompt :: "detection \<Rightarrow> sao \<Rightarrow> action_contract list \<Rightarrow> string"
  rcDecodePropose :: "string \<Rightarrow> string + propose_input"
  rcDecodeInsufficient :: "string \<Rightarrow> string + insufficient_input"

definition default_max_steps :: int where
  "default_max_steps = 8"

definition replay_engine :: "replay_config \<Rightarrow> static_catalog \<Rightarrow> transcript \<Rightarrow> scoring_weights \<Rightarrow> replay_world engine" where
  "replay_engine cfg cat tr w =
     \<lparr>enTopology = (\<lambda>_ x. (Inr (replayTopology (tcSet tr)), x)), enChanges = (\<lambda>_ x. (Inr (replayChange (tcSet tr)), x)),
      enComplete = replay_complete (tcCompletions tr), enTools = buildTools (tcSet tr),
      enSeedPrompt = rcSeedPrompt cfg, enDecodePropose = rcDecodePropose cfg, enDecodeInsufficient = rcDecodeInsufficient cfg,
      enCheckpoint = (\<lambda>t x. (None, x\<lparr>rwStore := snd (mem_checkpoint False t (rwStore x))\<rparr>)),
      enFinish = (\<lambda>r err x. (None, x\<lparr>rwStore := snd (mem_finish False r err (rwStore x))\<rparr>)),
      enJournal = None, enPub = None, enCatalog = cat,
      enScorerPrior = Some (\<lambda>fp. alignment fp newCaseBase), enPrior = Some (\<lambda>fp. alignment fp newCaseBase),
      enDedupeWindow = hour, enMaxSteps = default_max_steps, enWeights = w\<rparr>"

definition fresh_replay :: "replay_world engine_state" where
  "fresh_replay = \<lparr>esLedger = newProposalLog, esRecorder = None, esJournaled = [], esPublished = [],
     esWorld = \<lparr>rwPos = 0, rwToolPos = (\<lambda>_. 0), rwStore = newMemStore\<rparr>\<rparr>"

text \<open>The readings of a replay: nothing is cancelled and nobody else writes its ledger.\<close>

definition replay_readings :: "readings \<Rightarrow> readings" where
  "replay_readings rd = rd\<lparr>rdCancelledOpen := False, rdCancelledGate := False, rdCancelledRecord := False, rdMeanwhile := (\<lambda>l. l)\<rparr>"

datatype replay_error = ReadCatalog string | LoadCatalog load_error | LoadFailureClasses string | ReplayRun engine_error

text \<open>The registry of preconditions is the shipped one, which is empty.\<close>

definition replay_catalog :: "replay_config \<Rightarrow> replay_error + static_catalog" where
  "replay_catalog cfg =
     (case rcReadCatalog cfg of
        Inl e \<Rightarrow> Inl (ReadCatalog e)
      | Inr raw \<Rightarrow> (case load_catalog (rcUnmarshalCatalog cfg) raw Map.empty of Inl e \<Rightarrow> Inl (LoadCatalog e) | Inr cat \<Rightarrow> Inr cat))"

definition replay_propose ::
  "replay_config \<Rightarrow> readings \<Rightarrow> transcript \<Rightarrow> scoring_weights \<Rightarrow> replay_error + proposal_set option" where
  "replay_propose cfg rd tr w =
     (case replay_catalog cfg of
        Inl e \<Rightarrow> Inl e
      | Inr cat \<Rightarrow>
     (case rcFailureClasses cfg of
        Some e \<Rightarrow> Inl (LoadFailureClasses e)
      | None \<Rightarrow>
     (case fst (propose (replay_engine cfg cat tr w) (replay_readings rd) (detectionFrom (tcSet tr)) fresh_replay) of
        Inl e \<Rightarrow> Inl (ReplayRun e)
      | Inr s \<Rightarrow> Inr s)))"

subsection \<open>What a run and its replay share\<close>

definition signed_tools :: "'w engine \<Rightarrow> bool" where
  "signed_tools e \<longleftrightarrow> (\<forall>t run args w r w'. enTools e t = Some run \<longrightarrow> run args w = (Inr r, w') \<longrightarrow> evTool r = t)"

definition speaks_as_assistant :: "'w engine \<Rightarrow> bool" where
  "speaks_as_assistant e \<longleftrightarrow> (\<forall>msgs w c w'. enComplete e msgs w = (Inr c, w') \<longrightarrow> msgRole (cmpMessage c) = ''assistant'')"

definition in_step :: "loop_state \<Rightarrow> loop_state \<Rightarrow> replay_world \<Rightarrow> bool" where
  "in_step ls ls' w' \<longleftrightarrow>
     lsEvidence ls' = lsEvidence ls \<and> lsProposed ls' = lsProposed ls \<and> lsDeclined ls' = lsDeclined ls \<and>
     psFailureClass (lsSet ls') = psFailureClass (lsSet ls) \<and> psHypotheses (lsSet ls') = psHypotheses (lsSet ls) \<and>
     psProposals (lsSet ls') = psProposals (lsSet ls) \<and> psStatus (lsSet ls') = psStatus (lsSet ls) \<and>
     (\<forall>t. rwToolPos w' t = length (filter (\<lambda>r. evTool r = t) (lsEvidence ls))) \<and>
     rwPos w' = length (completionsFrom (lsMsgs ls))"

text \<open>The replay of a run that gathered the evidence \<open>ev\<close> with the tools of \<open>e\<close>.\<close>

definition replays :: "replay_world engine \<Rightarrow> 'w engine \<Rightarrow> evidence_ref list \<Rightarrow> completion list \<Rightarrow> bool" where
  "replays e' e ev cs \<longleftrightarrow>
     enTools e' = buildTools (zero_set\<lparr>psEvidence := ev\<rparr>) \<and> enComplete e' = replay_complete cs \<and>
     enDecodePropose e' = enDecodePropose e \<and> enDecodeInsufficient e' = enDecodeInsufficient e \<and>
     enCheckpoint e' = (\<lambda>t x. (None, x\<lparr>rwStore := snd (mem_checkpoint False t (rwStore x))\<rparr>)) \<and>
     (\<forall>r\<in>set ev. enTools e (evTool r) \<noteq> None)"

lemma completionsFrom_append: "completionsFrom (xs @ ys) = completionsFrom xs @ completionsFrom ys"
  by (simp add: completionsFrom_def)

lemma dispatch_gathers:
  "dispatch_calls e calls res ls w = (Inr (d, res2, ls2), w2) \<Longrightarrow> signed_tools e \<Longrightarrow>
   lsMsgs ls2 = lsMsgs ls \<and> (\<exists>more. lsEvidence ls2 = lsEvidence ls @ more \<and> (\<forall>r\<in>set more. enTools e (evTool r) \<noteq> None))"
proof (induction calls arbitrary: res ls w)
  case (Cons call calls)
  consider "callName call = ''propose''" | "callName call = ''insufficient''"
    | (unknown) "callName call \<noteq> ''propose''" "callName call \<noteq> ''insufficient''" "enTools e (callName call) = None"
    | (known) run where "callName call \<noteq> ''propose''" "callName call \<noteq> ''insufficient''" "enTools e (callName call) = Some run"
    by blast
  then show ?case
  proof cases
    case unknown
    with Cons show ?thesis by simp
  next
    case known
    with Cons.prems obtain ref w1 where ref: "run (callArgs call) w = (Inr ref, w1)" by (auto split: prod.splits sum.splits)
    define kref where "kref = (if evKey ref = [] then ref\<lparr>evKey := evidenceKey (callName call) (length (lsEvidence ls))\<rparr> else ref)"
    have tool: "evTool kref = callName call"
      using Cons.prems(2) known ref by (fastforce simp: signed_tools_def kref_def)
    obtain res1 where "dispatch_calls e calls res1 (ls\<lparr>lsEvidence := lsEvidence ls @ [kref]\<rparr>) w1 = (Inr (d, res2, ls2), w2)"
      using Cons.prems(1) known ref by (auto simp: Let_def kref_def)
    from Cons.IH [OF this Cons.prems(2)] obtain more where
      "lsMsgs ls2 = lsMsgs ls" "lsEvidence ls2 = lsEvidence ls @ kref # more" "\<forall>r\<in>set more. enTools e (evTool r) \<noteq> None" by auto
    then show ?thesis using tool known by (intro conjI exI [of _ "kref # more"]) auto
  qed (use Cons in \<open>auto split: sum.splits\<close>)
qed simp

lemma recorded_next:
  assumes "ev = gathered @ r # rest" "rwToolPos w' (evTool r) = length (filter (\<lambda>x. evTool x = evTool r) gathered)"
  shows "\<exists>run. buildTools (zero_set\<lparr>psEvidence := ev\<rparr>) (evTool r) = Some run \<and>
    run args w' = (Inr r, w'\<lparr>rwToolPos := (rwToolPos w')(evTool r := Suc (rwToolPos w' (evTool r)))\<rparr>)"
proof -
  let ?refs = "filter (\<lambda>x. evTool x = evTool r) ev"
  have "?refs \<noteq> []" "length (filter (\<lambda>x. evTool x = evTool r) gathered) < length ?refs"
    "?refs ! length (filter (\<lambda>x. evTool x = evTool r) gathered) = r" using assms(1) by auto
  with assms(2) show ?thesis
    by (intro exI [of _ "recorded_run (evTool r) ?refs"]) (auto simp: buildTools_def recorded_run_def split: list.splits)
qed

lemma dispatch_replayed:
  "dispatch_calls e calls res ls w = (Inr (d, res2, ls2), w2) \<Longrightarrow> signed_tools e \<Longrightarrow> replays e' e ev cs \<Longrightarrow>
   prefix (lsEvidence ls2) ev \<Longrightarrow> in_step ls ls' w' \<Longrightarrow>
   \<exists>ls2' w2'. dispatch_calls e' calls res ls' w' = (Inr (d, res2, ls2'), w2') \<and> in_step ls2 ls2' w2'"
proof (induction calls arbitrary: res ls w ls' w')
  case (Cons call calls)
  note rep = Cons.prems(3)
  consider (propose) "callName call = ''propose''" | (insufficient) "callName call = ''insufficient''" "callName call \<noteq> ''propose''"
    | (unknown) "callName call \<noteq> ''propose''" "callName call \<noteq> ''insufficient''" "enTools e (callName call) = None"
    | (known) run where "callName call \<noteq> ''propose''" "callName call \<noteq> ''insufficient''" "enTools e (callName call) = Some run"
    by blast
  then show ?case
  proof cases
    case propose
    with Cons.prems show ?thesis by (auto simp: replays_def in_step_def split: sum.splits)
  next
    case insufficient
    with Cons.prems show ?thesis by (auto simp: replays_def in_step_def set_reason_def split: sum.splits)
  next
    case unknown
    have "\<forall>r\<in>set ev. evTool r \<noteq> callName call" using rep unknown by (auto simp: replays_def)
    then have none: "enTools e' (callName call) = None" using rep by (simp add: replays_def buildTools_def)
    from unknown none Cons.prems show ?thesis by (simp add: Cons.IH)
  next
    case known
    with Cons.prems obtain ref w1 where ref: "run (callArgs call) w = (Inr ref, w1)" by (auto split: prod.splits sum.splits)
    define kref where "kref = (if evKey ref = [] then ref\<lparr>evKey := evidenceKey (callName call) (length (lsEvidence ls))\<rparr> else ref)"
    have tool: "evTool kref = callName call" using Cons.prems(2) known ref by (fastforce simp: signed_tools_def kref_def)
    have key: "evKey kref \<noteq> []" by (simp add: kref_def evidenceKey_def)
    define out where "out = \<lparr>trCallID = callID call, trDigest = evSummary kref @ '' [cite: '' @ evKey kref @ '']'',
      trName = callName call, trIsError = False\<rparr>"
    have live: "dispatch_calls e calls (res @ [out]) (ls\<lparr>lsEvidence := lsEvidence ls @ [kref]\<rparr>) w1 = (Inr (d, res2, ls2), w2)"
      using Cons.prems(1) known ref key by (simp add: Let_def kref_def [symmetric] out_def)
    from dispatch_gathers [OF live Cons.prems(2)] obtain more where "lsEvidence ls2 = (lsEvidence ls @ [kref]) @ more" by auto
    with Cons.prems(4) obtain rest where ev: "ev = lsEvidence ls @ kref # rest" by (auto simp: prefix_def)
    define w1' where "w1' = w'\<lparr>rwToolPos := (rwToolPos w')(evTool kref := Suc (rwToolPos w' (evTool kref)))\<rparr>"
    have "rwToolPos w' (evTool kref) = length (filter (\<lambda>x. evTool x = evTool kref) (lsEvidence ls))"
      using Cons.prems(5) by (simp add: in_step_def)
    from recorded_next [OF ev this, of "callArgs call"] obtain run' where
      run': "enTools e' (callName call) = Some run'" "run' (callArgs call) w' = (Inr kref, w1')"
      using rep tool by (auto simp: replays_def w1'_def)
    have same: "lsEvidence ls' = lsEvidence ls" using Cons.prems(5) by (simp add: in_step_def)
    have "in_step (ls\<lparr>lsEvidence := lsEvidence ls @ [kref]\<rparr>) (ls'\<lparr>lsEvidence := lsEvidence ls' @ [kref]\<rparr>) w1'"
      using Cons.prems(5) by (auto simp: in_step_def w1'_def)
    from Cons.IH [OF live Cons.prems(2,3,4) this] known run' key show ?thesis
      by (simp add: Let_def out_def)
  qed
qed (auto simp: in_step_def)

subsection \<open>The loop replayed\<close>

definition with_results :: "tool_result list \<Rightarrow> loop_state \<Rightarrow> loop_state" where
  "with_results rs ls = (if rs \<noteq> [] then ls\<lparr>lsMsgs := lsMsgs ls @ [\<lparr>msgRole = ''tool'', msgContent = [], msgToolCalls = [], msgToolResults = rs\<rparr>]\<rparr> else ls)"

definition with_turn :: "message \<Rightarrow> loop_state \<Rightarrow> loop_state" where
  "with_turn m ls = ls\<lparr>lsMsgs := lsMsgs ls @ [m]\<rparr>"

definition ended_turn :: "loop_state \<Rightarrow> loop_state" where
  "ended_turn ls = ls\<lparr>lsSet := set_reason ''model ended turn without a tool call'' (lsSet ls), lsDeclined := True\<rparr>"

lemma reason_loop_turn:
  assumes "enComplete e (lsMsgs ls) w = (Inr cm, w1)" "calls = withCallIDs (cmpToolCalls cm) step"
    "m = (cmpMessage cm)\<lparr>msgToolCalls := calls\<rparr>"
    "enCheckpoint e \<lparr>tnRunID = runID, tnStep = step, tnMsgs = lsMsgs ls @ [m]\<rparr> w1 = (None, w2)"
  shows "reason_loop e runID (Suc n) step ls w =
    (if calls = [] then (Inr (ended_turn (with_turn m ls)), w2)
     else case dispatch_calls e calls [] (with_turn m ls) w2 of
        (Inl err, w3) \<Rightarrow> (Inl err, w3)
      | (Inr (d, results, ls2), w3) \<Rightarrow>
          if d then (Inr (with_results results ls2), w3) else reason_loop e runID n (Suc step) (with_results results ls2) w3)"
  using assms by (simp add: Let_def ended_turn_def with_turn_def with_results_def split: sum.splits prod.splits)

lemma reason_loop_SucE:
  assumes "reason_loop e runID (Suc n) step ls w = (Inr lsf, wn)"
  obtains cm w1 w2 calls m where "enComplete e (lsMsgs ls) w = (Inr cm, w1)" "calls = withCallIDs (cmpToolCalls cm) step"
    "m = (cmpMessage cm)\<lparr>msgToolCalls := calls\<rparr>"
    "enCheckpoint e \<lparr>tnRunID = runID, tnStep = step, tnMsgs = lsMsgs ls @ [m]\<rparr> w1 = (None, w2)"
    "calls = [] \<and> lsf = ended_turn (with_turn m ls) \<or>
     calls \<noteq> [] \<and> (\<exists>d results ls2 w3. dispatch_calls e calls [] (with_turn m ls) w2 = (Inr (d, results, ls2), w3) \<and>
       (d \<and> lsf = with_results results ls2 \<or> \<not> d \<and> reason_loop e runID n (Suc step) (with_results results ls2) w3 = (Inr lsf, wn)))"
proof -
  from assms obtain cm w1 where 1: "enComplete e (lsMsgs ls) w = (Inr cm, w1)" by (auto split: prod.splits sum.splits)
  define calls where "calls = withCallIDs (cmpToolCalls cm) step"
  define m where "m = (cmpMessage cm)\<lparr>msgToolCalls := calls\<rparr>"
  from assms 1 obtain w2 where 2: "enCheckpoint e \<lparr>tnRunID = runID, tnStep = step, tnMsgs = lsMsgs ls @ [m]\<rparr> w1 = (None, w2)"
    by (auto simp: Let_def calls_def m_def split: prod.splits option.splits)
  from assms [unfolded reason_loop_turn [OF 1 calls_def m_def 2]] show thesis
    by (intro that [OF 1 calls_def m_def 2]) (auto split: if_splits sum.splits prod.splits)
qed

lemma with_results_sel [simp]:
  "lsEvidence (with_results rs ls) = lsEvidence ls" "lsSet (with_results rs ls) = lsSet ls"
  "lsProposed (with_results rs ls) = lsProposed ls" "lsDeclined (with_results rs ls) = lsDeclined ls"
  "completionsFrom (lsMsgs (with_results rs ls)) = completionsFrom (lsMsgs ls)"
  by (simp_all add: with_results_def completionsFrom_def)

lemma loop_gathers:
  "reason_loop e runID n step ls w = (Inr lsf, wn) \<Longrightarrow> signed_tools e \<Longrightarrow>
   prefix (completionsFrom (lsMsgs ls)) (completionsFrom (lsMsgs lsf)) \<and>
   (\<exists>more. lsEvidence lsf = lsEvidence ls @ more \<and> (\<forall>r\<in>set more. enTools e (evTool r) \<noteq> None))"
proof (induction n arbitrary: step ls w)
  case (Suc n)
  show ?case
  proof (rule reason_loop_SucE [OF Suc.prems(1)])
    fix cm w1 w2 calls m
    assume cases: "calls = [] \<and> lsf = ended_turn (with_turn m ls) \<or>
      calls \<noteq> [] \<and> (\<exists>d results ls2 w3. dispatch_calls e calls [] (with_turn m ls) w2 = (Inr (d, results, ls2), w3) \<and>
       (d \<and> lsf = with_results results ls2 \<or> \<not> d \<and> reason_loop e runID n (Suc step) (with_results results ls2) w3 = (Inr lsf, wn)))"
    have turn: "prefix (completionsFrom (lsMsgs ls)) (completionsFrom (lsMsgs (with_turn m ls)))"
      by (simp add: with_turn_def completionsFrom_append)
    from cases show ?thesis
    proof (elim disjE conjE exE)
      assume "lsf = ended_turn (with_turn m ls)"
      then show ?thesis using turn by (simp add: ended_turn_def with_turn_def)
    next
      fix d results ls2 w3
      assume disp: "dispatch_calls e calls [] (with_turn m ls) w2 = (Inr (d, results, ls2), w3)" and "lsf = with_results results ls2"
      with dispatch_gathers [OF disp Suc.prems(2)] turn show ?thesis by (auto simp: with_turn_def)
    next
      fix d results ls2 w3
      assume disp: "dispatch_calls e calls [] (with_turn m ls) w2 = (Inr (d, results, ls2), w3)"
        and loop: "reason_loop e runID n (Suc step) (with_results results ls2) w3 = (Inr lsf, wn)"
      from dispatch_gathers [OF disp Suc.prems(2)] obtain a where
        "lsMsgs ls2 = lsMsgs (with_turn m ls)" "lsEvidence ls2 = lsEvidence ls @ a" "\<forall>r\<in>set a. enTools e (evTool r) \<noteq> None"
        by (auto simp: with_turn_def)
      moreover from Suc.IH [OF loop Suc.prems(2)] obtain b where
        "prefix (completionsFrom (lsMsgs ls2)) (completionsFrom (lsMsgs lsf))" "lsEvidence lsf = lsEvidence ls2 @ b"
        "\<forall>r\<in>set b. enTools e (evTool r) \<noteq> None" by auto
      ultimately show ?thesis using prefix_order.trans [OF turn] by (intro conjI exI [of _ "a @ b"]) auto
    qed
  qed
qed simp

lemma withCallIDs_named: "withCallIDs (withCallIDs cs step) step' = withCallIDs cs step"
proof -
  have "withCallIDs_from j (withCallIDs_from i cs step) step' = withCallIDs_from i cs step" for i j
    by (induction cs arbitrary: i j) auto
  then show ?thesis by (simp add: withCallIDs_def)
qed

lemma loop_replayed:
  "reason_loop e runID n step ls w = (Inr lsf, wn) \<Longrightarrow> signed_tools e \<Longrightarrow> speaks_as_assistant e \<Longrightarrow>
   replays e' e (lsEvidence lsf) (completionsFrom (lsMsgs lsf)) \<Longrightarrow> in_step ls ls' w' \<Longrightarrow>
   \<exists>lsf' wn'. reason_loop e' runID' n step ls' w' = (Inr lsf', wn') \<and> in_step lsf lsf' wn'"
proof (induction n arbitrary: step ls w ls' w')
  case (Suc n)
  show ?case
  proof (rule reason_loop_SucE [OF Suc.prems(1)])
    fix cm w1 w2 calls m
    assume cm: "enComplete e (lsMsgs ls) w = (Inr cm, w1)" and calls: "calls = withCallIDs (cmpToolCalls cm) step"
      and m: "m = (cmpMessage cm)\<lparr>msgToolCalls := calls\<rparr>"
      and cases: "calls = [] \<and> lsf = ended_turn (with_turn m ls) \<or>
      calls \<noteq> [] \<and> (\<exists>d results ls2 w3. dispatch_calls e calls [] (with_turn m ls) w2 = (Inr (d, results, ls2), w3) \<and>
       (d \<and> lsf = with_results results ls2 \<or> \<not> d \<and> reason_loop e runID n (Suc step) (with_results results ls2) w3 = (Inr lsf, wn)))"
    define c where "c = \<lparr>cmpMessage = m, cmpToolCalls = calls\<rparr>"
    have turn: "completionsFrom (lsMsgs (with_turn m ls)) = completionsFrom (lsMsgs ls) @ [c]"
      using Suc.prems(3) cm m by (auto simp: with_turn_def completionsFrom_def speaks_as_assistant_def c_def)
    have whole: "prefix (completionsFrom (lsMsgs (with_turn m ls))) (completionsFrom (lsMsgs lsf))"
      using cases dispatch_gathers [OF _ Suc.prems(2)] loop_gathers [OF _ Suc.prems(2)]
      by (fastforce simp: ended_turn_def)
    have pos: "rwPos w' = length (completionsFrom (lsMsgs ls))" using Suc.prems(5) by (simp add: in_step_def)
    define w1' where "w1' = w'\<lparr>rwPos := rwPos w' + 1\<rparr>"
    have cm': "enComplete e' (lsMsgs ls') w' = (Inr c, w1')"
      using whole Suc.prems(4) pos unfolding turn by (auto simp: replays_def replay_complete_def w1'_def prefix_def)
    have calls': "calls = withCallIDs (cmpToolCalls c) step" by (simp add: c_def calls withCallIDs_named)
    have m': "m = (cmpMessage c)\<lparr>msgToolCalls := calls\<rparr>" by (simp add: c_def m)
    obtain w2' where cp: "enCheckpoint e' \<lparr>tnRunID = runID', tnStep = step, tnMsgs = lsMsgs ls' @ [m]\<rparr> w1' = (None, w2')"
      and w2': "rwPos w2' = rwPos w' + 1" "rwToolPos w2' = rwToolPos w'"
      using Suc.prems(4) by (auto simp: replays_def w1'_def)
    have step: "in_step (with_turn m ls) (with_turn m ls') w2'"
      using Suc.prems(5) w2' turn by (auto simp: in_step_def with_turn_def)
    note run = reason_loop_turn [OF cm' calls' m' cp]
    from cases show ?thesis
    proof (elim disjE conjE exE)
      assume "calls = []" "lsf = ended_turn (with_turn m ls)"
      then show ?thesis using step unfolding run by (auto simp: in_step_def ended_turn_def set_reason_def with_turn_def)
    next
      fix d results ls2 w3
      assume disp: "dispatch_calls e calls [] (with_turn m ls) w2 = (Inr (d, results, ls2), w3)" and "calls \<noteq> []" d
        and lsf: "lsf = with_results results ls2"
      have "prefix (lsEvidence ls2) (lsEvidence lsf)" by (simp add: lsf)
      from dispatch_replayed [OF disp Suc.prems(2,4) this step] \<open>calls \<noteq> []\<close> \<open>d\<close> lsf show ?thesis
        unfolding run by (auto simp: in_step_def)
    next
      fix d results ls2 w3
      assume disp: "dispatch_calls e calls [] (with_turn m ls) w2 = (Inr (d, results, ls2), w3)" and "calls \<noteq> []" "\<not> d"
        and loop: "reason_loop e runID n (Suc step) (with_results results ls2) w3 = (Inr lsf, wn)"
      have "prefix (lsEvidence ls2) (lsEvidence lsf)" using loop_gathers [OF loop Suc.prems(2)] by auto
      from dispatch_replayed [OF disp Suc.prems(2,4) this step] obtain ls2' w3' where
        disp': "dispatch_calls e' calls [] (with_turn m ls') w2' = (Inr (d, results, ls2'), w3')" "in_step ls2 ls2' w3'" by blast
      then have "in_step (with_results results ls2) (with_results results ls2') w3'" by (simp add: in_step_def)
      from Suc.IH [OF loop Suc.prems(2,3,4) this] disp' \<open>calls \<noteq> []\<close> \<open>\<not> d\<close> show ?thesis unfolding run by simp
    qed
  qed
qed auto

subsection \<open>Grading replayed\<close>

definition unscored :: "candidate \<Rightarrow> candidate" where
  "unscored c = c\<lparr>cndConfidence := 0, cndComputedConfidence := 0, cndConfidenceCeilingBound := False, cndTerms := zero_terms\<rparr>"

definition same_view :: "sao \<Rightarrow> sao \<Rightarrow> bool" where
  "same_view s s' \<longleftrightarrow> ssConfidence (saoSignal s') = ssConfidence (saoSignal s) \<and> ssOriginService (saoSignal s') = ssOriginService (saoSignal s) \<and>
     saoTopology s' = saoTopology s \<and> saoChange s' = saoChange s"

lemma coherent_same_view: "same_view s s' \<Longrightarrow> coherentSubject r (Some s') = coherentSubject r (Some s)"
  by (simp add: same_view_def coherentSubject_def inTopology_def)

lemma unscored_sel [simp]: "cndID (unscored c) = cndID c" "cndCitations (unscored c) = cndCitations c"
  by (simp_all add: unscored_def)

lemma unscored_score: "unscored (score_candidate ps s prior fp w c) = unscored c"
  by (simp add: unscored_def score_candidate_def Let_def)

lemma unscored_ranks: "map unscored (set_ranks k cs) = set_ranks k (map unscored cs)"
  by (induction cs arbitrary: k) (simp_all add: unscored_def)

definition graded_base :: "'w engine \<Rightarrow> sao \<Rightarrow> proposal_set \<Rightarrow> proposal_set" where
  "graded_base e s ps = ps\<lparr>psProposals := enrichFromCatalog (enCatalog e) (psProposals ps),
     psCausalScores := causal_scores (psSignalRef ps) (saoChange s) (saoTopology s) (enWeights e) (enScorerPrior e)\<rparr>"

lemma grade_unsorted:
  assumes "brVelocity (impBlastRadius (detImpact sig)) \<noteq> ''accelerating''"
  shows "psProposals (grade e sig s ps) =
      set_ranks 0 (map (score_candidate (graded_base e s ps) s (enPrior e) (detFingerprint sig) (enWeights e))
        (enrichFromCatalog (enCatalog e) (psProposals ps)))"
    "psCausalScores (grade e sig s ps) = psCausalScores (graded_base e s ps)"
    "psHypotheses (grade e sig s ps) = psHypotheses ps"
  using assms by (simp_all add: grade_def Let_def rank_def scoreConfidences_def graded_base_def)

lemma find_unscored: "List.find (\<lambda>c. cndID c = k) (map unscored cs) = map_option unscored (List.find (\<lambda>c. cndID c = k) cs)"
  by (induction cs) simp_all

lemma gate_unscored:
  assumes "map unscored (psProposals ps') = map unscored (psProposals ps)" "psRecommended ps' = psRecommended ps"
    "psEvidence ps' = psEvidence ps" "psSAOSnapshot ps = Some s" "psSAOSnapshot ps' = Some s'" "same_view s s'"
  shows "gate_evaluate ps' d = gate_evaluate ps d"
proof -
  let ?find = "\<lambda>p. List.find (\<lambda>c. cndID c = psRecommended ps) (psProposals p)"
  have found: "map_option unscored (?find ps') = map_option unscored (?find ps)"
    using assms(1) find_unscored by metis
  have "map_option cndCitations (?find p) = map_option cndCitations (map_option unscored (?find p))" for p
    by (cases "?find p") simp_all
  with found have cites: "map_option cndCitations (?find ps') = map_option cndCitations (?find ps)" by metis
  have "(psProposals ps' = []) = (psProposals ps = [])" using assms(1) by (metis map_is_Nil_conv)
  with cites have "recommendedEvidence ps' = recommendedEvidence ps"
    unfolding recommendedEvidence_def assms(2,3) by (cases "?find ps"; cases "?find ps'") auto
  then show ?thesis using coherent_same_view [OF assms(6)] by (simp add: gate_evaluate_def anyCoherentLive_def assms(4,5))
qed

lemma grade_replayed:
  assumes "brVelocity (impBlastRadius (detImpact sig)) \<noteq> ''accelerating''" "brVelocity (impBlastRadius (detImpact sig')) \<noteq> ''accelerating''"
    and "enCatalog e' = enCatalog e" "psProposals ps' = psProposals ps" "psEvidence ps' = psEvidence ps"
    and "psRecommended ps = []" "psRecommended ps' = []"
    and "psSAOSnapshot ps = Some s" "psSAOSnapshot ps' = Some s'" "same_view s s'"
  shows "map unscored (psProposals (grade e' sig' s' ps')) = map unscored (psProposals (grade e sig s ps))"
    "psRecommended (grade e' sig' s' ps') = psRecommended (grade e sig s ps)"
    "gate_evaluate (grade e' sig' s' ps') d = gate_evaluate (grade e sig s ps) d"
proof -
  show props: "map unscored (psProposals (grade e' sig' s' ps')) = map unscored (psProposals (grade e sig s ps))"
    using assms(3,4) by (simp add: grade_unsorted assms(1,2) unscored_ranks comp_def unscored_score)
  have first: "(case cs of [] \<Rightarrow> [] | c # _ \<Rightarrow> cndID c) = (case map unscored cs of [] \<Rightarrow> [] | c # _ \<Rightarrow> cndID c)" for cs
    by (cases cs) simp_all
  show rec: "psRecommended (grade e' sig' s' ps') = psRecommended (grade e sig s ps)"
    using grade_recommended [OF assms(6), of e sig s] grade_recommended [OF assms(7), of e' sig' s'] props first by metis
  show "gate_evaluate (grade e' sig' s' ps') d = gate_evaluate (grade e sig s ps) d"
    by (rule gate_unscored [OF props rec, of s s']) (simp_all add: assms)
qed

lemma grade_exact:
  assumes "brVelocity (impBlastRadius (detImpact sig)) \<noteq> ''accelerating''" "brVelocity (impBlastRadius (detImpact sig')) \<noteq> ''accelerating''"
    and "enCatalog e' = enCatalog e" "psProposals ps' = psProposals ps" "psEvidence ps' = psEvidence ps"
    and "psSAOSnapshot ps = Some s" "psSAOSnapshot ps' = Some s'" "same_view s s'"
    and "enWeights e' = enWeights e" "psSignalRef ps' = psSignalRef ps" "detFingerprint sig' = detFingerprint sig"
    and "prior_rate (enPrior e') (detFingerprint sig) = prior_rate (enPrior e) (detFingerprint sig)"
    and "prior_rate (enScorerPrior e') (psSignalRef ps) = prior_rate (enScorerPrior e) (psSignalRef ps)"
  shows "psProposals (grade e' sig' s' ps') = psProposals (grade e sig s ps)"
    "psCausalScores (grade e' sig' s' ps') = psCausalScores (grade e sig s ps)"
proof -
  have "scoreEvent (psSignalRef ps) ev topo w (enScorerPrior e') = scoreEvent (psSignalRef ps) ev topo w (enScorerPrior e)" for ev topo w
    by (simp add: scoreEvent_def assms(13))
  then have causal: "psCausalScores (graded_base e' s' ps') = psCausalScores (graded_base e s ps)"
    using assms(8) by (simp add: graded_base_def causal_scores_def same_view_def assms(9,10))
  then show "psCausalScores (grade e' sig' s' ps') = psCausalScores (grade e sig s ps)"
    by (simp add: grade_unsorted assms(1,2))
  have "confidence_inputs_for (graded_base e' s' ps') s' (enPrior e') (detFingerprint sig) c =
      confidence_inputs_for (graded_base e s ps) s (enPrior e) (detFingerprint sig) c" for c
    using causal assms(8) coherent_same_view [OF assms(8)]
    by (simp add: confidence_inputs_for_def assms(12) coherentLiveCitations_def graded_base_def assms(5-7) same_view_def)
  then have "score_candidate (graded_base e' s' ps') s' (enPrior e') (detFingerprint sig) (enWeights e) =
      score_candidate (graded_base e s ps) s (enPrior e) (detFingerprint sig) (enWeights e)"
    by (simp add: score_candidate_def Let_def fun_eq_iff)
  then show "psProposals (grade e' sig' s' ps') = psProposals (grade e sig s ps)"
    by (simp add: grade_unsorted assms(1-4) assms(9) assms(11))
qed

subsection \<open>A run replayed\<close>

lemma conclude_result: "conclude e rd ps st = (Inr x, st') \<Longrightarrow> x = Some ps"
  by (auto simp: conclude_def split: prod.splits option.splits)

lemma publish_result: "publish e ps st = (Inr x, st') \<Longrightarrow> x = Some ps"
  by (auto simp: publish_def split: if_splits option.splits prod.splits)

lemma finish_passed:
  assumes "finish_run e rd sig s ls st = (Inr (Some ps), st')" "set_gate_passed ps" "psGate (lsSet ls) = None"
  shows "lsProposed ls \<and> enforceCatalog (enCatalog e) ((lsSet ls)\<lparr>psEvidence := lsEvidence ls\<rparr>) s = None \<and>
    enforceCitations ((lsSet ls)\<lparr>psEvidence := lsEvidence ls\<rparr>) = None \<and>
    grPassed (gate_evaluate (grade e sig s ((lsSet ls)\<lparr>psEvidence := lsEvidence ls\<rparr>)) []) \<and>
    ps = apply_gate (grade e sig s ((lsSet ls)\<lparr>psEvidence := lsEvidence ls\<rparr>)) []"
proof -
  let ?ps = "(lsSet ls)\<lparr>psEvidence := lsEvidence ls\<rparr>"
  have declined: False if "finish_run e rd sig s ls st = conclude e rd q st" "\<not> set_gate_passed q" for q
    using that assms(1,2) conclude_result [of e rd q st "Some ps" st'] by auto
  have gateless: "\<not> set_gate_passed (refuse r ?ps)" "\<not> set_gate_passed (set_phase ph ?ps)" "\<not> set_gate_passed ?ps" for r ph
    using assms(3) by (simp_all add: refuse_def set_phase_def set_reason_def set_gate_passed_def)
  have spent: "\<not> set_gate_passed (set_phase PhaseBudgetExhausted (?ps\<lparr>psGate := Some \<lparr>grBudgetOK = False, grDedupeOK = False,
      grEvidenceOK = False, grPassed = False, grReason = ''budget''\<rparr>\<rparr>))" by (simp add: set_phase_def set_gate_passed_def)
  have proposed: "lsProposed ls"
  proof (rule ccontr)
    assume "\<not> lsProposed ls"
    show False
    proof (cases "lsDeclined ls")
      case True
      let ?q = "if map_option stPhase (psStatus ?ps) = Some (PhaseOther []) then set_phase PhaseNoAction ?ps else ?ps"
      show False by (rule declined [of ?q]) (use True \<open>\<not> lsProposed ls\<close> gateless in \<open>simp_all add: finish_run_def Let_def\<close>)
    next
      case False
      show False by (rule declined [OF _ spent]) (use False \<open>\<not> lsProposed ls\<close> in \<open>simp add: finish_run_def Let_def\<close>)
    qed
  qed
  have catalog: "enforceCatalog (enCatalog e) ?ps s = None"
  proof (cases "enforceCatalog (enCatalog e) ?ps s")
    case (Some r)
    have False by (rule declined [OF _ gateless(1) [of r]]) (use Some proposed in \<open>simp add: finish_run_def Let_def\<close>)
    then show ?thesis ..
  qed
  have cites: "enforceCitations ?ps = None"
  proof (cases "enforceCitations ?ps")
    case (Some r)
    have False by (rule declined [OF _ gateless(1) [of r]]) (use Some proposed catalog in \<open>simp add: finish_run_def Let_def\<close>)
    then show ?thesis ..
  qed
  obtain dupes st1 where "publish e (apply_gate (grade e sig s ?ps) dupes) st1 = (Inr (Some ps), st')"
    using assms(1) proposed catalog cites by (auto simp: finish_run_def Let_def split: sum.splits prod.splits)
  then have ps: "ps = apply_gate (grade e sig s ?ps) dupes" using publish_result by fastforce
  then have "grPassed (gate_evaluate (grade e sig s ?ps) dupes)" using assms(2) by (simp add: set_gate_passed_def)
  moreover from this have "dupes = []" by (simp add: gate_passed_iff)
  ultimately show ?thesis using proposed catalog cites ps by simp
qed

lemma plog_open_new: "plog_open False fp since newProposalLog = Inr []"
  by (simp add: plog_open_def newProposalLog_def)

lemma finish_alone:
  assumes "lsProposed ls" "enforceCatalog (enCatalog e) ((lsSet ls)\<lparr>psEvidence := lsEvidence ls\<rparr>) s = None"
    "enforceCitations ((lsSet ls)\<lparr>psEvidence := lsEvidence ls\<rparr>) = None" "enJournal e = None" "enPub e = None"
    "esLedger st = newProposalLog" "\<not> rdCancelledGate rd" "\<not> rdCancelledRecord rd"
  shows "fst (finish_run e rd sig s ls st) = Inr (Some (apply_gate (grade e sig s ((lsSet ls)\<lparr>psEvidence := lsEvidence ls\<rparr>)) []))"
  using assms by (simp add: finish_run_def Let_def plog_open_new conclude_def journal_def publish_def plog_record_def)

lemma unguarded_catalog: "load_catalog unmarshal raw Map.empty = Inr cat \<Longrightarrow> \<forall>c\<in>set cat. acPreconditions c = []"
  by (auto simp: load_catalog_def bind_contracts_Inr split: sum.splits)

lemma replay_catalog_unguarded: "replay_catalog cfg = Inr cat \<Longrightarrow> \<forall>c\<in>set cat. acPreconditions c = []"
  by (auto simp: replay_catalog_def dest: unguarded_catalog split: sum.splits)

lemma enforceCatalog_unguarded:
  assumes "\<forall>c\<in>set cat. acPreconditions c = []" "psProposals ps' = psProposals ps" "psFailureClass ps' = psFailureClass ps"
    "psServiceTier ps' = psServiceTier ps"
  shows "enforceCatalog cat ps' s' = enforceCatalog cat ps s"
proof -
  have "applicable cat cls tier s' = applicable cat cls tier s" for cls tier
    unfolding applicable_def using assms(1) by (intro filter_cong) (auto simp: preconditionsMet_def)
  then show ?thesis by (simp add: enforceCatalog_def assms)
qed

definition replay_sao :: "readings \<Rightarrow> proposal_set \<Rightarrow> sao" where
  "replay_sao rd ps = \<lparr>saoVersion = 1, saoAssembledAt = rdAssembledAt rd,
     saoSignal = \<lparr>ssConfidence = divConfidence (detDivergence (detectionFrom ps)), ssMetric = [],
       ssSeverity = \<lparr>sevDegradationPct = 0, sevTrajectory = []\<rparr>,
       ssBlastRadius = \<lparr>brAffectedPct = 0, brVelocity = [], brDownstreamConsumers = 0\<rparr>,
       ssOriginService = detOriginService (detectionFrom ps)\<rparr>,
     saoTopology = replayTopology ps, saoChange = replayChange ps\<rparr>"

lemma replay_assembles:
  "assemble (replay_engine cfg cat tr w) rd (detectionFrom (tcSet tr)) x = (Inr (replay_sao rd (tcSet tr)), x)"
  by (cases "replayTopology (tcSet tr)")
    (auto simp: assemble_def replay_engine_def replay_sao_def topologyFromSignal_def detectionFrom_def Let_def)

lemma replay_same_view: "psSAOSnapshot ps = Some s \<Longrightarrow> same_view s (replay_sao rd ps)"
  by (simp add: same_view_def replay_sao_def detectionFrom_def replayTopology_def replayChange_def)

lemma replay_propose_loop:
  assumes "replay_catalog cfg = Inr cat" "rcFailureClasses cfg = None"
    "e' = replay_engine cfg cat tr w" "rd' = replay_readings rd" "sig' = detectionFrom (tcSet tr)" "s' = replay_sao rd' (tcSet tr)"
    "reason_loop e' (run_id rd' sig') (nat (enMaxSteps e')) 0 (initial_loop e' rd' sig' s') (esWorld fresh_replay) = (Inr ls', x')"
    "fst (finish_run e' rd' sig' s' ls' (fresh_replay\<lparr>esWorld := x'\<rparr>)) = Inr (Some ps')"
  shows "replay_propose cfg rd tr w = Inr (Some ps')"
proof -
  have "assemble e' rd' sig' (esWorld fresh_replay) = (Inr s', esWorld fresh_replay)" using assms(3-6) replay_assembles by simp
  moreover have "fresh_replay\<lparr>esWorld := x', esLedger := rdMeanwhile rd' (esLedger fresh_replay)\<rparr> = fresh_replay\<lparr>esWorld := x'\<rparr>"
    by (simp add: assms(4) replay_readings_def fresh_replay_def)
  ultimately have "fst (propose_run e' rd' sig' fresh_replay) = Inr (Some ps')" using assms(7,8) by (simp add: propose_run_def)
  moreover have "plog_open (rdCancelledOpen rd') (detFingerprint sig') since (esLedger fresh_replay) = Inr []" for since
    by (simp add: assms(4) replay_readings_def fresh_replay_def plog_open_new)
  ultimately have "fst (propose e' rd' sig' fresh_replay) = Inr (Some ps')" by (simp add: propose_def Let_def case_prod_beta)
  then show ?thesis using assms(1,2) by (simp add: replay_propose_def assms(3-5))
qed

lemma replayed_run:
  assumes run: "reason_loop e (run_id rd sig) (nat (enMaxSteps e)) 0 (initial_loop e rd sig s) w = (Inr ls, w')"
      "finish_run e rd sig s ls st = (Inr (Some ps), st')" "set_gate_passed ps"
    and engine: "signed_tools e" "speaks_as_assistant e" "enMaxSteps e = default_max_steps"
    and steady: "brVelocity (impBlastRadius (detImpact sig)) \<noteq> ''accelerating''"
    and cfg: "replay_catalog cfg = Inr (enCatalog e)" "rcFailureClasses cfg = None"
      "rcDecodePropose cfg = enDecodePropose e" "rcDecodeInsufficient cfg = enDecodeInsufficient e"
    and recording: "tcSet tr = ps" "tcCompletions tr = completionsFrom (lsMsgs ls)"
  shows "\<exists>ps'. replay_propose cfg rd' tr weights = Inr (Some ps') \<and>
    psFailureClass ps' = psFailureClass ps \<and> psHypotheses ps' = psHypotheses ps \<and> psEvidence ps' = psEvidence ps \<and>
    psRecommended ps' = psRecommended ps \<and> psGate ps' = psGate ps \<and>
    map unscored (psProposals ps') = map unscored (psProposals ps) \<and>
    (weights = enWeights e \<and> prior_rate (enPrior e) (detFingerprint sig) = None \<and> prior_rate (enScorerPrior e) (detFingerprint sig) = None \<longrightarrow>
       psProposals ps' = psProposals ps \<and> psCausalScores ps' = psCausalScores ps)"
proof -
  define e' where "e' = replay_engine cfg (enCatalog e) tr weights"
  define rdr where "rdr = replay_readings rd'"
  define sig' where "sig' = detectionFrom (tcSet tr)"
  define s' where "s' = replay_sao rdr (tcSet tr)"
  define ps0 where "ps0 = (lsSet ls)\<lparr>psEvidence := lsEvidence ls\<rparr>"
  note ok = reason_loop_ungraded [OF run(1), unfolded ungraded_def]
  have passed: "lsProposed ls" "enforceCatalog (enCatalog e) ps0 s = None" "enforceCitations ps0 = None"
    "ps = apply_gate (grade e sig s ps0) []" "grPassed (gate_evaluate (grade e sig s ps0) [])"
    using finish_passed [OF run(2,3)] ok by (simp_all add: ps0_def)
  have sel: "psEvidence ps = lsEvidence ls" "psSAOSnapshot ps = Some s" "psSignalRef ps = detFingerprint sig"
    "psServiceTier ps = detServiceTier sig" using ok by (simp_all add: passed(4) ps0_def)
  have known: "\<forall>r\<in>set (lsEvidence ls). enTools e (evTool r) \<noteq> None"
    using loop_gathers [OF run(1) engine(1)] by (auto simp: initial_loop_def)
  have replays: "replays e' e (lsEvidence ls) (completionsFrom (lsMsgs ls))"
    using known by (simp add: replays_def e'_def replay_engine_def cfg recording buildTools_def sel fun_eq_iff)
  have start: "in_step (initial_loop e rd sig s) (initial_loop e' rdr sig' s') (esWorld fresh_replay)"
    by (simp add: in_step_def initial_loop_def new_set_def fresh_replay_def completionsFrom_def)
  have steps: "enMaxSteps e' = enMaxSteps e" by (simp add: e'_def replay_engine_def engine(3))
  obtain ls' x' where loop': "reason_loop e' (run_id rdr sig') (nat (enMaxSteps e')) 0 (initial_loop e' rdr sig' s') (esWorld fresh_replay) = (Inr ls', x')"
    and same: "in_step ls ls' x'"
    using loop_replayed [OF run(1) engine(1,2) replays start] unfolding steps by blast
  define ps0' where "ps0' = (lsSet ls')\<lparr>psEvidence := lsEvidence ls'\<rparr>"
  note ok' = reason_loop_ungraded [OF loop', unfolded ungraded_def]
  have sel': "psProposals ps0' = psProposals ps0" "psEvidence ps0' = psEvidence ps0" "psFailureClass ps0' = psFailureClass ps0"
    "psHypotheses ps0' = psHypotheses ps0" "psServiceTier ps0' = psServiceTier ps0" "psSAOSnapshot ps0 = Some s" "psSAOSnapshot ps0' = Some s'"
    "psRecommended ps0 = []" "psRecommended ps0' = []" "psSignalRef ps0 = detFingerprint sig" "psSignalRef ps0' = psSignalRef ps0"
    "detFingerprint sig' = detFingerprint sig"
    using same ok ok' by (simp_all add: in_step_def ps0_def ps0'_def sig'_def detectionFrom_def recording sel)
  have eng': "enCatalog e' = enCatalog e" "enJournal e' = None" "enPub e' = None" "enWeights e' = weights"
    "prior_rate (enPrior e') fp = None" "prior_rate (enScorerPrior e') fp = None" for fp
    by (simp_all add: e'_def replay_engine_def prior_rate_def alignment_def newCaseBase_def minCorroboration_def)
  have steady': "brVelocity (impBlastRadius (detImpact sig')) \<noteq> ''accelerating''" by (simp add: sig'_def detectionFrom_def)
  have view: "same_view s s'" using sel(2) by (simp add: s'_def recording replay_same_view)
  have "enforceCatalog (enCatalog e') ps0' s' = None"
    using enforceCatalog_unguarded [OF replay_catalog_unguarded [OF cfg(1)] sel'(1,3,5), of s' s] passed(2) eng'(1) by simp
  moreover have "enforceCitations ps0' = None" using passed(3) by (simp add: enforceCitations_def sel')
  moreover have "lsProposed ls'" using same passed(1) by (simp add: in_step_def)
  ultimately have fin: "fst (finish_run e' rdr sig' s' ls' (fresh_replay\<lparr>esWorld := x'\<rparr>)) = Inr (Some (apply_gate (grade e' sig' s' ps0') []))"
    unfolding ps0'_def by (intro finish_alone) (simp_all add: eng' fresh_replay_def rdr_def replay_readings_def)
  note result = replay_propose_loop [OF cfg(1,2) e'_def rdr_def sig'_def s'_def loop' fin]
  note graded = grade_replayed [OF steady steady' eng'(1) sel'(1,2,8,9,6,7) view]
  note exact = grade_exact [OF steady steady' eng'(1) sel'(1,2,6,7) view _ sel'(11,12)]
  have hyps: "psHypotheses (apply_gate p d) = psHypotheses p" "psCausalScores (apply_gate p d) = psCausalScores p" for p d
    by (simp_all add: apply_gate_def set_phase_def set_reason_def Let_def)
  show ?thesis
    using result graded exact sel' eng' hyps
    by (intro exI [of _ "apply_gate (grade e' sig' s' ps0') []"]) (auto simp: passed(4) grade_unsorted(3) [OF steady] grade_unsorted(3) [OF steady'])
qed


subsection \<open>Weights apply after the model\<close>

text \<open>Two replays of one recording, at other times and under other weights, keep pace.\<close>

definition twin :: "loop_state \<Rightarrow> replay_world \<Rightarrow> loop_state \<Rightarrow> replay_world \<Rightarrow> bool" where
  "twin ls x ls' x' \<longleftrightarrow>
     lsEvidence ls' = lsEvidence ls \<and> lsProposed ls' = lsProposed ls \<and> lsDeclined ls' = lsDeclined ls \<and>
     psFailureClass (lsSet ls') = psFailureClass (lsSet ls) \<and> psHypotheses (lsSet ls') = psHypotheses (lsSet ls) \<and>
     psProposals (lsSet ls') = psProposals (lsSet ls) \<and> psStatus (lsSet ls') = psStatus (lsSet ls) \<and>
     rwPos x' = rwPos x \<and> rwToolPos x' = rwToolPos x"

lemma replay_engine_sel [simp]:
  "enTools (replay_engine cfg cat tr w) = buildTools (tcSet tr)"
  "enComplete (replay_engine cfg cat tr w) = replay_complete (tcCompletions tr)"
  "enDecodePropose (replay_engine cfg cat tr w) = rcDecodePropose cfg"
  "enDecodeInsufficient (replay_engine cfg cat tr w) = rcDecodeInsufficient cfg"
  "enCheckpoint (replay_engine cfg cat tr w) = (\<lambda>t x. (None, x\<lparr>rwStore := snd (mem_checkpoint False t (rwStore x))\<rparr>))"
  "enCatalog (replay_engine cfg cat tr w) = cat" "enMaxSteps (replay_engine cfg cat tr w) = default_max_steps"
  "enJournal (replay_engine cfg cat tr w) = None" "enPub (replay_engine cfg cat tr w) = None"
  "enDedupeWindow (replay_engine cfg cat tr w) = hour"
  by (simp_all add: replay_engine_def)

lemma tool_twin:
  assumes "buildTools s name = Some run" "rwToolPos x' = rwToolPos x" "rwPos x' = rwPos x"
  shows "fst (run args x') = fst (run args x) \<and> rwToolPos (snd (run args x')) = rwToolPos (snd (run args x)) \<and>
    rwPos (snd (run args x')) = rwPos (snd (run args x))"
  using assms by (auto simp: buildTools_def recorded_run_def split: list.splits)

lemma dispatch_twin:
  "twin ls x ls' x' \<Longrightarrow>
   (case dispatch_calls (replay_engine cfg cat tr w) calls res ls x of
      (Inl err, _) \<Rightarrow> fst (dispatch_calls (replay_engine cfg cat tr w') calls res ls' x') = Inl err
    | (Inr (d, res2, ls2), x2) \<Rightarrow>
        \<exists>ls2' x2'. dispatch_calls (replay_engine cfg cat tr w') calls res ls' x' = (Inr (d, res2, ls2'), x2') \<and> twin ls2 x2 ls2' x2')"
proof (induction calls arbitrary: res ls x ls' x')
  case (Cons call calls)
  consider (propose) "callName call = ''propose''" | (insufficient) "callName call = ''insufficient''" "callName call \<noteq> ''propose''"
    | (unknown) "callName call \<noteq> ''propose''" "callName call \<noteq> ''insufficient''" "buildTools (tcSet tr) (callName call) = None"
    | (known) run where "callName call \<noteq> ''propose''" "callName call \<noteq> ''insufficient''" "buildTools (tcSet tr) (callName call) = Some run"
    by blast
  then show ?case
  proof cases
    case propose
    with Cons.prems show ?thesis by (cases "rcDecodePropose cfg (callArgs call)") (auto simp: twin_def)
  next
    case insufficient
    with Cons.prems show ?thesis by (cases "rcDecodeInsufficient cfg (callArgs call)") (auto simp: twin_def set_reason_def)
  next
    case unknown
    define out where "out = \<lparr>trCallID = callID call, trDigest = ''unknown tool '' @ go_quote (callName call), trName = callName call, trIsError = True\<rparr>"
    have step: "dispatch_calls (replay_engine cfg cat tr v) (call # calls) res l y = dispatch_calls (replay_engine cfg cat tr v) calls (res @ [out]) l y" for v l y
      using unknown by (simp add: out_def)
    show ?thesis unfolding step by (rule Cons.IH [OF Cons.prems])
  next
    case known
    have same: "rwToolPos x' = rwToolPos x" "rwPos x' = rwPos x" using Cons.prems by (simp_all add: twin_def)
    note tool = tool_twin [OF known(3) same, of "callArgs call"]
    obtain r x1 where r: "run (callArgs call) x = (r, x1)" by fastforce
    with tool obtain x1' where r': "run (callArgs call) x' = (r, x1')" "rwToolPos x1' = rwToolPos x1" "rwPos x1' = rwPos x1"
      by (metis fst_conv prod.collapse snd_conv)
    show ?thesis
    proof (cases r)
      case (Inl err)
      with known r r' show ?thesis by simp
    next
      case (Inr ref)
      have len: "length (lsEvidence ls') = length (lsEvidence ls)" using Cons.prems by (simp add: twin_def)
      define kref where "kref = (if evKey ref = [] then ref\<lparr>evKey := evidenceKey (callName call) (length (lsEvidence ls))\<rparr> else ref)"
      have "twin (ls\<lparr>lsEvidence := lsEvidence ls @ [kref]\<rparr>) x1 (ls'\<lparr>lsEvidence := lsEvidence ls' @ [kref]\<rparr>) x1'"
        using Cons.prems r' by (simp add: twin_def)
      note IH = Cons.IH [OF this]
      define out where "out = \<lparr>trCallID = callID call, trDigest = (if evKey kref \<noteq> [] then evSummary kref @ '' [cite: '' @ evKey kref @ '']'' else evSummary kref),
        trName = callName call, trIsError = False\<rparr>"
      have step: "dispatch_calls (replay_engine cfg cat tr w) (call # calls) res ls x =
          dispatch_calls (replay_engine cfg cat tr w) calls (res @ [out]) (ls\<lparr>lsEvidence := lsEvidence ls @ [kref]\<rparr>) x1"
        "dispatch_calls (replay_engine cfg cat tr w') (call # calls) res ls' x' =
          dispatch_calls (replay_engine cfg cat tr w') calls (res @ [out]) (ls'\<lparr>lsEvidence := lsEvidence ls' @ [kref]\<rparr>) x1'"
        using known r r' Inr len by (simp_all add: Let_def kref_def out_def)
      show ?thesis unfolding step by (rule IH)
    qed
  qed
qed simp

lemma loop_twin:
  "twin ls x ls' x' \<Longrightarrow>
   (case reason_loop (replay_engine cfg cat tr w) runID n step ls x of
      (Inl err, _) \<Rightarrow> fst (reason_loop (replay_engine cfg cat tr w') runID' n step ls' x') = Inl err
    | (Inr lsn, xn) \<Rightarrow> \<exists>lsn' xn'. reason_loop (replay_engine cfg cat tr w') runID' n step ls' x' = (Inr lsn', xn') \<and> twin lsn xn lsn' xn')"
proof (induction n arbitrary: step ls x ls' x')
  case (Suc n)
  let ?e = "replay_engine cfg cat tr w" and ?e' = "replay_engine cfg cat tr w'"
  show ?case
  proof (cases "length (tcCompletions tr) \<le> rwPos x")
    case True
    with Suc.prems show ?thesis by (simp add: replay_complete_def twin_def)
  next
    case False
    define c where "c = tcCompletions tr ! rwPos x"
    define calls where "calls = withCallIDs (cmpToolCalls c) step"
    define m where "m = (cmpMessage c)\<lparr>msgToolCalls := calls\<rparr>"
    define x1 where "x1 = x\<lparr>rwPos := rwPos x + 1\<rparr>"
    define x1' where "x1' = x'\<lparr>rwPos := rwPos x' + 1\<rparr>"
    have pos: "rwPos x' = rwPos x" using Suc.prems by (simp add: twin_def)
    have cm: "enComplete ?e (lsMsgs ls) x = (Inr c, x1)" "enComplete ?e' (lsMsgs ls') x' = (Inr c, x1')"
      using False pos by (simp_all add: replay_complete_def c_def x1_def x1'_def)
    obtain x2 where cp: "enCheckpoint ?e \<lparr>tnRunID = runID, tnStep = step, tnMsgs = lsMsgs ls @ [m]\<rparr> x1 = (None, x2)"
      and x2: "rwPos x2 = rwPos x1" "rwToolPos x2 = rwToolPos x1" by simp
    obtain x2' where cp': "enCheckpoint ?e' \<lparr>tnRunID = runID', tnStep = step, tnMsgs = lsMsgs ls' @ [m]\<rparr> x1' = (None, x2')"
      and x2': "rwPos x2' = rwPos x1'" "rwToolPos x2' = rwToolPos x1'" by simp
    have tw: "twin (with_turn m ls) x2 (with_turn m ls') x2'"
      using Suc.prems x2 x2' by (simp add: twin_def with_turn_def x1_def x1'_def)
    note run = reason_loop_turn [OF cm(1) calls_def m_def cp] and run' = reason_loop_turn [OF cm(2) calls_def m_def cp']
    show ?thesis
    proof (cases "calls = []")
      case True
      then show ?thesis unfolding run run' using tw by (simp add: twin_def ended_turn_def set_reason_def with_turn_def)
    next
      case False
      note disp = dispatch_twin [OF tw, where cfg = cfg and cat = cat and tr = tr and w = w and w' = w' and calls = calls and res = "[]"]
      obtain o1 x3 where o1: "dispatch_calls ?e calls [] (with_turn m ls) x2 = (o1, x3)" by fastforce
      show ?thesis
      proof (cases o1)
        case (Inl err)
        with disp o1 have "fst (dispatch_calls ?e' calls [] (with_turn m ls') x2') = Inl err" by simp
        then show ?thesis unfolding run run' using False o1 Inl by (cases "dispatch_calls ?e' calls [] (with_turn m ls') x2'") simp
      next
        case (Inr t)
        obtain d res2 ls2 where t: "t = (d, res2, ls2)" by (metis prod_cases3)
        with disp o1 Inr obtain ls2' x3' where
          o1': "dispatch_calls ?e' calls [] (with_turn m ls') x2' = (Inr (d, res2, ls2'), x3')" "twin ls2 x3 ls2' x3'" by auto
        then have nx: "twin (with_results res2 ls2) x3 (with_results res2 ls2') x3'" by (simp add: twin_def)
        have step: "reason_loop ?e runID (Suc n) step ls x =
            (if d then (Inr (with_results res2 ls2), x3) else reason_loop ?e runID n (Suc step) (with_results res2 ls2) x3)"
          "reason_loop ?e' runID' (Suc n) step ls' x' =
            (if d then (Inr (with_results res2 ls2'), x3') else reason_loop ?e' runID' n (Suc step) (with_results res2 ls2') x3')"
          using False o1 Inr t o1' by (simp_all only: run run') simp_all
        show ?thesis unfolding step using nx Suc.IH [OF nx] by (cases d) simp_all
      qed
    qed
  qed
qed simp

definition same_but_scores :: "proposal_set \<Rightarrow> proposal_set \<Rightarrow> bool" where
  "same_but_scores ps ps' \<longleftrightarrow> psFailureClass ps' = psFailureClass ps \<and> psHypotheses ps' = psHypotheses ps \<and> psEvidence ps' = psEvidence ps \<and>
     psRecommended ps' = psRecommended ps \<and> psGate ps' = psGate ps \<and> psStatus ps' = psStatus ps \<and>
     map unscored (psProposals ps') = map unscored (psProposals ps)"

lemma conclude_alone: "enJournal e = None \<Longrightarrow> \<not> rdCancelledRecord rd \<Longrightarrow> fst (conclude e rd ps st) = Inr (Some ps)"
  by (simp add: conclude_def journal_def plog_record_def)

lemma apply_gate_hypotheses: "psHypotheses (apply_gate ps d) = psHypotheses ps"
  by (simp add: apply_gate_def set_phase_def set_reason_def Let_def)

lemma apply_gate_status:
  "psStatus ps' = psStatus ps \<Longrightarrow> gate_evaluate ps' d = gate_evaluate ps d \<Longrightarrow> psStatus (apply_gate ps' d) = psStatus (apply_gate ps d)"
  by (simp add: apply_gate_def set_phase_def set_reason_def Let_def)

lemma finish_twin:
  fixes cfg cat tr w w'
  defines "e \<equiv> replay_engine cfg cat tr w" and "e' \<equiv> replay_engine cfg cat tr w'" and "sig \<equiv> detectionFrom (tcSet tr)"
  assumes tw: "twin ls x ls' x'" and cat: "\<forall>c\<in>set cat. acPreconditions c = []"
    and ok: "ungraded rd sig s (lsSet ls)" "ungraded rd' sig s' (lsSet ls')" and view: "same_view s s'"
    and st: "esLedger st = newProposalLog" "esLedger st' = newProposalLog"
    and rd: "\<not> rdCancelledGate rd" "\<not> rdCancelledRecord rd" "\<not> rdCancelledGate rd'" "\<not> rdCancelledRecord rd'"
  shows "\<exists>ps ps'. fst (finish_run e rd sig s ls st) = Inr (Some ps) \<and> fst (finish_run e' rd' sig s' ls' st') = Inr (Some ps') \<and>
    same_but_scores ps ps'"
proof -
  define ps0 where "ps0 = (lsSet ls)\<lparr>psEvidence := lsEvidence ls\<rparr>"
  define ps0' where "ps0' = (lsSet ls')\<lparr>psEvidence := lsEvidence ls'\<rparr>"
  have eng: "enCatalog e = cat" "enCatalog e' = cat" "enJournal e = None" "enJournal e' = None" "enPub e = None" "enPub e' = None"
    by (simp_all add: e_def e'_def)
  note ok' = ok [unfolded ungraded_def]
  have sel: "psProposals ps0' = psProposals ps0" "psEvidence ps0' = psEvidence ps0" "psFailureClass ps0' = psFailureClass ps0"
    "psHypotheses ps0' = psHypotheses ps0" "psServiceTier ps0' = psServiceTier ps0" "psSAOSnapshot ps0 = Some s" "psSAOSnapshot ps0' = Some s'"
    "psRecommended ps0 = []" "psRecommended ps0' = []" "psStatus ps0' = psStatus ps0" "psGate ps0 = None" "psGate ps0' = None"
    using tw ok' by (simp_all add: twin_def ps0_def ps0'_def)
  have flags: "lsProposed ls' = lsProposed ls" "lsDeclined ls' = lsDeclined ls" using tw by (simp_all add: twin_def)
  have catalog: "enforceCatalog cat ps0' s' = enforceCatalog cat ps0 s" by (rule enforceCatalog_unguarded [OF cat]) (simp_all add: sel)
  have cites: "enforceCitations ps0' = enforceCitations ps0" by (simp add: enforceCitations_def sel)
  note alone = conclude_alone [of e rd] conclude_alone [of e' rd']
  note unf = finish_run_def Let_def ps0_def [symmetric] ps0'_def [symmetric]
  show ?thesis
  proof (cases "lsProposed ls \<and> enforceCatalog cat ps0 s = None \<and> enforceCitations ps0 = None")
    case True
    have steady: "brVelocity (impBlastRadius (detImpact sig)) \<noteq> ''accelerating''" by (simp add: sig_def detectionFrom_def)
    have eq: "enCatalog e' = enCatalog e" by (simp add: eng)
    note graded = grade_replayed [OF steady steady eq sel(1,2,8,9,6,7) view]
    have fin: "fst (finish_run e rd sig s ls st) = Inr (Some (apply_gate (grade e sig s ps0) []))"
      unfolding ps0_def by (rule finish_alone) (use True rd eng st in \<open>simp_all add: ps0_def [symmetric]\<close>)
    have fin': "fst (finish_run e' rd' sig s' ls' st') = Inr (Some (apply_gate (grade e' sig s' ps0') []))"
      unfolding ps0'_def by (rule finish_alone) (use True rd eng st flags catalog cites in \<open>simp_all add: ps0'_def [symmetric]\<close>)
    have "same_but_scores (apply_gate (grade e sig s ps0) []) (apply_gate (grade e' sig s' ps0') [])"
      using graded apply_gate_status [OF _ graded(3), of "[]"]
      by (simp add: same_but_scores_def sel apply_gate_hypotheses grade_unsorted(3) [OF steady])
    with fin fin' show ?thesis by blast
  next
    case False
    have declined: ?thesis if "finish_run e rd sig s ls st = conclude e rd q st" "finish_run e' rd' sig s' ls' st' = conclude e' rd' q' st'"
      "same_but_scores q q'" for q q' using that alone eng rd by auto
    consider (budget) "\<not> lsProposed ls" "\<not> lsDeclined ls" | (declined) "\<not> lsProposed ls" "lsDeclined ls"
      | (catalog) r where "lsProposed ls" "enforceCatalog cat ps0 s = Some r"
      | (citations) r where "lsProposed ls" "enforceCatalog cat ps0 s = None" "enforceCitations ps0 = Some r"
      using False by (cases "enforceCatalog cat ps0 s"; cases "enforceCitations ps0") auto
    then show ?thesis
    proof cases
      case budget
      let ?q = "\<lambda>p. set_phase PhaseBudgetExhausted (p\<lparr>psGate := Some \<lparr>grBudgetOK = False, grDedupeOK = False, grEvidenceOK = False,
        grPassed = False, grReason = ''budget''\<rparr>\<rparr>)"
      from budget show ?thesis
        by (intro declined [of "?q ps0" "?q ps0'"]) (simp_all add: unf flags, simp add: same_but_scores_def set_phase_def sel)
    next
      case declined': declined
      have fresh: "map_option stPhase (psStatus ps0) = Some (PhaseOther [])" using ok' by (simp add: ps0_def)
      then have fresh': "map_option stPhase (psStatus ps0') = Some (PhaseOther [])" by (simp only: sel)
      have "same_but_scores (set_phase PhaseNoAction ps0) (set_phase PhaseNoAction ps0')"
        by (simp add: same_but_scores_def set_phase_def sel)
      with declined' show ?thesis
        by (intro declined [of "set_phase PhaseNoAction ps0" "set_phase PhaseNoAction ps0'"])
          (simp_all only: unf flags fresh fresh' if_True if_False simp_thms)
    next
      case catalog': (catalog r)
      from catalog' catalog show ?thesis
        by (intro declined [of "refuse r ps0" "refuse r ps0'"])
          (simp_all add: unf flags eng, simp add: same_but_scores_def refuse_def set_reason_def set_phase_def sel)
    next
      case (citations r)
      with catalog cites show ?thesis
        by (intro declined [of "refuse r ps0" "refuse r ps0'"])
          (simp_all add: unf flags eng, simp add: same_but_scores_def refuse_def set_reason_def set_phase_def sel)
    qed
  qed
qed

lemma replay_pair:
  "case replay_propose cfg rd tr w of
     Inl err \<Rightarrow> replay_propose cfg rd' tr w' = Inl err
   | Inr None \<Rightarrow> False
   | Inr (Some ps) \<Rightarrow> \<exists>ps'. replay_propose cfg rd' tr w' = Inr (Some ps') \<and> same_but_scores ps ps'"
proof (cases "replay_catalog cfg")
  case (Inl err)
  then show ?thesis by (simp add: replay_propose_def)
next
  case (Inr cat)
  show ?thesis
  proof (cases "rcFailureClasses cfg")
    case (Some err)
    with Inr show ?thesis by (simp add: replay_propose_def)
  next
    case None
    note cfg = Inr None
    define sig where "sig = detectionFrom (tcSet tr)"
    let ?e = "replay_engine cfg cat tr" and ?rd = replay_readings and ?s = "\<lambda>r. replay_sao (replay_readings r) (tcSet tr)"
    let ?loop = "\<lambda>v r. reason_loop (?e v) (run_id (?rd r) sig) (nat default_max_steps) 0 (initial_loop (?e v) (?rd r) sig (?s r)) (esWorld fresh_replay)"
    have run: "fst (propose (?e v) (?rd r) sig fresh_replay) =
        (case ?loop v r of (Inl err, x) \<Rightarrow> Inl err | (Inr ls, x) \<Rightarrow> fst (finish_run (?e v) (?rd r) sig (?s r) ls (fresh_replay\<lparr>esWorld := x\<rparr>)))" for v r
    proof -
      have "rdMeanwhile (?rd r) = (\<lambda>l. l)" "\<not> rdCancelledOpen (?rd r)" by (simp_all add: replay_readings_def)
      then show ?thesis
        by (simp add: propose_def propose_run_def replay_assembles [of cfg cat tr, folded sig_def] fresh_replay_def plog_open_new Let_def
            case_prod_beta split: sum.splits prod.splits)
    qed
    have start: "twin (initial_loop (?e w) (?rd rd) sig (?s rd)) (esWorld fresh_replay) (initial_loop (?e w') (?rd rd') sig (?s rd')) (esWorld fresh_replay)"
      by (simp add: twin_def initial_loop_def new_set_def)
    note loops = loop_twin [OF start, where cfg = cfg and cat = cat and tr = tr and w = w and w' = w' and n = "nat default_max_steps" and step = 0
      and runID = "run_id (?rd rd) sig" and runID' = "run_id (?rd rd') sig"]
    obtain o1 x where o1: "?loop w rd = (o1, x)" by fastforce
    have top: "replay_propose cfg r tr v = (case fst (propose (?e v) (?rd r) sig fresh_replay) of Inl err \<Rightarrow> Inl (ReplayRun err) | Inr y \<Rightarrow> Inr y)" for r v
      using cfg by (simp add: replay_propose_def sig_def)
    show ?thesis
    proof (cases o1)
      case (Inl err)
      with loops o1 have "fst (?loop w' rd') = Inl err" by simp
      then have "fst (propose (?e w') (?rd rd') sig fresh_replay) = Inl err" unfolding run by (cases "?loop w' rd'") simp
      moreover have "fst (propose (?e w) (?rd rd) sig fresh_replay) = Inl err" unfolding run using o1 Inl by simp
      ultimately show ?thesis by (simp add: top)
    next
      case (Inr ls)
      with loops o1 obtain ls' x' where o1': "?loop w' rd' = (Inr ls', x')" and tw: "twin ls x ls' x'" by auto
      have "ungraded (?rd rd) sig (?s rd) (lsSet ls)" by (rule reason_loop_ungraded [OF o1 [unfolded Inr]])
      moreover have "ungraded (?rd rd') sig (?s rd') (lsSet ls')" by (rule reason_loop_ungraded [OF o1'])
      moreover have "same_view (?s rd) (?s rd')" by (simp add: same_view_def replay_sao_def)
      ultimately have "\<exists>ps ps'. fst (finish_run (?e w) (?rd rd) sig (?s rd) ls (fresh_replay\<lparr>esWorld := x\<rparr>)) = Inr (Some ps) \<and>
          fst (finish_run (?e w') (?rd rd') sig (?s rd') ls' (fresh_replay\<lparr>esWorld := x'\<rparr>)) = Inr (Some ps') \<and> same_but_scores ps ps'"
        unfolding sig_def by (intro finish_twin [OF tw replay_catalog_unguarded [OF cfg(1)]]) (simp_all add: fresh_replay_def replay_readings_def)
      then obtain ps ps' where "fst (propose (?e w) (?rd rd) sig fresh_replay) = Inr (Some ps)"
        "fst (propose (?e w') (?rd rd') sig fresh_replay) = Inr (Some ps')" "same_but_scores ps ps'"
        unfolding run using o1 o1' Inr by auto
      then show ?thesis by (simp add: top)
    qed
  qed
qed

text \<open>C39: the weights apply after the model and cannot change what a run cited: two replays of one recording, at other times
  and under other weights, fail with the same error or give sets that differ at most in their scores; class,
  hypotheses, evidence, recommendation, gate, status and the candidates in their order are the same.\<close>

theorem weights_only_rescore:
  "case replay_propose cfg rd tr w of
     Inl err \<Rightarrow> replay_propose cfg rd' tr w' = Inl err
   | Inr None \<Rightarrow> False
   | Inr (Some ps) \<Rightarrow> \<exists>ps'. replay_propose cfg rd' tr w' = Inr (Some ps') \<and> same_but_scores ps ps'"
  by (rule replay_pair)

text \<open>The snapshot a set carries holds the velocity of its incident, but the rebuilt detection drops it: a replay never
  orders by time to effect, also when the run it replays did.\<close>

theorem replay_forgets_velocity:
  "psProposals (grade (replay_engine cfg cat tr w) (detectionFrom (tcSet tr)) s ps) =
     set_ranks 0 (map (score_candidate (graded_base (replay_engine cfg cat tr w) s ps) s (Some (\<lambda>fp. alignment fp newCaseBase))
       (psSignalRef (tcSet tr)) w) (enrichFromCatalog cat (psProposals ps)))"
  by (subst grade_unsorted) (simp_all add: detectionFrom_def replay_engine_def)

subsection \<open>Examples\<close>

definition recorded_engine :: "nat engine" where
  "recorded_engine = (scripted one_proposal True)\<lparr>
     enComplete := (\<lambda>msgs w. (Inr \<lparr>cmpMessage = \<lparr>msgRole = ''assistant'', msgContent = [], msgToolCalls = [], msgToolResults = []\<rparr>,
       cmpToolCalls = [\<lparr>callID = ''c'', callName = (if w = 0 then ''metrics'' else ''propose''), callArgs = []\<rparr>]\<rparr>, Suc w)),
     enTools := [''metrics'' \<mapsto> (\<lambda>args w. (Inr example_ref, w))], enJournal := None, enPub := None\<rparr>"

definition steady_detection :: detection where
  "steady_detection = example_detection\<lparr>detImpact := \<lparr>impSeverity = \<lparr>sevDegradationPct = 40, sevTrajectory = ''rising''\<rparr>,
     impBlastRadius = \<lparr>brAffectedPct = 10, brVelocity = ''steady'', brDownstreamConsumers = 2\<rparr>\<rparr>\<rparr>"

definition recorded_base :: proposal_set where
  "recorded_base = (new_set (example_readings 7) steady_detection example_sao)\<lparr>psFailureClass := ''service_failure'', psHypotheses := [],
     psProposals := candidates one_proposal, psEvidence := [example_ref]\<rparr>"

definition recorded_set :: proposal_set where
  "recorded_set = apply_gate (grade recorded_engine steady_detection example_sao recorded_base) []"

lemma recorded_loop:
  "\<exists>ls. reason_loop recorded_engine (run_id (example_readings 7) steady_detection) (nat (enMaxSteps recorded_engine)) 0
     (initial_loop recorded_engine (example_readings 7) steady_detection example_sao) 0 = (Inr ls, Suc (Suc 0)) \<and>
     (lsSet ls)\<lparr>psEvidence := lsEvidence ls\<rparr> = recorded_base \<and> lsProposed ls"
proof -
  have key: "evKey example_ref \<noteq> []" by (simp add: example_ref_def)
  have steps: "nat (enMaxSteps recorded_engine) = Suc (Suc 6)" by (simp add: recorded_engine_def scripted_def)
  have kind: "pinFailureClass one_proposal = ''service_failure''" "pinHypotheses one_proposal = []" by (simp_all add: one_proposal_def)
  have "\<exists>ls. reason_loop recorded_engine (run_id (example_readings 7) steady_detection) (Suc (Suc n)) 0
     (initial_loop recorded_engine (example_readings 7) steady_detection example_sao) 0 = (Inr ls, Suc (Suc 0)) \<and>
     (lsSet ls)\<lparr>psEvidence := lsEvidence ls\<rparr> = recorded_base \<and> lsProposed ls" for n
    by (simp add: Let_def initial_loop_def withCallIDs_def key recorded_engine_def recorded_base_def kind)
  then show ?thesis unfolding steps .
qed

lemma recorded_checks:
  "enforceCatalog (enCatalog recorded_engine) recorded_base example_sao = None" "enforceCitations recorded_base = None"
  "grPassed (gate_evaluate (grade recorded_engine steady_detection example_sao recorded_base) [])"
proof -
  show "enforceCatalog (enCatalog recorded_engine) recorded_base example_sao = None" "enforceCitations recorded_base = None"
    by (simp_all add: recorded_base_def recorded_engine_def scripted_def new_set_def enforceCatalog_def one_proposal_def
      candidates_def authored_candidate_def applicable_def classMatches_def tierMatches_def preconditionsMet_def
      example_contract_def steady_detection_def example_detection_def enforceCitations_def example_ref_def)
  let ?g = "grade recorded_engine steady_detection example_sao recorded_base"
  have steady: "brVelocity (impBlastRadius (detImpact steady_detection)) \<noteq> ''accelerating''" by (simp add: steady_detection_def)
  have "\<exists>c. psProposals ?g = [c] \<and> cndCitations c = [''up'']" unfolding grade_unsorted [OF steady]
    by (simp add: recorded_base_def one_proposal_def candidates_def authored_candidate_def enrichFromCatalog_def)
  then obtain c where c: "psProposals ?g = [c]" "cndCitations c = [''up'']" by blast
  then have "psRecommended ?g = cndID c"
    using grade_recommended [of recorded_base recorded_engine steady_detection example_sao] by (simp add: recorded_base_def new_set_def)
  with c show "grPassed (gate_evaluate ?g [])"
    by (simp add: gate_passed_iff recommendedEvidence_def recorded_base_def new_set_def
        example_ref_def anyCoherentLive_def coherentSubject_def example_sao_def)
qed

definition recorded_config :: replay_config where
  "recorded_config = \<lparr>rcReadCatalog = Inr [], rcUnmarshalCatalog = (\<lambda>_. Inr (enCatalog recorded_engine)), rcFailureClasses = None,
     rcSeedPrompt = (\<lambda>_ _ _. []), rcDecodePropose = enDecodePropose recorded_engine, rcDecodeInsufficient = enDecodeInsufficient recorded_engine\<rparr>"

definition recording :: "loop_state \<Rightarrow> transcript" where
  "recording ls = \<lparr>tcRunID = ''run'', tcCompletions = completionsFrom (lsMsgs ls), tcSet = recorded_set, tcPath = ''run.jsonl''\<rparr>"

lemma recorded_run:
  "\<exists>ls w' st'. reason_loop recorded_engine (run_id (example_readings 7) steady_detection) (nat (enMaxSteps recorded_engine)) 0
     (initial_loop recorded_engine (example_readings 7) steady_detection example_sao) 0 = (Inr ls, w') \<and>
   finish_run recorded_engine (example_readings 7) steady_detection example_sao ls fresh_engine = (Inr (Some recorded_set), st')"
proof -
  obtain ls where ls: "reason_loop recorded_engine (run_id (example_readings 7) steady_detection) (nat (enMaxSteps recorded_engine)) 0
     (initial_loop recorded_engine (example_readings 7) steady_detection example_sao) 0 = (Inr ls, Suc (Suc 0))"
    "(lsSet ls)\<lparr>psEvidence := lsEvidence ls\<rparr> = recorded_base" "lsProposed ls" using recorded_loop by blast
  have "fst (finish_run recorded_engine (example_readings 7) steady_detection example_sao ls fresh_engine) = Inr (Some recorded_set)"
    unfolding recorded_set_def ls(2) [symmetric]
    by (rule finish_alone) (simp_all add: ls recorded_checks fresh_engine_def example_readings_def, simp_all add: recorded_engine_def)
  then show ?thesis using ls(1) by (metis prod.collapse)
qed

lemma recorded_facts:
  "set_gate_passed recorded_set" "signed_tools recorded_engine" "speaks_as_assistant recorded_engine"
  "enMaxSteps recorded_engine = default_max_steps" "brVelocity (impBlastRadius (detImpact steady_detection)) \<noteq> ''accelerating''"
  "replay_catalog recorded_config = Inr (enCatalog recorded_engine)" "rcFailureClasses recorded_config = None"
  "rcDecodePropose recorded_config = enDecodePropose recorded_engine" "rcDecodeInsufficient recorded_config = enDecodeInsufficient recorded_engine"
  "tcSet (recording ls) = recorded_set" "tcCompletions (recording ls) = completionsFrom (lsMsgs ls)"
proof -
  show "set_gate_passed recorded_set" using recorded_checks(3) by (simp add: recorded_set_def set_gate_passed_def)
  show "signed_tools recorded_engine" by (auto simp: signed_tools_def recorded_engine_def example_ref_def split: if_splits)
  show "speaks_as_assistant recorded_engine" by (auto simp: speaks_as_assistant_def recorded_engine_def)
  show "enMaxSteps recorded_engine = default_max_steps" by (simp add: recorded_engine_def scripted_def default_max_steps_def)
  show "brVelocity (impBlastRadius (detImpact steady_detection)) \<noteq> ''accelerating''" by (simp add: steady_detection_def)
  show "replay_catalog recorded_config = Inr (enCatalog recorded_engine)"
    by (simp add: recorded_config_def replay_catalog_def load_catalog_def bind_contracts_Inr recorded_engine_def scripted_def example_contract_def)
qed (simp_all add: recorded_config_def recording_def)


end
