(* ===== verification/Suite.thy ===== *)
theory Suite
  imports Replay Transcript ThumpOrder
begin

text \<open>
  Grading a reasoning run against an authored case or a settled label, the report of a suite of runs
  (\<^verbatim>\<open>src/internal/rca/report.go\<close>), and the fold that summarises repeated runs of one question together with the
  loop that makes them (\<^verbatim>\<open>src/internal/probe\<close>).

  Of a case the fields grading reads are modelled; its fixtures, which only the live harness reads, are not.
\<close>

subsection \<open>Grading a set\<close>

record graded_case =
  gcName :: string
  gcFixture :: string
  gcWantDisposition :: string
  gcWantContractRef :: string
  gcWantClass :: failure_class
  gcMustCite :: "string list"
  gcMustNotCite :: "string list"
  gcKnownMiss :: bool
  gcWantConfidenceAtLeast :: real
  gcWantCeilingBound :: bool

record suite_row =
  srName :: string
  srPass :: bool
  srKnownMiss :: bool
  srMiss :: string
  srClass :: failure_class
  srContractRef :: string
  srComputed :: real
  srConfidence :: real
  srCeilingBound :: bool
  srCorroborated :: int

definition blank_row :: "string \<Rightarrow> suite_row" where
  "blank_row n = \<lparr>srName = n, srPass = False, srKnownMiss = False, srMiss = [], srClass = [], srContractRef = [],
     srComputed = 0, srConfidence = 0, srCeilingBound = False, srCorroborated = 0\<rparr>"

definition with_top :: "candidate \<Rightarrow> suite_row \<Rightarrow> suite_row" where
  "with_top top' row = row\<lparr>srContractRef := cndContractRef top', srComputed := cndComputedConfidence top',
     srConfidence := cndConfidence top', srCeilingBound := cndConfidenceCeilingBound top',
     srCorroborated := ctCorroborated (cndTerms top')\<rparr>"

definition citesAll :: "string list \<Rightarrow> string list \<Rightarrow> bool" where
  "citesAll got want = list_all (\<lambda>w. w \<in> set got) want"

definition citesAny :: "string list \<Rightarrow> string list \<Rightarrow> bool" where
  "citesAny got want = list_ex (\<lambda>w. w \<in> set got) want"

definition suite_grade :: "graded_case \<Rightarrow> proposal_set \<Rightarrow> suite_row" where
  "suite_grade c s =
     (let row = (blank_row (gcName c))\<lparr>srKnownMiss := gcKnownMiss c, srClass := psFailureClass s\<rparr>
      in if gcWantDisposition c = ''insufficient'' then
           (if psProposals s \<noteq> [] then row\<lparr>srMiss := ''wanted insufficient, got a proposal''\<rparr> else row\<lparr>srPass := True\<rparr>)
         else
           (case psProposals s of
              [] \<Rightarrow> row\<lparr>srMiss := ''wanted a proposal, got insufficient''\<rparr>
            | t # _ \<Rightarrow>
                (let row = with_top t row
                 in if psFailureClass s \<noteq> gcWantClass c then row\<lparr>srMiss := ''wrong failure class: '' @ psFailureClass s\<rparr>
                    else if gcWantContractRef c \<noteq> [] \<and> cndContractRef t \<noteq> gcWantContractRef c
                    then row\<lparr>srMiss := ''wrong action: '' @ cndContractRef t\<rparr>
                    else if \<not> citesAll (cndCitations t) (gcMustCite c) then row\<lparr>srMiss := ''did not cite the distinguishing evidence''\<rparr>
                    else if citesAny (cndCitations t) (gcMustNotCite c) then row\<lparr>srMiss := ''cited the decoy''\<rparr>
                    else if gcWantConfidenceAtLeast c > 0 \<and> cndConfidence t < gcWantConfidenceAtLeast c
                    then row\<lparr>srMiss := ''confidence below the row's floor''\<rparr>
                    else if gcWantConfidenceAtLeast c > 0 \<and> cndConfidenceCeilingBound t \<noteq> gcWantCeilingBound c
                    then row\<lparr>srMiss := ''ceiling-bound disagreed with the row''\<rparr>
                    else row\<lparr>srPass := True\<rparr>)))"

fun source_text :: "label_source \<Rightarrow> string" where
  "source_text SourceConverged = ''converged''"
| "source_text SourceReversed = ''reversed''"
| "source_text SourceApproved = ''approved''"
| "source_text SourceDenied = ''denied''"

definition gradeByLabel :: "label \<Rightarrow> proposal_set \<Rightarrow> suite_row" where
  "gradeByLabel l s =
     (let row = (blank_row (lbRunID l))\<lparr>srPass := lbCorrect l, srClass := psFailureClass s\<rparr>;
          row = (case psProposals s of [] \<Rightarrow> row | t # _ \<Rightarrow> with_top t row)
      in if \<not> lbCorrect l then row\<lparr>srMiss := ''label settled this run as incorrect: '' @ source_text (lbSource l)\<rparr> else row)"

subsection \<open>The report\<close>

datatype bound = BoundNone | BoundEvidence | BoundSelfReport

definition boundBy :: "suite_row \<Rightarrow> real \<Rightarrow> bound" where
  "boundBy row floor' =
     (if srComputed row < floor' then BoundEvidence else if srConfidence row < floor' then BoundSelfReport else BoundNone)"

record suite_report =
  suRows :: "suite_row list"
  suScored :: nat
  suFloor :: nat

definition suite_step :: "suite_report \<Rightarrow> suite_row \<Rightarrow> suite_report" where
  "suite_step r row =
     (let r = (if srPass row then r\<lparr>suScored := suScored r + 1\<rparr> else r)
      in if \<not> srKnownMiss row then r\<lparr>suFloor := suFloor r + 1\<rparr> else r)"

definition newReport :: "suite_row list \<Rightarrow> suite_report" where
  "newReport rows = foldl suite_step \<lparr>suRows = rows, suScored = 0, suFloor = 0\<rparr> rows"

definition table_floor :: "graded_case list \<Rightarrow> nat" where
  "table_floor cases = foldl (\<lambda>n c. if \<not> gcKnownMiss c then n + 1 else n) 0 cases"

definition report_met :: "suite_report \<Rightarrow> bool" where
  "report_met r \<longleftrightarrow> suFloor r \<le> suScored r"

subsection \<open>Summarising repeated runs\<close>

record sample =
  smProposed :: bool
  smConfidence :: real
  smComputed :: real
  smCeiling :: bool
  smCorroborated :: int

definition row_sample :: "suite_row \<Rightarrow> sample" where
  "row_sample r = \<lparr>smProposed = (srContractRef r \<noteq> []), smConfidence = srConfidence r, smComputed = srComputed r,
     smCeiling = srCeilingBound r, smCorroborated = srCorroborated r\<rparr>"

record spread =
  spMin :: real
  spMean :: real
  spMax :: real

record summary =
  syN :: nat
  syNoProposal :: nat
  syFloor :: real
  syUnderFloor :: nat
  syAutoApproved :: nat
  syBoundEvidence :: nat
  syBoundSelfReport :: nat
  syConfidence :: spread
  syCorroborated :: spread

record fold_state =
  foSummary :: summary
  foConfSum :: real
  foCorrSum :: real
  foCounted :: nat

definition widen :: "bool \<Rightarrow> real \<Rightarrow> spread \<Rightarrow> spread" where
  "widen first x sp = (if first then sp\<lparr>spMin := x, spMax := x\<rparr> else sp\<lparr>spMin := min (spMin sp) x, spMax := max (spMax sp) x\<rparr>)"

definition summarize_step :: "real \<Rightarrow> fold_state \<Rightarrow> sample \<Rightarrow> fold_state" where
  "summarize_step floor' f sm =
     (let s = foSummary f
      in if \<not> smProposed sm then
           f\<lparr>foSummary := s\<lparr>syNoProposal := syNoProposal s + 1, syUnderFloor := syUnderFloor s + 1,
               syBoundEvidence := syBoundEvidence s + 1\<rparr>\<rparr>
         else
           (let corroborated = real_of_int (smCorroborated sm);
                s = s\<lparr>syConfidence := widen (foCounted f = 0) (smConfidence sm) (syConfidence s),
                      syCorroborated := widen (foCounted f = 0) corroborated (syCorroborated s)\<rparr>;
                s = (if floor' \<le> smConfidence sm then s\<lparr>syAutoApproved := syAutoApproved s + 1\<rparr>
                     else if smComputed sm < floor'
                     then s\<lparr>syUnderFloor := syUnderFloor s + 1, syBoundEvidence := syBoundEvidence s + 1\<rparr>
                     else s\<lparr>syUnderFloor := syUnderFloor s + 1, syBoundSelfReport := syBoundSelfReport s + 1\<rparr>)
            in \<lparr>foSummary = s, foConfSum = foConfSum f + smConfidence sm, foCorrSum = foCorrSum f + corroborated,
                foCounted = foCounted f + 1\<rparr>))"

definition zero_spread :: spread where
  "zero_spread = \<lparr>spMin = 0, spMean = 0, spMax = 0\<rparr>"

definition start_fold :: "real \<Rightarrow> nat \<Rightarrow> fold_state" where
  "start_fold floor' n = \<lparr>foSummary = \<lparr>syN = n, syNoProposal = 0, syFloor = floor', syUnderFloor = 0, syAutoApproved = 0,
     syBoundEvidence = 0, syBoundSelfReport = 0, syConfidence = zero_spread, syCorroborated = zero_spread\<rparr>,
     foConfSum = 0, foCorrSum = 0, foCounted = 0\<rparr>"

definition summarize :: "sample list \<Rightarrow> real \<Rightarrow> summary" where
  "summarize samples floor' =
     (let f = foldl (summarize_step floor') (start_fold floor' (length samples)) samples; s = foSummary f
      in if foCounted f > 0
         then s\<lparr>syConfidence := (syConfidence s)\<lparr>spMean := foConfSum f / real (foCounted f)\<rparr>,
                syCorroborated := (syCorroborated s)\<lparr>spMean := foCorrSum f / real (foCounted f)\<rparr>\<rparr>
         else s)"

subsection \<open>Probing one detection\<close>

record probe_row =
  pwRun :: nat
  pwPhase :: phase
  pwReason :: string
  pwContractRef :: string
  pwConfidence :: real
  pwComputed :: real
  pwCeiling :: bool
  pwTerms :: confidence_terms
  pwCitations :: "string list"

definition rowFor :: "nat \<Rightarrow> proposal_set \<Rightarrow> probe_row" where
  "rowFor run s =
     (let row = \<lparr>pwRun = run, pwPhase = (case psStatus s of None \<Rightarrow> PhaseOther [] | Some st \<Rightarrow> stPhase st),
            pwReason = (case psStatus s of None \<Rightarrow> [] | Some st \<Rightarrow> stReason st), pwContractRef = [], pwConfidence = 0,
            pwComputed = 0, pwCeiling = False, pwTerms = zero_terms, pwCitations = []\<rparr>
      in case List.find (\<lambda>c. cndID c = psRecommended s) (psProposals s) of
           None \<Rightarrow> row
         | Some c \<Rightarrow> row\<lparr>pwContractRef := cndContractRef c, pwConfidence := cndConfidence c, pwComputed := cndComputedConfidence c,
                         pwCeiling := cndConfidenceCeilingBound c, pwTerms := cndTerms c, pwCitations := cndCitations c\<rparr>)"

text \<open>The ledger is fresh before each run; the store the world of the engine holds is reset by \<open>reset\<close>.\<close>

definition probeReset :: "('w \<Rightarrow> 'w) \<Rightarrow> 'w engine_state \<Rightarrow> 'w engine_state" where
  "probeReset reset st = st\<lparr>esLedger := newProposalLog, esWorld := reset (esWorld st)\<rparr>"

fun probe_loop ::
  "'w engine \<Rightarrow> (nat \<Rightarrow> readings) \<Rightarrow> ('w \<Rightarrow> 'w) \<Rightarrow> detection \<Rightarrow> nat \<Rightarrow> nat \<Rightarrow> 'w engine_state \<Rightarrow>
   ((nat \<times> engine_error) + probe_row list) \<times> 'w engine_state" where
  "probe_loop e rds reset det i 0 st = (Inr [], st)"
| "probe_loop e rds reset det i (Suc n) st =
     (case propose e (rds i) det (probeReset reset st) of
        (Inl err, st1) \<Rightarrow> (Inl (i, err), st1)
      | (Inr s, st1) \<Rightarrow>
          (case probe_loop e rds reset det (i + 1) n st1 of
             (Inl err, st2) \<Rightarrow> (Inl err, st2)
           | (Inr rows, st2) \<Rightarrow> (Inr (rowFor i (case s of None \<Rightarrow> zero_set | Some ps \<Rightarrow> ps) # rows), st2)))"

definition probe_run ::
  "'w engine \<Rightarrow> (nat \<Rightarrow> readings) \<Rightarrow> ('w \<Rightarrow> 'w) \<Rightarrow> detection \<Rightarrow> nat \<Rightarrow> 'w engine_state \<Rightarrow>
   ((nat \<times> engine_error) + probe_row list) \<times> 'w engine_state" where
  "probe_run e rds reset det n st = probe_loop e rds reset det 1 n st"

definition probe_samples :: "probe_row list \<Rightarrow> sample list" where
  "probe_samples rows = map (\<lambda>r. \<lparr>smProposed = (pwContractRef r \<noteq> []), smConfidence = pwConfidence r, smComputed = pwComputed r,
     smCeiling = pwCeiling r, smCorroborated = ctCorroborated (pwTerms r)\<rparr>) rows"

subsection \<open>What a report says\<close>

lemma suite_fold:
  "suScored (foldl suite_step r rows) = suScored r + length (filter srPass rows) \<and>
   suFloor (foldl suite_step r rows) = suFloor r + length (filter (\<lambda>x. \<not> srKnownMiss x) rows) \<and>
   suRows (foldl suite_step r rows) = suRows r"
  by (induction rows arbitrary: r) (auto simp: suite_step_def Let_def)

lemma newReport_counts:
  "suScored (newReport rows) = length (filter srPass rows)" "suFloor (newReport rows) = length (filter (\<lambda>x. \<not> srKnownMiss x) rows)"
  using suite_fold [of _ rows] by (simp_all add: newReport_def)

lemma report_met_required:
  assumes "\<forall>r\<in>set rows. srKnownMiss r \<longrightarrow> \<not> srPass r"
  shows "report_met (newReport rows) \<longleftrightarrow> (\<forall>r\<in>set rows. srPass r = (\<not> srKnownMiss r))"
proof -
  have sub: "set (filter srPass rows) \<subseteq> set (filter (\<lambda>x. \<not> srKnownMiss x) rows)" using assms by auto
  have pass: "filter srPass rows = filter srPass (filter (\<lambda>x. \<not> srKnownMiss x) rows)"
    using assms by (auto simp: intro: filter_cong)
  have "length (filter (\<lambda>x. \<not> srKnownMiss x) rows) \<le> length (filter srPass (filter (\<lambda>x. \<not> srKnownMiss x) rows)) \<longleftrightarrow>
      (\<forall>r\<in>set (filter (\<lambda>x. \<not> srKnownMiss x) rows). srPass r)"
    by (metis filter_True length_filter_less linorder_not_le order_refl)
  then show ?thesis using pass assms by (auto simp: report_met_def newReport_counts)
qed

text \<open>The floor counts the rows that must pass, but the score also counts a documented known miss that passed, so
  such a row stands in for a required one that failed.\<close>

theorem known_miss_masks_failure:
  assumes "\<not> srPass required" "\<not> srKnownMiss required" "srPass lucky" "srKnownMiss lucky"
  shows "report_met (newReport [required, lucky])"
  using assms by (simp add: report_met_def newReport_counts)

subsection \<open>What a summary says\<close>

definition shown :: "sample list \<Rightarrow> real list" where
  "shown samples = map smConfidence (filter smProposed samples)"

definition sample_bound :: "real \<Rightarrow> sample \<Rightarrow> bound" where
  "sample_bound floor' sm = (if \<not> smProposed sm then BoundEvidence else if floor' \<le> smConfidence sm then BoundNone
     else if smComputed sm < floor' then BoundEvidence else BoundSelfReport)"

text \<open>What the fold holds after the samples \<open>seen\<close>.\<close>

definition folded :: "real \<Rightarrow> nat \<Rightarrow> sample list \<Rightarrow> fold_state \<Rightarrow> bool" where
  "folded floor' n seen f \<longleftrightarrow>
     syN (foSummary f) = n \<and> syFloor (foSummary f) = floor' \<and>
     syNoProposal (foSummary f) = length (filter (\<lambda>x. \<not> smProposed x) seen) \<and>
     syAutoApproved (foSummary f) = length (filter (\<lambda>x. sample_bound floor' x = BoundNone) seen) \<and>
     syBoundEvidence (foSummary f) = length (filter (\<lambda>x. sample_bound floor' x = BoundEvidence) seen) \<and>
     syBoundSelfReport (foSummary f) = length (filter (\<lambda>x. sample_bound floor' x = BoundSelfReport) seen) \<and>
     syUnderFloor (foSummary f) = length (filter (\<lambda>x. sample_bound floor' x \<noteq> BoundNone) seen) \<and>
     foCounted f = length (shown seen) \<and> foConfSum f = sum_list (shown seen) \<and>
     (shown seen \<noteq> [] \<longrightarrow> spMin (syConfidence (foSummary f)) = Min (set (shown seen)) \<and>
        spMax (syConfidence (foSummary f)) = Max (set (shown seen)))"

lemma shown_snoc: "shown (seen @ [x]) = shown seen @ (if smProposed x then [smConfidence x] else [])"
  by (simp add: shown_def)

lemma widen_sel:
  "spMin (widen b x sp) = (if b then x else min (spMin sp) x)" "spMax (widen b x sp) = (if b then x else max (spMax sp) x)"
  by (simp_all add: widen_def)

lemma folded_step:
  assumes "folded floor' n seen f"
  shows "folded floor' n (seen @ [x]) (summarize_step floor' f x)"
proof (cases "smProposed x")
  case False
  then show ?thesis using assms by (simp add: folded_def summarize_step_def Let_def shown_snoc sample_bound_def)
next
  case True
  have extremes: "Min (set (shown seen @ [y])) = (if shown seen = [] then y else min (Min (set (shown seen))) y)"
    "Max (set (shown seen @ [y])) = (if shown seen = [] then y else max (Max (set (shown seen))) y)" for y
    by (auto simp: min.commute max.commute)
  from True assms show ?thesis
    by (simp add: folded_def summarize_step_def Let_def shown_snoc sample_bound_def widen_sel extremes del: set_append)
qed

lemma folded_all: "folded floor' n samples (foldl (summarize_step floor') (start_fold floor' n) samples)"
proof (induction samples rule: rev_induct)
  case Nil
  then show ?case by (simp add: folded_def start_fold_def shown_def)
next
  case (snoc x samples)
  then show ?case by (simp add: folded_step)
qed

lemma mean_between:
  assumes "xs \<noteq> []"
  shows "Min (set xs) \<le> sum_list xs / real (length xs)" "sum_list xs / real (length xs) \<le> Max (set (xs :: real list))"
proof -
  have "sum_list (map (\<lambda>_. Min (set xs)) xs) \<le> sum_list (map (\<lambda>x. x) xs)" by (intro sum_list_mono) simp
  moreover have "sum_list (map (\<lambda>x. x) xs) \<le> sum_list (map (\<lambda>_. Max (set xs)) xs)" by (intro sum_list_mono) simp
  ultimately show "Min (set xs) \<le> sum_list xs / real (length xs)" "sum_list xs / real (length xs) \<le> Max (set xs)"
    using assms by (simp_all add: sum_list_triv field_simps)
qed

text \<open>a summary accounts for every run: each is approved or under the floor, each under the floor is bound by its
  evidence or by its self-report, and a run that proposed nothing is under the floor; the spread it prints lies
  between confidences that were observed, with the mean in between.\<close>

theorem summary_accounts:
  "let s = summarize samples floor' in
     syN s = length samples \<and> syAutoApproved s + syUnderFloor s = syN s \<and>
     syBoundEvidence s + syBoundSelfReport s = syUnderFloor s \<and> syNoProposal s \<le> syBoundEvidence s \<and>
     syAutoApproved s = length (filter (\<lambda>x. smProposed x \<and> floor' \<le> smConfidence x) samples) \<and>
     (shown samples = [] \<or>
        spMin (syConfidence s) \<in> set (shown samples) \<and> spMax (syConfidence s) \<in> set (shown samples) \<and>
        spMin (syConfidence s) \<le> spMean (syConfidence s) \<and> spMean (syConfidence s) \<le> spMax (syConfidence s))"
proof -
  define f where "f = foldl (summarize_step floor') (start_fold floor' (length samples)) samples"
  note f = folded_all [of floor' "length samples" samples, folded f_def, unfolded folded_def]
  have counts: "syN (summarize samples floor') = syN (foSummary f)" "syAutoApproved (summarize samples floor') = syAutoApproved (foSummary f)"
    "syUnderFloor (summarize samples floor') = syUnderFloor (foSummary f)" "syNoProposal (summarize samples floor') = syNoProposal (foSummary f)"
    "syBoundEvidence (summarize samples floor') = syBoundEvidence (foSummary f)"
    "syBoundSelfReport (summarize samples floor') = syBoundSelfReport (foSummary f)"
    by (simp_all add: summarize_def Let_def f_def)
  have split: "length (filter (\<lambda>x. sample_bound floor' x = BoundNone) samples) + length (filter (\<lambda>x. sample_bound floor' x \<noteq> BoundNone) samples) = length samples"
    by (rule sum_length_filter_compl)
  have under: "length (filter (\<lambda>x. sample_bound floor' x = BoundEvidence) xs) + length (filter (\<lambda>x. sample_bound floor' x = BoundSelfReport) xs) =
      length (filter (\<lambda>x. sample_bound floor' x \<noteq> BoundNone) xs)" for xs
    by (induction xs) (auto, metis bound.exhaust)
  have none: "length (filter (\<lambda>x. \<not> smProposed x) xs) \<le> length (filter (\<lambda>x. sample_bound floor' x = BoundEvidence) xs)" for xs
    by (induction xs) (auto simp: sample_bound_def)
  have approved: "(\<lambda>x. sample_bound floor' x = BoundNone) = (\<lambda>x. smProposed x \<and> floor' \<le> smConfidence x)"
    by (auto simp: sample_bound_def fun_eq_iff)
  have spreads: "spMin (syConfidence (summarize samples floor')) = Min (set (shown samples))"
    "spMax (syConfidence (summarize samples floor')) = Max (set (shown samples))"
    "spMean (syConfidence (summarize samples floor')) = sum_list (shown samples) / real (length (shown samples))" if "shown samples \<noteq> []"
    using f that by (simp_all add: summarize_def Let_def f_def [symmetric])
  show ?thesis
    unfolding Let_def counts using f split under [of samples] none [of samples] spreads mean_between [of "shown samples"]
    by (auto simp: approved)
qed

text \<open>The suite and the probe name the same bound for a run whose confidence is held below its computed score, as
  the engine's always is.\<close>

lemma instruments_agree:
  "srContractRef r \<noteq> [] \<Longrightarrow> srConfidence r \<le> srComputed r \<Longrightarrow> sample_bound floor' (row_sample r) = boundBy r floor'"
  by (auto simp: sample_bound_def row_sample_def boundBy_def)

subsection \<open>What a probe draws\<close>

lemma propose_fresh_runs:
  assumes "propose e rd sig st = (Inr x, st')" "esLedger st = newProposalLog" "enPub e = None" "enJournal e = None"
  shows "\<exists>ps. x = Some ps \<and> esPublished st' = esPublished st \<and> esJournaled st' = esJournaled st"
proof -
  have "x \<noteq> None"
  proof
    assume "x = None"
    with assms(1) show False
    proof (cases rule: propose_cases)
      case skipped
      have "fst (propose e rd sig st) \<noteq> Inr None"
      proof -
        have "plog_open c fp since newProposalLog \<noteq> Inr (y # ys)" for c fp since y ys
          by (simp add: plog_open_def newProposalLog_def)
        moreover obtain r st1 where run: "propose_run e rd sig st = (r, st1)" by fastforce
        moreover have "r \<noteq> Inr None" using propose_run_cases [OF run] by auto
        ultimately show ?thesis unfolding propose_def assms(2)
          by (auto simp: Let_def case_prod_beta neq_Nil_conv split: sum.splits)
      qed
      with assms(1) \<open>x = None\<close> show False by simp
    next
      case (run st1 w)
      with propose_run_cases [OF run(1)] \<open>x = None\<close> show False by simp
    qed simp
  qed
  then obtain ps where "x = Some ps" by auto
  with propose_delivery [OF assms(1)] assms(3,4) show ?thesis by simp
qed

lemma probe_loop_draws:
  "probe_loop e rds reset det i n st = (Inr rows, st') \<Longrightarrow> enPub e = None \<Longrightarrow> enJournal e = None \<Longrightarrow>
   length rows = n \<and> esPublished st' = esPublished st \<and> esJournaled st' = esJournaled st \<and>
   (\<forall>k<n. \<exists>ps before. esLedger before = newProposalLog \<and> fst (propose e (rds (i + k)) det before) = Inr (Some ps) \<and>
      rows ! k = rowFor (i + k) ps)"
proof (induction n arbitrary: i st rows)
  case (Suc n)
  from Suc.prems(1) obtain x st1 rows' where
    first: "propose e (rds i) det (probeReset reset st) = (Inr x, st1)"
    and rest: "probe_loop e rds reset det (i + 1) n st1 = (Inr rows', st')"
    and rows: "rows = rowFor i (case x of None \<Rightarrow> zero_set | Some ps \<Rightarrow> ps) # rows'"
    by (auto split: prod.splits sum.splits)
  have fresh: "esLedger (probeReset reset st) = newProposalLog" by (simp add: probeReset_def)
  from propose_fresh_runs [OF first fresh Suc.prems(2,3)] obtain ps where
    ps: "x = Some ps" "esPublished st1 = esPublished st" "esJournaled st1 = esJournaled st" by (auto simp: probeReset_def)
  note IH = Suc.IH [OF rest Suc.prems(2,3)]
  have "\<exists>ps before. esLedger before = newProposalLog \<and> fst (propose e (rds (i + k)) det before) = Inr (Some ps) \<and>
      rows ! k = rowFor (i + k) ps" if "k < Suc n" for k
  proof (cases k)
    case 0
    then show ?thesis using first fresh ps rows by (intro exI [of _ ps] exI [of _ "probeReset reset st"]) simp
  next
    case (Suc j)
    with that IH have "\<exists>ps before. esLedger before = newProposalLog \<and> fst (propose e (rds (i + 1 + j)) det before) = Inr (Some ps) \<and>
      rows' ! j = rowFor (i + 1 + j) ps" by simp
    then show ?thesis using Suc rows by simp
  qed
  with IH ps rows show ?case by simp
qed simp

text \<open>a probe makes as many independent draws as it was asked for and leaves no trace: when it ends without an error
  there is one row per run, each read from a set the engine produced from an empty ledger, never from a skipped
  redelivery, and nothing was published or journaled.\<close>

theorem probe_draws_independent:
  assumes "probe_run e rds reset det n st = (Inr rows, st')" "enPub e = None" "enJournal e = None"
  shows "length rows = n \<and> esPublished st' = esPublished st \<and> esJournaled st' = esJournaled st \<and>
    (\<forall>k<n. \<exists>ps before. esLedger before = newProposalLog \<and> fst (propose e (rds (1 + k)) det before) = Inr (Some ps) \<and>
       rows ! k = rowFor (1 + k) ps)"
  using probe_loop_draws [OF assms(1) [unfolded probe_run_def] assms(2,3)] by simp

end
