(* ===== verification/Tune.thy ===== *)
theory Tune
  imports Suite
begin

text \<open>
  Sweeping the scoring weights over recorded runs (\<^verbatim>\<open>src/internal/tune\<close>): pairing recordings with their sets,
  the grid, the decision and its basis.

  Walking a directory and testing a file are arguments, and so are loading a recording and the replay, which the
  theorems instantiate. The grid's numbers are real; Go's unstable sort is an argument.
\<close>

subsection \<open>Recordings\<close>

record transcript_paths =
  tpJSONL :: string
  tpSet :: string

definition path_ext :: "string \<Rightarrow> string" where
  "path_ext p =
     (let base = rev (takeWhile (\<lambda>c. c \<noteq> CHR ''/'') (rev p))
      in if CHR ''.'' \<in> set base then CHR ''.'' # rev (takeWhile (\<lambda>c. c \<noteq> CHR ''.'') (rev base)) else [])"

definition path_base :: "string \<Rightarrow> string" where
  "path_base p =
     (if p = [] then ''.''
      else (let q = rev (dropWhile (\<lambda>c. c = CHR ''/'') (rev p))
            in if q = [] then ''/'' else rev (takeWhile (\<lambda>c. c \<noteq> CHR ''/'') (rev q))))"

text \<open>A step of the walk: an entry with whether it is a directory, or an error, which is or is not that the path
  does not exist.\<close>

datatype walk_step = WalkEntry string bool | WalkMissing | WalkError string

fun walk_pairs :: "(string \<Rightarrow> bool) \<Rightarrow> walk_step list \<Rightarrow> transcript_paths list \<Rightarrow> string + transcript_paths list" where
  "walk_pairs exists [] pairs = Inr pairs"
| "walk_pairs exists (WalkMissing # ws) pairs = Inr pairs"
| "walk_pairs exists (WalkError e # ws) pairs = Inl e"
| "walk_pairs exists (WalkEntry path isDir # ws) pairs =
     (if isDir \<or> path_ext path \<noteq> ''.jsonl'' then walk_pairs exists ws pairs
      else (let setPath = trim_suffix ''.jsonl'' path @ ''.set.json''
            in if exists setPath then walk_pairs exists ws (pairs @ [\<lparr>tpJSONL = path, tpSet = setPath\<rparr>])
               else walk_pairs exists ws pairs))"

definition findTranscripts ::
  "(transcript_paths list \<Rightarrow> transcript_paths list) \<Rightarrow> (string \<Rightarrow> bool) \<Rightarrow> (string \<Rightarrow> walk_step list) \<Rightarrow> string \<Rightarrow> string + transcript_paths list" where
  "findTranscripts sorter exists walkDir dir =
     (case walk_pairs exists (walkDir dir) [] of
        Inl e \<Rightarrow> Inl (''tune: read '' @ dir @ '': '' @ e)
      | Inr pairs \<Rightarrow> Inr (sorter pairs))"

subsection \<open>The grid\<close>

record point =
  ptGroundingNone :: real
  ptGroundingOne :: real
  ptMeanConfidence :: real
  ptMoved :: nat
  ptGrounded :: nat

record sweep_config =
  swcTranscripts :: "transcript_paths list"
  swcSteps :: int
  swcGrounded :: "suite_report \<Rightarrow> nat"
  swcCases :: "graded_case list"
  swcLabels :: "string \<rightharpoonup> label"

definition defaultScoringWeights :: scoring_weights where
  "defaultScoringWeights = \<lparr>swTemporal = 1/3, swTopological = 1/3, swHistorical = 1/3, swHistoricalHalfLife = 30 * 24 * hour,
     swGroundingNone = 3/10, swGroundingOne = 7/10, swGroundingMany = 1, swCausal = 1/2,
     swRecencyHalfLife = 30 * minute, swHistoricalAloneCap = 1/2, swCaseBaseBaseline = 9/10, swNegativeSignalPenalty = 2/10\<rparr>"

definition transcriptName :: "graded_case \<Rightarrow> string" where
  "transcriptName c = trim_suffix (path_ext (gcFixture c)) (gcFixture c)"

definition by_stem :: "graded_case list \<Rightarrow> string \<rightharpoonup> graded_case" where
  "by_stem cases = foldl (\<lambda>m c. m(transcriptName c \<mapsto> c)) Map.empty cases"

definition stem_of :: "transcript \<Rightarrow> string" where
  "stem_of tr = trim_suffix ''.jsonl'' (path_base (tcPath tr))"

datatype tune_error = NoTranscripts | LoadFailed load_transcript_error | NoneUsable | NoneLabelled | SweepReplay replay_error

fun load_all :: "(transcript_paths \<Rightarrow> load_transcript_error + transcript) \<Rightarrow> transcript_paths list \<Rightarrow> tune_error + transcript list" where
  "load_all load [] = Inr []"
| "load_all load (p # ps) =
     (case load p of
        Inl e \<Rightarrow> Inl (LoadFailed e)
      | Inr tr \<Rightarrow> (case load_all load ps of Inl e \<Rightarrow> Inl e | Inr trs \<Rightarrow> Inr (tr # trs)))"

type_synonym replayer = "transcript \<Rightarrow> scoring_weights \<Rightarrow> replay_error + proposal_set option"

definition grade_one :: "sweep_config \<Rightarrow> transcript \<Rightarrow> proposal_set \<Rightarrow> suite_row list" where
  "grade_one cfg tr s =
     (case swcLabels cfg (tcRunID tr) of
        Some l \<Rightarrow> [gradeByLabel l s]
      | None \<Rightarrow> (case by_stem (swcCases cfg) (stem_of tr) of Some c \<Rightarrow> [suite_grade c s] | None \<Rightarrow> []))"

record cell =
  ceSum :: real
  ceN :: nat
  ceMoved :: nat
  ceRows :: "suite_row list"

definition count_top :: "transcript \<Rightarrow> proposal_set \<Rightarrow> cell \<Rightarrow> cell" where
  "count_top tr s acc =
     (case psProposals s of
        [] \<Rightarrow> acc
      | t # _ \<Rightarrow> acc\<lparr>ceSum := ceSum acc + cndComputedConfidence t, ceN := ceN acc + 1,
                     ceMoved := ceMoved acc +
                       (case psProposals (tcSet tr) of
                          [] \<Rightarrow> 0 | t0 # _ \<Rightarrow> if cndComputedConfidence t \<noteq> cndComputedConfidence t0 then 1 else 0)\<rparr>)"

fun sweep_cell :: "sweep_config \<Rightarrow> replayer \<Rightarrow> scoring_weights \<Rightarrow> transcript list \<Rightarrow> cell \<Rightarrow> tune_error + cell" where
  "sweep_cell cfg rep w [] acc = Inr acc"
| "sweep_cell cfg rep w (tr # trs) acc =
     (case rep tr w of
        Inl e \<Rightarrow> Inl (SweepReplay e)
      | Inr r \<Rightarrow>
          (let s = (case r of None \<Rightarrow> zero_set | Some ps \<Rightarrow> ps); acc = count_top tr s acc
           in sweep_cell cfg rep w trs (acc\<lparr>ceRows := ceRows acc @ grade_one cfg tr s\<rparr>)))"

definition grid_weights :: "nat \<Rightarrow> nat \<Rightarrow> scoring_weights" where
  "grid_weights i j = defaultScoringWeights\<lparr>swGroundingNone := 1/10 + 1/10 * real i, swGroundingOne := 4/10 + 1/10 * real j\<rparr>"

definition sweep_point :: "sweep_config \<Rightarrow> replayer \<Rightarrow> transcript list \<Rightarrow> nat \<times> nat \<Rightarrow> tune_error + point" where
  "sweep_point cfg rep trs ij =
     (let w = grid_weights (fst ij) (snd ij)
      in case sweep_cell cfg rep w trs \<lparr>ceSum = 0, ceN = 0, ceMoved = 0, ceRows = []\<rparr> of
           Inl e \<Rightarrow> Inl e
         | Inr c \<Rightarrow> Inr \<lparr>ptGroundingNone = swGroundingNone w, ptGroundingOne = swGroundingOne w,
                         ptMeanConfidence = (if ceN c > 0 then ceSum c / real (ceN c) else 0), ptMoved = ceMoved c,
                         ptGrounded = swcGrounded cfg (newReport (ceRows c))\<rparr>)"

fun sweep_points :: "sweep_config \<Rightarrow> replayer \<Rightarrow> transcript list \<Rightarrow> (nat \<times> nat) list \<Rightarrow> tune_error + point list" where
  "sweep_points cfg rep trs [] = Inr []"
| "sweep_points cfg rep trs (ij # ijs) =
     (case sweep_point cfg rep trs ij of
        Inl e \<Rightarrow> Inl e
      | Inr p \<Rightarrow> (case sweep_points cfg rep trs ijs of Inl e \<Rightarrow> Inl e | Inr ps \<Rightarrow> Inr (p # ps)))"

definition usable :: "replayer \<Rightarrow> transcript list \<Rightarrow> transcript list" where
  "usable rep trs = filter (\<lambda>tr. \<not> isl (rep tr defaultScoringWeights)) trs"

definition labelled :: "sweep_config \<Rightarrow> transcript \<Rightarrow> bool" where
  "labelled cfg tr \<longleftrightarrow> swcLabels cfg (tcRunID tr) \<noteq> None \<or> by_stem (swcCases cfg) (stem_of tr) \<noteq> None"

definition sweep_steps :: "sweep_config \<Rightarrow> nat" where
  "sweep_steps cfg = (if swcSteps cfg < 2 then 5 else nat (swcSteps cfg))"

definition grid :: "nat \<Rightarrow> (nat \<times> nat) list" where
  "grid steps = concat (map (\<lambda>i. map (Pair i) [0..<steps]) [0..<steps])"

definition tune_run ::
  "(transcript_paths \<Rightarrow> load_transcript_error + transcript) \<Rightarrow> replayer \<Rightarrow> sweep_config \<Rightarrow> tune_error + point list" where
  "tune_run load rep cfg =
     (if swcTranscripts cfg = [] then Inl NoTranscripts
      else case load_all load (swcTranscripts cfg) of
        Inl e \<Rightarrow> Inl e
      | Inr loaded \<Rightarrow>
          (let trs = usable rep loaded
           in if trs = [] then Inl NoneUsable
              else if (swcCases cfg \<noteq> [] \<or> swcLabels cfg \<noteq> Map.empty) \<and> \<not> list_ex (labelled cfg) trs then Inl NoneLabelled
              else sweep_points cfg rep trs (grid (sweep_steps cfg))))"

subsection \<open>The decision\<close>

record tuning =
  tuFile :: string
  tuKey :: string
  tuTo :: real
  tuBasis :: string

definition onGroundingNone :: "(point list \<Rightarrow> point list) \<Rightarrow> point list \<Rightarrow> real \<Rightarrow> point list" where
  "onGroundingNone sorter points none = sorter (filter (\<lambda>p. ptGroundingNone p = none) points)"

definition peak_grounded :: "point list \<Rightarrow> nat" where
  "peak_grounded band = foldl (\<lambda>m p. if ptGrounded p > m then ptGrounded p else m) 0 band"

fun longest_loop :: "nat \<Rightarrow> point list \<Rightarrow> point list \<Rightarrow> point list \<Rightarrow> point list" where
  "longest_loop peak [] best cur = best"
| "longest_loop peak (p # ps) best cur =
     (if ptGrounded p \<noteq> peak then longest_loop peak ps best []
      else (let cur = cur @ [p] in longest_loop peak ps (if length best < length cur then cur else best) cur))"

definition longestRunAtMax :: "point list \<Rightarrow> point list" where
  "longestRunAtMax band = longest_loop (peak_grounded band) band [] []"

fun index_of :: "'a \<Rightarrow> 'a list \<Rightarrow> int" where
  "index_of x [] = -1"
| "index_of x (y # ys) = (if y = x then 0 else (let i = index_of x ys in if i < 0 then -1 else i + 1))"

definition basisFor :: "point list \<Rightarrow> point list \<Rightarrow> string" where
  "basisFor band best =
     (let lo = ptGroundingOne (hd best); hi = ptGroundingOne (last best);
          basis = ''grounded='' @ show_nat (ptGrounded (hd best)) @ '' holds for groundingOne in ['' @ show_fixed2 lo @ '', '' @ show_fixed2 hi @ '']'';
          loIdx = index_of (hd best) band;
          basis = (if loIdx > 0
                   then basis @ ''; below '' @ show_fixed2 lo @ '', grounded falls to '' @ show_nat (ptGrounded (band ! nat (loIdx - 1)))
                   else basis);
          hiIdx = index_of (last best) band
      in if hiIdx < int (length band) - 1
         then basis @ ''; above '' @ show_fixed2 hi @ '', grounded falls to '' @ show_nat (ptGrounded (band ! nat (hiIdx + 1)))
         else basis @ ''; the grid ends at '' @ show_fixed2 hi @ '' with no ceiling found in range'')"

datatype decision_result = Recommend tuning | NotYet string | IndexPanic

definition decide :: "(point list \<Rightarrow> point list) \<Rightarrow> point list \<Rightarrow> decision_result" where
  "decide sorter points =
     (case points of
        [] \<Rightarrow> NotYet ''no swept grid to decide over''
      | p0 # _ \<Rightarrow>
          (let band = onGroundingNone sorter points (ptGroundingNone p0); best = longestRunAtMax band
           in case best of
                [] \<Rightarrow> IndexPanic
              | b # _ \<Rightarrow>
                  if ptGrounded b = 0
                  then NotYet ''no point in the swept grid grounds a labelled row; the corpus cannot distinguish these weights yet''
                  else if length best = length band
                  then NotYet (''every point in the swept grid grounds '' @ show_nat (ptGrounded b) @
                         '' labelled rows; the corpus cannot distinguish these weights yet'')
                  else (let lo = ptGroundingOne b; hi = ptGroundingOne (last best)
                        in Recommend \<lparr>tuFile = ''config/clank/weights.yaml'', tuKey = ''groundingOne'', tuTo = (lo + hi) / 2,
                             tuBasis = basisFor band best\<rparr>)))"

subsection \<open>The bracket\<close>

lemma peak_fold:
  fixes k band
  defines "m \<equiv> foldl (\<lambda>m p. if ptGrounded p > m then ptGrounded p else m) k band"
  shows "k \<le> m \<and> (\<forall>p\<in>set band. ptGrounded p \<le> m) \<and> (m = k \<or> (\<exists>p\<in>set band. ptGrounded p = m))"
  unfolding m_def
proof (induction band arbitrary: k)
  case (Cons a band)
  from Cons.IH [of "if ptGrounded a > k then ptGrounded a else k"] show ?case by (auto split: if_splits)
qed simp

lemma peak_attained: "band \<noteq> [] \<Longrightarrow> \<exists>p\<in>set band. ptGrounded p = peak_grounded band"
  using peak_fold [of 0 band] by (auto simp: peak_grounded_def neq_Nil_conv)

lemma peak_upper: "p \<in> set band \<Longrightarrow> ptGrounded p \<le> peak_grounded band"
  using peak_fold [of 0 band] by (auto simp: peak_grounded_def)

text \<open>After the points \<open>seen\<close>, \<open>cur\<close> is their longest tail at the peak and \<open>best\<close> a longest stretch.\<close>

definition tracked :: "nat \<Rightarrow> point list \<Rightarrow> point list \<Rightarrow> point list \<Rightarrow> bool" where
  "tracked peak seen best cur \<longleftrightarrow>
     rev cur = takeWhile (\<lambda>p. ptGrounded p = peak) (rev seen) \<and>
     sublist best seen \<and> list_all (\<lambda>p. ptGrounded p = peak) best \<and>
     (\<forall>r. sublist r seen \<and> list_all (\<lambda>p. ptGrounded p = peak) r \<longrightarrow> length r \<le> length best)"

lemma tail_at_peak:
  assumes "suffix r seen" "list_all (\<lambda>p. P p) r"
  shows "length r \<le> length (takeWhile P (rev seen))"
proof -
  from assms(1) obtain pre where "rev seen = rev r @ pre" by (auto simp: suffix_def)
  moreover have "takeWhile P (rev r @ pre) = rev r @ takeWhile P pre"
    using assms(2) by (intro takeWhile_append2) (simp add: list_all_iff)
  ultimately show ?thesis by simp
qed

lemma sublist_snocD: "sublist r (seen @ [p]) \<Longrightarrow> sublist r seen \<or> suffix r (seen @ [p])"
proof -
  assume "sublist r (seen @ [p])"
  then obtain pre post where "seen @ [p] = pre @ r @ post" by (auto simp: sublist_def)
  then show ?thesis by (cases post rule: rev_cases) (auto simp: sublist_def suffix_def)
qed

lemma tracked_step:
  assumes "tracked peak seen best cur"
  shows "if ptGrounded p \<noteq> peak then tracked peak (seen @ [p]) best []
    else tracked peak (seen @ [p]) (if length best < length (cur @ [p]) then cur @ [p] else best) (cur @ [p])"
proof (cases "ptGrounded p = peak")
  case False
  have "length r \<le> length best" if "sublist r (seen @ [p])" "list_all (\<lambda>p. ptGrounded p = peak) r" for r
  proof -
    from sublist_snocD [OF that(1)] consider "sublist r seen" | "suffix r (seen @ [p])" by blast
    then show ?thesis
    proof cases
      case 1
      with assms that(2) show ?thesis by (simp add: tracked_def)
    next
      case 2
      with that(2) False have "r = []" by (cases r rule: rev_cases) (auto simp: suffix_def)
      then show ?thesis by simp
    qed
  qed
  moreover have "sublist best (seen @ [p])" using assms by (simp add: tracked_def sublist_append)
  ultimately show ?thesis using assms False by (simp add: tracked_def)
next
  case True
  let ?P = "\<lambda>p. ptGrounded p = peak"
  have cur: "rev (cur @ [p]) = takeWhile ?P (rev (seen @ [p]))" using assms True by (simp add: tracked_def)
  have "prefix (rev (cur @ [p])) (rev (seen @ [p]))" unfolding cur by (rule takeWhile_is_prefix)
  then have tail: "suffix (cur @ [p]) (seen @ [p])" by (simp only: suffix_to_prefix)
  have "set (rev cur) = set (takeWhile ?P (rev seen))" using assms unfolding tracked_def by (elim conjE) (rule arg_cong)
  then have all: "list_all ?P (cur @ [p])" using True by (auto simp: list_all_iff dest: set_takeWhileD)
  have bound: "length r \<le> max (length best) (length (cur @ [p]))" if "sublist r (seen @ [p])" "list_all ?P r" for r
  proof -
    from sublist_snocD [OF that(1)] consider "sublist r seen" | "suffix r (seen @ [p])" by blast
    then show ?thesis
    proof cases
      case 1
      with assms that(2) have "length r \<le> length best" by (simp add: tracked_def)
      then show ?thesis by simp
    next
      case 2
      from tail_at_peak [OF this that(2)] have "length r \<le> length (rev (cur @ [p]))" by (simp only: cur)
      then show ?thesis by simp
    qed
  qed
  have best: "sublist best (seen @ [p])" "list_all ?P best" using assms by (simp_all add: tracked_def sublist_append)
  show ?thesis
  proof (cases "length best < length (cur @ [p])")
    case longer: True
    have "tracked peak (seen @ [p]) (cur @ [p]) (cur @ [p])"
      unfolding tracked_def
    proof (intro conjI allI impI)
      fix r assume "sublist r (seen @ [p]) \<and> list_all ?P r"
      with bound [of r] longer show "length r \<le> length (cur @ [p])" by linarith
    qed (rule cur, rule suffix_imp_sublist [OF tail], rule all)
    then show ?thesis using True longer by simp
  next
    case shorter: False
    have "tracked peak (seen @ [p]) best (cur @ [p])"
      unfolding tracked_def
    proof (intro conjI allI impI)
      fix r assume "sublist r (seen @ [p]) \<and> list_all ?P r"
      with bound [of r] shorter show "length r \<le> length best" by linarith
    qed (rule cur, rule best, rule best)
    then show ?thesis using True shorter by simp
  qed
qed

lemma longest_tracked: "tracked peak seen best cur \<Longrightarrow> \<exists>cur'. tracked peak (seen @ ps) (longest_loop peak ps best cur) cur'"
proof (induction ps arbitrary: seen best cur)
  case (Cons p ps)
  from tracked_step [OF Cons.prems, of p] show ?case
  proof (cases "ptGrounded p = peak")
    case True
    with tracked_step [OF Cons.prems, of p] Cons.IH show ?thesis by (force simp: Let_def)
  next
    case False
    with tracked_step [OF Cons.prems, of p] Cons.IH show ?thesis by force
  qed
qed auto

lemma longest_run:
  fixes band
  defines "best \<equiv> longestRunAtMax band" and "peak \<equiv> peak_grounded band"
  shows "sublist best band" "list_all (\<lambda>p. ptGrounded p = peak) best"
    "sublist r band \<Longrightarrow> list_all (\<lambda>p. ptGrounded p = peak) r \<Longrightarrow> length r \<le> length best"
proof -
  have "tracked peak [] [] []" by (simp add: tracked_def)
  from longest_tracked [OF this, of band] show "sublist best band" "list_all (\<lambda>p. ptGrounded p = peak) best"
    "sublist r band \<Longrightarrow> list_all (\<lambda>p. ptGrounded p = peak) r \<Longrightarrow> length r \<le> length best"
    by (auto simp: tracked_def best_def peak_def longestRunAtMax_def)
qed

lemma longest_nonempty:
  assumes "band \<noteq> []"
  shows "longestRunAtMax band \<noteq> []"
proof -
  obtain p where p: "p \<in> set band" "ptGrounded p = peak_grounded band" using peak_attained [OF assms] by blast
  then obtain pre post where "band = pre @ [p] @ post" by (auto simp: in_set_conv_decomp)
  then have "sublist [p] band" by (auto simp: sublist_def)
  from longest_run(3) [OF this] p show ?thesis by fastforce
qed

subsection \<open>The decision is sound\<close>

definition sorts_points :: "(point list \<Rightarrow> point list) \<Rightarrow> bool" where
  "sorts_points sorter \<longleftrightarrow> (\<forall>xs. mset (sorter xs) = mset xs \<and> sorted (map ptGroundingOne (sorter xs)))"

lemma band_members: "sorts_points sorter \<Longrightarrow> set (onGroundingNone sorter points none) = {p \<in> set points. ptGroundingNone p = none}"
  by (simp add: onGroundingNone_def sorts_points_def flip: set_mset_mset)

lemma band_nonempty: "sorts_points sorter \<Longrightarrow> onGroundingNone sorter (p # ps) (ptGroundingNone p) \<noteq> []"
  using band_members [of sorter "p # ps" "ptGroundingNone p"] by force

lemma decide_total: "sorts_points sorter \<Longrightarrow> decide sorter points \<noteq> IndexPanic"
  using longest_nonempty [OF band_nonempty] by (auto simp: decide_def Let_def split: list.splits)

lemma within_stretch:
  assumes "band = pre @ best @ post" "best \<noteq> []" "sorted (map ptGroundingOne band)" "p \<in> set band"
    "ptGroundingOne (hd best) < ptGroundingOne p" "ptGroundingOne p < ptGroundingOne (last best)"
  shows "p \<in> set best"
proof -
  have "hd best \<in> set best" "last best \<in> set best" using assms(2) by simp_all
  with assms(1,3) have "p \<in> set pre \<Longrightarrow> ptGroundingOne p \<le> ptGroundingOne (hd best)"
    "p \<in> set post \<Longrightarrow> ptGroundingOne (last best) \<le> ptGroundingOne p" by (auto simp: sorted_append)
  with assms show ?thesis by fastforce
qed

text \<open>a recommendation is a bracket, not a maximum: it lies between two points of the swept band that ground the most
  labelled rows any point of the band grounds, every point strictly between them does as well, and some point of
  the band grounds fewer, so the labels do tell the weights apart.\<close>

theorem recommendation_is_a_bracket:
  assumes "sorts_points sorter" "decide sorter points = Recommend t"
  shows "\<exists>lo hi. lo \<in> set points \<and> hi \<in> set points \<and> ptGroundingNone hi = ptGroundingNone lo \<and> 0 < ptGrounded lo \<and>
    ptGroundingOne lo \<le> tuTo t \<and> tuTo t \<le> ptGroundingOne hi \<and> ptGrounded hi = ptGrounded lo \<and>
    (\<forall>p\<in>set points. ptGroundingNone p = ptGroundingNone lo \<longrightarrow> ptGrounded p \<le> ptGrounded lo \<and>
       (ptGroundingOne lo < ptGroundingOne p \<and> ptGroundingOne p < ptGroundingOne hi \<longrightarrow> ptGrounded p = ptGrounded lo)) \<and>
    (\<exists>p\<in>set points. ptGroundingNone p = ptGroundingNone lo \<and> ptGrounded p < ptGrounded lo)"
proof -
  obtain p0 ps where points: "points = p0 # ps" using assms(2) by (cases points) (auto simp: decide_def)
  define band where "band = onGroundingNone sorter points (ptGroundingNone p0)"
  define best where "best = longestRunAtMax band"
  have ne: "band \<noteq> []" using band_nonempty [OF assms(1)] by (simp add: band_def points)
  have bestne: "best \<noteq> []" using longest_nonempty [OF ne] by (simp add: best_def)
  have members: "set band = {p \<in> set points. ptGroundingNone p = ptGroundingNone p0}"
    unfolding band_def by (rule band_members [OF assms(1)])
  have sorted: "sorted (map ptGroundingOne band)" using assms(1) by (simp add: band_def onGroundingNone_def sorts_points_def)
  obtain b bs where b: "best = b # bs" using bestne by (cases best) auto
  have dec: "ptGrounded b \<noteq> 0" "length best \<noteq> length band" "tuTo t = (ptGroundingOne b + ptGroundingOne (last best)) / 2"
    using assms(2) b by (auto simp: decide_def points Let_def band_def [symmetric, unfolded points] best_def [symmetric] split: if_splits)
  have run: "sublist best band" "list_all (\<lambda>p. ptGrounded p = peak_grounded band) best"
    using longest_run(1,2) [of band] by (simp_all add: best_def)
  obtain pre post where split: "band = pre @ best @ post" using run(1) by (auto simp: sublist_def)
  have last: "last best \<in> set best" "b \<in> set best" using b by simp_all
  have peak: "ptGrounded p = peak_grounded band" if "p \<in> set best" for p using run(2) that by (auto simp: list_all_iff)
  have inband: "b \<in> set band" "last best \<in> set band" using last split by auto
  have order: "ptGroundingOne b \<le> ptGroundingOne (last best)"
    using sorted split b by (cases bs rule: rev_cases) (auto simp: sorted_append)
  have below: "\<exists>p\<in>set band. ptGrounded p < ptGrounded b"
  proof (rule ccontr)
    assume "\<not> ?thesis"
    then have "list_all (\<lambda>p. ptGrounded p = peak_grounded band) band"
      using peak_upper peak [OF last(2)] by (fastforce simp: list_all_iff)
    from longest_run(3) [OF sublist_order.order_refl this] have "length band \<le> length best" by (simp only: best_def)
    with sublist_length_le [OF run(1)] dec(2) show False by simp
  qed
  have inside: "ptGrounded p = ptGrounded b" if "p \<in> set band" "ptGroundingOne b < ptGroundingOne p" "ptGroundingOne p < ptGroundingOne (last best)" for p
    using within_stretch [OF split bestne sorted that(1)] that b peak last by simp
  have upper: "ptGrounded p \<le> ptGrounded b" if "p \<in> set band" for p using peak_upper [OF that] peak [OF last(2)] by simp
  have middle: "ptGroundingOne b \<le> tuTo t" "tuTo t \<le> ptGroundingOne (last best)" using order dec(3) by simp_all
  have none: "ptGroundingNone b = ptGroundingNone p0" "ptGroundingNone (last best) = ptGroundingNone p0" "b \<in> set points" "last best \<in> set points"
    using inband members by auto
  have inband': "p \<in> set band" if "p \<in> set points" "ptGroundingNone p = ptGroundingNone b" for p using that members none by simp
  have below': "\<exists>p\<in>set points. ptGroundingNone p = ptGroundingNone b \<and> ptGrounded p < ptGrounded b" using below members none by auto
  show ?thesis
  proof (intro exI conjI ballI impI)
    show "b \<in> set points" "last best \<in> set points" by (rule none)+
    show "ptGroundingNone (last best) = ptGroundingNone b" using none by simp
    show "0 < ptGrounded b" using dec(1) by simp
    show "ptGrounded (last best) = ptGrounded b" using peak last by simp
  qed (use middle inband' upper inside below' in \<open>blast+\<close>)
qed

lemma flat_band_undecided:
  assumes "sorts_points sorter" "\<forall>p\<in>set points. ptGrounded p = g"
  shows "\<exists>why. decide sorter points = NotYet why"
proof (cases points)
  case (Cons p0 ps)
  define band where "band = onGroundingNone sorter points (ptGroundingNone p0)"
  have ne: "band \<noteq> []" using band_nonempty [OF assms(1)] by (simp add: band_def Cons)
  have flat: "\<forall>p\<in>set band. ptGrounded p = g" using band_members [OF assms(1)] assms(2) by (auto simp: band_def)
  with peak_attained [OF ne] have "list_all (\<lambda>p. ptGrounded p = peak_grounded band) band" by (auto simp: list_all_iff)
  from longest_run(3) [OF sublist_order.order_refl this] have "length (longestRunAtMax band) = length band"
    using sublist_length_le [OF longest_run(1) [of band]] by simp
  moreover obtain b bs where "longestRunAtMax band = b # bs" using longest_nonempty [OF ne] by (cases "longestRunAtMax band") auto
  ultimately show ?thesis by (auto simp: decide_def Cons Let_def band_def [symmetric, unfolded Cons])
qed (simp add: decide_def)

subsection \<open>What can move a sweep\<close>

definition weighed :: "sweep_config \<Rightarrow> transcript \<Rightarrow> bool" where
  "weighed cfg tr \<longleftrightarrow> swcLabels cfg (tcRunID tr) = None \<and>
     (case by_stem (swcCases cfg) (stem_of tr) of None \<Rightarrow> False | Some c \<Rightarrow> gcWantConfidenceAtLeast c > 0)"

definition replayed_set :: "replay_error + proposal_set option \<Rightarrow> proposal_set" where
  "replayed_set r = (case r of Inr (Some ps) \<Rightarrow> ps | _ \<Rightarrow> zero_set)"

lemma suite_pass_same:
  assumes "same_but_scores s s'" "\<not> gcWantConfidenceAtLeast c > 0"
  shows "srPass (suite_grade c s') = srPass (suite_grade c s)"
proof -
  have cls: "psFailureClass s' = psFailureClass s" and props: "map unscored (psProposals s') = map unscored (psProposals s)"
    using assms(1) by (simp_all add: same_but_scores_def)
  show ?thesis
  proof (cases "psProposals s")
    case Nil
    with props cls show ?thesis by (simp add: suite_grade_def blank_row_def Let_def)
  next
    case (Cons t ts)
    with props obtain t' ts' where t': "psProposals s' = t' # ts'" "unscored t' = unscored t" by (cases "psProposals s'") auto
    have "cndContractRef (unscored u) = cndContractRef u" for u by (simp add: unscored_def)
    with t'(2) have "cndContractRef t' = cndContractRef t" by metis
    moreover have "cndCitations t' = cndCitations t" using t'(2) unscored_sel(2) by metis
    ultimately show ?thesis using Cons t'(1) cls assms(2) by (simp add: suite_grade_def blank_row_def with_top_def Let_def)
  qed
qed

lemma label_pass: "srPass (gradeByLabel l s) = lbCorrect l"
  by (simp add: gradeByLabel_def blank_row_def with_top_def Let_def split: list.splits)

lemma grade_pass_same:
  assumes "same_but_scores s s'" "\<not> weighed cfg tr"
  shows "map srPass (grade_one cfg tr s') = map srPass (grade_one cfg tr s)"
  using assms(2) by (auto simp: grade_one_def weighed_def label_pass suite_pass_same [OF assms(1)] split: option.splits)

lemma count_top_rows: "ceRows (count_top tr s acc) = ceRows acc"
  by (simp add: count_top_def split: list.splits)

lemma sweep_cell_rows:
  "sweep_cell cfg rep w trs acc = Inr c \<Longrightarrow>
   ceRows c = ceRows acc @ concat (map (\<lambda>tr. grade_one cfg tr (replayed_set (rep tr w))) trs)"
proof (induction trs arbitrary: acc)
  case (Cons tr trs)
  then obtain r where r: "rep tr w = Inr r" by (auto split: sum.splits)
  have s: "replayed_set (Inr r) = (case r of None \<Rightarrow> zero_set | Some ps \<Rightarrow> ps)" by (simp add: replayed_set_def split: option.splits)
  from Cons.prems r have "sweep_cell cfg rep w trs ((count_top tr (replayed_set (Inr r)) acc)\<lparr>ceRows := ceRows acc @ grade_one cfg tr (replayed_set (Inr r))\<rparr>) = Inr c"
    by (simp add: Let_def s count_top_rows)
  from Cons.IH [OF this] r show ?case by simp
qed simp

lemma sweep_points_grounded:
  "sweep_points cfg rep trs ijs = Inr points \<Longrightarrow> swcGrounded cfg = suScored \<Longrightarrow>
   \<forall>p\<in>set points. \<exists>w. ptGrounded p = length (filter id (concat (map (\<lambda>tr. map srPass (grade_one cfg tr (replayed_set (rep tr w)))) trs)))"
proof (induction ijs arbitrary: points)
  case (Cons ij ijs)
  from Cons.prems(1) obtain p ps where p: "sweep_point cfg rep trs ij = Inr p" "sweep_points cfg rep trs ijs = Inr ps" "points = p # ps"
    by (auto split: sum.splits)
  let ?w = "grid_weights (fst ij) (snd ij)"
  from p(1) obtain c where c: "sweep_cell cfg rep ?w trs \<lparr>ceSum = 0, ceN = 0, ceMoved = 0, ceRows = []\<rparr> = Inr c"
    "ptGrounded p = swcGrounded cfg (newReport (ceRows c))" by (auto simp: sweep_point_def Let_def split: sum.splits)
  have passes: "length (filter srPass rows) = length (filter id (map srPass rows))" for rows by (induction rows) auto
  have "map srPass (ceRows c) = concat (map (\<lambda>tr. map srPass (grade_one cfg tr (replayed_set (rep tr ?w)))) trs)"
    using sweep_cell_rows [OF c(1)] by (simp add: map_concat comp_def)
  moreover have "ptGrounded p = length (filter srPass (ceRows c))" using c(2) Cons.prems(2) by (simp add: newReport_counts)
  ultimately have "ptGrounded p = length (filter id (concat (map (\<lambda>tr. map srPass (grade_one cfg tr (replayed_set (rep tr ?w)))) trs)))"
    unfolding passes by simp
  note point = this
  show ?case
  proof
    fix q assume "q \<in> set points"
    with p(3) consider "q = p" | "q \<in> set ps" by auto
    then show "\<exists>w. ptGrounded q = length (filter id (concat (map (\<lambda>tr. map srPass (grade_one cfg tr (replayed_set (rep tr w)))) trs)))"
      using point Cons.IH [OF p(2) Cons.prems(2)] by cases blast+
  qed
qed simp

lemma load_all_members: "load_all load ps = Inr trs \<Longrightarrow> tr \<in> set trs \<Longrightarrow> \<exists>p\<in>set ps. load p = Inr tr"
  by (induction ps arbitrary: trs) (auto split: sum.splits)

lemma replays_same_but_scores:
  assumes "\<not> isl (replay_propose rcfg rd tr w)"
  shows "same_but_scores (replayed_set (replay_propose rcfg rd tr w)) (replayed_set (replay_propose rcfg rd' tr w'))"
proof -
  obtain x where x: "replay_propose rcfg rd tr w = Inr x" using assms by (cases "replay_propose rcfg rd tr w") auto
  with replay_pair [where cfg = rcfg and rd = rd and tr = tr and w = w and rd' = rd' and w' = w'] obtain ps ps' where "x = Some ps" "replay_propose rcfg rd' tr w' = Inr (Some ps')" "same_but_scores ps ps'"
    by (cases x) auto
  with x show ?thesis by (simp add: replayed_set_def)
qed

text \<open>C40: only an authored row with a confidence floor can move a sweep: when every recording is graded by a settled label,
  or by a case without such a floor, or not at all, a sweep that completes decides nothing, because every point of
  the grid grounds the same rows.\<close>

theorem sweep_moved_by_confidence_rows:
  assumes "tune_run load (\<lambda>tr w. replay_propose rcfg (rds tr w) tr w) cfg = Inr points" "swcGrounded cfg = suScored"
    and "sorts_points sorter" "\<forall>p\<in>set (swcTranscripts cfg). \<forall>tr. load p = Inr tr \<longrightarrow> \<not> weighed cfg tr"
  shows "\<exists>why. decide sorter points = NotYet why"
proof -
  let ?rep = "\<lambda>tr w. replay_propose rcfg (rds tr w) tr w"
  obtain loaded where loaded: "load_all load (swcTranscripts cfg) = Inr loaded"
    and swept: "sweep_points cfg ?rep (usable ?rep loaded) (grid (sweep_steps cfg)) = Inr points"
    using assms(1) by (auto simp: tune_run_def Let_def split: if_splits sum.splits)
  define passes where "passes w tr = map srPass (grade_one cfg tr (replayed_set (?rep tr w)))" for w tr
  have same: "passes w tr = passes defaultScoringWeights tr" if "tr \<in> set (usable ?rep loaded)" for w tr
  proof -
    have "tr \<in> set loaded" and ran: "\<not> isl (?rep tr defaultScoringWeights)" using that by (simp_all add: usable_def)
    from load_all_members [OF loaded this(1)] assms(4) have unweighed: "\<not> weighed cfg tr" by blast
    from replays_same_but_scores [OF ran]
    have "same_but_scores (replayed_set (?rep tr defaultScoringWeights)) (replayed_set (?rep tr w))" .
    from grade_pass_same [OF this unweighed] show ?thesis unfolding passes_def .
  qed
  have "ptGrounded p = length (filter id (concat (map (passes defaultScoringWeights) (usable ?rep loaded))))" if p: "p \<in> set points" for p
  proof -
    from sweep_points_grounded [OF swept assms(2)] p obtain w where
      "ptGrounded p = length (filter id (concat (map (passes w) (usable ?rep loaded))))" unfolding passes_def by (elim ballE exE) auto
    moreover have "map (passes w) (usable ?rep loaded) = map (passes defaultScoringWeights) (usable ?rep loaded)"
      by (intro map_cong refl same)
    ultimately show ?thesis by (simp only:)
  qed
  then show ?thesis by (intro flat_band_undecided [OF assms(3)] ballI)
qed

subsection \<open>Examples\<close>

definition grid_point :: "real \<Rightarrow> nat \<Rightarrow> point" where
  "grid_point one g = \<lparr>ptGroundingNone = 1/10, ptGroundingOne = one, ptMeanConfidence = 0, ptMoved = 0, ptGrounded = g\<rparr>"

lemma sort_key_sorts_points: "sorts_points (sort_key ptGroundingOne)"
  by (simp add: sorts_points_def)

lemma sweep_completes:
  assumes "\<forall>tr\<in>set trs. \<forall>w. \<not> isl (rep tr w)"
  shows "\<exists>points. sweep_points cfg rep trs ijs = Inr points"
proof -
  have "\<exists>c. sweep_cell cfg rep w trs acc = Inr c" for w acc
    using assms
  proof (induction trs arbitrary: acc)
    case (Cons tr trs)
    from Cons.prems have "\<not> isl (rep tr w)" by simp
    then obtain r where "rep tr w = Inr r" by (cases "rep tr w") simp_all
    with Cons show ?case by (simp add: Let_def)
  qed simp
  then have "\<exists>p. sweep_point cfg rep trs ij = Inr p" for ij
  proof -
    obtain c where "sweep_cell cfg rep (grid_weights (fst ij) (snd ij)) trs \<lparr>ceSum = 0, ceN = 0, ceMoved = 0, ceRows = []\<rparr> = Inr c"
      using \<open>\<And>w acc. \<exists>c. sweep_cell cfg rep w trs acc = Inr c\<close> by blast
    then show ?thesis by (simp add: sweep_point_def Let_def)
  qed
  note points = this
  show ?thesis
  proof (induction ijs)
    case (Cons ij ijs)
    with points [of ij] show ?case by auto
  qed simp
qed

text \<open>A sweep over one recording, whose run a settled label grades.\<close>

theorem sweep_moved_by_confidence_rows_witness:
  "\<exists>tr points why. tcSet tr = recorded_set \<and>
     tune_run (\<lambda>_. Inr tr) (\<lambda>tr w. replay_propose recorded_config (example_readings 9) tr w)
       \<lparr>swcTranscripts = [\<lparr>tpJSONL = ''run.jsonl'', tpSet = ''run.set.json''\<rparr>], swcSteps = 0, swcGrounded = suScored, swcCases = [],
        swcLabels = [''run'' \<mapsto> \<lparr>lbRunID = ''run'', lbCorrect = True, lbSource = SourceConverged\<rparr>]\<rparr> = Inr points \<and>
     decide (sort_key ptGroundingOne) points = NotYet why"
proof -
  let ?rep = "\<lambda>tr w. replay_propose recorded_config (example_readings 9) tr w"
  let ?cfg = "\<lparr>swcTranscripts = [\<lparr>tpJSONL = ''run.jsonl'', tpSet = ''run.set.json''\<rparr>], swcSteps = 0, swcGrounded = suScored, swcCases = [],
        swcLabels = [''run'' \<mapsto> \<lparr>lbRunID = ''run'', lbCorrect = True, lbSource = SourceConverged\<rparr>]\<rparr>"
  obtain ls w' st' where run: "reason_loop recorded_engine (run_id (example_readings 7) steady_detection) (nat (enMaxSteps recorded_engine)) 0
     (initial_loop recorded_engine (example_readings 7) steady_detection example_sao) 0 = (Inr ls, w')"
    "finish_run recorded_engine (example_readings 7) steady_detection example_sao ls fresh_engine = (Inr (Some recorded_set), st')"
    using recorded_run by blast
  have replays: "\<not> isl (?rep (recording ls) w)" for w
    using replayed_run [OF run recorded_facts, of "example_readings 9" w] by auto
  have run: "tcRunID (recording ls) = ''run''" by (simp add: recording_def)
  have "usable ?rep [recording ls] = [recording ls]" by (simp add: usable_def replays)
  moreover have "labelled ?cfg (recording ls)" by (simp add: labelled_def run)
  moreover have "\<exists>points. sweep_points ?cfg ?rep [recording ls] (grid (sweep_steps ?cfg)) = Inr points"
    by (rule sweep_completes) (simp add: replays)
  ultimately obtain points where points: "tune_run (\<lambda>_. Inr (recording ls)) ?rep ?cfg = Inr points" by (auto simp: tune_run_def)
  have "\<forall>p\<in>set (swcTranscripts ?cfg). \<forall>tr. Inr (recording ls) = (Inr tr :: load_transcript_error + transcript) \<longrightarrow> \<not> weighed ?cfg tr"
    by (auto simp: weighed_def run)
  from sweep_moved_by_confidence_rows [OF points _ sort_key_sorts_points this] obtain why where
    "decide (sort_key ptGroundingOne) points = NotYet why" by auto
  with points show ?thesis by (intro exI [of _ "recording ls"] exI [of _ points] exI [of _ why]) (simp add: recorded_facts)
qed

text \<open>A band that rises into a plateau and falls out of it again.\<close>

theorem recommendation_is_a_bracket_witness:
  "\<exists>t. decide (sort_key ptGroundingOne) [grid_point (4/10) 1, grid_point (5/10) 2, grid_point (6/10) 2, grid_point (7/10) 0] = Recommend t \<and>
     4/10 \<le> tuTo t \<and> tuTo t \<le> 7/10"
proof -
  let ?points = "[grid_point (4/10) 1, grid_point (5/10) 2, grid_point (6/10) 2, grid_point (7/10) 0]"
  obtain t where t: "decide (sort_key ptGroundingOne) ?points = Recommend t"
    by (simp add: decide_def onGroundingNone_def grid_point_def longestRunAtMax_def peak_grounded_def Let_def)
  from recommendation_is_a_bracket [OF sort_key_sorts_points t] obtain lo hi where
    "lo \<in> set ?points" "hi \<in> set ?points" "ptGroundingOne lo \<le> tuTo t" "tuTo t \<le> ptGroundingOne hi" by blast
  then have "4/10 \<le> tuTo t" "tuTo t \<le> 7/10" by (auto simp: grid_point_def)
  with t show ?thesis by blast
qed

end
