(* ===== verification/Spec2Isabelle.thy ===== *)
theory Spec2Isabelle
  imports HissTransport ThumpTransport Propose Wal Rattle Broker Store
    ApprovalRequest Validate Environment Grounding Forge Breaker Scorecard Tune
begin

text \<open>
  A model of thump, an incident responder made of four processes, called beats, that talk over a broker.
  \<^verbatim>\<open>rattle\<close> watches service objectives and emits detections; \<^verbatim>\<open>clank\<close> lets a language model reason over
  a detection with read-only tools and emits gated proposal sets; \<^verbatim>\<open>hiss\<close> judges a set against an
  authored policy and emits decisions, holding what needs a human; \<^verbatim>\<open>thump\<close> renders an approval into an
  order, runs it, watches it converge and undoes it when it does not. Every record also goes to a
  write-ahead log that is shipped to a bucket, from which operators and offline tools read.

  \<^bold>\<open>Conventions.\<close> A Go struct is a record whose fields carry a short prefix, an open string
  enumeration a datatype with an \<open>Other\<close> case, a pointer or a value with a boolean an option, a value with
  an error a sum with the error on the left. Times and durations are integers of nanoseconds, with the
  saturation of \<^verbatim>\<open>time.Sub\<close> written out; floating point numbers are reals; strings are character lists;
  machine integers are words where they can wrap. Stateful code passes its state. What the code calls
  outside the repository (the model, the backends, the cluster, the broker, the file system, the cipher, the
  decoders) and what it reads from the clock or a cancelled context is an argument; a sort that need not be
  stable is an argument with its laws.

  \<^bold>\<open>Foundations.\<close> \<open>Prelude\<close>: time, rendering of numbers, results, generic lemmas. \<open>Boundary\<close>
  (\<^verbatim>\<open>src/api/v1\<close>): the records the beats exchange with their audit checks. \<open>Contract\<close>
  (\<^verbatim>\<open>src/internal/contract\<close>): the action catalog, whose lookup is the locale \<open>catalog_lookup\<close>.
  \<open>EventLog\<close> (\<^verbatim>\<open>src/internal/ledger\<close>): the append-only logs, locales \<open>event_log\<close> and \<open>windowed_log\<close>.
  \<open>Beat\<close> (\<^verbatim>\<open>src/internal/beat\<close>): the directory drain every beat's tick is built on. \<open>ConfigFile\<close>,
  \<open>Environment\<close>, \<open>Validate\<close> (\<^verbatim>\<open>src/internal/configfile\<close>, \<^verbatim>\<open>config\<close>, \<^verbatim>\<open>validate\<close>): loading and
  checking configuration, the first two as programs of the state monad over the faults found.

  \<^bold>\<open>Detection.\<close> \<open>Whir\<close> (\<^verbatim>\<open>src/internal/whir\<close>) derives the topology from traffic, \<open>Rattle\<close>
  (\<^verbatim>\<open>src/internal/rattle\<close>) the detectors, the debounce and the reconcile pass. Shown: a firing objective
  outside its hold is reported, detections are grounded and held apart, shares form a distribution.

  \<^bold>\<open>Reasoning.\<close> \<open>Causal\<close>, \<open>Grading\<close>, \<open>Engine\<close>, \<open>Propose\<close> (\<^verbatim>\<open>src/internal/clank\<close>) are the scoring, the
  gate, the reason loop and the whole call; the contract between the loop and the rest is the locale
  \<open>loop_invariant\<close>. \<open>ProposalLog\<close> (locale \<open>dedupe_ledger\<close>) and \<open>Click\<close> are the ledger and the case memory
  with their rebuild from the stream. \<open>Subjects\<close>, \<open>Evidence\<close> (\<^verbatim>\<open>src/internal/subjects\<close>, \<^verbatim>\<open>evidence\<close>) are the
  tools, \<open>Grounding\<close> the engine over them. Shown: whatever the model answers, what is delivered is gated, on
  catalogued actions and gathered evidence about authored subjects; the loop makes at most the
  configured number of turns; a redelivery never reaches the model; every run is recorded; confidence and
  likelihood stay within their ceilings; the rebuilt memory is the live one.

  \<^bold>\<open>Governance.\<close> \<open>Authority\<close> is the verdict, \<open>HissTransport\<close> the handler with its held sets (locale
  \<open>hold_store\<close>) and its reachable states over deliveries, approvals, failures and restarts,
  \<open>ApprovalRequest\<close> the resource a human edits (\<^verbatim>\<open>src/internal/hiss\<close>). Shown: exactly what is approved,
  that tightening a policy never approves more, that every approval on the stream is sound, that a hold is
  released at most once, and that a restart restores the holds.

  \<^bold>\<open>Action.\<close> \<open>ThumpOrder\<close>, \<open>Executor\<close> (locales \<open>action_runner\<close> and \<open>executor_contract\<close>), \<open>ThumpTransport\<close>
  (\<^verbatim>\<open>src/internal/thump\<close>), \<open>Actuate\<close> (\<^verbatim>\<open>src/internal/actuate\<close>), \<open>Converge\<close> (\<^verbatim>\<open>src/internal/converge\<close>) and
  \<open>Forge\<close> (\<^verbatim>\<open>src/internal/forge/github\<close>, behind the locale \<open>confined_forge\<close>). Shown: nothing runs without an
  auditable approval, the kill switch stops forward orders and never an undo, each settlement runs its undo
  exactly when it should, the probe fails closed, and a release reaches nothing but its own review branch.

  \<^bold>\<open>Transport and record.\<close> \<open>Broker\<close> (\<^verbatim>\<open>src/internal/broker\<close>, \<^verbatim>\<open>health\<close>, \<^verbatim>\<open>poll\<close>), \<open>Wal\<close>
  (\<^verbatim>\<open>src/internal/publish\<close>), \<open>Store\<close> (\<^verbatim>\<open>src/internal/clank/store.go\<close>, \<^verbatim>\<open>objectstore\<close>, \<^verbatim>\<open>sealbox\<close>) and
  \<open>Breaker\<close> (\<^verbatim>\<open>src/internal/otelx\<close>). Shown: every delivery is settled, a replay folds the whole history, the
  log refines an append-only sequence, shipping loses nothing, sealed records read back, probes of a
  broken collector are spaced.

  \<^bold>\<open>Operators and offline tools.\<close> \<open>Incident\<close> (\<^verbatim>\<open>src/internal/incident\<close>, \<^verbatim>\<open>calipers\<close>) is the read model and
  the approve and force commands, \<open>Corpus\<close> (\<^verbatim>\<open>src/internal/corpus\<close>, \<^verbatim>\<open>grade\<close>) the mined cases, \<open>Transcript\<close>
  (\<^verbatim>\<open>src/internal/transcript\<close>) the export of runs, \<open>Harvest\<close> and \<open>Scenario\<close> (\<^verbatim>\<open>src/internal/harvest\<close>) one
  calibration run and the loaded table of them, \<open>Scorecard\<close> (\<^verbatim>\<open>src/internal/scorecard\<close>) their grading. \<open>Replay\<close>
  (\<^verbatim>\<open>src/internal/replay\<close>) runs the engine of \<open>Propose\<close> on a recording, \<open>Suite\<close> (\<^verbatim>\<open>src/internal/rca/report.go\<close>,
  \<^verbatim>\<open>src/internal/probe\<close>) grades and summarises runs, \<open>Tune\<close> (\<^verbatim>\<open>src/internal/tune\<close>) sweeps the weights over
  replays; \<open>Text\<close> holds the string functions they share. Shown: the read model is the stream, a force acts on
  the latest hold, merging is idempotent, a recorded run exports as it was checkpointed, a harvest always
  restores the rig and reads its verdict from the incident it names, a scorecard counts every row, a replay
  reproduces the run it was recorded from, weights change nothing but scores, a summary accounts for every run,
  a recommended weight lies in a bracket, and only a row with a confidence floor can lead to one.

  \<^bold>\<open>This theory\<close> joins the four beats: what the engine delivered and the governor approved always reaches a
  bound action of the catalog.

  \<^bold>\<open>Bounds.\<close> The reason loop recurses on the configured number of steps, as the source counts them. The
  replay drain is a partial function of the option monad, and its theorem states that it returns. A broker
  message is followed through the six deliveries of the source's budget. Interleavings (broker events, the
  legs of a harvest, informer deliveries) are arbitrary lists of events; servers and shells are arbitrary
  functions of what was sent to them. Steps of an exported turn are below \<open>2 ^ 63\<close>, as Go's integers are.

  \<^bold>\<open>Not modelled.\<close> The \<^verbatim>\<open>main\<close> functions, flag parsing, TLS and telemetry set-up and the goroutines that
  start the loops (\<^verbatim>\<open>clank.go\<close>, \<^verbatim>\<open>thump.go\<close>, \<^verbatim>\<open>hiss.go\<close>, \<^verbatim>\<open>wiring.go\<close>) only construct the modelled parts
  from libraries; the default weights and turn budget of \<^verbatim>\<open>wiring.go\<close> are modelled. The
  provider adapters, the Kubernetes, NATS and S3 clients translate to third-party interfaces that are
  arguments here. Report rendering (\<^verbatim>\<open>incident/render.go\<close>, \<^verbatim>\<open>calipers/render.go\<close>, the
  printing of the offline tools) formats text outside the control loop. The rows of \<^verbatim>\<open>rca/table.go\<close> are authored
  data for a harness over fake backends and a live model; only the fields grading reads are modelled. The
  NATS watchers of a harvest are adapters whose deliveries are its events. Logging, metrics beyond
  the counters named above and mutexes are left out: each locked method is one step.
\<close>

subsection \<open>From the model's proposal to the actuator\<close>

lemma delivered_contract:
  assumes "deliverable e sig ps" "recommended ps = Some c"
  shows "\<exists>s ct. psSAOSnapshot ps = Some s \<and> byName (enCatalog e) (cndContractRef c) = Some ct \<and>
    cndContractRef c \<in> acName ` set (applicable (enCatalog e) (psFailureClass ps) (psServiceTier ps) s)"
proof -
  have "c \<in> set (psProposals ps)" using recommended_in_set [OF assms(2)] by simp
  then show ?thesis using assms(1) unfolding deliverable_def by fastforce
qed

lemma runner_binds: "newRunner k cat f = Inr r \<Longrightarrow> dom (rnBindings r) = acName ` set cat"
  using bind_from_Inr(1) by (fastforce simp: newRunner_def bind_catalog_def split: sum.splits)


text \<open>A scripted run whose set meets a freeze window and is released by a human.\<close>

definition scripted_delivery :: proposal_set where
  "scripted_delivery = hd (esPublished (snd (propose (scripted one_proposal True) (example_readings 5) example_detection fresh_engine)))"

definition released_run :: hiss_transport where
  "released_run = hiss_run [SetDelivered example_policy quiet_ports 150 scripted_delivery,
     ApprovalDelivered example_policy quiet_ports 160 160 example_approval] (buildTransport [] [])"

definition released_decision :: governed where
  "released_decision = \<lparr>govDecision = reissue example_policy example_approval 160 160 (evaluate scripted_delivery example_policy 150),
     govSet = scripted_delivery\<rparr>"

lemma scripted_delivery_facts:
  "\<exists>st'. propose (scripted one_proposal True) (example_readings 5) example_detection fresh_engine = (Inr (Some scripted_delivery), st')"
  "set_gate_passed scripted_delivery" "psProposals scripted_delivery \<noteq> []"
proof -
  let ?e = "scripted one_proposal True" and ?ps = "(scripted_set 5 one_proposal)\<lparr>psEvidence := [example_ref]\<rparr>"
  obtain g where g: "fst (propose ?e (example_readings 5) example_detection fresh_engine) = Inr (Some g)"
      "esPublished (snd (propose ?e (example_readings 5) example_detection fresh_engine)) = [g]" "set_gate_passed g"
      "g = apply_gate (grade ?e example_detection (scripted_sao 5) ?ps) []"
    using scripted_one [of True 5] by simp
  then have d: "scripted_delivery = g" by (simp add: scripted_delivery_def)
  show "\<exists>st'. propose ?e (example_readings 5) example_detection fresh_engine = (Inr (Some scripted_delivery), st')"
    using g(1) d by (metis prod.collapse)
  show "set_gate_passed scripted_delivery" using g(3) d by simp
  have "psProposals (grade ?e example_detection (scripted_sao 5) ?ps) \<noteq> []"
    by (simp add: grade_def Let_def scripted_set_def one_proposal_def candidates_def rank_def
        scoreConfidences_def enrichFromCatalog_def split: prod.split)
  then show "psProposals scripted_delivery \<noteq> []" unfolding d g(4) by simp
qed

lemma scripted_delivery_escalates:
  "decVerdict (evaluate scripted_delivery example_policy 150) = VerdictEscalate" "psSignalRef scripted_delivery = ''fp''"
proof -
  obtain st' where "propose (scripted one_proposal True) (example_readings 5) example_detection fresh_engine =
      (Inr (Some scripted_delivery), st')" using scripted_delivery_facts(1) by blast
  from propose_delivery [OF this] have d: "deliverable (scripted one_proposal True) example_detection scripted_delivery"
    using scripted_delivery_facts(2) by simp
  then show "psSignalRef scripted_delivery = ''fp''" by (simp add: deliverable_def example_detection_def)
  obtain c where c: "recommended scripted_delivery = Some c"
    using d scripted_delivery_facts(3) by (cases "psProposals scripted_delivery") (auto simp: deliverable_def recommended_def)
  have gate: "gate_passed scripted_delivery" using scripted_delivery_facts(2) by (simp add: gate_passed_def set_gate_passed_def)
  have "stage_one_reasons scripted_delivery example_policy c 150 \<noteq> []"
    by (simp add: stage_one_reasons_def freeze_reasons_def example_policy_def in_window_def)
  then show "decVerdict (evaluate scripted_delivery example_policy 150) = VerdictEscalate"
    using c gate by (cases rule: evaluate_cases [of scripted_delivery example_policy 150]) auto
qed

lemma released_run_published: "released_decision \<in> set (htPublished released_run)" "decision_auditable (govDecision released_decision) = None"
proof -
  have a: "apSignalRef example_approval = ''fp''" by (simp add: example_approval_def)
  have n: "decision_auditable (reissue example_policy example_approval 160 160
      (evaluate scripted_delivery example_policy 150)) = None"
    by (simp add: decision_auditable_None_iff zero_time_def) (simp add: example_policy_def)
  then show "decision_auditable (govDecision released_decision) = None" by (simp add: released_decision_def)
  show "released_decision \<in> set (htPublished released_run)"
    by (simp add: released_run_def released_decision_def hiss_run_def buildTransport_def hiss_handle_def quiet_ports_def
        record_and_publish_def approveHandler_def scripted_delivery_escalates a n Let_def holds_take_def holds_record_def)
qed


end
